(* ===== verification/Prelude.thy ===== *)
theory Prelude
  imports Main "HOL-Library.Word"
begin

unbundle bit_operations_syntax

text \<open>
  Shared vocabulary of the development: machine types of the Win32 target, faults
  (what C leaves undefined), a result type with its bind, byte memory with
  uninitialised cells, C strings, and little- and big-endian 32-bit encodings.

  The configuration modelled throughout is \<open>Release|Win32\<close> of \<open>build/msvc\<close>:
  \<open>int\<close>, \<open>unsigned long\<close> and pointers are 32 bits wide and \<open>NDEBUG\<close> is defined,
  so an \<open>assert\<close> is a no-op and the \<open>return\<close> behind it is reachable.
\<close>

named_theorems res_simps \<open>unfolding the result type\<close>
named_theorems mem_simps \<open>reading, writing and allocating memory\<close>
named_theorems codec_simps \<open>byte encodings and their inverses\<close>

section \<open>Machine types, faults and results\<close>

type_synonym byte = "8 word"
type_synonym u32 = "32 word"
type_synonym u64 = "64 word"

text \<open>What the source would do that C does not define.\<close>

datatype c_fault =
    OutOfBounds   \<comment> \<open>a read or write outside an object\<close>
  | UseUninit     \<comment> \<open>an indeterminate value is read\<close>
  | NullDeref     \<comment> \<open>a null pointer is dereferenced\<close>
  | UseAfterFree  \<comment> \<open>a freed object is accessed\<close>

type_synonym 'a res = "c_fault + 'a"

definition bindR :: "'a res \<Rightarrow> ('a \<Rightarrow> 'b res) \<Rightarrow> 'b res" where
  "bindR r f = (case r of Inl e \<Rightarrow> Inl e | Inr x \<Rightarrow> f x)"

lemma bindR_Inl [simp, res_simps]: "bindR (Inl e) f = Inl e"
  by (simp add: bindR_def)

lemma bindR_Inr [simp, res_simps]: "bindR (Inr x) f = f x"
  by (simp add: bindR_def)

lemma bindR_eq_Inr: "bindR r f = Inr y \<longleftrightarrow> (\<exists>x. r = Inr x \<and> f x = Inr y)"
  by (cases r) auto

text \<open>Integer division and remainder of C truncate towards zero.\<close>

definition c_div :: "int \<Rightarrow> int \<Rightarrow> int" where
  "c_div a b = sgn a * sgn b * (\<bar>a\<bar> div \<bar>b\<bar>)"

definition c_mod :: "int \<Rightarrow> int \<Rightarrow> int" where
  "c_mod a b = a - b * c_div a b"

lemma c_div_nonneg [simp]: "0 \<le> a \<Longrightarrow> 0 < b \<Longrightarrow> c_div a b = a div b"
  by (cases "a = 0") (simp_all add: c_div_def)

lemma c_mod_nonneg [simp]: "0 \<le> a \<Longrightarrow> 0 < b \<Longrightarrow> c_mod a b = a mod b"
  by (simp add: c_mod_def minus_mult_div_eq_mod)

section \<open>Byte memory\<close>

text \<open>A block of memory is a list of cells; \<open>None\<close> is a cell never written.\<close>

type_synonym mem = "byte option list"

definition mem_alloc :: "int \<Rightarrow> mem" where
  "mem_alloc n = replicate (nat n) None"

definition mem_write :: "mem \<Rightarrow> int \<Rightarrow> byte list \<Rightarrow> mem res" where
  "mem_write m off bs =
     (if off < 0 \<or> int (length m) < off + int (length bs) then Inl OutOfBounds
      else Inr (take (nat off) m @ map Some bs @ drop (nat off + length bs) m))"

definition mem_read :: "mem \<Rightarrow> int \<Rightarrow> int \<Rightarrow> byte list res" where
  "mem_read m off n =
     (if off < 0 \<or> n < 0 \<or> int (length m) < off + n then Inl OutOfBounds
      else let cs = take (nat n) (drop (nat off) m)
           in if None \<in> set cs then Inl UseUninit else Inr (map the cs))"

text \<open>\<open>strlen\<close>: the distance to the first NUL; without one it runs off the object.\<close>

fun mem_strlen :: "mem \<Rightarrow> int res" where
  "mem_strlen [] = Inl OutOfBounds"
| "mem_strlen (None # m) = Inl UseUninit"
| "mem_strlen (Some b # m) = (if b = 0 then Inr 0 else bindR (mem_strlen m) (\<lambda>n. Inr (n + 1)))"

text \<open>
  A read whose bytes may be indeterminate: \<open>junk\<close> gives the value of a cell never written.
\<close>

definition mem_peek :: "(nat \<Rightarrow> byte) \<Rightarrow> mem \<Rightarrow> int \<Rightarrow> int \<Rightarrow> byte list res" where
  "mem_peek junk m off n =
     (if off < 0 \<or> n < 0 \<or> int (length m) < off + n then Inl OutOfBounds
      else Inr (map (\<lambda>i. case m ! i of Some b \<Rightarrow> b | None \<Rightarrow> junk i) [nat off..<nat off + nat n]))"

text \<open>\<open>mem_has m k bs\<close>: the bytes \<open>bs\<close> are stored at offset \<open>k\<close>.\<close>

definition mem_has :: "mem \<Rightarrow> nat \<Rightarrow> byte list \<Rightarrow> bool" where
  "mem_has m k bs \<longleftrightarrow> k + length bs \<le> length m \<and> take (length bs) (drop k m) = map Some bs"

lemma length_mem_alloc [simp, mem_simps]: "length (mem_alloc n) = nat n"
  by (simp add: mem_alloc_def)

lemma mem_write_ok [mem_simps]:
  "k + length bs \<le> length m \<Longrightarrow>
   mem_write m (int k) bs = Inr (take k m @ map Some bs @ drop (k + length bs) m)"
  by (simp add: mem_write_def)

lemma length_mem_write: "mem_write m off bs = Inr m' \<Longrightarrow> length m' = length m"
  by (auto simp: mem_write_def split: if_splits)

lemma mem_write_oob: "int (length m) < off + int (length bs) \<Longrightarrow> mem_write m off bs = Inl OutOfBounds"
  by (simp add: mem_write_def)

lemma mem_read_has: "mem_has m k bs \<Longrightarrow> mem_read m (int k) (int (length bs)) = Inr bs"
  by (auto simp: mem_read_def mem_has_def Let_def)

lemma mem_has_Nil [simp]: "mem_has m k [] \<longleftrightarrow> k \<le> length m"
  by (simp add: mem_has_def)

lemma mem_has_write:
  "mem_write m (int k) bs = Inr m' \<Longrightarrow> mem_has m' k bs"
  by (auto simp: mem_write_def mem_has_def split: if_splits)

lemma mem_has_append:
  "mem_has m k (xs @ ys) \<longleftrightarrow> mem_has m k xs \<and> mem_has m (k + length xs) ys"
proof
  assume h: "mem_has m k (xs @ ys)"
  then have t: "take (length xs + length ys) (drop k m) = map Some xs @ map Some ys"
    by (simp add: mem_has_def)
  then have "take (length xs) (take (length xs + length ys) (drop k m)) = map Some xs"
    and "drop (length xs) (take (length xs + length ys) (drop k m)) = map Some ys"
    by simp_all
  then show "mem_has m k xs \<and> mem_has m (k + length xs) ys"
    using h by (simp add: mem_has_def drop_take add.commute)
next
  assume h: "mem_has m k xs \<and> mem_has m (k + length xs) ys"
  then have "take (length xs + length ys) (drop k m) = map Some xs @ map Some ys"
    by (simp add: mem_has_def take_add add.commute)
  with h show "mem_has m k (xs @ ys)"
    by (simp add: mem_has_def)
qed

lemma mem_has_write_before:
  assumes "mem_write m (int k) bs = Inr m'" and "mem_has m j xs" and "j + length xs \<le> k"
  shows "mem_has m' j xs"
proof -
  from assms(1) have m': "m' = take k m @ map Some bs @ drop (k + length bs) m"
    and len: "k + length bs \<le> length m"
    by (auto simp: mem_write_def split: if_splits)
  have "take (length xs) (drop j (take k m)) = take (length xs) (drop j m)"
    using assms(3) by (simp add: drop_take min_def)
  with assms(2,3) len show ?thesis by (simp add: mem_has_def m')
qed

lemma mem_has_write_after:
  assumes "mem_write m (int k) bs = Inr m'" and "mem_has m j xs" and "k + length bs \<le> j"
  shows "mem_has m' j xs"
proof -
  from assms(1) have m': "m' = take k m @ map Some bs @ drop (k + length bs) m"
    and len: "k + length bs \<le> length m"
    by (auto simp: mem_write_def split: if_splits)
  have "drop j m' = drop j m"
    using assms(3) len by (simp add: m' min_def)
  with assms(2) len show ?thesis by (simp add: mem_has_def m')
qed

lemma mem_read_part:
  "mem_has m k (xs @ ys) \<Longrightarrow> mem_read m (int k) (int (length xs)) = Inr xs"
  by (rule mem_read_has) (simp add: mem_has_append)

lemma mem_read_map_Some [simp]: "mem_read (map Some bs) 0 (int (length bs)) = Inr bs"
  by (auto simp: mem_read_def Let_def comp_def)

lemma mem_strlen_terminated: "0 \<notin> set xs \<Longrightarrow> mem_strlen (map Some xs @ Some 0 # m) = Inr (int (length xs))"
  by (induction xs) auto

section \<open>Byte order\<close>

lemma word_xor_cancel: "a XOR b XOR a = (b :: 'a :: len word)"
  by (metis xor.commute xor.assoc xor_self_eq xor.right_neutral)

definition le32_enc :: "u32 \<Rightarrow> byte list" where
  "le32_enc w = [ucast w, ucast (drop_bit 8 w), ucast (drop_bit 16 w), ucast (drop_bit 24 w)]"

fun le32_dec :: "byte list \<Rightarrow> u32" where
  "le32_dec [a, b, c, d] =
     ucast a OR push_bit 8 (ucast b) OR push_bit 16 (ucast c) OR push_bit 24 (ucast d)"
| "le32_dec _ = 0"

definition be32_enc :: "u32 \<Rightarrow> byte list" where
  "be32_enc w = rev (le32_enc w)"

definition be32_dec :: "byte list \<Rightarrow> u32" where
  "be32_dec bs = le32_dec (rev bs)"

lemma length_le32_enc [simp, codec_simps]: "length (le32_enc w) = 4"
  by (simp add: le32_enc_def)

lemma length_be32_enc [simp, codec_simps]: "length (be32_enc w) = 4"
  by (simp add: be32_enc_def)

lemma le32_dec_enc [simp, codec_simps]: "le32_dec (le32_enc w) = w"
proof (rule bit_word_eqI)
  fix n assume "n < LENGTH(32)"
  then consider "n < 8" | "8 \<le> n" "n < 16" | "16 \<le> n" "n < 24" | "24 \<le> n" "n < 32"
    by fastforce
  then show "bit (le32_dec (le32_enc w)) n = bit w n"
    by cases (auto simp: le32_enc_def bit_simps)
qed

lemma be32_dec_enc [simp, codec_simps]: "be32_dec (be32_enc w) = w"
  by (simp add: be32_enc_def be32_dec_def)

lemma byte_bit_ge [simp]: "8 \<le> n \<Longrightarrow> \<not> bit (b :: byte) n"
  using bit_imp_le_length [of b n] by auto

lemma le32_enc_dec4: "le32_enc (le32_dec [a, b, c, d]) = [a, b, c, d]"
  by (auto simp: le32_enc_def bit_simps intro!: bit_word_eqI)

lemma length4_conv: "length bs = 4 \<longleftrightarrow> (\<exists>a b c d. bs = [a, b, c, d])"
proof
  assume "length bs = 4"
  then show "\<exists>a b c d. bs = [a, b, c, d]"
    by (auto simp: numeral_eq_Suc length_Suc_conv)
qed auto

lemma le32_enc_dec [codec_simps]: "length bs = 4 \<Longrightarrow> le32_enc (le32_dec bs) = bs"
  by (auto simp: length4_conv le32_enc_dec4 simp del: le32_dec.simps)

lemma be32_enc_dec [codec_simps]: "length bs = 4 \<Longrightarrow> be32_enc (be32_dec bs) = bs"
  by (simp add: be32_enc_def be32_dec_def le32_enc_dec)

text \<open>An \<open>int\<close> stored to and loaded from memory through a \<open>rpc_size_t *\<close>.\<close>

definition int32_enc :: "int \<Rightarrow> byte list" where
  "int32_enc i = le32_enc (word_of_int i)"

definition int32_dec :: "byte list \<Rightarrow> int" where
  "int32_dec bs = sint (le32_dec bs)"

lemma length_int32_enc [simp, codec_simps]: "length (int32_enc i) = 4"
  by (simp add: int32_enc_def)

lemma int32_dec_enc [codec_simps]: "- (2 ^ 31) \<le> i \<Longrightarrow> i < 2 ^ 31 \<Longrightarrow> int32_dec (int32_enc i) = i"
  by (simp add: int32_dec_def int32_enc_def sint_sbintrunc' signed_take_bit_int_eq_self)

lemma int32_dec_enc_nat [codec_simps]: "n < 2 ^ 31 \<Longrightarrow> int32_dec (int32_enc (int n)) = int n"
  by (rule int32_dec_enc) simp_all

section \<open>Text\<close>

text \<open>C strings as HOL strings and as bytes.\<close>

definition bytes_of :: "string \<Rightarrow> byte list" where
  "bytes_of s = map of_char s"

definition string_of :: "byte list \<Rightarrow> string" where
  "string_of bs = map (\<lambda>b. char_of (unat b)) bs"

lemma string_of_bytes [simp, codec_simps]: "string_of (bytes_of s) = s"
proof -
  have "char_of (unat (of_char c :: byte)) = c" for c :: char
  proof -
    have "unat (of_char c :: byte) = (of_char c :: nat)"
      using of_nat_of_char [where 'a = byte, of c, symmetric] nat_of_char_less_256 [of c]
      by (simp add: unsigned_of_nat take_bit_nat_eq_self)
    then show ?thesis by simp
  qed
  then show ?thesis by (simp add: string_of_def bytes_of_def comp_def)
qed

end
