(* ===== verification/Rpc_Threadpool.thy ===== *)
theory Rpc_Threadpool
  imports Prelude "HOL-Library.Multiset"
begin

text \<open>
  The worker pool, \<open>rpcprovider/rpc_threadpool.c\<close>. A worker (a unit of work) is known by
  its address. A pool thread is a program counter: at the head of its loop, holding a
  worker it has taken from the queue, past \<open>sem_post\<close>, or exited. Each critical section
  of the code is one step; a registration is two, because the abort flag is tested before
  the mutex is taken. The process callback is the parameter \<open>process\<close>; the
  complete callback is the one the program registers, \<open>rpc_io_processor_complete\<close>,
  which frees the worker. The assignment of \<open>tp_state_busy\<close> before the callback is left out: only
  the test in the file reads the state of a worker before it is complete.
\<close>

section \<open>State and operations\<close>

datatype rpc_tp_state = tp_state_idle | tp_state_busy | tp_state_complete | tp_state_invalid

record ('o, 'r) tp_worker =
  w_opaque :: 'o
  w_result :: "'r option"    \<comment> \<open>\<open>None\<close> is NULL\<close>
  w_sem :: nat
  w_state :: rpc_tp_state

datatype tp_pc = AtLoop | Holding nat | Posted nat | Exited

record ('o, 'r) rpc_tp =
  tp_queue :: "nat list"
  tp_threads :: "tp_pc list"
  tp_abort :: bool
  tp_heap :: "nat \<rightharpoonup> ('o, 'r) tp_worker"

definition rpc_tp_create :: "int \<Rightarrow> ('o, 'r) rpc_tp" where
  "rpc_tp_create nthreads =
     \<lparr>tp_queue = [], tp_threads = replicate (nat nthreads) AtLoop, tp_abort = False, tp_heap = Map.empty\<rparr>"

text \<open>The test at the head of \<open>rpc_tp_worker_register\<close>; it fails with NULL.\<close>

definition tp_register_allowed :: "('o, 'r) rpc_tp option \<Rightarrow> bool \<Rightarrow> bool \<Rightarrow> bool" where
  "tp_register_allowed pool has_process has_complete =
     (case pool of None \<Rightarrow> False | Some p \<Rightarrow> \<not> tp_abort p \<and> has_process \<and> has_complete)"

definition tp_register_insert :: "nat \<Rightarrow> 'o \<Rightarrow> ('o, 'r) rpc_tp \<Rightarrow> ('o, 'r) rpc_tp" where
  "tp_register_insert w opaque p =
     p\<lparr>tp_heap := (tp_heap p)(w \<mapsto> \<lparr>w_opaque = opaque, w_result = None, w_sem = 0, w_state = tp_state_idle\<rparr>),
       tp_queue := tp_queue p @ [w]\<rparr>"

definition rpc_tp_worker_touch :: "('o, 'r) tp_worker option \<Rightarrow> rpc_tp_state" where
  "rpc_tp_worker_touch w = (case w of None \<Rightarrow> tp_state_invalid | Some w \<Rightarrow> w_state w)"

text \<open>\<open>rpc_tp_worker_wait\<close>: \<open>None\<close> while \<open>sem_wait\<close> blocks.\<close>

definition rpc_tp_worker_wait :: "('o, 'r) tp_worker \<Rightarrow> (('o, 'r) tp_worker \<times> 'r option) option" where
  "rpc_tp_worker_wait w = (if w_sem w = 0 then None else Some (w\<lparr>w_sem := w_sem w - 1\<rparr>, w_result w))"

definition rpc_tp_worker_free :: "nat \<Rightarrow> ('o, 'r) rpc_tp \<Rightarrow> ('o, 'r) rpc_tp" where
  "rpc_tp_worker_free w p = p\<lparr>tp_heap := (tp_heap p)(w := None)\<rparr>"

text \<open>
  One step of thread \<open>i\<close> in \<open>rpc_tp_routine\<close>; \<open>None\<close> when it waits on the condition, has
  exited, or does not exist.
\<close>

definition tp_run :: "('o \<Rightarrow> 'r) \<Rightarrow> ('o, 'r) tp_worker \<Rightarrow> ('o, 'r) tp_worker" where
  "tp_run process w = w\<lparr>w_result := Some (process (w_opaque w)), w_state := tp_state_complete, w_sem := w_sem w + 1\<rparr>"

definition rpc_tp_routine :: "('o \<Rightarrow> 'r) \<Rightarrow> nat \<Rightarrow> ('o, 'r) rpc_tp \<Rightarrow> ('o, 'r) rpc_tp option" where
  "rpc_tp_routine process i p =
     (if i < length (tp_threads p) then
        (case tp_threads p ! i of
           AtLoop \<Rightarrow>
             (case tp_queue p of
                [] \<Rightarrow> if tp_abort p then Some (p\<lparr>tp_threads := (tp_threads p)[i := Exited]\<rparr>) else None
              | w # q \<Rightarrow> Some (p\<lparr>tp_queue := q, tp_threads := (tp_threads p)[i := Holding w]\<rparr>))
         | Holding w \<Rightarrow>
             Some (p\<lparr>tp_heap := (tp_heap p)(w := map_option (tp_run process) (tp_heap p w)),
                     tp_threads := (tp_threads p)[i := Posted w]\<rparr>)
         | Posted w \<Rightarrow> Some (rpc_tp_worker_free w (p\<lparr>tp_threads := (tp_threads p)[i := AtLoop]\<rparr>))
         | Exited \<Rightarrow> None)
      else None)"

text \<open>
  \<open>rpc_tp_destroy\<close>: a waiting kill is held up until the queue is seen empty; then the flag
  is set; once every thread has exited, what is left in the queue is freed unprocessed.
\<close>

datatype rpc_tp_kill = tp_kill_immediate | tp_kill_wait

definition tp_destroy_begin :: "rpc_tp_kill \<Rightarrow> ('o, 'r) rpc_tp \<Rightarrow> ('o, 'r) rpc_tp option" where
  "tp_destroy_begin kill p =
     (if tp_abort p then None
      else if kill = tp_kill_wait \<and> tp_queue p \<noteq> [] then None
      else Some (p\<lparr>tp_abort := True\<rparr>))"

definition tp_joined :: "('o, 'r) rpc_tp \<Rightarrow> bool" where
  "tp_joined p \<longleftrightarrow> (\<forall>pc\<in>set (tp_threads p). pc = Exited)"

definition tp_destroy_end :: "('o, 'r) rpc_tp \<Rightarrow> ('o, 'r) rpc_tp" where
  "tp_destroy_end p = fold rpc_tp_worker_free (tp_queue p) (p\<lparr>tp_queue := []\<rparr>)"

section \<open>Interleavings\<close>

text \<open>
  The pool with the registrations that have passed the abort test, and the history: what
  was inserted, taken from the queue and completed, and what was inserted after the abort.
\<close>

record ('o, 'r) tp_sys =
  ts_pool :: "('o, 'r) rpc_tp"
  ts_registering :: "nat list"
  ts_inserted :: "nat list"
  ts_taken :: "nat list"
  ts_completed :: "nat list"
  ts_late :: "nat list"
  ts_opaque :: "nat \<Rightarrow> 'o"

definition tp_sys_new :: "int \<Rightarrow> (nat \<Rightarrow> 'o) \<Rightarrow> ('o, 'r) tp_sys" where
  "tp_sys_new nthreads opaque =
     \<lparr>ts_pool = rpc_tp_create nthreads, ts_registering = [], ts_inserted = [], ts_taken = [], ts_completed = [],
      ts_late = [], ts_opaque = opaque\<rparr>"

definition pc_worker :: "tp_pc \<Rightarrow> nat list" where
  "pc_worker pc = (case pc of Holding w \<Rightarrow> [w] | Posted w \<Rightarrow> [w] | _ \<Rightarrow> [])"

definition held :: "tp_pc list \<Rightarrow> nat multiset" where
  "held pcs = mset (concat (map pc_worker pcs))"

inductive tp_step :: "('o \<Rightarrow> 'r) \<Rightarrow> ('o, 'r) tp_sys \<Rightarrow> ('o, 'r) tp_sys \<Rightarrow> bool" for process where
  tp_check: "tp_register_allowed (Some (ts_pool s)) True True \<Longrightarrow> w \<notin> set (ts_inserted s @ ts_registering s) \<Longrightarrow>
    tp_step process s (s\<lparr>ts_registering := w # ts_registering s\<rparr>)"
| tp_insert: "w \<in> set (ts_registering s) \<Longrightarrow>
    tp_step process s (s\<lparr>ts_pool := tp_register_insert w (ts_opaque s w) (ts_pool s),
      ts_registering := remove1 w (ts_registering s), ts_inserted := ts_inserted s @ [w],
      ts_late := (if tp_abort (ts_pool s) then w # ts_late s else ts_late s)\<rparr>)"
| tp_take: "rpc_tp_routine process i (ts_pool s) = Some p \<Longrightarrow> tp_threads (ts_pool s) ! i = AtLoop \<Longrightarrow>
    tp_queue (ts_pool s) = w # q \<Longrightarrow> tp_step process s (s\<lparr>ts_pool := p, ts_taken := ts_taken s @ [w]\<rparr>)"
| tp_exit: "rpc_tp_routine process i (ts_pool s) = Some p \<Longrightarrow> tp_threads (ts_pool s) ! i = AtLoop \<Longrightarrow>
    tp_queue (ts_pool s) = [] \<Longrightarrow> tp_step process s (s\<lparr>ts_pool := p\<rparr>)"
| tp_process: "rpc_tp_routine process i (ts_pool s) = Some p \<Longrightarrow> tp_threads (ts_pool s) ! i = Holding w \<Longrightarrow>
    tp_step process s (s\<lparr>ts_pool := p\<rparr>)"
| tp_complete: "rpc_tp_routine process i (ts_pool s) = Some p \<Longrightarrow> tp_threads (ts_pool s) ! i = Posted w \<Longrightarrow>
    tp_step process s (s\<lparr>ts_pool := p, ts_completed := ts_completed s @ [w]\<rparr>)"
| tp_abort_step: "tp_destroy_begin kill (ts_pool s) = Some p \<Longrightarrow> tp_step process s (s\<lparr>ts_pool := p\<rparr>)"

inductive_cases tp_stepE: "tp_step process s s'"

section \<open>Invariants\<close>

lemma held_update:
  assumes "i < length pcs"
  shows "held (pcs[i := pc]) + mset (pc_worker (pcs ! i)) = held pcs + mset (pc_worker pc)"
proof -
  have split: "pcs = take i pcs @ pcs ! i # drop (Suc i) pcs" using assms by (rule id_take_nth_drop)
  have "held (pcs[i := pc]) = held (take i pcs) + mset (pc_worker pc) + held (drop (Suc i) pcs)"
    using assms by (simp add: held_def upd_conv_take_nth_drop)
  moreover have "held pcs = held (take i pcs) + mset (pc_worker (pcs ! i)) + held (drop (Suc i) pcs)"
    by (subst split) (simp add: held_def)
  ultimately show ?thesis by simp
qed

definition tp_inv :: "('o, 'r) tp_sys \<Rightarrow> bool" where
  "tp_inv s \<longleftrightarrow>
     ts_inserted s = ts_taken s @ tp_queue (ts_pool s) \<and>
     distinct (ts_inserted s) \<and> distinct (ts_registering s) \<and> set (ts_inserted s) \<inter> set (ts_registering s) = {} \<and>
     mset (ts_taken s) = held (tp_threads (ts_pool s)) + mset (ts_completed s) \<and>
     (Exited \<in> set (tp_threads (ts_pool s)) \<longrightarrow> tp_abort (ts_pool s) \<and> set (tp_queue (ts_pool s)) \<subseteq> set (ts_late s))"

lemma routine_thread: "rpc_tp_routine process i p = Some p' \<Longrightarrow> i < length (tp_threads p)"
  by (simp add: rpc_tp_routine_def split: if_splits)

lemma exited_update: "pc \<noteq> Exited \<Longrightarrow> Exited \<in> set (pcs[i := pc]) \<Longrightarrow> Exited \<in> set pcs"
  using set_update_subset_insert [of pcs i pc] by auto

lemma rpc_tp_worker_free_simps [simp]:
  "tp_queue (rpc_tp_worker_free w p) = tp_queue p" "tp_threads (rpc_tp_worker_free w p) = tp_threads p"
  "tp_abort (rpc_tp_worker_free w p) = tp_abort p" "tp_heap (rpc_tp_worker_free w p) = (tp_heap p)(w := None)"
  by (simp_all add: rpc_tp_worker_free_def)

lemma tp_inv_step:
  assumes "tp_step process s s'" and "tp_inv s"
  shows "tp_inv s'"
  using assms(1)
proof (cases rule: tp_step.cases)
  case (tp_check w)
  then show ?thesis using assms(2) by (auto simp: tp_inv_def)
next
  case (tp_insert w)
  then show ?thesis
    using assms(2) by (auto simp: tp_inv_def tp_register_insert_def set_remove1_eq)
next
  case (tp_take i p w q)
  note i = routine_thread [OF tp_take(2)]
  have p: "p = (ts_pool s)\<lparr>tp_queue := q, tp_threads := (tp_threads (ts_pool s))[i := Holding w]\<rparr>"
    using tp_take i by (simp add: rpc_tp_routine_def)
  have "held ((tp_threads (ts_pool s))[i := Holding w]) = held (tp_threads (ts_pool s)) + {#w#}"
    using held_update [OF i, of "Holding w"] tp_take(3) by (simp add: pc_worker_def)
  then show ?thesis
    using assms(2) tp_take p by (auto simp: tp_inv_def dest: exited_update [rotated])
next
  case (tp_exit i p)
  note i = routine_thread [OF tp_exit(2)]
  have p: "p = (ts_pool s)\<lparr>tp_threads := (tp_threads (ts_pool s))[i := Exited]\<rparr>" "tp_abort (ts_pool s)"
    using tp_exit i by (auto simp: rpc_tp_routine_def split: if_splits)
  have "held ((tp_threads (ts_pool s))[i := Exited]) = held (tp_threads (ts_pool s))"
    using held_update [OF i, of Exited] tp_exit(3) by (simp add: pc_worker_def)
  then show ?thesis
    using assms(2) tp_exit p by (auto simp: tp_inv_def)
next
  case (tp_process i p w)
  note i = routine_thread [OF tp_process(2)]
  have p: "p = (ts_pool s)\<lparr>tp_heap := (tp_heap (ts_pool s))(w := map_option (tp_run process) (tp_heap (ts_pool s) w)),
                     tp_threads := (tp_threads (ts_pool s))[i := Posted w]\<rparr>"
    using tp_process i by (simp add: rpc_tp_routine_def)
  have "held ((tp_threads (ts_pool s))[i := Posted w]) = held (tp_threads (ts_pool s))"
    using held_update [OF i, of "Posted w"] tp_process(3) by (simp add: pc_worker_def)
  then show ?thesis
    using assms(2) tp_process p by (auto simp: tp_inv_def dest: exited_update [rotated])
next
  case (tp_complete i p w)
  note i = routine_thread [OF tp_complete(2)]
  have p: "p = rpc_tp_worker_free w ((ts_pool s)\<lparr>tp_threads := (tp_threads (ts_pool s))[i := AtLoop]\<rparr>)"
    using tp_complete i by (simp add: rpc_tp_routine_def)
  have "held ((tp_threads (ts_pool s))[i := AtLoop]) + {#w#} = held (tp_threads (ts_pool s))"
    using held_update [OF i, of AtLoop] tp_complete(3) by (simp add: pc_worker_def)
  then show ?thesis
    using assms(2) tp_complete p by (auto simp: tp_inv_def dest: exited_update [rotated])
next
  case (tp_abort_step kill p)
  then show ?thesis
    using assms(2) by (auto simp: tp_inv_def tp_destroy_begin_def split: if_splits)
qed

lemma tp_inv_new: "tp_inv (tp_sys_new n opaque)"
  by (simp add: tp_inv_def tp_sys_new_def rpc_tp_create_def held_def pc_worker_def)

lemma tp_inv_run: "(tp_step process)\<^sup>*\<^sup>* (tp_sys_new n opaque) s \<Longrightarrow> tp_inv s"
  by (induction rule: rtranclp_induct) (auto intro: tp_inv_new tp_inv_step)

lemma tp_threads_run:
  "(tp_step process)\<^sup>*\<^sup>* (tp_sys_new n opaque) s \<Longrightarrow> length (tp_threads (ts_pool s)) = nat n \<and> ts_opaque s = opaque"
proof (induction rule: rtranclp_induct)
  case base
  show ?case by (simp add: tp_sys_new_def rpc_tp_create_def)
next
  case (step s s')
  have "length (tp_threads p) = length (tp_threads (ts_pool s))" if "rpc_tp_routine process i (ts_pool s) = Some p" for i p
    using that by (auto simp: rpc_tp_routine_def split: if_splits tp_pc.splits list.splits)
  then show ?case
    using step by (auto elim!: tp_stepE simp: tp_register_insert_def tp_destroy_begin_def split: if_splits)
qed

text \<open>What the heap holds for a registered worker.\<close>

definition tp_heap_inv :: "('o \<Rightarrow> 'r) \<Rightarrow> ('o, 'r) tp_sys \<Rightarrow> bool" where
  "tp_heap_inv process s \<longleftrightarrow> (\<forall>w wk. tp_heap (ts_pool s) w = Some wk \<longrightarrow> w_opaque wk = ts_opaque s w \<and>
     (0 < w_sem wk \<longrightarrow> w_state wk = tp_state_complete \<and> w_result wk = Some (process (ts_opaque s w))))"

lemma tp_heap_inv_step:
  assumes "tp_step process s s'" and "tp_heap_inv process s"
  shows "tp_heap_inv process s'"
proof -
  have "tp_heap_inv process (s\<lparr>ts_pool := p\<rparr>)" if r: "rpc_tp_routine process i (ts_pool s) = Some p" for i p
    using r assms(2)
    by (auto simp: rpc_tp_routine_def tp_heap_inv_def tp_run_def split: if_splits tp_pc.splits list.splits)
  moreover have "tp_heap_inv process (s\<lparr>ts_pool := p, ts_taken := x\<rparr>) = tp_heap_inv process (s\<lparr>ts_pool := p\<rparr>)"
    "tp_heap_inv process (s\<lparr>ts_pool := p, ts_completed := x\<rparr>) = tp_heap_inv process (s\<lparr>ts_pool := p\<rparr>)" for p x
    by (simp_all add: tp_heap_inv_def)
  ultimately show ?thesis
    using assms by (auto elim!: tp_stepE simp: tp_heap_inv_def tp_register_insert_def tp_destroy_begin_def split: if_splits)
qed

lemma tp_heap_inv_run: "(tp_step process)\<^sup>*\<^sup>* (tp_sys_new n opaque) s \<Longrightarrow> tp_heap_inv process s"
  by (induction rule: rtranclp_induct)
    (auto intro: tp_heap_inv_step, simp add: tp_heap_inv_def tp_sys_new_def rpc_tp_create_def)

lemma distinct_part: "distinct xs \<Longrightarrow> mset xs = A + mset ys \<Longrightarrow> distinct ys"
  by (metis distinct_append ex_mset mset_append mset_eq_imp_distinct_iff)

section \<open>Properties\<close>

text \<open>
  C10. In every reachable state of the pool, whatever the interleaving of registrations,
  threads and shutdown: workers are taken in the order of their registration, and each
  taken worker is held by exactly one thread or has been completed exactly once.
\<close>

theorem tp_exactly_once:
  assumes "(tp_step process)\<^sup>*\<^sup>* (tp_sys_new n opaque) s"
  shows "ts_inserted s = ts_taken s @ tp_queue (ts_pool s) \<and> distinct (ts_inserted s) \<and>
         mset (ts_taken s) = held (tp_threads (ts_pool s)) + mset (ts_completed s) \<and> distinct (ts_completed s)"
proof -
  have inv: "tp_inv s" by (rule tp_inv_run [OF assms])
  then have "distinct (ts_taken s)" and m: "mset (ts_taken s) = held (tp_threads (ts_pool s)) + mset (ts_completed s)"
    by (auto simp: tp_inv_def)
  moreover have "distinct (ts_completed s)" using distinct_part calculation by blast
  ultimately show ?thesis using inv by (auto simp: tp_inv_def)
qed

lemma tp_run_step: "(tp_step process)\<^sup>*\<^sup>* s a \<Longrightarrow> tp_step process a b \<Longrightarrow> (tp_step process)\<^sup>*\<^sup>* s b"
  by (rule rtranclp.rtrancl_into_rtrancl)

lemma tp_run_refl: "(tp_step process)\<^sup>*\<^sup>* s s"
  by (rule rtranclp.rtrancl_refl)

definition demo_tp :: "(nat, nat) tp_sys" where
  "demo_tp = \<lparr>ts_pool = \<lparr>tp_queue = [], tp_threads = [Exited], tp_abort = True, tp_heap = Map.empty\<rparr>,
     ts_registering = [], ts_inserted = [4], ts_taken = [4], ts_completed = [4], ts_late = [], ts_opaque = id\<rparr>"

text \<open>A run of one thread: worker 4 is registered, the immediate kill comes before it is taken.\<close>

lemma demo_tp_run: "(tp_step Suc)\<^sup>*\<^sup>* (tp_sys_new 1 id) demo_tp"
proof -
  let ?s0 = "tp_sys_new 1 id :: (nat, nat) tp_sys"
  let ?s1 = "?s0\<lparr>ts_registering := 4 # ts_registering ?s0\<rparr>"
  let ?s2 = "?s1\<lparr>ts_pool := tp_register_insert 4 (ts_opaque ?s1 4) (ts_pool ?s1), ts_registering := remove1 4 (ts_registering ?s1),
      ts_inserted := ts_inserted ?s1 @ [4], ts_late := (if tp_abort (ts_pool ?s1) then 4 # ts_late ?s1 else ts_late ?s1)\<rparr>"
  let ?s3 = "?s2\<lparr>ts_pool := (ts_pool ?s2)\<lparr>tp_abort := True\<rparr>\<rparr>"
  let ?s4 = "?s3\<lparr>ts_pool := (ts_pool ?s3)\<lparr>tp_queue := [], tp_threads := [Holding 4]\<rparr>, ts_taken := ts_taken ?s3 @ [4]\<rparr>"
  let ?s5 = "?s4\<lparr>ts_pool := (ts_pool ?s4)\<lparr>tp_heap := (tp_heap (ts_pool ?s4))(4 := map_option (tp_run Suc) (tp_heap (ts_pool ?s4) 4)),
      tp_threads := [Posted 4]\<rparr>\<rparr>"
  let ?s6 = "?s5\<lparr>ts_pool := rpc_tp_worker_free 4 ((ts_pool ?s5)\<lparr>tp_threads := [AtLoop]\<rparr>), ts_completed := ts_completed ?s5 @ [4]\<rparr>"
  let ?s7 = "?s6\<lparr>ts_pool := (ts_pool ?s6)\<lparr>tp_threads := [Exited]\<rparr>\<rparr>"
  note defs = tp_sys_new_def rpc_tp_create_def tp_register_insert_def rpc_tp_routine_def
  have t0: "tp_step Suc ?s0 ?s1" by (rule tp_check) (simp_all add: defs tp_register_allowed_def)
  have t1: "tp_step Suc ?s1 ?s2" by (rule tp_insert) simp
  have t2: "tp_step Suc ?s2 ?s3"
    by (rule tp_abort_step [where kill = tp_kill_immediate]) (simp add: defs tp_destroy_begin_def)
  have t3: "tp_step Suc ?s3 ?s4" by (rule tp_take [where i = 0 and q = "[]"]) (simp_all add: defs)
  have t4: "tp_step Suc ?s4 ?s5" by (rule tp_process [where i = 0 and w = 4]) (simp_all add: defs)
  have t5: "tp_step Suc ?s5 ?s6" by (rule tp_complete [where i = 0]) (simp_all add: defs)
  have t6: "tp_step Suc ?s6 ?s7" by (rule tp_exit [where i = 0]) (simp_all add: defs)
  have e: "?s7 = demo_tp" by (simp add: defs demo_tp_def rpc_tp_worker_free_def fun_eq_iff)
  have r2: "(tp_step Suc)\<^sup>*\<^sup>* ?s0 ?s2" by (rule tp_run_step [OF tp_run_step [OF tp_run_refl t0] t1])
  have r4: "(tp_step Suc)\<^sup>*\<^sup>* ?s0 ?s4" by (rule tp_run_step [OF tp_run_step [OF r2 t2] t3])
  have r6: "(tp_step Suc)\<^sup>*\<^sup>* ?s0 ?s6" by (rule tp_run_step [OF tp_run_step [OF r4 t4] t5])
  show ?thesis using tp_run_step [OF r6 t6] unfolding e .
qed

theorem tp_exactly_once_witness: "ts_taken demo_tp = [4] \<and> distinct (ts_completed demo_tp)"
  using tp_exactly_once [OF demo_tp_run] by (simp add: demo_tp_def)

text \<open>
  C11. Shutting the pool down loses no work, with either kind of kill: once every thread has
  exited, all registered workers have been completed, except those whose registration
  passed the abort test before the shutdown and reached the queue after it.
\<close>

theorem tp_shutdown_drains:
  assumes "(tp_step process)\<^sup>*\<^sup>* (tp_sys_new n opaque) s" and "0 < n" and "tp_joined (ts_pool s)"
  shows "set (tp_queue (ts_pool s)) \<subseteq> set (ts_late s) \<and>
         (ts_late s = [] \<longrightarrow> mset (ts_completed s) = mset (ts_inserted s))"
proof -
  have inv: "tp_inv s" by (rule tp_inv_run [OF assms(1)])
  have len: "length (tp_threads (ts_pool s)) = nat n" using tp_threads_run [OF assms(1)] by simp
  then have "tp_threads (ts_pool s) = replicate (nat n) Exited"
    using assms(3) by (intro replicate_eqI) (auto simp: tp_joined_def)
  then have "Exited \<in> set (tp_threads (ts_pool s))" and "held (tp_threads (ts_pool s)) = {#}"
    using assms(2) by (simp_all add: held_def pc_worker_def)
  then show ?thesis using inv by (auto simp: tp_inv_def)
qed

theorem tp_shutdown_drains_witness:
  "tp_joined (ts_pool demo_tp) \<and> mset (ts_completed demo_tp) = mset (ts_inserted demo_tp)"
  using tp_shutdown_drains [OF demo_tp_run] by (simp add: demo_tp_def tp_joined_def)

text \<open>
  Waiting for a worker never returns early or with anything but its result: when the
  wait returns, the result is that of the process callback on the registered argument.
\<close>

theorem tp_wait_result:
  assumes "(tp_step process)\<^sup>*\<^sup>* (tp_sys_new n opaque) s" and "tp_heap (ts_pool s) w = Some wk"
    and "rpc_tp_worker_wait wk = Some (wk', result)"
  shows "result = Some (process (opaque w)) \<and> rpc_tp_worker_touch (Some wk) = tp_state_complete"
  using tp_heap_inv_run [OF assms(1)] tp_threads_run [OF assms(1)] assms(2,3)
  by (auto simp: tp_heap_inv_def rpc_tp_worker_wait_def rpc_tp_worker_touch_def split: if_splits)

theorem tp_wait_result_witness:
  "\<exists>s wk wk'. (tp_step Suc)\<^sup>*\<^sup>* (tp_sys_new 1 id) s \<and> tp_heap (ts_pool s) 4 = Some wk \<and>
     rpc_tp_worker_wait wk = Some (wk', Some 5) \<and> rpc_tp_worker_touch (Some wk) = tp_state_complete"
proof -
  let ?s0 = "tp_sys_new 1 id :: (nat, nat) tp_sys"
  let ?s1 = "?s0\<lparr>ts_registering := 4 # ts_registering ?s0\<rparr>"
  let ?s2 = "?s1\<lparr>ts_pool := tp_register_insert 4 (ts_opaque ?s1 4) (ts_pool ?s1), ts_registering := remove1 4 (ts_registering ?s1),
      ts_inserted := ts_inserted ?s1 @ [4], ts_late := (if tp_abort (ts_pool ?s1) then 4 # ts_late ?s1 else ts_late ?s1)\<rparr>"
  let ?s3 = "?s2\<lparr>ts_pool := (ts_pool ?s2)\<lparr>tp_queue := [], tp_threads := [Holding 4]\<rparr>, ts_taken := ts_taken ?s2 @ [4]\<rparr>"
  let ?s4 = "?s3\<lparr>ts_pool := (ts_pool ?s3)\<lparr>tp_heap := (tp_heap (ts_pool ?s3))(4 := map_option (tp_run Suc) (tp_heap (ts_pool ?s3) 4)),
      tp_threads := [Posted 4]\<rparr>\<rparr>"
  let ?wk = "\<lparr>w_opaque = 4, w_result = Some 5, w_sem = 1, w_state = tp_state_complete\<rparr>"
  note defs = tp_sys_new_def rpc_tp_create_def tp_register_insert_def rpc_tp_routine_def
  have t0: "tp_step Suc ?s0 ?s1" by (rule tp_check) (simp_all add: defs tp_register_allowed_def)
  have t1: "tp_step Suc ?s1 ?s2" by (rule tp_insert) simp
  have t2: "tp_step Suc ?s2 ?s3" by (rule tp_take [where i = 0 and q = "[]"]) (simp_all add: defs)
  have t3: "tp_step Suc ?s3 ?s4" by (rule tp_process [where i = 0 and w = 4]) (simp_all add: defs)
  have r: "(tp_step Suc)\<^sup>*\<^sup>* ?s0 ?s4"
    by (rule tp_run_step [OF tp_run_step
          [OF tp_run_step [OF tp_run_step [OF tp_run_refl t0] t1] t2] t3])
  have h: "tp_heap (ts_pool ?s4) 4 = Some ?wk" by (simp add: defs tp_run_def)
  have w: "rpc_tp_worker_wait ?wk = Some (?wk\<lparr>w_sem := 0\<rparr>, Some 5)" by (simp add: rpc_tp_worker_wait_def)
  show ?thesis
    using tp_wait_result [OF r h w] r h w by blast
qed

end
