(* ===== verification/Tea.thy ===== *)
theory Tea
  imports Prelude
begin

text \<open>
  The TEA cipher of \<open>utils/tea.c\<close>: the 16-round block cipher on 64-bit blocks
  (\<open>qq_encipher\<close>, \<open>qq_decipher\<close>), the padded chaining mode over byte strings
  (\<open>qq_encrypt\<close>, \<open>qq_decrypt\<close>) and the public entry point \<open>crypt\<close>.
  The contract of a block cipher is the locale \<open>block_cipher\<close>; the chaining lemmas are
  proved in it once and used through its interpretation on the TEA rounds.
\<close>

section \<open>The block cipher\<close>

type_synonym tea_key = "u32 \<times> u32 \<times> u32 \<times> u32"

definition tea_delta :: u32 where
  "tea_delta = 0x9E3779B9"

text \<open>The Feistel term \<open>((z << 4) + a) ^ (z + sum) ^ ((z >> 5) + b)\<close>.\<close>

definition tea_mix :: "u32 \<Rightarrow> u32 \<Rightarrow> u32 \<Rightarrow> u32 \<Rightarrow> u32" where
  "tea_mix z a sm b = (push_bit 4 z + a) XOR (z + sm) XOR (drop_bit 5 z + b)"

fun encipher_loop :: "nat \<Rightarrow> u32 \<Rightarrow> tea_key \<Rightarrow> u32 \<times> u32 \<Rightarrow> u32 \<times> u32" where
  "encipher_loop 0 sm k yz = yz"
| "encipher_loop (Suc n) sm (a, b, c, d) (y, z) =
     (let sm = sm + tea_delta;
          y = y + tea_mix z a sm b;
          z = z + tea_mix y c sm d
      in encipher_loop n sm (a, b, c, d) (y, z))"

fun decipher_loop :: "nat \<Rightarrow> u32 \<Rightarrow> tea_key \<Rightarrow> u32 \<times> u32 \<Rightarrow> u32 \<times> u32" where
  "decipher_loop 0 sm k yz = yz"
| "decipher_loop (Suc n) sm (a, b, c, d) (y, z) =
     (let z = z - tea_mix y c sm d;
          y = y - tea_mix z a sm b;
          sm = sm - tea_delta
      in decipher_loop n sm (a, b, c, d) (y, z))"

definition load_key :: "byte list \<Rightarrow> tea_key" where
  "load_key k = (be32_dec (take 4 k), be32_dec (take 4 (drop 4 k)),
                 be32_dec (take 4 (drop 8 k)), be32_dec (take 4 (drop 12 k)))"

definition load_block :: "byte list \<Rightarrow> u32 \<times> u32" where
  "load_block v = (be32_dec (take 4 v), be32_dec (take 4 (drop 4 v)))"

definition store_block :: "u32 \<times> u32 \<Rightarrow> byte list" where
  "store_block yz = be32_enc (fst yz) @ be32_enc (snd yz)"

definition qq_encipher :: "byte list \<Rightarrow> byte list \<Rightarrow> byte list" where
  "qq_encipher v k = store_block (encipher_loop 0x10 0 (load_key k) (load_block v))"

definition qq_decipher :: "byte list \<Rightarrow> byte list \<Rightarrow> byte list" where
  "qq_decipher v k = store_block (decipher_loop 0x10 0xE3779B90 (load_key k) (load_block v))"

section \<open>Encryption\<close>

record tea_enc =
  plain :: "byte list"
  plain_pre_8 :: "byte list"
  crypted_pre_8 :: "byte list"
  crypted :: "byte list"  \<comment> \<open>what has been written to \<open>outstr\<close>; \<open>count\<close> is its length\<close>
  pos_in_byte :: nat
  is_header :: bool

definition xor8 :: "byte list \<Rightarrow> byte list \<Rightarrow> byte list" where
  "xor8 xs ys = map2 (XOR) xs ys"

definition zero8 :: "byte list" where
  "zero8 = replicate 8 0"

definition encrypt_every_8_byte :: "byte list \<Rightarrow> tea_enc \<Rightarrow> tea_enc" where
  "encrypt_every_8_byte key st =
     (let p = xor8 (plain st) (if is_header st then plain_pre_8 st else crypted_pre_8 st);
          c = xor8 (qq_encipher p key) (plain_pre_8 st)
      in st\<lparr>plain := p, plain_pre_8 := p, crypted_pre_8 := c, crypted := crypted st @ c,
            pos_in_byte := 0, is_header := False\<rparr>)"

text \<open>
  The three loops of \<open>qq_encrypt\<close> have one shape: while bytes are left, put one into
  \<open>plain\<close> if there is room, and encrypt when the block is full. With more than eight
  bytes in the block the C loop would not progress; \<open>pos_in_byte\<close> never exceeds eight.
\<close>

function enc_feed :: "byte list \<Rightarrow> byte list \<Rightarrow> tea_enc \<Rightarrow> tea_enc" where
  "enc_feed key [] st = st"
| "enc_feed key (b # bs) st =
     (if pos_in_byte st < 8 then
        (let st = st\<lparr>plain := (plain st)[pos_in_byte st := b], pos_in_byte := pos_in_byte st + 1\<rparr>
         in enc_feed key bs (if pos_in_byte st = 8 then encrypt_every_8_byte key st else st))
      else if pos_in_byte st = 8 then enc_feed key (b # bs) (encrypt_every_8_byte key st)
      else st)"
  by pat_completeness auto
termination
  by (relation "measure (\<lambda>(key, bs, st). 2 * length bs + (if pos_in_byte st < 8 then 0 else 1))")
     (auto simp: encrypt_every_8_byte_def Let_def)

definition header_pad :: "nat \<Rightarrow> nat" where
  "header_pad instrlen = (let p = (instrlen + 0x0a) mod 8 in if p \<noteq> 0 then 8 - p else 0)"

text \<open>
  \<open>qq_encrypt\<close>: \<open>stack\<close> is the indeterminate initial content of \<open>plain\<close>, \<open>r0\<close> to
  \<open>r3\<close> the low bytes of the four results of \<open>rand()\<close>. The result is what is written to
  \<open>outstr\<close>; \<open>*outstrlen_prt\<close> is its length.
\<close>

definition enc_start :: "byte list \<Rightarrow> byte \<Rightarrow> byte \<Rightarrow> nat \<Rightarrow> tea_enc" where
  "enc_start stack r0 r1 p =
     \<lparr>plain = ((r0 AND 0xf8) OR of_nat p) # replicate p r1 @ drop (p + 1) stack,
      plain_pre_8 = zero8, crypted_pre_8 = [], crypted = [],
      pos_in_byte = p + 1, is_header = True\<rparr>"

definition qq_encrypt ::
  "byte list \<Rightarrow> byte \<times> byte \<times> byte \<times> byte \<Rightarrow> byte list \<Rightarrow> byte list \<Rightarrow> byte list" where
  "qq_encrypt stack rnd instr key =
     (case rnd of (r0, r1, r2, r3) \<Rightarrow>
        let st = enc_start stack r0 r1 (header_pad (length instr));
            st = enc_feed key [r2, r3] st;
            st = enc_feed key instr st;
            st = enc_feed key (replicate 7 0) st
        in crypted st)"

section \<open>Decryption\<close>

record tea_dec =
  decrypted :: "byte list"
  crypt_buff :: nat  \<comment> \<open>as an offset into \<open>instr\<close>\<close>
  crypt_buff_pre_8 :: "byte list"  \<comment> \<open>the eight bytes it points at\<close>
  context_start :: nat
  dpos :: nat  \<comment> \<open>\<open>pos_in_byte\<close>\<close>
  outp :: "byte list"  \<comment> \<open>what has been written to \<open>outstr\<close>\<close>

definition block_at :: "byte list \<Rightarrow> nat \<Rightarrow> byte list" where
  "block_at s k = take 8 (drop k s)"

text \<open>\<open>decrypt_every_8_byte\<close>; \<open>None\<close> is the \<open>return 1\<close> inside the macro.\<close>

definition decrypt_every_8_byte :: "byte list \<Rightarrow> byte list \<Rightarrow> tea_dec \<Rightarrow> tea_dec option" where
  "decrypt_every_8_byte instr key st =
     (if length instr \<le> context_start st + 7 then None
      else Some (st\<lparr>decrypted := qq_decipher (xor8 (decrypted st) (block_at instr (crypt_buff st))) key,
                    context_start := context_start st + 8,
                    crypt_buff := crypt_buff st + 8, dpos := 0\<rparr>))"

text \<open>A loop of \<open>qq_decrypt\<close> either returns (with the code and the output so far) or falls through.\<close>

type_synonym dec_result = "(int \<times> byte list) + tea_dec"

definition dec_flush :: "byte list \<Rightarrow> byte list \<Rightarrow> byte list \<Rightarrow> tea_dec \<Rightarrow> dec_result" where
  "dec_flush instr key pre st =
     (case decrypt_every_8_byte instr key (st\<lparr>crypt_buff_pre_8 := pre\<rparr>) of
        None \<Rightarrow> Inl (1, outp st) | Some st' \<Rightarrow> Inr st')"

lemma dec_flush_pos: "dec_flush instr key pre st = Inr st' \<Longrightarrow> dpos st' = 0"
  by (auto simp: dec_flush_def decrypt_every_8_byte_def split: if_splits)

text \<open>First loop: skip the two padding bytes of the header.\<close>

function (sequential) dec_skip :: "byte list \<Rightarrow> byte list \<Rightarrow> nat \<Rightarrow> tea_dec \<Rightarrow> dec_result" where
  "dec_skip instr key 0 st = Inr st"
| "dec_skip instr key (Suc n) st =
     (if dpos st < 8 then
        (let st = st\<lparr>dpos := dpos st + 1\<rparr>
         in if dpos st = 8 then
              (case dec_flush instr key (block_at instr 0) st of
                 Inl r \<Rightarrow> Inl r | Inr st' \<Rightarrow> dec_skip instr key n st')
            else dec_skip instr key n st)
      else if dpos st = 8 then
        (case dec_flush instr key (block_at instr 0) st of
           Inl r \<Rightarrow> Inl r | Inr st' \<Rightarrow> dec_skip instr key (Suc n) st')
      else Inr st)"
  by pat_completeness auto
termination
  by (relation "measure (\<lambda>(instr, key, n, st). 2 * n + (if dpos st < 8 then 0 else 1))")
     (auto dest: dec_flush_pos)

text \<open>Second loop: write the plaintext bytes.\<close>

function (sequential) dec_data :: "byte list \<Rightarrow> byte list \<Rightarrow> nat \<Rightarrow> tea_dec \<Rightarrow> dec_result" where
  "dec_data instr key 0 st = Inr st"
| "dec_data instr key (Suc n) st =
     (if dpos st < 8 then
        (let st = st\<lparr>outp := outp st @ [crypt_buff_pre_8 st ! dpos st XOR decrypted st ! dpos st],
                     dpos := dpos st + 1\<rparr>
         in if dpos st = 8 then
              (case dec_flush instr key (block_at instr (crypt_buff st - 8)) st of
                 Inl r \<Rightarrow> Inl r | Inr st' \<Rightarrow> dec_data instr key n st')
            else dec_data instr key n st)
      else if dpos st = 8 then
        (case dec_flush instr key (block_at instr (crypt_buff st - 8)) st of
           Inl r \<Rightarrow> Inl r | Inr st' \<Rightarrow> dec_data instr key (Suc n) st')
      else Inr st)"
  by pat_completeness auto
termination
  by (relation "measure (\<lambda>(instr, key, n, st). 2 * n + (if dpos st < 8 then 0 else 1))")
     (auto dest: dec_flush_pos)

text \<open>Third loop: the seven trailing bytes must decrypt to zero.\<close>

fun dec_tail :: "byte list \<Rightarrow> byte list \<Rightarrow> nat \<Rightarrow> tea_dec \<Rightarrow> dec_result" where
  "dec_tail instr key 0 st = Inr st"
| "dec_tail instr key (Suc n) st =
     (if dpos st < 8 \<and> (crypt_buff_pre_8 st ! dpos st XOR decrypted st ! dpos st) \<noteq> 0
      then Inl (0, outp st)
      else let st = (if dpos st < 8 then st\<lparr>dpos := dpos st + 1\<rparr> else st)
           in if dpos st = 8 then
                (case dec_flush instr key (block_at instr (crypt_buff st)) st of
                   Inl r \<Rightarrow> Inl r | Inr st' \<Rightarrow> dec_tail instr key n st')
              else dec_tail instr key n st)"

text \<open>
  \<open>qq_decrypt\<close>: \<open>outcap\<close> is \<open>*outstrlen_ptr\<close> on entry; the result is the return code,
  \<open>*outstrlen_ptr\<close> on exit and the bytes written to \<open>outstr\<close>.
\<close>

definition qq_decrypt :: "byte list \<Rightarrow> byte list \<Rightarrow> int \<Rightarrow> int \<times> int \<times> byte list" where
  "qq_decrypt instr key outcap =
     (if length instr mod 8 \<noteq> 0 \<or> length instr < 16 then (0, outcap, [])
      else let d = qq_decipher (block_at instr 0) key;
               pos = unat (d ! 0 AND 7);
               count = int (length instr) - int pos - 10
           in if outcap < count \<or> count < 0 then (0, outcap, [])
              else let st = \<lparr>decrypted = d, crypt_buff = 8, crypt_buff_pre_8 = zero8,
                             context_start = 8, dpos = pos + 1, outp = []\<rparr>
                   in case dec_skip instr key 2 st of
                        Inl (r, out) \<Rightarrow> (r, count, out)
                      | Inr st \<Rightarrow>
                        (case dec_data instr key (nat count) st of
                           Inl (r, out) \<Rightarrow> (r, count, out)
                         | Inr st \<Rightarrow>
                           (case dec_tail instr key 7 st of
                              Inl (r, out) \<Rightarrow> (r, count, out)
                            | Inr st \<Rightarrow> (1, count, outp st))))"

text \<open>
  \<open>crypt\<close>, the public function: \<open>flag\<close> 0 decrypts, 1 encrypts, any other value does
  nothing; the result is as for \<open>qq_decrypt\<close>.
\<close>

definition tea_crypt_fn ::
  "byte list \<Rightarrow> byte \<times> byte \<times> byte \<times> byte \<Rightarrow> byte \<Rightarrow> byte list \<Rightarrow> byte list \<Rightarrow> int \<Rightarrow> int \<times> int \<times> byte list" where
  "tea_crypt_fn stack rnd flag instr key outcap =
     (if flag = 0 then qq_decrypt instr key outcap
      else if flag = 1 then
        (let out = qq_encrypt stack rnd instr key in (1, int (length out), out))
      else (1, outcap, []))"

section \<open>The rounds are inverse to each other\<close>

fun tea_round :: "u32 \<Rightarrow> tea_key \<Rightarrow> u32 \<times> u32 \<Rightarrow> u32 \<times> u32" where
  "tea_round s (a, b, c, d) (y, z) =
     (let y = y + tea_mix z a s b in (y, z + tea_mix y c s d))"

lemma encipher_loop_snoc:
  "encipher_loop (Suc n) s k x = tea_round (s + of_nat (Suc n) * tea_delta) k (encipher_loop n s k x)"
proof (induction n arbitrary: s x)
  case 0
  show ?case by (cases k, cases x) (simp add: Let_def)
next
  case (Suc n)
  obtain a b c d where k: "k = (a, b, c, d)" by (cases k)
  obtain y z where x: "x = (y, z)" by (cases x)
  have "encipher_loop (Suc (Suc n)) s k x = encipher_loop (Suc n) (s + tea_delta) k (tea_round (s + tea_delta) k x)"
    by (simp add: k x Let_def)
  also have "\<dots> = tea_round (s + tea_delta + of_nat (Suc n) * tea_delta) k
                    (encipher_loop n (s + tea_delta) k (tea_round (s + tea_delta) k x))"
    by (rule Suc.IH)
  also have "\<dots> = tea_round (s + of_nat (Suc (Suc n)) * tea_delta) k (encipher_loop (Suc n) s k x)"
    by (simp add: k x Let_def algebra_simps)
  finally show ?case .
qed

lemma decipher_loop_round:
  "decipher_loop (Suc n) s k (tea_round s k x) = decipher_loop n (s - tea_delta) k x"
  by (cases k, cases x) (simp add: Let_def)

lemma decipher_encipher_loop:
  "decipher_loop n (s + of_nat n * tea_delta) k (encipher_loop n s k x) = x"
proof (induction n)
  case (Suc n)
  have "s + of_nat (Suc n) * tea_delta - tea_delta = s + of_nat n * tea_delta"
    by (simp add: algebra_simps)
  then show ?case
    by (simp only: encipher_loop_snoc decipher_loop_round Suc.IH)
qed simp

lemma tea_sum_16: "0 + of_nat 16 * tea_delta = 0xE3779B90"
  by (simp add: tea_delta_def)

lemma load_store_block [simp]: "load_block (store_block yz) = yz"
  by (simp add: load_block_def store_block_def)

lemma store_load_block: "length v = 8 \<Longrightarrow> store_block (load_block v) = v"
  by (simp add: load_block_def store_block_def be32_enc_dec)

lemma length_store_block [simp]: "length (store_block yz) = 8"
  by (simp add: store_block_def)

section \<open>The contract of a block cipher, and chaining over it\<close>

text \<open>
  The chaining mode, as a specification over any block cipher \<open>E\<close>: block \<open>i\<close> of the
  stream is combined with the previous ciphertext block, enciphered, and combined with
  the previous enciphered input. The result is the pair of both values.
\<close>

fun chain :: "(byte list \<Rightarrow> byte list) \<Rightarrow> byte list \<Rightarrow> nat \<Rightarrow> byte list \<times> byte list" where
  "chain E s 0 = (let x = xor8 (block_at s 0) zero8 in (x, xor8 (E x) zero8))"
| "chain E s (Suc i) =
     (let x = xor8 (block_at s (8 * Suc i)) (snd (chain E s i))
      in (x, xor8 (E x) (fst (chain E s i))))"

definition chain_out :: "(byte list \<Rightarrow> byte list) \<Rightarrow> byte list \<Rightarrow> nat \<Rightarrow> byte list" where
  "chain_out E s n = concat (map (\<lambda>i. snd (chain E s i)) [0..<n])"

lemma length_zero8 [simp]: "length zero8 = 8"
  by (simp add: zero8_def)

lemma length_xor8 [simp]: "length (xor8 xs ys) = min (length xs) (length ys)"
  by (simp add: xor8_def)

lemma xor8_cancel: "length xs = length ys \<Longrightarrow> xor8 (xor8 xs ys) ys = xs"
  by (simp add: xor8_def list_eq_iff_nth_eq xor.assoc)

lemma xor8_comm: "xor8 xs ys = xor8 ys xs"
  by (simp add: xor8_def list_eq_iff_nth_eq xor.commute)

lemma xor8_zero: "length xs = 8 \<Longrightarrow> xor8 xs zero8 = xs"
  by (simp add: xor8_def zero8_def list_eq_iff_nth_eq)

lemma nth_xor8: "i < length xs \<Longrightarrow> i < length ys \<Longrightarrow> xor8 xs ys ! i = xs ! i XOR ys ! i"
  by (simp add: xor8_def)

lemma length_block_at [simp]: "k + 8 \<le> length s \<Longrightarrow> length (block_at s k) = 8"
  by (simp add: block_at_def)

lemma nth_block_at: "j < 8 \<Longrightarrow> k + 8 \<le> length s \<Longrightarrow> block_at s k ! j = s ! (k + j)"
  by (simp add: block_at_def)

lemma block_at_append: "k + 8 \<le> length s \<Longrightarrow> block_at (s @ t) k = block_at s k"
  by (simp add: block_at_def)

lemma chain_append: "8 * Suc i \<le> length s \<Longrightarrow> chain E (s @ t) i = chain E s i"
  by (induction i) (simp_all add: block_at_append Let_def)

lemma chain_out_append: "8 * n \<le> length s \<Longrightarrow> chain_out E (s @ t) n = chain_out E s n"
  unfolding chain_out_def by (intro arg_cong [of _ _ concat] map_cong) (auto simp: chain_append)

lemma chain_out_Suc: "chain_out E s (Suc n) = chain_out E s n @ snd (chain E s n)"
  by (simp add: chain_out_def)

locale block_cipher =
  fixes E :: "byte list \<Rightarrow> byte list" and D :: "byte list \<Rightarrow> byte list"
  assumes length_E: "length x = 8 \<Longrightarrow> length (E x) = 8"
    and D_E: "length x = 8 \<Longrightarrow> D (E x) = x"
begin

lemma length_chain:
  "8 * Suc i \<le> length s \<Longrightarrow> length (fst (chain E s i)) = 8 \<and> length (snd (chain E s i)) = 8"
  by (induction i) (simp_all add: Let_def length_E)

lemma length_chain_out: "8 * n \<le> length s \<Longrightarrow> length (chain_out E s n) = 8 * n"
  by (induction n) (simp_all add: chain_out_Suc length_chain, simp add: chain_out_def)

lemma block_at_chain_out:
  "i < n \<Longrightarrow> 8 * n \<le> length s \<Longrightarrow> block_at (chain_out E s n) (8 * i) = snd (chain E s i)"
proof (induction n)
  case (Suc n)
  show ?case
  proof (cases "i = n")
    case True
    with Suc.prems show ?thesis
      by (simp add: chain_out_Suc block_at_def length_chain_out length_chain)
  next
    case False
    with Suc show ?thesis
      by (simp add: chain_out_Suc block_at_append length_chain_out)
  qed
qed simp

text \<open>Deciphering the first block, and each next one from the state of the previous.\<close>

lemma decipher_first: "8 \<le> length s \<Longrightarrow> D (snd (chain E s 0)) = fst (chain E s 0)"
  by (simp add: Let_def xor8_zero length_E D_E)

lemma decipher_next:
  assumes "8 * Suc (Suc i) \<le> length s"
  shows "D (xor8 (fst (chain E s i)) (snd (chain E s (Suc i)))) = fst (chain E s (Suc i))"
proof -
  let ?x = "fst (chain E s (Suc i))"
  have len: "length ?x = 8" "length (fst (chain E s i)) = 8"
    using length_chain [of "Suc i" s] length_chain [of i s] assms by auto
  have "snd (chain E s (Suc i)) = xor8 (E ?x) (fst (chain E s i))"
    by (simp add: Let_def)
  then have "xor8 (fst (chain E s i)) (snd (chain E s (Suc i))) = E ?x"
    by (simp only: xor8_comm [of "fst (chain E s i)"]) (simp add: xor8_cancel length_E len del: chain.simps)
  then show ?thesis by (simp add: D_E len del: chain.simps)
qed

end

interpretation tea: block_cipher "\<lambda>v. qq_encipher v k" "\<lambda>v. qq_decipher v k" for k
proof
  fix x :: "byte list"
  assume len: "length x = 8"
  show "length (qq_encipher x k) = 8"
    by (simp add: qq_encipher_def)
  have "decipher_loop 16 0xE3779B90 (load_key k) (encipher_loop 16 0 (load_key k) (load_block x)) = load_block x"
    using decipher_encipher_loop [of 16 0 "load_key k" "load_block x"] unfolding tea_sum_16 .
  with len show "qq_decipher (qq_encipher x k) k = x"
    by (simp add: qq_encipher_def qq_decipher_def store_load_block)
qed

section \<open>Encryption computes the chain over the padded stream\<close>

abbreviation "teaE key \<equiv> (\<lambda>v. qq_encipher v key)"

definition tea_stream :: "byte \<times> byte \<times> byte \<times> byte \<Rightarrow> byte list \<Rightarrow> byte list" where
  "tea_stream rnd instr =
     (case rnd of (r0, r1, r2, r3) \<Rightarrow>
        ((r0 AND 0xf8) OR of_nat (header_pad (length instr))) # replicate (header_pad (length instr)) r1
        @ [r2, r3] @ instr @ replicate 7 0)"

lemma header_pad_lt: "header_pad n < 8"
  by (auto simp: header_pad_def Let_def)

lemma header_pad_mod: "(n + 10 + header_pad n) mod 8 = 0"
  unfolding header_pad_def Let_def by presburger

lemma length_tea_stream: "length (tea_stream rnd instr) = length instr + 10 + header_pad (length instr)"
  by (simp add: tea_stream_def split: prod.splits)

lemma length_tea_stream_mod: "length (tea_stream rnd instr) mod 8 = 0"
  using header_pad_mod [of "length instr"] by (simp add: length_tea_stream)

lemma blocks_exact: "p < 8 \<Longrightarrow> l = 8 * n + p \<Longrightarrow> l mod 8 = 0 \<Longrightarrow> n = l div (8 :: nat)"
  by auto

lemma next_block: "l mod 8 = 0 \<Longrightarrow> 8 * i < l \<Longrightarrow> 8 * Suc i \<le> (l :: nat)"
  by (auto elim!: dvdE)

definition enc_rel :: "byte list \<Rightarrow> tea_enc \<Rightarrow> byte list \<Rightarrow> nat \<Rightarrow> bool" where
  "enc_rel key st s n \<longleftrightarrow>
     length s = 8 * n + pos_in_byte st \<and> pos_in_byte st \<le> 8 \<and> length (plain st) = 8 \<and>
     take (pos_in_byte st) (plain st) = drop (8 * n) s \<and>
     crypted st = chain_out (teaE key) s n \<and> is_header st = (n = 0) \<and>
     (case n of 0 \<Rightarrow> plain_pre_8 st = zero8
      | Suc i \<Rightarrow> plain_pre_8 st = fst (chain (teaE key) s i) \<and> crypted_pre_8 st = snd (chain (teaE key) s i))"

lemma enc_rel_put:
  assumes "enc_rel key st s n" and "pos_in_byte st < 8"
  shows "enc_rel key (st\<lparr>plain := (plain st)[pos_in_byte st := b], pos_in_byte := pos_in_byte st + 1\<rparr>) (s @ [b]) n"
proof -
  have "take (Suc (pos_in_byte st)) ((plain st)[pos_in_byte st := b]) = take (pos_in_byte st) (plain st) @ [b]"
    using assms by (simp add: enc_rel_def take_Suc_conv_app_nth)
  with assms show ?thesis
    by (auto simp: enc_rel_def chain_out_append chain_append split: nat.splits)
qed

lemma enc_rel_flush:
  assumes rel: "enc_rel key st s n" and full: "pos_in_byte st = 8"
  shows "enc_rel key (encrypt_every_8_byte key st) s (Suc n)"
proof -
  have len: "length s = 8 * Suc n" and p: "plain st = block_at s (8 * n)"
    using rel full by (auto simp: enc_rel_def block_at_def)
  have "chain (teaE key) s n =
          (plain (encrypt_every_8_byte key st), crypted_pre_8 (encrypt_every_8_byte key st))"
    using rel p by (cases n) (auto simp: enc_rel_def encrypt_every_8_byte_def Let_def)
  moreover from this have "length (plain (encrypt_every_8_byte key st)) = 8"
    using tea.length_chain [of n s key] len by simp
  moreover have "chain_out (teaE key) s (Suc n) = chain_out (teaE key) s n @ snd (chain (teaE key) s n)"
    by (rule chain_out_Suc)
  ultimately show ?thesis
    using rel len by (simp add: enc_rel_def encrypt_every_8_byte_def Let_def)
qed

lemma enc_feed_rel:
  "enc_rel key st s n \<Longrightarrow> \<exists>n'. enc_rel key (enc_feed key bs st) (s @ bs) n'"
proof (induction key bs st arbitrary: s n rule: enc_feed.induct)
  case (1 key st)
  then show ?case by auto
next
  case (2 key b bs st)
  let ?st = "st\<lparr>plain := (plain st)[pos_in_byte st := b], pos_in_byte := pos_in_byte st + 1\<rparr>"
  consider "pos_in_byte st < 8" | "pos_in_byte st = 8"
    using "2.prems" by (fastforce simp: enc_rel_def)
  then show ?case
  proof cases
    case 1
    then have put: "enc_rel key ?st (s @ [b]) n"
      using "2.prems" by (rule enc_rel_put [rotated])
    then have "\<exists>m. enc_rel key (if pos_in_byte ?st = 8 then encrypt_every_8_byte key ?st else ?st) (s @ [b]) m"
    proof (cases "pos_in_byte ?st = 8")
      case True
      show ?thesis by (simp only: True simp_thms if_True) (rule exI, rule enc_rel_flush [OF put True])
    next
      case False
      show ?thesis by (simp only: False simp_thms if_False) (rule exI, rule put)
    qed
    then show ?thesis
      using "2.IH"(1) [OF 1 refl] 1 by (fastforce simp: Let_def)
  next
    case 2
    then show ?thesis
      using "2.IH"(2) [OF _ 2] enc_rel_flush [OF "2.prems" 2] by simp
  qed
qed

lemma enc_feed_pos:
  "bs \<noteq> [] \<Longrightarrow> pos_in_byte st \<le> 8 \<Longrightarrow> pos_in_byte (enc_feed key bs st) < 8"
proof (induction key bs st rule: enc_feed.induct)
  case (2 key b bs st)
  then show ?case
    by (cases bs) (auto simp: Let_def encrypt_every_8_byte_def)
qed simp

lemma enc_start_rel:
  assumes "length stack = 8" and "p < 8"
  shows "enc_rel key (enc_start stack r0 r1 p) (((r0 AND 0xf8) OR of_nat p) # replicate p r1) 0"
  using assms by (simp add: enc_rel_def enc_start_def chain_out_def)

lemma qq_encrypt_chain:
  assumes "length stack = 8"
  shows "qq_encrypt stack rnd instr key
         = chain_out (teaE key) (tea_stream rnd instr) (length (tea_stream rnd instr) div 8)"
proof -
  obtain r0 r1 r2 r3 where rnd: "rnd = (r0, r1, r2, r3)" by (cases rnd)
  let ?p = "header_pad (length instr)"
  let ?h = "((r0 AND 0xf8) OR of_nat ?p) # replicate ?p r1"
  let ?st2 = "enc_feed key instr (enc_feed key [r2, r3] (enc_start stack r0 r1 ?p))"
  let ?st = "enc_feed key (replicate 7 0) ?st2"
  obtain n1 where r1: "enc_rel key (enc_feed key [r2, r3] (enc_start stack r0 r1 ?p)) (?h @ [r2, r3]) n1"
    using enc_feed_rel [OF enc_start_rel [OF assms header_pad_lt]] by blast
  obtain n2 where r2: "enc_rel key ?st2 ((?h @ [r2, r3]) @ instr) n2"
    using enc_feed_rel [OF r1] by blast
  obtain n where r: "enc_rel key ?st (((?h @ [r2, r3]) @ instr) @ replicate 7 0) n"
    using enc_feed_rel [OF r2] by blast
  then have rel: "enc_rel key ?st (tea_stream rnd instr) n"
    by (simp add: rnd tea_stream_def)
  from r2 have "pos_in_byte ?st2 \<le> 8"
    unfolding enc_rel_def by blast
  then have "pos_in_byte ?st < 8"
    by (rule enc_feed_pos [rotated]) simp
  moreover from rel have "length (tea_stream rnd instr) = 8 * n + pos_in_byte ?st"
    unfolding enc_rel_def by blast
  ultimately have "n = length (tea_stream rnd instr) div 8"
    by (rule blocks_exact [OF _ _ length_tea_stream_mod])
  moreover have "qq_encrypt stack rnd instr key = crypted ?st"
    by (simp only: qq_encrypt_def rnd Let_def prod.case)
  moreover from rel have "crypted ?st = chain_out (teaE key) (tea_stream rnd instr) n"
    unfolding enc_rel_def by blast
  ultimately show ?thesis by (simp only:)
qed

section \<open>Decryption inverts the chain\<close>

text \<open>The state of \<open>qq_decrypt\<close> while it is inside block \<open>i\<close> of the ciphertext of \<open>s\<close>.\<close>

definition dec_rel :: "byte list \<Rightarrow> byte list \<Rightarrow> tea_dec \<Rightarrow> nat \<Rightarrow> bool" where
  "dec_rel key s st i \<longleftrightarrow>
     8 * Suc i \<le> length s \<and> dpos st \<le> 8 \<and> decrypted st = fst (chain (teaE key) s i) \<and>
     crypt_buff_pre_8 st = (case i of 0 \<Rightarrow> zero8 | Suc j \<Rightarrow> snd (chain (teaE key) s j)) \<and>
     context_start st = 8 * Suc i \<and> crypt_buff st = 8 * Suc i"

abbreviation "tea_ct key s \<equiv> chain_out (teaE key) s (length s div 8)"

lemma dec_rel_byte:
  assumes "dec_rel key s st i" and "dpos st < 8"
  shows "crypt_buff_pre_8 st ! dpos st XOR decrypted st ! dpos st = s ! (8 * i + dpos st)"
proof -
  have len: "length (block_at s (8 * i)) = 8"
    using assms by (simp add: dec_rel_def)
  have pre: "length (crypt_buff_pre_8 st) = 8"
    using assms tea.length_chain by (auto simp: dec_rel_def split: nat.splits)
  have "decrypted st = xor8 (block_at s (8 * i)) (crypt_buff_pre_8 st)"
    using assms by (cases i) (auto simp: dec_rel_def Let_def)
  then have "decrypted st ! dpos st = s ! (8 * i + dpos st) XOR crypt_buff_pre_8 st ! dpos st"
    using assms len pre by (simp add: nth_xor8 nth_block_at dec_rel_def)
  then show ?thesis by (simp add: word_xor_cancel)
qed

lemma dec_rel_pos: "dec_rel key s st i \<Longrightarrow> d \<le> 8 \<Longrightarrow> dec_rel key s (st\<lparr>dpos := d\<rparr>) i"
  by (simp add: dec_rel_def)

lemma dec_rel_out: "dec_rel key s (st\<lparr>outp := w\<rparr>) i = dec_rel key s st i"
  by (simp add: dec_rel_def)

lemma dec_flush_next:
  assumes rel: "dec_rel key s st i" and more: "8 * Suc (Suc i) \<le> length s" and dvd: "length s mod 8 = 0"
  shows "\<exists>st'. dec_flush (tea_ct key s) key (snd (chain (teaE key) s i)) st = Inr st' \<and>
               dec_rel key s st' (Suc i) \<and> dpos st' = 0 \<and> outp st' = outp st"
proof -
  have n: "8 * (length s div 8) = length s" "Suc i < length s div 8"
    using more dvd by auto
  have "block_at (tea_ct key s) (8 * Suc i) = snd (chain (teaE key) s (Suc i))"
    using n by (intro tea.block_at_chain_out) simp_all
  moreover have "length (tea_ct key s) = length s"
    using tea.length_chain_out [of "length s div 8" s key] n by simp
  ultimately show ?thesis
    using rel more tea.decipher_next [of i s key]
    by (simp add: dec_flush_def decrypt_every_8_byte_def dec_rel_def del: chain.simps)
qed

lemma dec_flush_last:
  assumes "dec_rel key s st i" and "8 * Suc i = length s"
  shows "dec_flush (tea_ct key s) key pre st = Inl (1, outp st)"
proof -
  have "length (tea_ct key s) = length s"
    using tea.length_chain_out [of "length s div 8" s key] assms(2) [symmetric] by simp
  with assms show ?thesis
    by (simp add: dec_flush_def decrypt_every_8_byte_def dec_rel_def)
qed

lemma block_at_ct:
  assumes "8 * Suc i \<le> length s" and "length s mod 8 = 0"
  shows "block_at (tea_ct key s) (8 * i) = snd (chain (teaE key) s i)"
  by (rule tea.block_at_chain_out) (use assms in auto)

lemma dec_skip_rel:
  assumes "dec_rel key s st i" and "8 * i + dpos st + m < 16" and "16 \<le> length s"
    and "length s mod 8 = 0" and "dpos st < 8 \<or> m > 0"
  shows "\<exists>st' i'. dec_skip (tea_ct key s) key m st = Inr st' \<and> dec_rel key s st' i' \<and>
           8 * i' + dpos st' = 8 * i + dpos st + m \<and> dpos st' < 8 \<and> outp st' = outp st"
  using assms
proof (induction "tea_ct key s" key m st arbitrary: i rule: dec_skip.induct)
  case (1 key st)
  then show ?case by auto
next
  case (2 key n st)
  have flush: "\<exists>st'. dec_flush (tea_ct key s) key (block_at (tea_ct key s) 0) st1 = Inr st' \<and>
                 dec_rel key s st' 1 \<and> dpos st' = 0 \<and> outp st' = outp st1"
    if "dec_rel key s st1 0" for st1
    using dec_flush_next [OF that] block_at_ct [of 0 s key] "2.prems" by auto
  show ?case
  proof (cases "dpos st < 8")
    case True
    let ?st = "st\<lparr>dpos := dpos st + 1\<rparr>"
    show ?thesis
    proof (cases "dpos ?st = 8")
      case 8: True
      then have "i = 0" using "2.prems" by auto
      then obtain st' where st': "dec_flush (tea_ct key s) key (block_at (tea_ct key s) 0) ?st = Inr st'"
        "dec_rel key s st' 1" "dpos st' = 0" "outp st' = outp st"
        using flush [of ?st] "2.prems"(1) 8 dec_rel_pos by fastforce
      have "\<exists>st'' i'. dec_skip (tea_ct key s) key n st' = Inr st'' \<and> dec_rel key s st'' i' \<and>
           8 * i' + dpos st'' = 8 * 1 + dpos st' + n \<and> dpos st'' < 8 \<and> outp st'' = outp st'"
        by (rule "2.hyps"(1) [OF True refl 8 st'(1,2)]) (use "2.prems" st' 8 in auto)
      then show ?thesis using True 8 st' \<open>i = 0\<close> by (auto simp: Let_def)
    next
      case 7: False
      have "\<exists>st'' i'. dec_skip (tea_ct key s) key n ?st = Inr st'' \<and> dec_rel key s st'' i' \<and>
           8 * i' + dpos st'' = 8 * i + dpos ?st + n \<and> dpos st'' < 8 \<and> outp st'' = outp ?st"
        by (rule "2.hyps"(2) [OF True refl 7 dec_rel_pos]) (use "2.prems" True 7 in auto)
      then show ?thesis using True 7 by (auto simp: Let_def)
    qed
  next
    case False
    then have 8: "dpos st = 8" and "i = 0"
      using "2.prems" by (auto simp: dec_rel_def)
    then obtain st' where st': "dec_flush (tea_ct key s) key (block_at (tea_ct key s) 0) st = Inr st'"
      "dec_rel key s st' 1" "dpos st' = 0" "outp st' = outp st"
      using flush [of st] "2.prems"(1) by auto
    have "\<exists>st'' i'. dec_skip (tea_ct key s) key (Suc n) st' = Inr st'' \<and> dec_rel key s st'' i' \<and>
         8 * i' + dpos st'' = 8 * 1 + dpos st' + Suc n \<and> dpos st'' < 8 \<and> outp st'' = outp st'"
      by (rule "2.hyps"(3) [OF False 8 st'(1,2)]) (use "2.prems" st' 8 in auto)
    then show ?thesis using False 8 st' \<open>i = 0\<close> by auto
  qed
qed

lemma dec_data_rel:
  assumes "dec_rel key s st i" and "8 * i + dpos st + m < length s"
    and "length s mod 8 = 0" and "dpos st < 8"
  shows "\<exists>st' i'. dec_data (tea_ct key s) key m st = Inr st' \<and> dec_rel key s st' i' \<and>
           8 * i' + dpos st' = 8 * i + dpos st + m \<and> dpos st' < 8 \<and>
           outp st' = outp st @ take m (drop (8 * i + dpos st) s)"
  using assms
proof (induction m arbitrary: st i)
  case 0
  then show ?case by auto
next
  case (Suc m)
  let ?q = "8 * i + dpos st"
  let ?st = "st\<lparr>outp := outp st @ [crypt_buff_pre_8 st ! dpos st XOR decrypted st ! dpos st],
                dpos := dpos st + 1\<rparr>"
  have out: "outp ?st = outp st @ [s ! ?q]"
    using dec_rel_byte [OF Suc.prems(1,4)] by simp
  have take: "take (Suc m) (drop ?q s) = s ! ?q # take m (drop (Suc ?q) s)"
    using Suc.prems(2) Cons_nth_drop_Suc [of ?q s] by (metis Suc_lessD add_lessD1 take_Suc_Cons)
  show ?case
  proof (cases "dpos ?st = 8")
    case True
    have rel: "dec_rel key s ?st i"
      using Suc.prems(1) True by (simp add: dec_rel_def)
    have more: "8 * Suc (Suc i) \<le> length s"
      by (rule next_block) (use Suc.prems True in auto)
    have ct: "block_at (tea_ct key s) (crypt_buff ?st - 8) = snd (chain (teaE key) s i)"
      using block_at_ct [of i s key] more Suc.prems(1,3) by (simp add: dec_rel_def del: chain.simps)
    obtain st' where st': "dec_flush (tea_ct key s) key (snd (chain (teaE key) s i)) ?st = Inr st'"
      "dec_rel key s st' (Suc i)" "dpos st' = 0" "outp st' = outp ?st"
      using dec_flush_next [OF rel more Suc.prems(3)] by blast
    have "8 * Suc i + dpos st' + m < length s" "dpos st' < 8"
      using Suc.prems True st'(3) by simp_all
    from Suc.IH [OF st'(2) this(1) Suc.prems(3) this(2)]
    show ?thesis using Suc.prems(4) True out take st' ct by (auto simp: Let_def add.assoc)
  next
    case False
    have "dec_rel key s ?st i" "8 * i + dpos ?st + m < length s" "dpos ?st < 8"
      using Suc.prems False by (simp_all add: dec_rel_def)
    from Suc.IH [OF this(1,2) Suc.prems(3) this(3)]
    show ?thesis using Suc.prems(4) False out take by (auto simp: Let_def)
  qed
qed

lemma dec_tail_rel:
  assumes "dec_rel key s st i" and "8 * i + dpos st + Suc m = length s" and "dpos st + Suc m = 8"
    and "\<And>j. 8 * i + dpos st \<le> j \<Longrightarrow> j < length s \<Longrightarrow> s ! j = 0"
  shows "dec_tail (tea_ct key s) key (Suc m) st = Inl (1, outp st)"
  using assms
proof (induction m arbitrary: st)
  case 0
  let ?st = "st\<lparr>dpos := dpos st + 1\<rparr>"
  have "dec_rel key s ?st i"
    using "0.prems"(1,3) by (intro dec_rel_pos) auto
  moreover have "8 * Suc i = length s"
    using "0.prems"(2,3) by simp
  ultimately have "dec_flush (tea_ct key s) key pre ?st = Inl (1, outp ?st)" for pre
    by (rule dec_flush_last)
  then show ?case
    using dec_rel_byte [OF "0.prems"(1)] "0.prems" by (auto simp: Let_def)
next
  case (Suc m)
  let ?st = "st\<lparr>dpos := dpos st + 1\<rparr>"
  have "dec_tail (tea_ct key s) key (Suc m) ?st = Inl (1, outp ?st)"
    by (rule Suc.IH) (use Suc.prems in \<open>auto simp: dec_rel_def\<close>)
  moreover have "crypt_buff_pre_8 st ! dpos st XOR decrypted st ! dpos st = 0"
    using dec_rel_byte [OF Suc.prems(1)] Suc.prems(2-4) by simp
  ultimately show ?case
    using Suc.prems(3) by (subst dec_tail.simps(2)) (simp add: Let_def del: dec_tail.simps)
qed

lemma header_byte:
  "p < 8 \<Longrightarrow> unat (((r :: byte) AND 0xf8 OR of_nat p) AND 7) = p"
proof -
  assume p: "p < 8"
  have "(r AND 0xf8 OR of_nat p) AND 7 = (r AND (0xf8 AND 7)) OR (of_nat p AND 7)"
    by (simp add: bit.conj_disj_distrib2 and.assoc)
  also have "\<dots> = (of_nat p AND 7 :: byte)"
    by simp
  also have "\<dots> = of_nat p"
  proof -
    have "p = 0 \<or> p = 1 \<or> p = 2 \<or> p = 3 \<or> p = 4 \<or> p = 5 \<or> p = 6 \<or> p = 7"
      using p by linarith
    then show ?thesis by (elim disjE) simp_all
  qed
  finally show ?thesis using p by (simp add: unat_of_nat)
qed

section \<open>Properties\<close>

lemma tea_stream_parts:
  fixes instr :: "byte list"
  defines "p \<equiv> header_pad (length instr)"
  shows "take (length instr) (drop (p + 3) (tea_stream rnd instr)) = instr"
    and "p + 3 + length instr \<le> j \<Longrightarrow> j < length (tea_stream rnd instr) \<Longrightarrow> tea_stream rnd instr ! j = 0"
    and "unat (tea_stream rnd instr ! 0 AND 7) = p"
proof -
  obtain r0 r1 r2 r3 where rnd: "rnd = (r0, r1, r2, r3)" by (cases rnd)
  let ?h = "((r0 AND 0xf8) OR of_nat p) # replicate p r1 @ [r2, r3]"
  have s: "tea_stream rnd instr = ?h @ instr @ replicate 7 0" and h: "length ?h = p + 3"
    by (simp_all add: tea_stream_def rnd p_def)
  show "take (length instr) (drop (p + 3) (tea_stream rnd instr)) = instr"
    unfolding s h [symmetric] by simp
  show "unat (tea_stream rnd instr ! 0 AND 7) = p"
    unfolding s by (simp add: header_byte header_pad_lt p_def)
  assume "p + 3 + length instr \<le> j" and "j < length (tea_stream rnd instr)"
  moreover have s': "tea_stream rnd instr = (?h @ instr) @ replicate 7 0" and h': "length (?h @ instr) = p + 3 + length instr"
    using s h by simp_all
  ultimately have "j - length (?h @ instr) < 7" and "\<not> j < length (?h @ instr)"
    using length_append [of "?h @ instr" "replicate 7 0"] by (simp_all only: length_replicate)
  then show "tea_stream rnd instr ! j = 0"
    unfolding s' nth_append [of "?h @ instr"] by (simp only: if_False nth_replicate)
qed

lemma qq_decrypt_stream:
  fixes instr :: "byte list"
  assumes s_def: "s = tea_stream rnd instr" and cap: "int (length instr) \<le> outcap"
  shows "qq_decrypt (tea_ct key s) key outcap = (1, int (length instr), instr)"
proof -
  let ?p = "header_pad (length instr)" and ?n = "length instr"
  have mod: "length s mod 8 = 0"
    unfolding s_def by (rule length_tea_stream_mod)
  have len: "length s = ?n + 10 + ?p"
    unfolding s_def by (rule length_tea_stream)
  have "8 * 1 < length s" using len by simp
  then have 16: "16 \<le> length s"
    using next_block [OF mod, of 1] by simp
  have ctlen: "length (tea_ct key s) = length s"
    using tea.length_chain_out [of "length s div 8" s key] mod by (simp add: mod_eq_0_iff_dvd)
  have ct0: "block_at (tea_ct key s) 0 = snd (chain (teaE key) s 0)"
    using block_at_ct [of 0 s key] mod 16 by (simp del: chain.simps)
  have dec0: "qq_decipher (block_at (tea_ct key s) 0) key = fst (chain (teaE key) s 0)"
    using tea.decipher_first [of s key] 16 ct0 by (simp del: chain.simps)
  have "fst (chain (teaE key) s 0) ! 0 = s ! 0"
    using 16 by (simp add: Let_def nth_xor8 nth_block_at zero8_def)
  then have pos: "unat (fst (chain (teaE key) s 0) ! 0 AND 7) = ?p"
    using tea_stream_parts(3) [of rnd instr] by (simp only: s_def)
  let ?st = "\<lparr>decrypted = fst (chain (teaE key) s 0), crypt_buff = 8, crypt_buff_pre_8 = zero8,
              context_start = 8, dpos = ?p + 1, outp = []\<rparr>"
  have "dec_rel key s ?st 0"
    using 16 header_pad_lt [of ?n] by (simp add: dec_rel_def del: chain.simps)
  then obtain st1 i1 where st1: "dec_skip (tea_ct key s) key 2 ?st = Inr st1" "dec_rel key s st1 i1"
    "8 * i1 + dpos st1 = ?p + 3" "dpos st1 < 8" "outp st1 = []"
    using dec_skip_rel [of key s ?st 0 2] 16 mod header_pad_lt [of ?n] by auto
  have "8 * i1 + dpos st1 + ?n < length s"
    using st1(3) len by simp
  from dec_data_rel [OF st1(2) this mod st1(4)] obtain st2 i2 where
    st2: "dec_data (tea_ct key s) key ?n st1 = Inr st2" "dec_rel key s st2 i2"
    "8 * i2 + dpos st2 = ?p + 3 + ?n" "dpos st2 < 8" "outp st2 = instr"
    using st1(3,5) tea_stream_parts(1) [of instr rnd] by (auto simp: s_def)
  have "8 * i2 + dpos st2 + Suc 6 = length s"
    using st2(3) len by simp
  moreover from this have "dpos st2 + Suc 6 = 8"
    using mod st2(4) by (auto simp: mod_eq_0_iff_dvd) presburger
  ultimately have "dec_tail (tea_ct key s) key (Suc 6) st2 = Inl (1, outp st2)"
    using tea_stream_parts(2) [of instr _ rnd] st2(3) by (intro dec_tail_rel [OF st2(2)]) (auto simp: s_def)
  moreover have "Suc 6 = 7" by simp
  ultimately have st3: "dec_tail (tea_ct key s) key 7 st2 = Inl (1, instr)"
    by (simp only: st2(5))
  have count: "int (length s) - int ?p - 10 = int ?n"
    using len by simp
  show ?thesis
    unfolding qq_decrypt_def Let_def ctlen dec0 pos count st1(1) sum.case
    using cap 16 mod st2(1) by (simp add: st3 del: dec_tail.simps)
qed

text \<open>
  C1. Round trip of the TEA transport cipher: whatever \<open>rand()\<close> returns and whatever the
  stack holds, decrypting what \<open>qq_encrypt\<close> produced gives back exactly the input, with
  return code 1 and the input's length, for any key and any output capacity that fits.
\<close>

theorem tea_round_trip:
  assumes "length stack = 8" and "int (length instr) \<le> outcap"
  shows "qq_decrypt (qq_encrypt stack rnd instr key) key outcap = (1, int (length instr), instr)"
  unfolding qq_encrypt_chain [OF assms(1)] using assms(2) by (rule qq_decrypt_stream [OF refl])

theorem tea_round_trip_witness:
  "qq_decrypt (qq_encrypt (replicate 8 7) (1, 2, 3, 4) [104, 105] (replicate 16 9)) (replicate 16 9) 34
   = (1, 2, [104, 105])"
  using tea_round_trip [of "replicate 8 7" "[104, 105]" 34 "(1, 2, 3, 4)" "replicate 16 9"] by simp

end
