(* ===== verification/Aes.thy ===== *)
theory Aes
  imports Aes_Tables
begin

text \<open>
  The AES cipher of \<open>utils/aes.c\<close>: key schedules for 128, 192 and 256 bits, the table-driven
  block functions and the CBC mode. The rounds are compared with the byte-oriented description of
  the standard, and decryption with the decryption schedule is shown to invert encryption.
  The number of rounds of a key is the one the schedules store, 10, 12 or 14.
\<close>

section \<open>Keys\<close>

record AES_KEY =
  rd_key :: "u32 list"
  rounds :: nat

definition GETU32 :: "byte list \<Rightarrow> nat \<Rightarrow> u32" where
  "GETU32 pt i = be32_dec (take 4 (drop i pt))"

definition PUTU32 :: "u32 \<Rightarrow> byte list" where
  "PUTU32 st = be32_enc st"

text \<open>The indices \<open>x >> 24\<close>, \<open>(x >> 16) & 0xff\<close>, \<open>(x >> 8) & 0xff\<close> and \<open>x & 0xff\<close>.\<close>

definition ix3 :: "u32 \<Rightarrow> nat" where
  "ix3 x = unat (drop_bit 24 x)"

definition ix2 :: "u32 \<Rightarrow> nat" where
  "ix2 x = unat (drop_bit 16 x AND 0xFF)"

definition ix1 :: "u32 \<Rightarrow> nat" where
  "ix1 x = unat (drop_bit 8 x AND 0xFF)"

definition ix0 :: "u32 \<Rightarrow> nat" where
  "ix0 x = unat (x AND 0xFF)"

text \<open>The substituted word and the substituted rotated word of the schedules, and of the last rounds.\<close>

definition te4_word :: "nat \<Rightarrow> nat \<Rightarrow> nat \<Rightarrow> nat \<Rightarrow> u32" where
  "te4_word a b c d = (Te4 ! a AND 0xFF000000) XOR (Te4 ! b AND 0x00FF0000) XOR (Te4 ! c AND 0x0000FF00) XOR (Te4 ! d AND 0x000000FF)"

definition td4_word :: "nat \<Rightarrow> nat \<Rightarrow> nat \<Rightarrow> nat \<Rightarrow> u32" where
  "td4_word a b c d = (Td4 ! a AND 0xFF000000) XOR (Td4 ! b AND 0x00FF0000) XOR (Td4 ! c AND 0x0000FF00) XOR (Td4 ! d AND 0x000000FF)"

definition rot_sub :: "u32 \<Rightarrow> u32" where
  "rot_sub temp = te4_word (ix2 temp) (ix1 temp) (ix0 temp) (ix3 temp)"

definition sub_word :: "u32 \<Rightarrow> u32" where
  "sub_word temp = te4_word (ix3 temp) (ix2 temp) (ix1 temp) (ix0 temp)"

text \<open>
  One pass of each \<open>while (1)\<close>; the list holds the words written so far, the pointer
  \<open>rk\<close> of the source points to its last 4, 6 or 8 words.
\<close>

definition key128_step :: "nat \<Rightarrow> u32 list \<Rightarrow> u32 list" where
  "key128_step i ws =
     (let rk = drop (length ws - 4) ws;
          k4 = rk ! 0 XOR rot_sub (rk ! 3) XOR rcon ! i;
          k5 = rk ! 1 XOR k4;
          k6 = rk ! 2 XOR k5;
          k7 = rk ! 3 XOR k6
      in ws @ [k4, k5, k6, k7])"

definition key192_step :: "nat \<Rightarrow> u32 list \<Rightarrow> u32 list" where
  "key192_step i ws =
     (let rk = drop (length ws - 6) ws;
          k6 = rk ! 0 XOR rot_sub (rk ! 5) XOR rcon ! i;
          k7 = rk ! 1 XOR k6;
          k8 = rk ! 2 XOR k7;
          k9 = rk ! 3 XOR k8
      in if i + 1 = 8 then ws @ [k6, k7, k8, k9]
         else let k10 = rk ! 4 XOR k9; k11 = rk ! 5 XOR k10 in ws @ [k6, k7, k8, k9, k10, k11])"

definition key256_step :: "nat \<Rightarrow> u32 list \<Rightarrow> u32 list" where
  "key256_step i ws =
     (let rk = drop (length ws - 8) ws;
          k8 = rk ! 0 XOR rot_sub (rk ! 7) XOR rcon ! i;
          k9 = rk ! 1 XOR k8;
          k10 = rk ! 2 XOR k9;
          k11 = rk ! 3 XOR k10
      in if i + 1 = 7 then ws @ [k8, k9, k10, k11]
         else let k12 = rk ! 4 XOR sub_word k11; k13 = rk ! 5 XOR k12; k14 = rk ! 6 XOR k13; k15 = rk ! 7 XOR k14
              in ws @ [k8, k9, k10, k11, k12, k13, k14, k15])"

definition key_words :: "byte list \<Rightarrow> nat \<Rightarrow> u32 list" where
  "key_words userKey n = map (\<lambda>i. GETU32 userKey (4 * i)) [0..<n]"

definition schedule :: "byte list \<Rightarrow> int \<Rightarrow> u32 list" where
  "schedule userKey bits =
     (if bits = 128 then fold key128_step [0..<10] (key_words userKey 4)
      else if bits = 192 then fold key192_step [0..<8] (key_words userKey 6)
      else fold key256_step [0..<7] (key_words userKey 8))"

text \<open>\<open>None\<close> is a null pointer; the words behind the schedule keep their values.\<close>

definition AES_set_encrypt_key :: "byte list option \<Rightarrow> int \<Rightarrow> AES_KEY option \<Rightarrow> AES_KEY option \<times> int" where
  "AES_set_encrypt_key userKey bits key =
     (case (userKey, key) of
        (Some userKey, Some key) \<Rightarrow>
          if bits \<noteq> 128 \<and> bits \<noteq> 192 \<and> bits \<noteq> 256 then (Some key, -2)
          else let rk = schedule userKey bits in
            (Some \<lparr>rd_key = rk @ drop (length rk) (rd_key key),
                   rounds = (if bits = 128 then 10 else if bits = 192 then 12 else 14)\<rparr>, 0)
      | _ \<Rightarrow> (key, -1))"

definition swap4 :: "nat \<Rightarrow> nat \<Rightarrow> u32 list \<Rightarrow> u32 list" where
  "swap4 i j rk =
     (let rk = rk[i := rk ! j, j := rk ! i];
          rk = rk[i + 1 := rk ! (j + 1), j + 1 := rk ! (i + 1)];
          rk = rk[i + 2 := rk ! (j + 2), j + 2 := rk ! (i + 2)]
      in rk[i + 3 := rk ! (j + 3), j + 3 := rk ! (i + 3)])"

function swap_loop :: "nat \<Rightarrow> nat \<Rightarrow> u32 list \<Rightarrow> u32 list" where
  "swap_loop i j rk = (if i < j then swap_loop (i + 4) (j - 4) (swap4 i j rk) else rk)"
  by auto
termination by (relation "measure (\<lambda>(i, j, rk). j - i)") auto

declare swap_loop.simps [simp del]

definition inv_mix_word :: "u32 \<Rightarrow> u32" where
  "inv_mix_word k = Td0 ! unat (Te4 ! ix3 k AND 0xFF) XOR Td1 ! unat (Te4 ! ix2 k AND 0xFF) XOR
                    Td2 ! unat (Te4 ! ix1 k AND 0xFF) XOR Td3 ! unat (Te4 ! ix0 k AND 0xFF)"

definition inv_mix4 :: "nat \<Rightarrow> u32 list \<Rightarrow> u32 list" where
  "inv_mix4 i rk =
     (let rk = rk[4 * i := inv_mix_word (rk ! (4 * i))];
          rk = rk[4 * i + 1 := inv_mix_word (rk ! (4 * i + 1))];
          rk = rk[4 * i + 2 := inv_mix_word (rk ! (4 * i + 2))]
      in rk[4 * i + 3 := inv_mix_word (rk ! (4 * i + 3))])"

definition AES_set_decrypt_key :: "byte list option \<Rightarrow> int \<Rightarrow> AES_KEY option \<Rightarrow> AES_KEY option \<times> int" where
  "AES_set_decrypt_key userKey bits key =
     (case AES_set_encrypt_key userKey bits key of
        (Some key, status) \<Rightarrow>
          if status < 0 then (Some key, status)
          else (Some (key\<lparr>rd_key := fold inv_mix4 [1..<rounds key] (swap_loop 0 (4 * rounds key) (rd_key key))\<rparr>), 0)
      | (None, status) \<Rightarrow> (None, status))"

section \<open>Blocks\<close>

type_synonym aes_state = "u32 \<times> u32 \<times> u32 \<times> u32"

definition keys4 :: "u32 list \<Rightarrow> nat \<Rightarrow> aes_state" where
  "keys4 rk i = (rk ! i, rk ! (i + 1), rk ! (i + 2), rk ! (i + 3))"

fun xor4 :: "aes_state \<Rightarrow> aes_state \<Rightarrow> aes_state" where
  "xor4 (a, b, c, d) (a', b', c', d') = (a XOR a', b XOR b', c XOR c', d XOR d')"

definition load4 :: "byte list \<Rightarrow> aes_state" where
  "load4 inp = (GETU32 inp 0, GETU32 inp 4, GETU32 inp 8, GETU32 inp 12)"

fun store4 :: "aes_state \<Rightarrow> byte list" where
  "store4 (a, b, c, d) = PUTU32 a @ PUTU32 b @ PUTU32 c @ PUTU32 d"

definition enc_word :: "u32 \<Rightarrow> u32 \<Rightarrow> u32 \<Rightarrow> u32 \<Rightarrow> u32" where
  "enc_word a b c d = Te0 ! ix3 a XOR Te1 ! ix2 b XOR Te2 ! ix1 c XOR Te3 ! ix0 d"

definition dec_word :: "u32 \<Rightarrow> u32 \<Rightarrow> u32 \<Rightarrow> u32 \<Rightarrow> u32" where
  "dec_word a b c d = Td0 ! ix3 a XOR Td1 ! ix2 b XOR Td2 ! ix1 c XOR Td3 ! ix0 d"

fun enc_round :: "aes_state \<Rightarrow> aes_state \<Rightarrow> aes_state" where
  "enc_round (s0, s1, s2, s3) k =
     xor4 (enc_word s0 s1 s2 s3, enc_word s1 s2 s3 s0, enc_word s2 s3 s0 s1, enc_word s3 s0 s1 s2) k"

fun dec_round :: "aes_state \<Rightarrow> aes_state \<Rightarrow> aes_state" where
  "dec_round (s0, s1, s2, s3) k =
     xor4 (dec_word s0 s3 s2 s1, dec_word s1 s0 s3 s2, dec_word s2 s1 s0 s3, dec_word s3 s2 s1 s0) k"

fun enc_last :: "aes_state \<Rightarrow> aes_state \<Rightarrow> aes_state" where
  "enc_last (t0, t1, t2, t3) k =
     xor4 (te4_word (ix3 t0) (ix2 t1) (ix1 t2) (ix0 t3), te4_word (ix3 t1) (ix2 t2) (ix1 t3) (ix0 t0),
           te4_word (ix3 t2) (ix2 t3) (ix1 t0) (ix0 t1), te4_word (ix3 t3) (ix2 t0) (ix1 t1) (ix0 t2)) k"

fun dec_last :: "aes_state \<Rightarrow> aes_state \<Rightarrow> aes_state" where
  "dec_last (t0, t1, t2, t3) k =
     xor4 (td4_word (ix3 t0) (ix2 t3) (ix1 t2) (ix0 t1), td4_word (ix3 t1) (ix2 t0) (ix1 t3) (ix0 t2),
           td4_word (ix3 t2) (ix2 t1) (ix1 t0) (ix0 t3), td4_word (ix3 t3) (ix2 t2) (ix1 t1) (ix0 t0)) k"

text \<open>The \<open>for (;;)\<close> of the block functions, two rounds a pass; \<open>r\<close> is never 0.\<close>

fun round_loop :: "(aes_state \<Rightarrow> aes_state \<Rightarrow> aes_state) \<Rightarrow> nat \<Rightarrow> u32 list \<Rightarrow> aes_state \<Rightarrow> aes_state \<times> u32 list" where
  "round_loop f 0 rk s = (s, rk)"
| "round_loop f (Suc r) rk s =
     (let t = f s (keys4 rk 4); rk = drop 8 rk
      in if r = 0 then (t, rk) else round_loop f r rk (f t (keys4 rk 0)))"

definition AES_encrypt :: "byte list \<Rightarrow> AES_KEY \<Rightarrow> byte list" where
  "AES_encrypt inp key =
     (case round_loop enc_round (rounds key div 2) (rd_key key) (xor4 (load4 inp) (keys4 (rd_key key) 0)) of
        (t, rk) \<Rightarrow> store4 (enc_last t (keys4 rk 0)))"

definition AES_decrypt :: "byte list \<Rightarrow> AES_KEY \<Rightarrow> byte list" where
  "AES_decrypt inp key =
     (case round_loop dec_round (rounds key div 2) (rd_key key) (xor4 (load4 inp) (keys4 (rd_key key) 0)) of
        (t, rk) \<Rightarrow> store4 (dec_last t (keys4 rk 0)))"

section \<open>Chaining\<close>

text \<open>
  \<open>AES_cbc_encrypt\<close>: what is written to \<open>out\<close> and the new \<open>ivec\<close>. A last short
  block is filled up from \<open>ivec\<close> when encrypting, and read whole when decrypting.
\<close>

fun cbc_enc :: "(byte list \<Rightarrow> byte list) \<Rightarrow> nat \<Rightarrow> byte list \<Rightarrow> byte list \<Rightarrow> byte list \<times> byte list" where
  "cbc_enc E len inp ivec =
     (if 16 \<le> len then
        (let c = E (map2 (XOR) (take 16 inp) ivec);
             (out, ivec) = cbc_enc E (len - 16) (drop 16 inp) c
         in (c @ out, ivec))
      else if len \<noteq> 0 then
        (let tmp = E (map2 (XOR) (take len inp) (take len ivec) @ drop len ivec) in (tmp, tmp))
      else ([], ivec))"

declare cbc_enc.simps [simp del]

fun cbc_dec :: "(byte list \<Rightarrow> byte list) \<Rightarrow> nat \<Rightarrow> byte list \<Rightarrow> byte list \<Rightarrow> byte list \<times> byte list" where
  "cbc_dec D len inp ivec =
     (if 16 \<le> len then
        (let tmp = take 16 inp;
             (out, ivec') = cbc_dec D (len - 16) (drop 16 inp) tmp
         in (map2 (XOR) (D tmp) ivec @ out, ivec'))
      else if len \<noteq> 0 then
        (let tmp = D (take 16 inp) in (map2 (XOR) (take len tmp) (take len ivec), tmp))
      else ([], ivec))"

declare cbc_dec.simps [simp del]

definition AES_cbc_encrypt :: "byte list \<Rightarrow> nat \<Rightarrow> AES_KEY \<Rightarrow> byte list \<Rightarrow> bool \<Rightarrow> byte list \<times> byte list" where
  "AES_cbc_encrypt inp len key ivec enc =
     (if enc then cbc_enc (\<lambda>b. AES_encrypt b key) len inp ivec else cbc_dec (\<lambda>b. AES_decrypt b key) len inp ivec)"

section \<open>Rounds on bytes\<close>

text \<open>The bytes of a word, most significant first.\<close>

definition by3 :: "u32 \<Rightarrow> byte" where
  "by3 w = ucast (drop_bit 24 w)"

definition by2 :: "u32 \<Rightarrow> byte" where
  "by2 w = ucast (drop_bit 16 w)"

definition by1 :: "u32 \<Rightarrow> byte" where
  "by1 w = ucast (drop_bit 8 w)"

definition by0 :: "u32 \<Rightarrow> byte" where
  "by0 w = ucast w"


lemma ix_by: "ix3 w = unat (by3 w)" "ix2 w = unat (by2 w)" "ix1 w = unat (by1 w)" "ix0 w = unat (by0 w)"
  by (simp_all only: ix3_def ix2_def ix1_def ix0_def by3_def by2_def by1_def by0_def table_index)

lemma by_col [simp]: "by3 (col a b c d) = a" "by2 (col a b c d) = b" "by1 (col a b c d) = c" "by0 (col a b c d) = d"
  by (simp_all add: by3_def by2_def by1_def by0_def)

lemma col_by [simp]: "col (by3 w) (by2 w) (by1 w) (by0 w) = w"
  by (simp add: by3_def by2_def by1_def by0_def col_of_bytes)

lemma by_xor: "by3 (v XOR w) = by3 v XOR by3 w" "by2 (v XOR w) = by2 v XOR by2 w" "by1 (v XOR w) = by1 v XOR by1 w" "by0 (v XOR w) = by0 v XOR by0 w"
  by (auto simp: by3_def by2_def by1_def by0_def bit_simps intro!: bit_word_eqI)

text \<open>The two mixes of a column.\<close>

definition mix :: "u32 \<Rightarrow> u32" where
  "mix w = (case (by3 w, by2 w, by1 w, by0 w) of (a, b, c, d) \<Rightarrow>
     col (xtime a XOR mul3 b XOR c XOR d) (a XOR xtime b XOR mul3 c XOR d) (a XOR b XOR xtime c XOR mul3 d) (mul3 a XOR b XOR c XOR xtime d))"

definition inv_mix :: "u32 \<Rightarrow> u32" where
  "inv_mix w = (case (by3 w, by2 w, by1 w, by0 w) of (a, b, c, d) \<Rightarrow>
     col (mule a XOR mulb b XOR muld c XOR mul9 d) (mul9 a XOR mule b XOR mulb c XOR muld d)
         (muld a XOR mul9 b XOR mule c XOR mulb d) (mulb a XOR muld b XOR mul9 c XOR mule d))"

lemma xor_both: "a XOR (a XOR b) = b" for a b :: "'a :: len word"
  by (simp flip: xor.assoc)

lemmas xor_ac = xor.assoc xor.commute xor.left_commute xor_both

lemma inv_mix_mix: "inv_mix (mix w) = w"
proof -
  have "inv_mix (mix w) = col (by3 w) (by2 w) (by1 w) (by0 w)"
    unfolding inv_mix_def mix_def prod.case by_col
    by (rule arg_cong4 [of _ _ _ _ _ _ _ _ col]; simp add: mul_defs xtime_xor xor_ac)
  then show ?thesis by simp
qed

lemma inv_mix_xor: "inv_mix (v XOR w) = inv_mix v XOR inv_mix w"
  by (simp add: inv_mix_def by_xor mul_xor col_xor xor_ac)

lemma enc_word_mix: "enc_word a b c d = mix (col (sub_byte (by3 a)) (sub_byte (by2 b)) (sub_byte (by1 c)) (sub_byte (by0 d)))"
  by (simp add: enc_word_def ix_by te0_col te1_col te2_col te3_col col_xor mix_def xor_ac)

lemma dec_word_mix: "dec_word a b c d = inv_mix (col (inv_sub_byte (by3 a)) (inv_sub_byte (by2 b)) (inv_sub_byte (by1 c)) (inv_sub_byte (by0 d)))"
  by (simp add: dec_word_def ix_by td0_col td1_col td2_col td3_col col_xor inv_mix_def xor_ac)

lemma masks: "col a b c d AND 0xFF000000 = col a 0 0 0" "col a b c d AND 0x00FF0000 = col 0 b 0 0"
  "col a b c d AND 0x0000FF00 = col 0 0 c 0" "col a b c d AND 0x000000FF = col 0 0 0 d"
proof -
  have m: "(0xFF000000 :: u32) = push_bit 24 (mask 8)" "(0x00FF0000 :: u32) = push_bit 16 (mask 8)"
      "(0x0000FF00 :: u32) = push_bit 8 (mask 8)" "(0x000000FF :: u32) = mask 8"
    by (simp_all add: mask_eq_exp_minus_1 push_bit_eq_mult)
  show "col a b c d AND 0xFF000000 = col a 0 0 0" "col a b c d AND 0x00FF0000 = col 0 b 0 0"
    "col a b c d AND 0x0000FF00 = col 0 0 c 0" "col a b c d AND 0x000000FF = col 0 0 0 d"
    unfolding m by (rule bit_word_eqI; auto simp: col_bits bit_simps)+
qed

lemma te4_word_col: "te4_word (unat a) (unat b) (unat c) (unat d) = col (sub_byte a) (sub_byte b) (sub_byte c) (sub_byte d)" for a b c d :: byte
  by (simp add: te4_word_def te4_col masks col_xor)

lemma td4_word_col: "td4_word (unat a) (unat b) (unat c) (unat d) = col (inv_sub_byte a) (inv_sub_byte b) (inv_sub_byte c) (inv_sub_byte d)" for a b c d :: byte
  by (simp add: td4_word_def td4_col masks col_xor)

lemma inv_mix_word_mix: "inv_mix_word k = inv_mix k"
proof -
  have "unat (Te4 ! unat b AND 0xFF) = unat (sub_byte b)" for b :: byte
    by (simp add: te4_col table_index)
  then show ?thesis
    by (simp add: inv_mix_word_def ix_by td0_col td1_col td2_col td3_col col_xor inv_mix_def xor_ac)
qed


section \<open>Decryption undoes encryption\<close>

text \<open>Substitution and row shift of a state, and the mixes of its columns.\<close>

fun sub_rows :: "aes_state \<Rightarrow> aes_state" where
  "sub_rows (s0, s1, s2, s3) =
     (col (sub_byte (by3 s0)) (sub_byte (by2 s1)) (sub_byte (by1 s2)) (sub_byte (by0 s3)), col (sub_byte (by3 s1)) (sub_byte (by2 s2)) (sub_byte (by1 s3)) (sub_byte (by0 s0)),
      col (sub_byte (by3 s2)) (sub_byte (by2 s3)) (sub_byte (by1 s0)) (sub_byte (by0 s1)), col (sub_byte (by3 s3)) (sub_byte (by2 s0)) (sub_byte (by1 s1)) (sub_byte (by0 s2)))"

fun map4 :: "(u32 \<Rightarrow> u32) \<Rightarrow> aes_state \<Rightarrow> aes_state" where
  "map4 f (a, b, c, d) = (f a, f b, f c, f d)"

lemma xor4_cancel [simp]: "xor4 (xor4 s k) k = s"
  by (cases s; cases k) (simp add: xor_ac)

lemma map4_inv_mix: "map4 inv_mix (xor4 s k) = xor4 (map4 inv_mix s) (map4 inv_mix k)" "map4 inv_mix (map4 mix s) = s"
  by (cases s; cases k; simp add: inv_mix_xor inv_mix_mix)+

lemma enc_round_mix: "enc_round s k = xor4 (map4 mix (sub_rows s)) k"
  by (cases s) (simp add: enc_word_mix)

lemma enc_last_rows: "enc_last s k = xor4 (sub_rows s) k"
  by (cases s) (simp add: ix_by te4_word_col)

lemma dec_round_rows: "dec_round (sub_rows s) k = xor4 (map4 inv_mix s) k"
  by (cases s) (simp add: dec_word_mix)

lemma dec_last_rows: "dec_last (sub_rows s) k = xor4 s k"
  by (cases s) (simp add: ix_by td4_word_col)

lemma round_undone: "dec_round (sub_rows (enc_round s k)) (map4 inv_mix k) = sub_rows s"
  by (simp add: dec_round_rows enc_round_mix map4_inv_mix)

lemma keys4_drop: "n \<le> length rk \<Longrightarrow> keys4 (drop n rk) i = keys4 rk (n + i)"
  by (simp add: keys4_def add.assoc)

definition rounds_upto :: "(aes_state \<Rightarrow> aes_state \<Rightarrow> aes_state) \<Rightarrow> (nat \<Rightarrow> aes_state) \<Rightarrow> nat \<Rightarrow> aes_state \<Rightarrow> aes_state" where
  "rounds_upto f K n s = fold (\<lambda>i s. f s (K i)) [1..<Suc n] s"

lemma rounds_upto_simps [simp]: "rounds_upto f K 0 s = s" "rounds_upto f K (Suc n) s = f (rounds_upto f K n s) (K (Suc n))"
  by (simp_all add: rounds_upto_def)

lemma rounds_upto_shift: "rounds_upto f K (n + 2) s = rounds_upto f (\<lambda>i. K (i + 2)) n (f (f s (K 1)) (K 2))"
  by (induction n) (simp_all add: numeral_2_eq_2)

lemma round_loop_upto:
  assumes "0 < r" and "8 * r \<le> length rk"
  shows "round_loop f r rk s = (rounds_upto f (\<lambda>i. keys4 rk (4 * i)) (2 * r - 1) s, drop (8 * r) rk)"
  using assms
proof (induction r arbitrary: rk s)
  case (Suc r)
  show ?case
  proof (cases "r = 0")
    case False
    have "round_loop f (Suc r) rk s = round_loop f r (drop 8 rk) (f (f s (keys4 rk (4 * 1))) (keys4 rk (4 * 2)))"
      using Suc.prems False by (simp add: Let_def keys4_drop)
    also have "\<dots> = (rounds_upto f (\<lambda>i. keys4 rk (4 * (i + 2))) (2 * r - 1) (f (f s (keys4 rk (4 * 1))) (keys4 rk (4 * 2))), drop (8 * Suc r) rk)"
      using Suc.IH [of "drop 8 rk"] Suc.prems False by (simp add: keys4_drop add.commute)
    also have "\<dots> = (rounds_upto f (\<lambda>i. keys4 rk (4 * i)) (2 * r - 1 + 2) s, drop (8 * Suc r) rk)"
      by (simp only: rounds_upto_shift)
    also have "2 * r - 1 + 2 = 2 * Suc r - 1" using False by simp
    finally show ?thesis .
  qed (simp add: rounds_upto_def)
qed simp

lemma decrypt_rounds:
  assumes "\<And>i. 0 < i \<Longrightarrow> i < N \<Longrightarrow> D i = map4 inv_mix (K (N - i))" and "m < N"
  shows "rounds_upto dec_round D m (sub_rows (rounds_upto enc_round K (N - 1) s)) = sub_rows (rounds_upto enc_round K (N - 1 - m) s)"
  using assms(2)
proof (induction m)
  case (Suc m)
  then obtain j where j: "N - 1 - m = Suc j" "N - Suc m = Suc j" "N - 1 - Suc m = j" by (cases "N - 1 - m") auto
  have "D (Suc m) = map4 inv_mix (K (Suc j))" using assms(1) [of "Suc m"] Suc.prems j by simp
  then show ?case using Suc j round_undone by simp
qed simp


section \<open>Schedules\<close>

lemma idx4: "c < 4 \<Longrightarrow> d < 4 \<Longrightarrow> 4 * q + c = 4 * a + d \<longleftrightarrow> q = a \<and> c = (d :: nat)"
proof
  assume h: "c < 4" "d < 4" "4 * q + c = 4 * a + d"
  have "(4 * q + c) div 4 = (4 * a + d) div 4" "(4 * q + c) mod 4 = (4 * a + d) mod 4" using h(3) by simp_all
  then show "q = a \<and> c = d" using h(1,2) by simp
qed simp

lemmas idx4s = idx4 [of 0 1] idx4 [of 0 2] idx4 [of 0 3] idx4 [of 1 0] idx4 [of 1 1] idx4 [of 1 2] idx4 [of 1 3]
  idx4 [of 2 0] idx4 [of 2 1] idx4 [of 2 2] idx4 [of 2 3] idx4 [of 3 0] idx4 [of 3 1] idx4 [of 3 2] idx4 [of 3 3]

lemma length_swap4 [simp]: "length (swap4 i j rk) = length rk"
  by (simp add: swap4_def Let_def)

lemma keys4_swap4:
  assumes "a \<noteq> b" and "4 * a + 4 \<le> length rk" and "4 * b + 4 \<le> length rk" and "4 * q + 4 \<le> length rk"
  shows "keys4 (swap4 (4 * a) (4 * b) rk) (4 * q) = keys4 rk (4 * (if q = a then b else if q = b then a else q))"
  using assms by (auto simp: keys4_def swap4_def Let_def nth_list_update idx4s [simplified])

lemma length_swap_loop [simp]: "length (swap_loop i j rk) = length rk"
  by (induction i j rk rule: swap_loop.induct) (subst swap_loop.simps, simp)

lemma keys4_swap_loop:
  assumes "a + b = N" and "4 * N + 4 \<le> length rk" and "q \<le> N"
  shows "keys4 (swap_loop (4 * a) (4 * b) rk) (4 * q) = keys4 rk (4 * (if a \<le> q \<and> q \<le> b then N - q else q))"
  using assms
proof (induction "b - a" arbitrary: a b rk rule: less_induct)
  case less
  show ?case
  proof (cases "a < b")
    case True
    let ?rk = "swap4 (4 * a) (4 * b) rk"
    have "keys4 (swap_loop (4 * a) (4 * b) rk) (4 * q) = keys4 (swap_loop (4 * Suc a) (4 * (b - 1)) ?rk) (4 * q)"
      using True by (subst swap_loop.simps) (simp add: add.commute diff_mult_distrib2)
    also have "\<dots> = keys4 ?rk (4 * (if Suc a \<le> q \<and> q \<le> b - 1 then N - q else q))"
      by (rule less.hyps) (use True less.prems in auto)
    also have "\<dots> = keys4 rk (4 * (if a \<le> q \<and> q \<le> b then N - q else q))"
      using True less.prems by (subst keys4_swap4) auto
    finally show ?thesis .
  next
    case False
    then have "swap_loop (4 * a) (4 * b) rk = rk" by (subst swap_loop.simps) simp
    moreover have "N - q = q" if "a \<le> q" "q \<le> b" using that False less.prems by linarith
    ultimately show ?thesis by auto
  qed
qed

lemma keys4_inv_mix4:
  assumes "4 * i + 4 \<le> length rk" and "4 * q + 4 \<le> length rk"
  shows "keys4 (inv_mix4 i rk) (4 * q) = (if q = i then map4 inv_mix (keys4 rk (4 * q)) else keys4 rk (4 * q))"
  using assms by (auto simp: keys4_def inv_mix4_def Let_def nth_list_update idx4s [simplified] inv_mix_word_mix)

lemma length_inv_mix4 [simp]: "length (inv_mix4 i rk) = length rk"
  by (simp add: inv_mix4_def Let_def)

lemma length_inv_mix_loop [simp]: "length (fold inv_mix4 is rk) = length rk"
  by (induction "is" arbitrary: rk) simp_all

lemma keys4_inv_mix_loop:
  assumes "4 * n \<le> length rk" and "4 * q + 4 \<le> length rk"
  shows "keys4 (fold inv_mix4 [1..<n] rk) (4 * q) = (if 1 \<le> q \<and> q < n then map4 inv_mix (keys4 rk (4 * q)) else keys4 rk (4 * q))"
  using assms(1)
proof (induction n)
  case (Suc n)
  show ?case
  proof (cases "n = 0")
    case False
    then have "fold inv_mix4 [1..<Suc n] rk = inv_mix4 n (fold inv_mix4 [1..<n] rk)" by simp
    then show ?thesis using Suc False assms(2) by (auto simp: keys4_inv_mix4)
  qed auto
qed simp

lemma fold_length: "(\<And>i xs. i \<in> set is \<Longrightarrow> length (f i xs) = length xs + g i) \<Longrightarrow> length (fold f is xs) = length xs + sum_list (map g is)"
  by (induction "is" arbitrary: xs) simp_all

lemma length_schedule: "length (schedule k bits) = (if bits = 128 then 44 else if bits = 192 then 52 else 60)"
proof -
  have "length (fold key128_step [0..<10] ws) = length ws + 40" for ws
    by (subst fold_length [where g = "\<lambda>_. 4"]) (simp_all add: key128_step_def Let_def upt_rec)
  moreover have "length (fold key192_step [0..<8] ws) = length ws + 46" for ws
    by (subst fold_length [where g = "\<lambda>i. if i + 1 = 8 then 4 else 6"]) (simp_all add: key192_step_def Let_def upt_rec)
  moreover have "length (fold key256_step [0..<7] ws) = length ws + 52" for ws
    by (subst fold_length [where g = "\<lambda>i. if i + 1 = 7 then 4 else 8"]) (simp_all add: key256_step_def Let_def upt_rec)
  ultimately show ?thesis by (simp add: schedule_def key_words_def)
qed


definition key_bits :: "int \<Rightarrow> bool" where
  "key_bits bits \<longleftrightarrow> bits = 128 \<or> bits = 192 \<or> bits = 256"

lemma schedules:
  assumes "key_bits bits"
    and "AES_set_encrypt_key (Some k) bits (Some e0) = (Some ek, re)" and "AES_set_decrypt_key (Some k) bits (Some d0) = (Some dk, rd)"
  shows "rounds dk = rounds ek" and "rounds ek \<in> {10, 12, 14}" and "4 * rounds ek + 4 \<le> length (rd_key ek)" and "4 * rounds ek + 4 \<le> length (rd_key dk)"
    and "q \<le> rounds ek \<Longrightarrow> keys4 (rd_key dk) (4 * q) =
      (if q = 0 \<or> q = rounds ek then keys4 (rd_key ek) (4 * (rounds ek - q)) else map4 inv_mix (keys4 (rd_key ek) (4 * (rounds ek - q))))"
proof -
  define n :: nat where "n = (if bits = 128 then 10 else if bits = 192 then 12 else 14)"
  let ?s = "schedule k bits" and ?d = "schedule k bits @ drop (length (schedule k bits)) (rd_key d0)"
  have ek: "ek = \<lparr>rd_key = ?s @ drop (length ?s) (rd_key e0), rounds = n\<rparr>"
    using assms(1,2) by (auto simp: AES_set_encrypt_key_def key_bits_def Let_def n_def)
  have len: "length ?s = 4 * n + 4" by (simp add: length_schedule n_def)
  have dk: "dk = \<lparr>rd_key = fold inv_mix4 [1..<n] (swap_loop 0 (4 * n) ?d), rounds = n\<rparr>"
    using assms(1,3) by (auto simp: AES_set_decrypt_key_def AES_set_encrypt_key_def key_bits_def Let_def n_def)
  show "rounds dk = rounds ek" "rounds ek \<in> {10, 12, 14}" by (simp_all add: ek dk n_def)
  show "4 * rounds ek + 4 \<le> length (rd_key ek)" "4 * rounds ek + 4 \<le> length (rd_key dk)" using len by (simp_all add: ek dk)
  assume q: "q \<le> rounds ek"
  have eq: "keys4 ?d (4 * j) = keys4 (rd_key ek) (4 * j)" if "j \<le> n" for j
    using that len by (simp add: keys4_def ek nth_append)
  have "keys4 (swap_loop (4 * 0) (4 * n) ?d) (4 * q) = keys4 ?d (4 * (n - q))"
    using keys4_swap_loop [of 0 n n ?d q] q len by (simp add: ek)
  then show "keys4 (rd_key dk) (4 * q) =
      (if q = 0 \<or> q = rounds ek then keys4 (rd_key ek) (4 * (rounds ek - q)) else map4 inv_mix (keys4 (rd_key ek) (4 * (rounds ek - q))))"
    using q len eq [of "n - q"] keys4_inv_mix_loop [of n "swap_loop 0 (4 * n) ?d" q] by (auto simp: dk ek)
qed

lemma load4_store4 [simp]: "load4 (store4 s) = s"
  by (cases s) (simp add: load4_def GETU32_def PUTU32_def)

lemma length_store4 [simp]: "length (store4 s) = 16"
  by (cases s) (simp add: PUTU32_def)

lemma store4_load4: "length b = 16 \<Longrightarrow> store4 (load4 b) = b"
proof -
  assume b: "length b = 16"
  have "take 4 b @ take 4 (drop 4 b) @ take 4 (drop 8 b) @ take 4 (drop 12 b) = b"
  proof -
    have "drop 12 b = take 4 (drop 12 b)" using b by simp
    moreover have "drop 8 b = take 4 (drop 8 b) @ drop 12 b" "drop 4 b = take 4 (drop 4 b) @ drop 8 b"
      using append_take_drop_id [of 4 "drop 8 b"] append_take_drop_id [of 4 "drop 4 b"] by (simp_all add: add.commute)
    ultimately show ?thesis using append_take_drop_id [of 4 b] by simp
  qed
  then show ?thesis using b by (simp add: load4_def GETU32_def PUTU32_def be32_enc_dec)
qed

lemma length_AES [simp]: "length (AES_encrypt b k) = 16" "length (AES_decrypt b k) = 16"
  by (simp_all add: AES_encrypt_def AES_decrypt_def split: prod.split)

text \<open>The block functions in terms of the round functions, for keys the schedules make.\<close>

lemma block_rounds:
  assumes "rounds k \<in> {10, 12, 14}" and "4 * rounds k + 4 \<le> length (rd_key k)"
  defines "K \<equiv> \<lambda>i. keys4 (rd_key k) (4 * i)"
  shows "AES_encrypt b k = store4 (enc_last (rounds_upto enc_round K (rounds k - 1) (xor4 (load4 b) (K 0))) (K (rounds k)))"
    and "AES_decrypt b k = store4 (dec_last (rounds_upto dec_round K (rounds k - 1) (xor4 (load4 b) (K 0))) (K (rounds k)))"
proof -
  let ?r = "rounds k div 2"
  have r: "0 < ?r" "8 * ?r \<le> length (rd_key k)" "2 * ?r - 1 = rounds k - 1" "8 * ?r = 4 * rounds k" using assms(1,2) by auto
  have loop: "round_loop f ?r (rd_key k) s = (rounds_upto f K (rounds k - 1) s, drop (4 * rounds k) (rd_key k))" for f s
    using round_loop_upto [OF r(1,2), of f s] r(3,4) by (simp add: K_def)
  have "keys4 (drop (4 * rounds k) (rd_key k)) 0 = K (rounds k)" using assms(2) by (simp add: K_def keys4_drop)
  then show "AES_encrypt b k = store4 (enc_last (rounds_upto enc_round K (rounds k - 1) (xor4 (load4 b) (K 0))) (K (rounds k)))"
    and "AES_decrypt b k = store4 (dec_last (rounds_upto dec_round K (rounds k - 1) (xor4 (load4 b) (K 0))) (K (rounds k)))"
    by (simp_all add: AES_encrypt_def AES_decrypt_def loop K_def)
qed

lemma block_round_trip:
  assumes "key_bits bits" and "length b = 16"
    and "AES_set_encrypt_key (Some k) bits (Some e0) = (Some ek, re)" and "AES_set_decrypt_key (Some k) bits (Some d0) = (Some dk, rd)"
  shows "AES_decrypt (AES_encrypt b ek) dk = b"
proof -
  let ?N = "rounds ek"
  let ?K = "\<lambda>i. keys4 (rd_key ek) (4 * i)" and ?D = "\<lambda>i. keys4 (rd_key dk) (4 * i)"
  note s = schedules [OF assms(1,3,4)]
  have N: "0 < ?N" using s(2) by auto
  let ?s = "\<lambda>n. rounds_upto enc_round ?K n (xor4 (load4 b) (?K 0))"
  have enc: "AES_encrypt b ek = store4 (xor4 (sub_rows (?s (?N - 1))) (?K ?N))"
    using block_rounds(1) [OF s(2,3)] by (simp add: enc_last_rows)
  have D: "?D 0 = ?K ?N" "?D ?N = ?K 0" "\<And>i. 0 < i \<Longrightarrow> i < ?N \<Longrightarrow> ?D i = map4 inv_mix (?K (?N - i))"
    using s(5) [of 0] s(5) [of ?N] s(5) by auto
  have "AES_decrypt (AES_encrypt b ek) dk = store4 (dec_last (rounds_upto dec_round ?D (?N - 1) (sub_rows (?s (?N - 1)))) (?K 0))"
    using block_rounds(2) [of dk] s(1,2,4) D(1,2) enc by simp
  also have "rounds_upto dec_round ?D (?N - 1) (sub_rows (?s (?N - 1))) = sub_rows (?s 0)"
    using decrypt_rounds [of ?N ?D ?K "?N - 1", OF D(3)] N by simp
  finally show ?thesis using store4_load4 [OF assms(2)] by (simp add: dec_last_rows)
qed


section \<open>The description of the standard\<close>

text \<open>FIPS 197: the state is the list of its 16 bytes column by column.\<close>

definition SubBytes :: "byte list \<Rightarrow> byte list" where
  "SubBytes s = map sub_byte s"

definition ShiftRows :: "byte list \<Rightarrow> byte list" where
  "ShiftRows s = map (\<lambda>i. s ! i) [0, 5, 10, 15, 4, 9, 14, 3, 8, 13, 2, 7, 12, 1, 6, 11]"

fun MixColumns :: "byte list \<Rightarrow> byte list" where
  "MixColumns (a # b # c # d # s) =
     [xtime a XOR mul3 b XOR c XOR d, a XOR xtime b XOR mul3 c XOR d, a XOR b XOR xtime c XOR mul3 d, mul3 a XOR b XOR c XOR xtime d] @ MixColumns s"
| "MixColumns s = s"

definition AddRoundKey :: "byte list \<Rightarrow> u32 list \<Rightarrow> nat \<Rightarrow> byte list" where
  "AddRoundKey s w r = map2 (XOR) s (concat (map be32_enc (take 4 (drop (4 * r) w))))"

definition Cipher :: "byte list \<Rightarrow> u32 list \<Rightarrow> nat \<Rightarrow> byte list" where
  "Cipher inp w nr =
     AddRoundKey (ShiftRows (SubBytes (fold (\<lambda>r s. AddRoundKey (MixColumns (ShiftRows (SubBytes s))) w r) [1..<nr] (AddRoundKey inp w 0)))) w nr"

definition RotWord :: "u32 \<Rightarrow> u32" where
  "RotWord w = col (by2 w) (by1 w) (by0 w) (by3 w)"

definition SubWord :: "u32 \<Rightarrow> u32" where
  "SubWord w = col (sub_byte (by3 w)) (sub_byte (by2 w)) (sub_byte (by1 w)) (sub_byte (by0 w))"

text \<open>\<open>next_word\<close> is the word the standard puts behind \<open>w\<close> for a key of \<open>nk\<close> words.\<close>

definition next_word :: "nat \<Rightarrow> u32 list \<Rightarrow> u32" where
  "next_word nk w =
     (let i = length w; temp = last w in
      w ! (i - nk) XOR
      (if i mod nk = 0 then SubWord (RotWord temp) XOR col ((xtime ^^ (i div nk - 1)) 1) 0 0 0
       else if 6 < nk \<and> i mod nk = 4 then SubWord temp else temp))"

definition KeyExpansion :: "nat \<Rightarrow> nat \<Rightarrow> u32 list \<Rightarrow> u32 list" where
  "KeyExpansion nk nr key = ((\<lambda>w. w @ [next_word nk w]) ^^ (4 * (nr + 1) - nk)) key"

lemma be32_by: "be32_enc a = [by3 a, by2 a, by1 a, by0 a]"
  by (simp add: be32_enc_def le32_enc_def by3_def by2_def by1_def by0_def)

lemma shift_sub: "ShiftRows (SubBytes (store4 s)) = store4 (sub_rows s)"
  by (cases s) (simp add: PUTU32_def be32_by ShiftRows_def SubBytes_def)

lemma mix_columns: "MixColumns (store4 s) = store4 (map4 mix s)"
  by (cases s) (simp add: PUTU32_def be32_by mix_def)

lemma add_round_key:
  assumes "4 * r + 4 \<le> length w"
  shows "AddRoundKey (store4 s) w r = store4 (xor4 s (keys4 w (4 * r)))"
proof -
  have "take 4 (drop (4 * r) w) = [w ! (4 * r), w ! (4 * r + 1), w ! (4 * r + 2), w ! (4 * r + 3)]"
    using assms by (intro nth_equalityI) (auto simp: less_Suc_eq numeral_eq_Suc)
  then show ?thesis
    by (cases s) (simp add: AddRoundKey_def keys4_def PUTU32_def be32_by by_xor)
qed

lemma cipher_rounds:
  assumes "4 * n + 4 \<le> length w"
  shows "fold (\<lambda>r s. AddRoundKey (MixColumns (ShiftRows (SubBytes s))) w r) [1..<Suc n] (store4 s) =
    store4 (rounds_upto enc_round (\<lambda>i. keys4 w (4 * i)) n s)"
  using assms by (induction n) (simp_all add: shift_sub mix_columns add_round_key enc_round_mix)

lemma encrypt_cipher:
  assumes "rounds k \<in> {10, 12, 14}" and "4 * rounds k + 4 \<le> length (rd_key k)" and "length b = 16"
  shows "AES_encrypt b k = Cipher b (rd_key k) (rounds k)"
proof -
  have "Suc (rounds k - 1) = rounds k" using assms(1) by auto
  then show ?thesis
    using cipher_rounds [of "rounds k - 1" "rd_key k"] assms add_round_key [of _ "rd_key k" "load4 b", unfolded store4_load4 [OF assms(3)]]
    by (simp add: block_rounds(1) Cipher_def shift_sub add_round_key enc_last_rows del: upt_Suc)
qed

abbreviation ext :: "nat \<Rightarrow> u32 list \<Rightarrow> u32 list" where
  "ext nk \<equiv> \<lambda>w. w @ [next_word nk w]"

lemma rcon_powers: "map (\<lambda>i. col ((xtime ^^ i) 1) 0 0 0) [0..<10] = rcon"
  by code_simp

lemma rcon_nth: "i < 10 \<Longrightarrow> rcon ! i = col ((xtime ^^ i) 1) 0 0 0"
  by (simp flip: rcon_powers)

lemma rot_sub_word: "rot_sub w = SubWord (RotWord w)" and sub_word_word: "sub_word w = SubWord w"
  by (simp_all add: rot_sub_def sub_word_def SubWord_def RotWord_def ix_by te4_word_col)

text \<open>The next word in the three positions that occur; \<open>ws\<close> is whole groups and \<open>ks\<close> the group begun.\<close>

lemma ext_first:
  assumes "0 < nk" and "length ws = nk * Suc i" and "i < 10"
  shows "ext nk ws = ws @ [ws ! (nk * i) XOR rot_sub (ws ! (nk * i + nk - 1)) XOR rcon ! i]"
proof -
  have "ws \<noteq> []" using assms(1,2) by auto
  then have "last ws = ws ! (nk * i + nk - 1)" using assms(2) by (simp add: last_conv_nth add.commute)
  then show ?thesis using assms by (simp add: next_word_def rot_sub_word rcon_nth xor.assoc)
qed

lemma ext_position:
  assumes "length ws = nk * Suc i" and "length ks = c" and "0 < c" and "c < nk"
  shows "(ws @ ks) ! (length (ws @ ks) - nk) = ws ! (nk * i + c)" and "length (ws @ ks) mod nk = c" and "last (ws @ ks) = last ks"
proof -
  show "(ws @ ks) ! (length (ws @ ks) - nk) = ws ! (nk * i + c)" "last (ws @ ks) = last ks" using assms by (auto simp: nth_append)
  have "length (ws @ ks) = c + nk * Suc i" using assms(1,2) by simp
  then show "length (ws @ ks) mod nk = c" using assms(4) by (simp only: mod_mult_self2 mod_less)
qed

lemma ext_plain:
  assumes "length ws = nk * Suc i" and "length ks = c" and "0 < c" and "c < nk" and "nk \<le> 6 \<or> c \<noteq> 4"
  shows "ext nk (ws @ ks) = ws @ ks @ [ws ! (nk * i + c) XOR last ks]"
proof -
  note pos = ext_position [OF assms(1-4)]
  have "next_word nk (ws @ ks) = ws ! (nk * i + c) XOR last ks"
    unfolding next_word_def Let_def pos using assms(3,5) by auto
  then show ?thesis by simp
qed

lemma ext_mid:
  assumes "length ws = 8 * Suc i" and "length ks = 4"
  shows "ext 8 (ws @ ks) = ws @ ks @ [ws ! (8 * i + 4) XOR sub_word (last ks)]"
proof -
  have "0 < (4 :: nat)" "(4 :: nat) < 8" by simp_all
  note pos = ext_position [OF assms this]
  have "next_word 8 (ws @ ks) = ws ! (8 * i + 4) XOR sub_word (last ks)"
    unfolding next_word_def Let_def pos by (simp add: sub_word_word)
  then show ?thesis by simp
qed

lemma funpow_4: "(f ^^ 4) x = f (f (f (f x)))"
  by (simp add: numeral_eq_Suc)

lemma key128_ext:
  assumes "length ws = 4 * Suc i" and "i < 10" shows "key128_step i ws = (ext 4 ^^ 4) ws"
  using ext_first [of 4 ws i] ext_plain [OF assms(1), of "[_]" 1] ext_plain [OF assms(1), of "[_, _]" 2] ext_plain [OF assms(1), of "[_, _, _]" 3] assms
  by (simp add: key128_step_def Let_def funpow_4 ac_simps)

lemma funpow_2: "(f ^^ 2) x = f (f x)"
  by (simp add: numeral_eq_Suc)

lemma key192_ext:
  assumes "length ws = 6 * Suc i" and "i < 8" shows "key192_step i ws = (ext 6 ^^ (if i = 7 then 4 else 6)) ws"
proof -
  have six: "(ext 6 ^^ 6) ws = (ext 6 ^^ 2) ((ext 6 ^^ 4) ws)" by (simp flip: funpow_add [unfolded comp_def, THEN fun_cong])
  show ?thesis
    using ext_first [of 6 ws i] ext_plain [OF assms(1), of "[_]" 1] ext_plain [OF assms(1), of "[_, _]" 2] ext_plain [OF assms(1), of "[_, _, _]" 3]
      ext_plain [OF assms(1), of "[_, _, _, _]" 4] ext_plain [OF assms(1), of "[_, _, _, _, _]" 5] assms
    by (auto simp: key192_step_def Let_def six funpow_4 funpow_2 ac_simps)
qed

lemma key256_ext:
  assumes "length ws = 8 * Suc i" and "i < 7" shows "key256_step i ws = (ext 8 ^^ (if i = 6 then 4 else 8)) ws"
proof -
  have eight: "(ext 8 ^^ 8) ws = (ext 8 ^^ 4) ((ext 8 ^^ 4) ws)" by (simp flip: funpow_add [unfolded comp_def, THEN fun_cong])
  show ?thesis
    using ext_first [of 8 ws i] ext_plain [OF assms(1), of "[_]" 1] ext_plain [OF assms(1), of "[_, _]" 2] ext_plain [OF assms(1), of "[_, _, _]" 3]
      ext_mid [OF assms(1), of "[_, _, _, _]"] ext_plain [OF assms(1), of "[_, _, _, _, _]" 5] ext_plain [OF assms(1), of "[_, _, _, _, _, _]" 6]
      ext_plain [OF assms(1), of "[_, _, _, _, _, _, _]" 7] assms
    by (auto simp: key256_step_def Let_def eight funpow_4 ac_simps)
qed

lemma length_ext: "length ((ext nk ^^ n) ws) = length ws + n"
  by (induction n) simp_all

lemma fold_ext:
  assumes f: "\<And>i ws. i < n \<Longrightarrow> length ws = nk * Suc i \<Longrightarrow> f i ws = (ext nk ^^ (g i)) ws" and g: "\<And>i. Suc i < n \<Longrightarrow> g i = nk" and ws: "length ws = nk"
    and m: "m < n"
  shows "fold f [0..<Suc m] ws = (ext nk ^^ (nk * m + g m)) ws"
proof -
  have step: "f j ((ext nk ^^ (nk * j)) ws) = (ext nk ^^ g j) ((ext nk ^^ (nk * j)) ws)" if "j < n" for j
    using that by (subst f) (simp_all add: length_ext ws)
  have "fold f [0..<m] ws = (ext nk ^^ (nk * m)) ws"
    using m
  proof (induction m)
    case (Suc m)
    then show ?case using step [of m] g by (simp add: funpow_add)
  qed simp
  then show ?thesis using step [OF m] by (simp add: add.commute funpow_add)
qed

lemma schedule_expansion:
  assumes "key_bits bits"
  shows "schedule k bits = (if bits = 128 then KeyExpansion 4 10 (key_words k 4) else if bits = 192 then KeyExpansion 6 12 (key_words k 6)
    else KeyExpansion 8 14 (key_words k 8))"
proof -
  have len: "length (key_words k n) = n" for n by (simp add: key_words_def)
  have "fold key128_step [0..<Suc 9] (key_words k 4) = (ext 4 ^^ (4 * 9 + 4)) (key_words k 4)"
    by (rule fold_ext [of 10 4 _ "\<lambda>_. 4"]) (simp_all add: key128_ext len)
  moreover have "fold key192_step [0..<Suc 7] (key_words k 6) = (ext 6 ^^ (6 * 7 + (if 7 = (7 :: nat) then 4 else 6))) (key_words k 6)"
    by (rule fold_ext [of 8 6 _ "\<lambda>i. if i = 7 then 4 else 6"]) (simp_all add: key192_ext len)
  moreover have "fold key256_step [0..<Suc 6] (key_words k 8) = (ext 8 ^^ (8 * 6 + (if 6 = (6 :: nat) then 4 else 8))) (key_words k 8)"
    by (rule fold_ext [of 7 8 _ "\<lambda>i. if i = 6 then 4 else 8"]) (simp_all add: key256_ext len)
  ultimately show ?thesis by (simp add: schedule_def KeyExpansion_def del: upt_Suc)
qed

section \<open>Chaining\<close>

locale block16 =
  fixes E :: "byte list \<Rightarrow> byte list" and D :: "byte list \<Rightarrow> byte list"
  assumes length_E: "length (E b) = 16" and D_E: "length b = 16 \<Longrightarrow> D (E b) = b"
begin

lemma length_cbc: "length (fst (cbc_enc E (16 * n) p iv)) = 16 * n"
  by (induction n arbitrary: p iv) (simp_all add: cbc_enc.simps [of E] Let_def split_beta length_E)

text \<open>Whole blocks come back, whatever follows them in the input of the decryption.\<close>

lemma cbc_inverse:
  "length p = 16 * n \<Longrightarrow> length iv = 16 \<Longrightarrow>
   fst (cbc_dec D (16 * n + m) (fst (cbc_enc E (16 * n) p iv) @ rest) iv) =
     p @ fst (cbc_dec D m rest (snd (cbc_enc E (16 * n) p iv)))"
proof (induction n arbitrary: p iv)
  case 0
  then show ?case by (simp add: cbc_enc.simps [of E])
next
  case (Suc n)
  let ?x = "map2 (XOR) (take 16 p) iv"
  let ?c = "E ?x"
  have x: "length ?x = 16" using Suc.prems by simp
  have undo: "map2 (XOR) ?x iv = take 16 p"
    using Suc.prems by (intro nth_equalityI) (simp_all add: xor.assoc)
  have enc: "cbc_enc E (16 * Suc n) p iv = (?c @ fst (cbc_enc E (16 * n) (drop 16 p) ?c), snd (cbc_enc E (16 * n) (drop 16 p) ?c))"
    by (subst cbc_enc.simps) (simp add: Let_def split_beta)
  have dec: "fst (cbc_dec D (16 * Suc n + m) (?c @ y) iv) = map2 (XOR) (D ?c) iv @ fst (cbc_dec D (16 * n + m) y ?c)" for y
    by (subst cbc_dec.simps) (simp add: Let_def split_beta length_E)
  have "fst (cbc_dec D (16 * Suc n + m) (fst (cbc_enc E (16 * Suc n) p iv) @ rest) iv) =
      take 16 p @ fst (cbc_dec D (16 * n + m) (fst (cbc_enc E (16 * n) (drop 16 p) ?c) @ rest) ?c)"
    unfolding enc fst_conv append_assoc dec D_E [OF x] undo ..
  also have "\<dots> = take 16 p @ drop 16 p @ fst (cbc_dec D m rest (snd (cbc_enc E (16 * n) (drop 16 p) ?c)))"
    using Suc.IH [of "drop 16 p" ?c] Suc.prems length_E by simp
  finally show ?case by (simp only: enc snd_conv append_assoc [symmetric] append_take_drop_id)
qed

end

definition aes128_enc_key :: "byte list \<Rightarrow> AES_KEY \<Rightarrow> AES_KEY" where
  "aes128_enc_key k junk = the (fst (AES_set_encrypt_key (Some k) 128 (Some junk)))"

definition aes128_dec_key :: "byte list \<Rightarrow> AES_KEY \<Rightarrow> AES_KEY" where
  "aes128_dec_key k junk = the (fst (AES_set_decrypt_key (Some k) 128 (Some junk)))"

lemma aes128_keys:
  "AES_set_encrypt_key (Some k) 128 (Some junk) = (Some (aes128_enc_key k junk), 0)"
  "AES_set_decrypt_key (Some k) 128 (Some junk) = (Some (aes128_dec_key k junk), 0)"
  by (simp_all add: aes128_enc_key_def aes128_dec_key_def AES_set_encrypt_key_def AES_set_decrypt_key_def Let_def)

interpretation aes128: block16 "\<lambda>b. AES_encrypt b (aes128_enc_key k e)" "\<lambda>b. AES_decrypt b (aes128_dec_key k d)" for k e d
  by unfold_locales (simp_all add: block_round_trip [OF _ _ aes128_keys] key_bits_def)

section \<open>Properties\<close>

lemma add_round_key_append: "4 * r + 4 \<le> length w \<Longrightarrow> AddRoundKey s (w @ x) r = AddRoundKey s w r"
  by (simp add: AddRoundKey_def)

lemma cipher_append:
  assumes "4 * n + 4 \<le> length w" shows "Cipher b (w @ x) n = Cipher b w n"
proof -
  have "fold (\<lambda>r s. AddRoundKey (MixColumns (ShiftRows (SubBytes s))) (w @ x) r) [1..<n] s =
      fold (\<lambda>r s. AddRoundKey (MixColumns (ShiftRows (SubBytes s))) w r) [1..<n] s" for s
    using assms by (intro fold_cong) (auto simp: add_round_key_append)
  then show ?thesis using assms by (simp add: Cipher_def add_round_key_append)
qed

text \<open>
  C31. The table-driven code computes the cipher of the standard: for keys of 128, 192 and
  256 bits the schedule is the standard's key expansion and \<open>AES_encrypt\<close> of a block is the
  standard's sequence of byte substitution, row shift, column mix and key addition.
\<close>

theorem aes_matches_standard:
  assumes "key_bits bits" and "length b = 16" and "nk = (if bits = 128 then 4 else if bits = 192 then 6 else 8)" and "nr = nk + 6"
  shows "\<exists>key. AES_set_encrypt_key (Some k) bits (Some junk) = (Some key, 0) \<and> rounds key = nr \<and>
    take (4 * (nr + 1)) (rd_key key) = KeyExpansion nk nr (key_words k nk) \<and>
    AES_encrypt b key = Cipher b (KeyExpansion nk nr (key_words k nk)) nr"
proof -
  let ?s = "schedule k bits" and ?key = "\<lparr>rd_key = schedule k bits @ drop (length (schedule k bits)) (rd_key junk), rounds = nr\<rparr>"
  have s: "?s = KeyExpansion nk nr (key_words k nk)" using schedule_expansion [OF assms(1)] assms(1,3,4) by (auto simp: key_bits_def)
  have len: "length ?s = 4 * nr + 4" and r: "nr \<in> {10, 12, 14}" using assms(1,3,4) by (auto simp: length_schedule key_bits_def)
  have "AES_set_encrypt_key (Some k) bits (Some junk) = (Some ?key, 0)"
    using assms(1,3,4) by (auto simp: AES_set_encrypt_key_def key_bits_def Let_def)
  moreover have "AES_encrypt b ?key = Cipher b ?s nr"
    using encrypt_cipher [of ?key b] assms(2) r len cipher_append [of nr ?s] by simp
  ultimately show ?thesis using s len by (intro exI [of _ ?key]) simp
qed

text \<open>The example of the standard's appendix for a key of 128 bits.\<close>

definition fips_key :: "byte list" where
  "fips_key = [0x00, 0x01, 0x02, 0x03, 0x04, 0x05, 0x06, 0x07, 0x08, 0x09, 0x0A, 0x0B, 0x0C, 0x0D, 0x0E, 0x0F]"

definition fips_plain :: "byte list" where
  "fips_plain = [0x00, 0x11, 0x22, 0x33, 0x44, 0x55, 0x66, 0x77, 0x88, 0x99, 0xAA, 0xBB, 0xCC, 0xDD, 0xEE, 0xFF]"

theorem aes_matches_standard_witness:
  "\<exists>key. AES_set_encrypt_key (Some fips_key) 128 (Some \<lparr>rd_key = [], rounds = 0\<rparr>) = (Some key, 0) \<and>
    AES_encrypt fips_plain key = Cipher fips_plain (KeyExpansion 4 10 (key_words fips_key 4)) 10"
proof -
  have "key_bits 128" "length fips_plain = 16" by (simp_all add: key_bits_def fips_plain_def)
  from aes_matches_standard [OF this, of 4 10 fips_key "\<lparr>rd_key = [], rounds = 0\<rparr>"] show ?thesis by auto
qed

text \<open>
  C32. CBC decryption with the decryption schedule inverts CBC encryption with the
  encryption schedule of the same key, for 128, 192 and 256 bits and any number of whole
  blocks, also when it runs on over \<open>m\<close> more bytes behind the ciphertext.
\<close>

theorem aes_cbc_round_trip:
  assumes "key_bits bits" and "length p = 16 * n" and "length iv = 16"
    and "AES_set_encrypt_key (Some k) bits (Some e) = (Some ek, re)" and "AES_set_decrypt_key (Some k) bits (Some d) = (Some dk, rd)"
  shows "\<exists>c iv'. AES_cbc_encrypt p (16 * n) ek iv True = (c, iv') \<and> length c = 16 * n \<and>
    (\<forall>m rest. take (16 * n) (fst (AES_cbc_encrypt (c @ rest) (16 * n + m) dk iv False)) = p)"
proof -
  have block: "block16 (\<lambda>b. AES_encrypt b ek) (\<lambda>b. AES_decrypt b dk)"
    by unfold_locales (simp_all add: block_round_trip [OF assms(1) _ assms(4,5)])
  show ?thesis
    using block16.cbc_inverse [OF block assms(2,3)] block16.length_cbc [OF block, of n p iv] assms(2)
    by (intro exI [of _ "fst (cbc_enc (\<lambda>b. AES_encrypt b ek) (16 * n) p iv)"] exI [of _ "snd (cbc_enc (\<lambda>b. AES_encrypt b ek) (16 * n) p iv)"])
       (simp add: AES_cbc_encrypt_def)
qed

theorem aes_cbc_round_trip_witness:
  "\<exists>c iv'. AES_cbc_encrypt (fips_plain @ fips_plain) 32 (aes128_enc_key fips_key \<lparr>rd_key = [], rounds = 0\<rparr>) fips_key True = (c, iv') \<and>
    take 32 (fst (AES_cbc_encrypt (c @ [1, 2, 3]) 32 (aes128_dec_key fips_key \<lparr>rd_key = [], rounds = 0\<rparr>) fips_key False)) = fips_plain @ fips_plain"
proof -
  have len: "length (fips_plain @ fips_plain) = 16 * 2" "length fips_key = 16" by (simp_all add: fips_plain_def fips_key_def)
  have "key_bits 128" by (simp add: key_bits_def)
  from aes_cbc_round_trip [OF this len aes128_keys [of fips_key, where junk = "\<lparr>rd_key = [], rounds = 0\<rparr>"]]
  obtain c iv' where "AES_cbc_encrypt (fips_plain @ fips_plain) (16 * 2) (aes128_enc_key fips_key \<lparr>rd_key = [], rounds = 0\<rparr>) fips_key True = (c, iv')"
    and "\<And>m rest. take (16 * 2) (fst (AES_cbc_encrypt (c @ rest) (16 * 2 + m) (aes128_dec_key fips_key \<lparr>rd_key = [], rounds = 0\<rparr>) fips_key False)) = fips_plain @ fips_plain"
    by blast
  from this(1) this(2) [of "[1, 2, 3]" 0] show ?thesis by simp
qed

end
