(* ===== verification/Rpc_Buffer.thy ===== *)
theory Rpc_Buffer
  imports Tea Aes
begin

text \<open>
  The serialisation buffer of \<open>rpcprovider/rpc_buffer.c\<close> and the two crypt wrappers of
  \<open>rpcprovider/rpc_crypt.c\<close> it calls: creation, cloning, framed append and parse, in-place
  encryption and decryption. A pointer argument is the memory it points to (\<open>None\<close> for
  NULL); every access goes through the bounds of the block it hits.
\<close>

section \<open>Data\<close>

record rpc_buffer =
  chunk :: mem
  chunk_size :: int
  chunk_used :: int
  parse_position :: int

text \<open>\<open>rpc_crypt_type\<close>; the six-bit field of the wire can hold values the enum does not name.\<close>

datatype rpc_crypt_type = crypt_type_none | crypt_type_aes | crypt_type_tea | crypt_type_other nat

definition RPC_BUFFER_DEF_GROW_SIZE :: int where
  "RPC_BUFFER_DEF_GROW_SIZE = 64"

definition rpc_pri_key :: "byte list" where
  "rpc_pri_key = [0x33, 0x37, 0x44, 0x31, 0x31, 0x32, 0x32, 0x33,
                  0x32, 0x42, 0x42, 0x41, 0x34, 0x64, 0x34, 0x65]"

text \<open>
  What the crypt code takes from its surroundings: indeterminate stack and heap bytes and
  the results of \<open>rand()\<close>.
\<close>

record crypt_env =
  env_stack :: "byte list"
  env_rand :: "byte \<times> byte \<times> byte \<times> byte"
  env_junk :: "nat \<Rightarrow> byte"

section \<open>Operations\<close>

definition rpc_buffer_new :: "mem option \<Rightarrow> int \<Rightarrow> rpc_buffer option res" where
  "rpc_buffer_new inp sz =
     (case inp of
        None \<Rightarrow> Inr None
      | Some src \<Rightarrow>
        if sz = 0 then Inr None
        else bindR (if sz < 0 then mem_strlen src else Inr sz) (\<lambda>sz.
          let csize = sz + 1 + RPC_BUFFER_DEF_GROW_SIZE in
          bindR (mem_read src 0 sz) (\<lambda>data.
          bindR (mem_write (mem_alloc csize) 0 data) (\<lambda>m.
          bindR (mem_write m sz [0]) (\<lambda>m.
          Inr (Some \<lparr>chunk = m, chunk_size = csize, chunk_used = sz, parse_position = 0\<rparr>))))))"

definition rpc_buffer_get_buffer :: "rpc_buffer \<Rightarrow> mem" where
  "rpc_buffer_get_buffer b = chunk b"

definition rpc_buffer_get_size :: "rpc_buffer \<Rightarrow> int" where
  "rpc_buffer_get_size b = chunk_used b"

definition rpc_buffer_clone :: "rpc_buffer \<Rightarrow> rpc_buffer option res" where
  "rpc_buffer_clone b = rpc_buffer_new (Some (rpc_buffer_get_buffer b)) (rpc_buffer_get_size b)"

definition rpc_buffer_rewind :: "rpc_buffer \<Rightarrow> rpc_buffer" where
  "rpc_buffer_rewind b = b\<lparr>parse_position := 0\<rparr>"

text \<open>
  \<open>rpc_aes_crypt\<close>: pads \<open>inlen + 1\<close> up to the AES block size and runs CBC over that many
  bytes of the input, which may reach behind the data proper.
\<close>

definition aes_padded :: "int \<Rightarrow> int" where
  "aes_padded inlen = (if c_mod (inlen + 1) 16 = 0 then inlen + 1 else (c_div (inlen + 1) 16 + 1) * 16)"

definition aes_iv :: "byte list" where
  "aes_iv = [0x35, 0x36, 0x32, 0x37, 0x41, 0x36, 0x41, 0x36, 0x36, 0x37, 0x41, 0x37, 0x37, 0x39, 0x42, 0x46]"

text \<open>The key structure on the stack; the schedules set what is read of it.\<close>

definition stack_key :: "crypt_env \<Rightarrow> AES_KEY" where
  "stack_key env = \<lparr>rd_key = map (\<lambda>i. ucast (env_junk env i)) [0..<60], rounds = unat (env_junk env 60)\<rparr>"

definition rpc_aes_crypt :: "crypt_env \<Rightarrow> mem \<Rightarrow> int \<Rightarrow> int \<Rightarrow> byte list \<Rightarrow> bool \<Rightarrow> (mem \<times> int) res" where
  "rpc_aes_crypt env src off inlen key enc =
     (let len = aes_padded inlen;
          aes = the (fst (if enc then AES_set_encrypt_key (Some key) 128 (Some (stack_key env))
                          else AES_set_decrypt_key (Some key) 128 (Some (stack_key env)))) in
      bindR (mem_peek (env_junk env) src off len) (\<lambda>data.
      bindR (mem_write (replicate (nat len) (Some 0)) 0 (fst (AES_cbc_encrypt data (nat len) aes aes_iv enc))) (\<lambda>out.
      Inr (out, len))))"

text \<open>
  \<open>rpc_tea_crypt\<close>: allocates \<open>inlen + 32\<close> bytes and ignores the return code of \<open>crypt\<close>.
  A non-positive length reads nothing: \<open>qq_decrypt\<close> rejects it before it looks at the input.
\<close>

definition rpc_tea_crypt :: "crypt_env \<Rightarrow> mem \<Rightarrow> int \<Rightarrow> int \<Rightarrow> byte list \<Rightarrow> bool \<Rightarrow> (mem \<times> int) res" where
  "rpc_tea_crypt env src off inlen key enc =
     bindR (if inlen \<le> 0 then Inr [] else mem_read src off inlen) (\<lambda>data.
       case tea_crypt_fn (env_stack env) (env_rand env) (if enc then 1 else 0) data key (inlen + 32) of
         (r, outlen, bytes) \<Rightarrow>
           bindR (mem_write (mem_alloc (inlen + 32)) 0 bytes) (\<lambda>out. Inr (out, outlen)))"

definition rpc_buffer_crypt :: "crypt_env \<Rightarrow> rpc_buffer \<Rightarrow> int \<Rightarrow> int \<Rightarrow> rpc_crypt_type \<Rightarrow> bool \<Rightarrow> (mem \<times> int) option res" where
  "rpc_buffer_crypt env b off inlen type enc =
     (case type of
        crypt_type_aes \<Rightarrow> bindR (rpc_aes_crypt env (chunk b) off inlen rpc_pri_key enc) (\<lambda>r. Inr (Some r))
      | crypt_type_tea \<Rightarrow> bindR (rpc_tea_crypt env (chunk b) off inlen rpc_pri_key enc) (\<lambda>r. Inr (Some r))
      | _ \<Rightarrow> Inr None)"

text \<open>The first four bytes of an encrypted buffer tell the size before encryption.\<close>

definition rpc_buffer_encrypt :: "crypt_env \<Rightarrow> rpc_buffer \<Rightarrow> rpc_crypt_type \<Rightarrow> rpc_buffer res" where
  "rpc_buffer_encrypt env b type =
     (if type = crypt_type_none then Inr b
      else bindR (rpc_buffer_crypt env b 0 (chunk_used b) type True) (\<lambda>r. case r of
        None \<Rightarrow> Inr b
      | Some (enc, enc_size) \<Rightarrow>
        let b = (if chunk_size b - 4 < enc_size
                 then b\<lparr>chunk_size := enc_size + 4 + 1, chunk := mem_alloc (enc_size + 4 + 1)\<rparr> else b) in
        bindR (mem_write (chunk b) 0 (int32_enc (chunk_used b))) (\<lambda>m.
        bindR (mem_read enc 0 enc_size) (\<lambda>data.
        bindR (mem_write m 4 data) (\<lambda>m.
        Inr (b\<lparr>chunk := m, chunk_used := enc_size + 4\<rparr>))))))"

definition rpc_buffer_decrypt :: "crypt_env \<Rightarrow> rpc_buffer \<Rightarrow> rpc_crypt_type \<Rightarrow> rpc_buffer res" where
  "rpc_buffer_decrypt env b type =
     (if type = crypt_type_none then Inr b
      else bindR (rpc_buffer_crypt env b 4 (chunk_used b - 4) type False) (\<lambda>r. case r of
        None \<Rightarrow> Inr b
      | Some (dec, decsize) \<Rightarrow>
        let b = (if chunk_size b - 4 < decsize
                 then b\<lparr>chunk_size := decsize - 4 + 1, chunk := mem_alloc (decsize - 4 + 1)\<rparr> else b) in
        bindR (mem_read (chunk b) 0 4) (\<lambda>hdr.
        let used = int32_dec hdr in
        bindR (mem_read dec 0 used) (\<lambda>data.
        bindR (mem_write (chunk b) 0 data) (\<lambda>m.
        Inr (b\<lparr>chunk := m, chunk_used := used\<rparr>))))))"

definition rpc_buffer_append :: "rpc_buffer option \<Rightarrow> mem \<Rightarrow> int \<Rightarrow> rpc_buffer res" where
  "rpc_buffer_append buffer inp sz =
     bindR (if sz \<le> 0 then mem_strlen inp else Inr sz) (\<lambda>sz.
     let b = (case buffer of
                None \<Rightarrow> \<lparr>chunk = mem_alloc (RPC_BUFFER_DEF_GROW_SIZE + sz),
                         chunk_size = RPC_BUFFER_DEF_GROW_SIZE + sz,
                         chunk_used = 0, parse_position = 0\<rparr>
              | Some b \<Rightarrow> b) in
     bindR (if chunk_used b + sz > chunk_size b
            then (let csize = chunk_used b + sz + RPC_BUFFER_DEF_GROW_SIZE in
                  bindR (mem_read (chunk b) 0 (chunk_used b)) (\<lambda>old.
                  bindR (mem_write (mem_alloc csize) 0 old) (\<lambda>m.
                  Inr (b\<lparr>chunk_size := csize, chunk := m\<rparr>))))
            else Inr b) (\<lambda>b.
     bindR (mem_write (chunk b) (chunk_used b) (int32_enc sz)) (\<lambda>m.
     bindR (mem_read inp 0 sz) (\<lambda>data.
     bindR (mem_write m (chunk_used b + 4) data) (\<lambda>m.
     Inr (b\<lparr>chunk := m, chunk_used := chunk_used b + 4 + sz\<rparr>))))))"

text \<open>
  \<open>rpc_buffer_next\<close>: the result is the updated buffer and, unless it is NULL, the
  returned pointer as an offset into the chunk together with \<open>*size\<close>.
\<close>

definition rpc_buffer_next :: "rpc_buffer \<Rightarrow> (rpc_buffer \<times> (int \<times> int) option) res" where
  "rpc_buffer_next b =
     (if parse_position b + 2 \<ge> chunk_used b then Inr (b, None)
      else bindR (mem_read (chunk b) (parse_position b) 4) (\<lambda>hdr.
        let bufsize = int32_dec hdr in
        if bufsize = 0 then Inr (b, None)
        else if bufsize > chunk_used b - parse_position b then Inr (b, None)
        else Inr (b\<lparr>parse_position := parse_position b + 4 + bufsize\<rparr>,
                  Some (parse_position b + 4, bufsize))))"

section \<open>What a buffer holds\<close>

text \<open>The invariant of a buffer, indexed by its payload.\<close>

definition buf_has :: "rpc_buffer \<Rightarrow> byte list \<Rightarrow> bool" where
  "buf_has b p \<longleftrightarrow> chunk_size b = int (length (chunk b)) \<and> chunk_used b = int (length p) \<and>
                   mem_has (chunk b) 0 p"

definition frame :: "byte list \<Rightarrow> byte list" where
  "frame d = int32_enc (int (length d)) @ d"

lemma length_frame [simp]: "length (frame d) = 4 + length d"
  by (simp add: frame_def)

lemma mem_write_has:
  assumes "mem_has m 0 p" and "length p + length bs \<le> length m"
  shows "\<exists>m'. mem_write m (int (length p)) bs = Inr m' \<and> mem_has m' 0 (p @ bs) \<and> length m' = length m"
proof -
  obtain m' where m': "mem_write m (int (length p)) bs = Inr m'"
    using assms(2) by (simp add: mem_write_ok)
  then show ?thesis
    using mem_has_write_before [OF m' assms(1)] mem_has_write [OF m'] length_mem_write [OF m']
    by (simp add: mem_has_append)
qed

lemma mem_write_at_0:
  "length bs \<le> length m \<Longrightarrow>
   \<exists>m'. mem_write m 0 bs = Inr m' \<and> mem_has m' 0 bs \<and> length m' = length m"
  using mem_write_has [of m "[]" bs] by simp

lemma rpc_buffer_new_ok:
  assumes "mem_has src 0 d" and "d \<noteq> []"
  shows "\<exists>b. rpc_buffer_new (Some src) (int (length d)) = Inr (Some b) \<and> buf_has b d \<and> parse_position b = 0"
proof -
  let ?m = "mem_alloc (int (length d) + 1 + RPC_BUFFER_DEF_GROW_SIZE)"
  have len: "length ?m = length d + 65"
    by (simp add: RPC_BUFFER_DEF_GROW_SIZE_def nat_add_distrib)
  obtain m1 where m1: "mem_write ?m 0 d = Inr m1" "mem_has m1 0 d" "length m1 = length d + 65"
    using mem_write_at_0 [of d ?m] len by auto
  obtain m2 where m2: "mem_write m1 (int (length d)) [0] = Inr m2" "mem_has m2 0 (d @ [0])" "length m2 = length d + 65"
    using mem_write_has [OF m1(2), of "[0]"] m1(3) by auto
  show ?thesis
    using assms m1(1) m2 mem_read_has [OF assms(1)]
    by (simp add: rpc_buffer_new_def buf_has_def mem_has_append Let_def RPC_BUFFER_DEF_GROW_SIZE_def)
qed

lemma rpc_buffer_clone_ok:
  assumes "buf_has b p" and "p \<noteq> []"
  shows "\<exists>b'. rpc_buffer_clone b = Inr (Some b') \<and> buf_has b' p \<and> parse_position b' = 0"
  using rpc_buffer_new_ok [of "chunk b" p] assms
  by (simp add: rpc_buffer_clone_def rpc_buffer_get_buffer_def rpc_buffer_get_size_def buf_has_def)

section \<open>Framed append and parse\<close>

text \<open>The tail of \<open>rpc_buffer_append\<close>: the header and the data are written behind the payload.\<close>

lemma append_write:
  assumes b: "buf_has b p" and inp: "mem_has inp 0 d"
  shows "bindR (mem_write (chunk b) (chunk_used b) (int32_enc (int (length d)))) (\<lambda>m.
         bindR (mem_read inp 0 (int (length d))) (\<lambda>data.
         bindR (mem_write m (chunk_used b + 4) data) (\<lambda>m.
         Inr (b\<lparr>chunk := m, chunk_used := chunk_used b + 4 + int (length d)\<rparr>)))) = r \<Longrightarrow>
         (if length p + 4 + length d \<le> length (chunk b)
          then \<exists>b'. r = Inr b' \<and> buf_has b' (p @ frame d) \<and> parse_position b' = parse_position b \<and>
                    chunk_size b' = chunk_size b
          else r = Inl OutOfBounds)" (is "?e = r \<Longrightarrow> _")
proof -
  assume r: "?e = r"
  note rd = mem_read_has [OF inp, simplified]
  show ?thesis
  proof (cases "length p + 4 \<le> length (chunk b)")
    case True
    then obtain m1 where m1: "mem_write (chunk b) (int (length p)) (int32_enc (int (length d))) = Inr m1"
      "mem_has m1 0 (p @ int32_enc (int (length d)))" "length m1 = length (chunk b)"
      using mem_write_has [of "chunk b" p "int32_enc (int (length d))"] b by (auto simp: buf_has_def)
    show ?thesis
    proof (cases "length p + 4 + length d \<le> length (chunk b)")
      case fits: True
      then obtain m2 where "mem_write m1 (int (length p) + 4) d = Inr m2"
        "mem_has m2 0 (p @ frame d)" "length m2 = length (chunk b)"
        using mem_write_has [OF m1(2), of d] m1(3) by (auto simp: frame_def add.commute)
      then show ?thesis
        using fits r b rd m1(1) by (auto simp: buf_has_def)
    next
      case False
      then have "mem_write m1 (int (length p) + 4) d = Inl OutOfBounds"
        using m1(3) by (intro mem_write_oob) simp
      then show ?thesis
        using False r b rd m1(1) by (simp add: buf_has_def)
    qed
  next
    case False
    then have "mem_write (chunk b) (int (length p)) (int32_enc (int (length d))) = Inl OutOfBounds"
      by (intro mem_write_oob) simp
    then show ?thesis
      using False r b by (simp add: buf_has_def)
  qed
qed

lemma append_room:
  assumes b: "buf_has b p" and inp: "mem_has inp 0 d" and d: "d \<noteq> []"
  defines "overrun \<equiv> int (length p + length d) \<le> chunk_size b \<and> chunk_size b < int (length p + length d + 4)"
  shows "if overrun then rpc_buffer_append (Some b) inp (int (length d)) = Inl OutOfBounds
         else \<exists>b'. rpc_buffer_append (Some b) inp (int (length d)) = Inr b' \<and>
                   buf_has b' (p @ frame d) \<and> parse_position b' = parse_position b"
proof (cases "chunk_used b + int (length d) > chunk_size b")
  case grow: True
  let ?cs = "int (length p) + int (length d) + RPC_BUFFER_DEF_GROW_SIZE"
  have len: "length (mem_alloc ?cs) = length p + length d + 64"
    by (simp add: RPC_BUFFER_DEF_GROW_SIZE_def nat_add_distrib)
  obtain m where m: "mem_write (mem_alloc ?cs) 0 p = Inr m" "mem_has m 0 p" "length m = length p + length d + 64"
    using mem_write_at_0 [of p "mem_alloc ?cs"] len by auto
  let ?b = "b\<lparr>chunk_size := ?cs, chunk := m\<rparr>"
  have b': "buf_has ?b p"
    using b m by (simp add: buf_has_def RPC_BUFFER_DEF_GROW_SIZE_def)
  have rd: "mem_read (chunk b) 0 (chunk_used b) = Inr p"
    using b mem_read_has [of "chunk b" 0 p] by (simp add: buf_has_def)
  have "\<not> overrun"
    using grow b by (simp add: overrun_def buf_has_def)
  moreover have "\<exists>b'. rpc_buffer_append (Some b) inp (int (length d)) = Inr b' \<and>
                   buf_has b' (p @ frame d) \<and> parse_position b' = parse_position ?b"
    using append_write [OF b' inp] grow d b m(1,3) rd
    by (auto simp: rpc_buffer_append_def Let_def buf_has_def)
  ultimately show ?thesis by simp
next
  case False
  then have "length p + length d \<le> length (chunk b)"
    using b by (simp add: buf_has_def)
  then show ?thesis
    using append_write [OF b inp] False d b
    by (auto simp: rpc_buffer_append_def Let_def buf_has_def overrun_def)
qed

lemma append_fresh:
  assumes inp: "mem_has inp 0 d" and d: "d \<noteq> []"
  shows "\<exists>b'. rpc_buffer_append None inp (int (length d)) = Inr b' \<and> buf_has b' (frame d) \<and>
              parse_position b' = 0"
proof -
  let ?b = "\<lparr>chunk = mem_alloc (RPC_BUFFER_DEF_GROW_SIZE + int (length d)),
             chunk_size = RPC_BUFFER_DEF_GROW_SIZE + int (length d), chunk_used = 0, parse_position = 0\<rparr>"
  have b: "buf_has ?b []"
    by (simp add: buf_has_def RPC_BUFFER_DEF_GROW_SIZE_def nat_add_distrib)
  have len: "length (mem_alloc (RPC_BUFFER_DEF_GROW_SIZE + int (length d))) = 64 + length d"
    by (simp add: RPC_BUFFER_DEF_GROW_SIZE_def nat_add_distrib)
  show ?thesis
    using append_write [OF b inp] d len
    by (auto simp: rpc_buffer_append_def Let_def RPC_BUFFER_DEF_GROW_SIZE_def)
qed

lemma next_frame:
  assumes b: "buf_has b (pre @ frame d @ post)" and pos: "parse_position b = int (length pre)"
    and d: "d \<noteq> []" "length d < 2 ^ 31"
  shows "rpc_buffer_next b
         = Inr (b\<lparr>parse_position := int (length pre + 4 + length d)\<rparr>, Some (int (length pre) + 4, int (length d)))"
proof -
  have "mem_has (chunk b) (length pre) (int32_enc (int (length d)) @ d @ post)"
    using b by (simp add: buf_has_def mem_has_append frame_def)
  then have "mem_read (chunk b) (int (length pre)) 4 = Inr (int32_enc (int (length d)))"
    using mem_read_part by fastforce
  with b pos d show ?thesis
    by (simp add: rpc_buffer_next_def buf_has_def int32_dec_enc_nat Let_def)
qed

lemma next_end: "buf_has b p \<Longrightarrow> parse_position b = int (length p) \<Longrightarrow> rpc_buffer_next b = Inr (b, None)"
  by (simp add: rpc_buffer_next_def buf_has_def)

section \<open>Encryption in place\<close>

lemma length_qq_encrypt:
  assumes "length stack = 8"
  shows "length (qq_encrypt stack rnd d key) = length d + 10 + header_pad (length d)"
proof -
  let ?s = "tea_stream rnd d"
  have "8 * (length ?s div 8) = length ?s"
    using length_tea_stream_mod [of rnd d] by (simp add: mod_eq_0_iff_dvd)
  then show ?thesis
    using tea.length_chain_out [of "length ?s div 8" ?s key] assms
    by (simp add: qq_encrypt_chain length_tea_stream)
qed

lemma tea_crypt_encrypts:
  assumes "mem_has src 0 d" and "d \<noteq> []" and "length (env_stack env) = 8"
    and c_def: "c = qq_encrypt (env_stack env) (env_rand env) d key"
  shows "\<exists>out. rpc_tea_crypt env src 0 (int (length d)) key True = Inr (out, int (length c)) \<and> mem_has out 0 c"
proof -
  have "length c \<le> length (mem_alloc (int (length d) + 32))"
    using header_pad_lt [of "length d"] assms(3) by (simp add: c_def length_qq_encrypt nat_add_distrib)
  from mem_write_at_0 [OF this] show ?thesis
    using assms(2) mem_read_has [OF assms(1)]
    by (auto simp: rpc_tea_crypt_def tea_crypt_fn_def c_def Let_def)
qed

lemma tea_crypt_decrypts:
  assumes "mem_has src 4 c" and "c = qq_encrypt stack rnd d key" and "length stack = 8"
  shows "\<exists>out. rpc_tea_crypt env src 4 (int (length c)) key False = Inr (out, int (length d)) \<and> mem_has out 0 d"
proof -
  have len: "length c = length d + 10 + header_pad (length d)"
    using assms(2,3) by (simp add: length_qq_encrypt)
  have dec: "qq_decrypt c key (int (length c) + 32) = (1, int (length d), d)"
    unfolding assms(2) qq_encrypt_chain [OF assms(3)]
    by (rule qq_decrypt_stream [OF refl]) (use len assms(2,3) in \<open>simp add: qq_encrypt_chain\<close>)
  have "length d \<le> length (mem_alloc (int (length c) + 32))"
    using len by (simp add: nat_add_distrib)
  from mem_write_at_0 [OF this] show ?thesis
    using mem_read_has [OF assms(1)] dec len
    by (auto simp: rpc_tea_crypt_def tea_crypt_fn_def)
qed

text \<open>The two buffer operations around a cipher that has produced its output.\<close>

lemma buffer_encrypt_with:
  assumes b: "buf_has b p" and ty: "type \<noteq> crypt_type_none"
    and out: "rpc_buffer_crypt env b 0 (int (length p)) type True = Inr (Some (out, int (length c)))" "mem_has out 0 c"
  shows "\<exists>b'. rpc_buffer_encrypt env b type = Inr b' \<and> buf_has b' (int32_enc (int (length p)) @ c)"
proof -
  have used: "chunk_used b = int (length p)" and csz: "chunk_size b = int (length (chunk b))"
    using b by (simp_all add: buf_has_def)
  define b1 where "b1 = (if chunk_size b - 4 < int (length c)
     then b\<lparr>chunk_size := int (length c) + 4 + 1, chunk := mem_alloc (int (length c) + 4 + 1)\<rparr> else b)"
  have b1: "4 + length c \<le> length (chunk b1)" "chunk_size b1 = int (length (chunk b1))" "chunk_used b1 = int (length p)"
    using csz used by (auto simp: b1_def nat_add_distrib)
  obtain m1 where m1: "mem_write (chunk b1) 0 (int32_enc (int (length p))) = Inr m1"
    "mem_has m1 0 (int32_enc (int (length p)))" "length m1 = length (chunk b1)"
    using mem_write_at_0 [of "int32_enc (int (length p))" "chunk b1"] b1(1) by auto
  obtain m2 where m2: "mem_write m1 4 c = Inr m2" "mem_has m2 0 (int32_enc (int (length p)) @ c)"
    "length m2 = length (chunk b1)"
    using mem_write_has [OF m1(2), of c] m1(3) b1(1) by auto
  have "rpc_buffer_encrypt env b type = Inr (b1\<lparr>chunk := m2, chunk_used := int (length c) + 4\<rparr>)"
    unfolding rpc_buffer_encrypt_def used
    using out ty m1(1) m2(1) b1(3) mem_read_has [OF out(2)]
    by (simp add: b1_def [symmetric] Let_def)
  then show ?thesis
    using m2 b1 by (simp add: buf_has_def)
qed

lemma buffer_decrypt_with:
  assumes b: "buf_has b (int32_enc (int (length p)) @ c)" and ty: "type \<noteq> crypt_type_none" and p: "length p < 2 ^ 31"
    and out: "rpc_buffer_crypt env b 4 (int (length c)) type False = Inr (Some (out, n))" "mem_has out 0 p"
    and room: "n \<le> chunk_size b - 4" "length p \<le> length (chunk b)"
  shows "\<exists>b'. rpc_buffer_decrypt env b type = Inr b' \<and> buf_has b' p"
proof -
  have hdr: "mem_has (chunk b) 0 (int32_enc (int (length p)))"
    and used: "chunk_used b - 4 = int (length c)" and csz: "chunk_size b = int (length (chunk b))"
    using b by (simp_all add: buf_has_def mem_has_append)
  obtain m where m: "mem_write (chunk b) 0 p = Inr m" "mem_has m 0 p" "length m = length (chunk b)"
    using mem_write_at_0 [of p "chunk b"] room by auto
  have "rpc_buffer_decrypt env b type = Inr (b\<lparr>chunk := m, chunk_used := int (length p)\<rparr>)"
    unfolding rpc_buffer_decrypt_def used
    using out ty m(1) room mem_read_has [OF out(2)] mem_read_has [OF hdr] int32_dec_enc_nat [OF p]
    by (simp add: Let_def)
  then show ?thesis
    using m csz by (simp add: buf_has_def)
qed

lemma buffer_encrypt_tea:
  assumes b: "buf_has b p" and p: "p \<noteq> []" and env: "length (env_stack env) = 8"
  defines "c \<equiv> qq_encrypt (env_stack env) (env_rand env) p rpc_pri_key"
  shows "\<exists>b'. rpc_buffer_encrypt env b crypt_type_tea = Inr b' \<and>
              buf_has b' (int32_enc (int (length p)) @ c)"
proof -
  have src: "mem_has (chunk b) 0 p" using b by (simp add: buf_has_def)
  obtain out where "rpc_tea_crypt env (chunk b) 0 (int (length p)) rpc_pri_key True = Inr (out, int (length c))" "mem_has out 0 c"
    using tea_crypt_encrypts [OF src p env refl] unfolding c_def by blast
  then show ?thesis by (intro buffer_encrypt_with [OF b, of _ env out]) (simp_all add: rpc_buffer_crypt_def)
qed

lemma buffer_decrypt_tea:
  assumes b: "buf_has b (int32_enc (int (length p)) @ c)" and c: "c = qq_encrypt stack rnd p rpc_pri_key"
    and stack: "length stack = 8" and p: "length p < 2 ^ 31"
  shows "\<exists>b'. rpc_buffer_decrypt env b crypt_type_tea = Inr b' \<and> buf_has b' p"
proof -
  have src: "mem_has (chunk b) 4 c" and csz: "chunk_size b = int (length (chunk b))"
    and room: "4 + length c \<le> length (chunk b)"
    using b by (simp_all add: buf_has_def mem_has_append) (simp add: mem_has_def)
  have len: "length p \<le> length c"
    using c stack by (simp add: length_qq_encrypt)
  obtain out where "rpc_tea_crypt env (chunk b) 4 (int (length c)) rpc_pri_key False = Inr (out, int (length p))" "mem_has out 0 p"
    using tea_crypt_decrypts [OF src c stack] by blast
  then show ?thesis
    using csz room len by (intro buffer_decrypt_with [OF b _ p, of _ env out "int (length p)"]) (simp_all add: rpc_buffer_crypt_def)
qed

section \<open>AES\<close>

lemma aes_padded_nat: "aes_padded (int n) = int (if (n + 1) mod 16 = 0 then n + 1 else ((n + 1) div 16 + 1) * 16)"
proof -
  have "int n + 1 = int (n + 1)" by simp
  moreover have "c_mod (int (n + 1)) 16 = int ((n + 1) mod 16)" "c_div (int (n + 1)) 16 = int ((n + 1) div 16)"
    by (simp_all only: c_mod_nonneg c_div_nonneg of_nat_0_le_iff zero_less_numeral of_nat_mod of_nat_div of_nat_numeral)
  ultimately show ?thesis unfolding aes_padded_def by (simp only: of_nat_eq_0_iff split: if_split) simp
qed

lemma aes_padded_blocks: "\<exists>k. aes_padded (int n) = int (16 * k) \<and> n < 16 * k \<and> 16 * k \<le> n + 16"
proof (cases "(n + 1) mod 16 = 0")
  case True
  then obtain k where "n + 1 = 16 * k" by auto
  then show ?thesis using True by (intro exI [of _ k]) (simp only: aes_padded_nat if_True, simp)
next
  case False
  then have "n < 16 * ((n + 1) div 16 + 1)" "16 * ((n + 1) div 16 + 1) \<le> n + 16" by presburger+
  then show ?thesis using False by (intro exI [of _ "(n + 1) div 16 + 1"]) (simp only: aes_padded_nat if_False, simp)
qed

lemma nat_16 [simp]: "nat (16 * int k) = 16 * k"
  by (simp add: nat_mult_distrib)

lemma mem_peek_has:
  assumes "mem_has m k p" and "k + n \<le> length m" and "length p \<le> n"
  shows "\<exists>t. mem_peek junk m (int k) (int n) = Inr (p @ t) \<and> length (p @ t) = n"
proof -
  let ?l = "map (\<lambda>i. case m ! i of Some b \<Rightarrow> b | None \<Rightarrow> junk i) [k..<k + n]"
  have t: "take (length p) (drop k m) = map Some p" and l: "k + length p \<le> length m" using assms(1) by (auto simp: mem_has_def)
  have cell: "m ! (k + i) = Some (p ! i)" if "i < length p" for i
  proof -
    have "take (length p) (drop k m) ! i = Some (p ! i)" unfolding t using that by simp
    then show ?thesis using that l by simp
  qed
  have "take (length p) ?l = p" using assms(3) by (intro nth_equalityI) (simp_all add: cell)
  then have "?l = p @ drop (length p) ?l" using append_take_drop_id [of "length p" ?l] by (simp only:)
  moreover have "mem_peek junk m (int k) (int n) = Inr ?l" using assms(2) by (simp add: mem_peek_def nat_add_distrib)
  ultimately show ?thesis using assms(3) by (intro exI [of _ "drop (length p) ?l"]) auto
qed

text \<open>\<open>c\<close> is the ciphertext of \<open>p\<close> and bytes that fill it up to whole blocks.\<close>

definition aes_cipher :: "byte list \<Rightarrow> byte list \<Rightarrow> bool" where
  "aes_cipher p c \<longleftrightarrow> (\<exists>t k junk. length (p @ t) = 16 * k \<and>
     c = fst (cbc_enc (\<lambda>b. AES_encrypt b (aes128_enc_key rpc_pri_key junk)) (16 * k) (p @ t) aes_iv))"

lemma aes_cipher_length: "aes_cipher p c \<Longrightarrow> \<exists>k. length c = 16 * k \<and> length p \<le> 16 * k"
  using aes128.length_cbc by (auto simp: aes_cipher_def)

lemma aes_crypt_encrypts:
  assumes "mem_has src 0 p" and "length p + 16 \<le> length src"
  shows "\<exists>out c. rpc_aes_crypt env src 0 (int (length p)) rpc_pri_key True = Inr (out, int (length c)) \<and> mem_has out 0 c \<and>
    aes_cipher p c \<and> length c \<le> length p + 16"
proof -
  obtain k where k: "aes_padded (int (length p)) = int (16 * k)" "length p < 16 * k" "16 * k \<le> length p + 16"
    using aes_padded_blocks by blast
  obtain t where t: "mem_peek (env_junk env) src 0 (int (16 * k)) = Inr (p @ t)" "length (p @ t) = 16 * k"
    using mem_peek_has [OF assms(1), of "16 * k" "env_junk env"] k assms(2) by auto
  define c where "c = fst (cbc_enc (\<lambda>b. AES_encrypt b (aes128_enc_key rpc_pri_key (stack_key env))) (16 * k) (p @ t) aes_iv)"
  have len: "length c = 16 * k" unfolding c_def by (rule aes128.length_cbc)
  obtain out where "mem_write (replicate (16 * k) (Some 0)) 0 c = Inr out" "mem_has out 0 c"
    using mem_write_at_0 [of c "replicate (16 * k) (Some 0)"] len by auto
  then have "rpc_aes_crypt env src 0 (int (length p)) rpc_pri_key True = Inr (out, int (length c))" "mem_has out 0 c"
    using t(1) k(1) len by (simp_all add: rpc_aes_crypt_def Let_def aes128_keys AES_cbc_encrypt_def c_def)
  moreover have "aes_cipher p c" using t(2) unfolding aes_cipher_def c_def by blast
  ultimately show ?thesis using len k(3) by (intro exI [of _ out] exI [of _ c]) auto
qed

lemma length_cbc_dec: "length iv \<le> 16 \<Longrightarrow> length (fst (cbc_dec D len inp iv)) \<le> len"
  by (induction D len inp iv rule: cbc_dec.induct) (subst cbc_dec.simps, auto simp: Let_def split_beta)

lemma aes_crypt_decrypts:
  assumes "mem_has src 4 c" and "aes_cipher p c" and "4 + length c + 16 \<le> length src"
  shows "\<exists>out. rpc_aes_crypt env src 4 (int (length c)) rpc_pri_key False = Inr (out, int (length c) + 16) \<and> mem_has out 0 p"
proof -
  obtain t k junk where c: "length (p @ t) = 16 * k"
      "c = fst (cbc_enc (\<lambda>b. AES_encrypt b (aes128_enc_key rpc_pri_key junk)) (16 * k) (p @ t) aes_iv)"
    using assms(2) unfolding aes_cipher_def by blast
  have len: "length c = 16 * k" unfolding c(2) by (rule aes128.length_cbc)
  have pad: "aes_padded (int (length c)) = int (16 * k + 16)" by (simp add: len aes_padded_def add.commute)
  obtain rest where rest: "mem_peek (env_junk env) src 4 (int (16 * k + 16)) = Inr (c @ rest)"
    using mem_peek_has [OF assms(1), of "16 * k + 16" "env_junk env"] assms(3) len by auto
  let ?D = "\<lambda>b. AES_decrypt b (aes128_dec_key rpc_pri_key (stack_key env))"
  let ?d = "fst (cbc_dec ?D (16 * k + 16) (c @ rest) aes_iv)"
  have iv: "length aes_iv = 16" by (simp add: aes_iv_def)
  obtain x where d: "?d = p @ x" using aes128.cbc_inverse [OF c(1) iv, where m = 16 and rest = rest] unfolding c(2) by simp
  have "length ?d \<le> 16 * k + 16" by (rule length_cbc_dec) (simp add: iv)
  then obtain out where "mem_write (replicate (16 * k + 16) (Some 0)) 0 ?d = Inr out" "mem_has out 0 ?d"
    using mem_write_at_0 [of ?d "replicate (16 * k + 16) (Some 0)"] by auto
  then have "rpc_aes_crypt env src 4 (int (length c)) rpc_pri_key False = Inr (out, int (length c) + 16)" "mem_has out 0 (p @ x)"
    using rest pad len d by (simp_all add: rpc_aes_crypt_def Let_def aes128_keys AES_cbc_encrypt_def nat_add_distrib)
  then show ?thesis by (auto simp: mem_has_append)
qed

lemma buffer_encrypt_aes:
  assumes b: "buf_has b p" and room: "length p + 16 \<le> length (chunk b)"
  shows "\<exists>b' c. rpc_buffer_encrypt env b crypt_type_aes = Inr b' \<and> buf_has b' (int32_enc (int (length p)) @ c) \<and>
    aes_cipher p c \<and> length c \<le> length p + 16"
proof -
  have src: "mem_has (chunk b) 0 p" using b by (simp add: buf_has_def)
  obtain out c where c: "rpc_aes_crypt env (chunk b) 0 (int (length p)) rpc_pri_key True = Inr (out, int (length c))" "mem_has out 0 c"
      "aes_cipher p c" "length c \<le> length p + 16"
    using aes_crypt_encrypts [OF src room] by blast
  then show ?thesis using buffer_encrypt_with [OF b, of crypt_type_aes env out c] by (auto simp: rpc_buffer_crypt_def)
qed

lemma buffer_decrypt_aes:
  assumes b: "buf_has b (int32_enc (int (length p)) @ c)" and c: "aes_cipher p c" and p: "length p < 2 ^ 31"
    and room: "length c + 20 \<le> length (chunk b)"
  shows "\<exists>b'. rpc_buffer_decrypt env b crypt_type_aes = Inr b' \<and> buf_has b' p"
proof -
  have src: "mem_has (chunk b) 4 c" and csz: "chunk_size b = int (length (chunk b))"
    using b by (simp_all add: buf_has_def mem_has_append)
  obtain out where "rpc_aes_crypt env (chunk b) 4 (int (length c)) rpc_pri_key False = Inr (out, int (length c) + 16)" "mem_has out 0 p"
    using aes_crypt_decrypts [OF src c] room by auto
  then show ?thesis
    using csz room aes_cipher_length [OF c]
    by (intro buffer_decrypt_with [OF b _ p, of _ env out "int (length c) + 16"]) (auto simp: rpc_buffer_crypt_def)
qed

lemma rpc_buffer_new_room: "rpc_buffer_new (Some src) n = Inr (Some b) \<Longrightarrow> 0 < n \<Longrightarrow> int (length (chunk b)) = n + 65"
  by (auto simp: rpc_buffer_new_def bindR_eq_Inr Let_def RPC_BUFFER_DEF_GROW_SIZE_def dest!: length_mem_write)

section \<open>Properties\<close>

text \<open>
  C2. \<open>rpc_buffer_append\<close> writes a length header and the data behind the payload, growing
  the chunk when needed, and keeps the parse position, except in one window: its check of
  the free room forgets the four header bytes, so it writes outside the chunk exactly when
  the data alone would still fit and header and data together do not.
\<close>

theorem rpc_buffer_append_spec:
  assumes "buf_has b p" and "mem_has inp 0 d" and "d \<noteq> []"
  shows "if int (length p + length d) \<le> chunk_size b \<and> chunk_size b < int (length p + length d + 4)
         then rpc_buffer_append (Some b) inp (int (length d)) = Inl OutOfBounds
         else \<exists>b'. rpc_buffer_append (Some b) inp (int (length d)) = Inr b' \<and>
                   buf_has b' (p @ frame d) \<and> parse_position b' = parse_position b"
  using append_room [OF assms] .

theorem rpc_buffer_append_spec_witness:
  "rpc_buffer_append (Some \<lparr>chunk = [Some 1, Some 2, None], chunk_size = 3, chunk_used = 2, parse_position = 0\<rparr>)
     [Some 9] 1 = Inl OutOfBounds"
  using rpc_buffer_append_spec
    [of "\<lparr>chunk = [Some 1, Some 2, None], chunk_size = 3, chunk_used = 2, parse_position = 0\<rparr>" "[1, 2]" "[Some 9]" "[9]"]
  by (simp add: buf_has_def mem_has_def)

text \<open>
  A buffer survives the TEA transport encryption: \<open>rpc_buffer_encrypt\<close> followed by
  \<open>rpc_buffer_decrypt\<close>, each in its own environment (random numbers, stack contents),
  neither fault and the buffer holds its payload again.
\<close>

theorem buffer_tea_round_trip:
  assumes "buf_has b p" and "p \<noteq> []" and "length p < 2 ^ 31" and "length (env_stack env) = 8"
  shows "\<exists>b1 b2. rpc_buffer_encrypt env b crypt_type_tea = Inr b1 \<and>
                 rpc_buffer_decrypt env' b1 crypt_type_tea = Inr b2 \<and> buf_has b2 p"
  using buffer_encrypt_tea [OF assms(1,2,4)] buffer_decrypt_tea [OF _ refl assms(4,3)] by blast

definition demo_env :: crypt_env where
  "demo_env = \<lparr>env_stack = replicate 8 0, env_rand = (1, 2, 3, 4), env_junk = (\<lambda>_. 0)\<rparr>"

definition demo_buf :: rpc_buffer where
  "demo_buf = \<lparr>chunk = [Some 1, Some 2, None], chunk_size = 3, chunk_used = 2, parse_position = 0\<rparr>"

theorem buffer_tea_round_trip_witness:
  "\<exists>b1 b2. rpc_buffer_encrypt demo_env demo_buf crypt_type_tea = Inr b1 \<and>
           rpc_buffer_decrypt demo_env b1 crypt_type_tea = Inr b2 \<and> buf_has b2 [1, 2]"
  by (rule buffer_tea_round_trip) (simp_all add: buf_has_def mem_has_def demo_buf_def demo_env_def)

text \<open>
  \<open>rpc_buffer_next\<close> does not reject a negative length: with a header of minus four in
  the payload it reports success and leaves the parse position where it was, so a caller
  that loops until it returns NULL, as \<open>rpc_parser_new\<close> does, never ends.
\<close>

theorem rpc_buffer_next_stuck:
  assumes "buf_has b (pre @ int32_enc (- 4) @ post)" and "parse_position b = int (length pre)"
  shows "rpc_buffer_next b = Inr (b, Some (int (length pre) + 4, - 4))"
proof -
  have "mem_has (chunk b) (length pre) (int32_enc (- 4) @ post)"
    using assms(1) by (simp add: buf_has_def mem_has_append)
  then have "mem_read (chunk b) (int (length pre)) 4 = Inr (int32_enc (- 4))"
    using mem_read_part by fastforce
  with assms show ?thesis
    by (simp add: rpc_buffer_next_def buf_has_def int32_dec_enc Let_def)
qed

theorem rpc_buffer_next_stuck_witness:
  "rpc_buffer_next \<lparr>chunk = map Some (int32_enc (- 4)), chunk_size = 4, chunk_used = 4, parse_position = 0\<rparr>
   = Inr (\<lparr>chunk = map Some (int32_enc (- 4)), chunk_size = 4, chunk_used = 4, parse_position = 0\<rparr>, Some (4, - 4))"
  using rpc_buffer_next_stuck
    [of "\<lparr>chunk = map Some (int32_enc (- 4)), chunk_size = 4, chunk_used = 4, parse_position = 0\<rparr>" "[]" "[]"]
  by (simp add: buf_has_def mem_has_def)

end
