(* ===== verification/Rpc_Shell.thy ===== *)
theory Rpc_Shell
  imports Rpc_Buffer
begin

text \<open>
  The packet header \<open>rpc_shell_t\<close> of \<open>rpcprovider/rpc_shell.h\<close>, packed to 20 bytes as the
  Win32 build lays it out (the five bit fields share one 32-bit unit, lowest field first),
  and \<open>rpc_io_make_shell\<close> of \<open>rpcprovider/rpc_io.c\<close>, which puts a header in front of an
  encrypted body.
\<close>

section \<open>The header\<close>

record rpc_shell =
  sh_magic :: u64
  sh_version :: byte
  sh_category :: byte
  sh_sub_category :: byte
  sh_req :: "2 word"
  sh_crypt :: "6 word"
  sh_body_size :: int
  sh_reserved :: int

definition RPC_MAGIC_NUMBER :: u64 where
  "RPC_MAGIC_NUMBER = 0x6C6976657A757265"

definition RPC_VERSION_SIGN :: byte where
  "RPC_VERSION_SIGN = 0x57"

definition req_type_post :: "2 word" where
  "req_type_post = 1"

definition crypt_of :: "6 word \<Rightarrow> rpc_crypt_type" where
  "crypt_of w = (if w = 0 then crypt_type_none else if w = 1 then crypt_type_aes
                 else if w = 2 then crypt_type_tea else crypt_type_other (unat w))"

text \<open>\<open>sizeof(rpc_shell_t)\<close>.\<close>

definition shell_size :: int where
  "shell_size = 20"

definition shell_enc :: "rpc_shell \<Rightarrow> byte list" where
  "shell_enc s =
     le32_enc (ucast (sh_magic s)) @ le32_enc (ucast (drop_bit 32 (sh_magic s))) @
     [sh_version s, sh_category s, sh_sub_category s, ucast (sh_req s) OR push_bit 2 (ucast (sh_crypt s))] @
     int32_enc (sh_body_size s) @ int32_enc (sh_reserved s)"

definition shell_dec :: "byte list \<Rightarrow> rpc_shell" where
  "shell_dec bs =
     \<lparr>sh_magic = ucast (le32_dec (take 4 bs)) OR push_bit 32 (ucast (le32_dec (take 4 (drop 4 bs)))),
      sh_version = bs ! 8, sh_category = bs ! 9, sh_sub_category = bs ! 10,
      sh_req = ucast (bs ! 11), sh_crypt = ucast (drop_bit 2 (bs ! 11)),
      sh_body_size = int32_dec (take 4 (drop 12 bs)), sh_reserved = int32_dec (take 4 (drop 16 bs))\<rparr>"

definition int32_range :: "int \<Rightarrow> bool" where
  "int32_range i \<longleftrightarrow> - (2 ^ 31) \<le> i \<and> i < 2 ^ 31"

lemma length_shell_enc [simp]: "length (shell_enc s) = 20"
  by (simp add: shell_enc_def)

lemma flags_dec:
  "ucast (ucast (r :: 2 word) OR push_bit 2 (ucast (c :: 6 word)) :: byte) = r"
  "ucast (drop_bit 2 (ucast (r :: 2 word) OR push_bit 2 (ucast (c :: 6 word)) :: byte)) = c"
proof -
  show "ucast (ucast r OR push_bit 2 (ucast c) :: byte) = r"
    by (rule bit_word_eqI) (auto simp: bit_simps)
  have r: "\<not> bit r (Suc (Suc n))" for n using bit_imp_le_length [of r "Suc (Suc n)"] by auto
  show "ucast (drop_bit 2 (ucast r OR push_bit 2 (ucast c) :: byte)) = c"
    by (rule bit_word_eqI) (auto simp: bit_simps r)
qed

lemma magic_dec:
  "ucast (ucast w :: u32) OR push_bit 32 (ucast (ucast (drop_bit 32 w) :: u32)) = (w :: u64)"
proof (rule bit_word_eqI)
  fix n assume n: "n < LENGTH(64)"
  show "bit (ucast (ucast w :: u32) OR push_bit 32 (ucast (ucast (drop_bit 32 w) :: u32)) :: u64) n = bit w n"
    using n by (cases "n < 32") (auto simp: bit_simps)
qed

lemma shell_dec_enc:
  assumes "int32_range (sh_body_size s)" and "int32_range (sh_reserved s)"
  shows "shell_dec (shell_enc s @ rest) = s"
proof -
  have nth: "(shell_enc s @ rest) ! 8 = sh_version s" "(shell_enc s @ rest) ! 9 = sh_category s"
    "(shell_enc s @ rest) ! 10 = sh_sub_category s"
    "(shell_enc s @ rest) ! 11 = ucast (sh_req s) OR push_bit 2 (ucast (sh_crypt s))"
    by (simp_all add: shell_enc_def nth_append)
  show ?thesis
    using assms unfolding shell_dec_def nth flags_dec
    by (simp add: shell_enc_def magic_dec int32_range_def int32_dec_enc)
qed

section \<open>Making a packet\<close>

text \<open>
  \<open>rpc_io_make_shell\<close> encrypts a copy of the body and stores its size in the caller's
  header; the result is the changed header and the packet.
\<close>

definition rpc_io_make_shell :: "crypt_env \<Rightarrow> rpc_shell \<Rightarrow> rpc_buffer option \<Rightarrow> (rpc_shell \<times> rpc_buffer option) res" where
  "rpc_io_make_shell env shell inp =
     bindR (case inp of
        None \<Rightarrow> Inr []
      | Some b \<Rightarrow>
          bindR (rpc_buffer_clone b) (\<lambda>body. case body of
            None \<Rightarrow> Inl NullDeref
          | Some body \<Rightarrow>
              bindR (rpc_buffer_encrypt env body (crypt_of (sh_crypt shell))) (\<lambda>body.
              mem_read (rpc_buffer_get_buffer body) 0 (rpc_buffer_get_size body)))) (\<lambda>body_buffer.
     let shell = shell\<lparr>sh_body_size := int (length body_buffer)\<rparr> in
     bindR (mem_write (mem_alloc (shell_size + int (length body_buffer) + 1)) 0 (shell_enc shell)) (\<lambda>out_buf.
     bindR (mem_write out_buf shell_size body_buffer) (\<lambda>out_buf.
     bindR (rpc_buffer_new (Some out_buf) (shell_size + int (length body_buffer))) (\<lambda>out.
     Inr (shell, out)))))"

lemma make_shell_wrap:
  "\<exists>out. bindR (mem_write (mem_alloc (shell_size + int (length d) + 1)) 0 (shell_enc sh)) (\<lambda>out_buf.
     bindR (mem_write out_buf shell_size d) (\<lambda>out_buf.
     bindR (rpc_buffer_new (Some out_buf) (shell_size + int (length d))) (\<lambda>out. Inr (sh, out))))
   = Inr (sh, Some out) \<and> buf_has out (shell_enc sh @ d)"
proof -
  let ?m = "mem_alloc (shell_size + int (length d) + 1)"
  have len: "length ?m = 21 + length d" by (simp add: shell_size_def nat_add_distrib)
  obtain m1 where m1: "mem_write ?m 0 (shell_enc sh) = Inr m1" "mem_has m1 0 (shell_enc sh)" "length m1 = length ?m"
    using mem_write_at_0 [of "shell_enc sh" ?m] len by auto
  obtain m2 where m2: "mem_write m1 20 d = Inr m2" "mem_has m2 0 (shell_enc sh @ d)"
    using mem_write_has [OF m1(2), of d] m1(3) len by auto
  have ne: "shell_enc sh @ d \<noteq> []" using length_shell_enc [of sh] by (metis append_is_Nil_conv list.size(3) zero_neq_numeral)
  obtain out where "rpc_buffer_new (Some m2) (int (length (shell_enc sh @ d))) = Inr (Some out)" "buf_has out (shell_enc sh @ d)"
    using rpc_buffer_new_ok [OF m2(2) ne] by blast
  then show ?thesis using m1(1) m2(1) by (simp add: shell_size_def)
qed

lemma make_shell_empty:
  "\<exists>out. rpc_io_make_shell env sh None = Inr (sh\<lparr>sh_body_size := 0\<rparr>, Some out) \<and>
         buf_has out (shell_enc (sh\<lparr>sh_body_size := 0\<rparr>))"
  using make_shell_wrap [of "[]" "sh\<lparr>sh_body_size := 0\<rparr>"] by (simp add: rpc_io_make_shell_def Let_def)

lemma make_shell_plain:
  assumes "buf_has b p" and "p \<noteq> []" and "sh_crypt sh = 0"
  shows "\<exists>out. rpc_io_make_shell env sh (Some b) = Inr (sh\<lparr>sh_body_size := int (length p)\<rparr>, Some out) \<and>
               buf_has out (shell_enc (sh\<lparr>sh_body_size := int (length p)\<rparr>) @ p)"
proof -
  obtain b' where b': "rpc_buffer_clone b = Inr (Some b')" "buf_has b' p"
    using rpc_buffer_clone_ok [OF assms(1,2)] by blast
  then have rd: "mem_read (chunk b') 0 (chunk_used b') = Inr p"
    using mem_read_has [of "chunk b'" 0 p] by (simp add: buf_has_def)
  then show ?thesis
    using make_shell_wrap [of p "sh\<lparr>sh_body_size := int (length p)\<rparr>"] b' assms(3)
    by (simp add: rpc_io_make_shell_def crypt_of_def rpc_buffer_encrypt_def rpc_buffer_get_buffer_def rpc_buffer_get_size_def Let_def)
qed

lemma make_shell_tea:
  assumes "buf_has b p" and "p \<noteq> []" and "sh_crypt sh = 2" and "length (env_stack env) = 8"
  defines "c \<equiv> int32_enc (int (length p)) @ qq_encrypt (env_stack env) (env_rand env) p rpc_pri_key"
  shows "\<exists>out. rpc_io_make_shell env sh (Some b) = Inr (sh\<lparr>sh_body_size := int (length c)\<rparr>, Some out) \<and>
               buf_has out (shell_enc (sh\<lparr>sh_body_size := int (length c)\<rparr>) @ c)"
proof -
  obtain b' where b': "rpc_buffer_clone b = Inr (Some b')" "buf_has b' p"
    using rpc_buffer_clone_ok [OF assms(1,2)] by blast
  obtain e where e: "rpc_buffer_encrypt env b' crypt_type_tea = Inr e" "buf_has e c"
    using buffer_encrypt_tea [OF b'(2) assms(2,4)] unfolding c_def by blast
  then have rd: "mem_read (chunk e) 0 (chunk_used e) = Inr c"
    using mem_read_has [of "chunk e" 0 c] by (simp add: buf_has_def)
  then show ?thesis
    using make_shell_wrap [of c "sh\<lparr>sh_body_size := int (length c)\<rparr>"] b' e assms(3)
    by (simp add: rpc_io_make_shell_def crypt_of_def rpc_buffer_get_buffer_def rpc_buffer_get_size_def Let_def)
qed

lemma make_shell_aes:
  assumes "buf_has b p" and "p \<noteq> []" and "sh_crypt sh = 1"
  shows "\<exists>c out. rpc_io_make_shell env sh (Some b) = Inr (sh\<lparr>sh_body_size := int (4 + length c)\<rparr>, Some out) \<and>
               buf_has out (shell_enc (sh\<lparr>sh_body_size := int (4 + length c)\<rparr>) @ int32_enc (int (length p)) @ c) \<and>
               aes_cipher p c \<and> length c \<le> length p + 16"
proof -
  obtain b' where b': "rpc_buffer_clone b = Inr (Some b')" "buf_has b' p"
    using rpc_buffer_clone_ok [OF assms(1,2)] by blast
  have "int (length (chunk b')) = int (length p) + 65"
    using rpc_buffer_new_room [of "chunk b" "chunk_used b" b'] b'(1) assms(1,2)
    by (simp add: rpc_buffer_clone_def rpc_buffer_get_buffer_def rpc_buffer_get_size_def buf_has_def)
  then have "length p + 16 \<le> length (chunk b')" by linarith
  from buffer_encrypt_aes [OF b'(2) this] obtain e c where e: "rpc_buffer_encrypt env b' crypt_type_aes = Inr e"
      "buf_has e (int32_enc (int (length p)) @ c)" "aes_cipher p c" "length c \<le> length p + 16" by blast
  let ?c = "int32_enc (int (length p)) @ c"
  have rd: "mem_read (chunk e) 0 (chunk_used e) = Inr ?c"
    using mem_read_has [of "chunk e" 0 ?c] e(2) by (simp add: buf_has_def)
  then show ?thesis
    using make_shell_wrap [of ?c "sh\<lparr>sh_body_size := int (length ?c)\<rparr>"] b' e assms(3)
    by (intro exI [of _ c])
       (simp add: rpc_io_make_shell_def crypt_of_def rpc_buffer_get_buffer_def rpc_buffer_get_size_def Let_def)
qed

section \<open>Properties\<close>

text \<open>
  The header layout is a bijection between headers and 20-byte strings followed by
  anything: decoding an encoded header gives back every field, bit fields included.
\<close>

theorem shell_round_trip:
  assumes "int32_range (sh_body_size s)" and "int32_range (sh_reserved s)"
  shows "length (shell_enc s) = 20 \<and> shell_dec (shell_enc s @ rest) = s"
  using shell_dec_enc [OF assms] by simp

definition demo_shell :: rpc_shell where
  "demo_shell = \<lparr>sh_magic = RPC_MAGIC_NUMBER, sh_version = RPC_VERSION_SIGN, sh_category = 3, sh_sub_category = 4,
     sh_req = req_type_post, sh_crypt = 2, sh_body_size = 100, sh_reserved = 0\<rparr>"

theorem shell_round_trip_witness: "shell_dec (shell_enc demo_shell @ [1, 2]) = demo_shell"
  using shell_round_trip [of demo_shell "[1, 2]"] by (simp add: demo_shell_def int32_range_def)

end
