(* ===== verification/Rpc_Parser.thy ===== *)
theory Rpc_Parser
  imports Rpc_Buffer "HOL-Library.Sublist"
begin

text \<open>
  Key/value requests: \<open>rpcprovider/rpc_keypair.c\<close> writes and scans the
  \<open>key: value\<close> frames of a buffer, \<open>rpcprovider/rpc_parser.c\<close> collects them into a
  request and looks keys up. The loop of \<open>rpc_parser_new\<close> takes fuel, because it does not
  end on every buffer; \<open>None\<close> is the loop still running when the fuel is spent.
\<close>

section \<open>Key pairs\<close>

definition divide :: "byte list" where
  "divide = [58, 32]"  \<comment> \<open>\<open>": "\<close>\<close>

definition rpc_keypair_append :: "rpc_buffer option \<Rightarrow> mem \<Rightarrow> mem \<Rightarrow> int \<Rightarrow> rpc_buffer res" where
  "rpc_keypair_append buffer key body bodysize =
     bindR (mem_strlen key) (\<lambda>keysize.
     bindR (if bodysize \<le> 0 then mem_strlen body else Inr bodysize) (\<lambda>bodysize.
     bindR (mem_read key 0 keysize) (\<lambda>kbytes.
     bindR (mem_write (mem_alloc (keysize + bodysize + 2)) 0 kbytes) (\<lambda>keybuf.
     bindR (mem_write keybuf keysize divide) (\<lambda>keybuf.
     bindR (mem_read body 0 bodysize) (\<lambda>bbytes.
     bindR (mem_write keybuf (keysize + 2) bbytes) (\<lambda>keybuf.
     rpc_buffer_append buffer keybuf (keysize + 2 + bodysize))))))))"

text \<open>\<open>strstr (p, ": ")\<close>: the distance to the first occurrence before the terminating NUL.\<close>

fun strstr_divide :: "mem \<Rightarrow> int option res" where
  "strstr_divide [] = Inl OutOfBounds"
| "strstr_divide (None # m) = Inl UseUninit"
| "strstr_divide (Some c # m) =
     (if c = 0 then Inr None
      else if c = 58 then
        (case m of
           [] \<Rightarrow> Inl OutOfBounds
         | None # _ \<Rightarrow> Inl UseUninit
         | Some c' # _ \<Rightarrow> if c' = 32 then Inr (Some 0)
                         else bindR (strstr_divide m) (\<lambda>r. Inr (map_option (\<lambda>i. i + 1) r)))
      else bindR (strstr_divide m) (\<lambda>r. Inr (map_option (\<lambda>i. i + 1) r)))"

text \<open>
  \<open>rpc_keypair_next\<close>: unless it returns 0, the key and body pointers as offsets into the
  chunk and the body size.
\<close>

definition rpc_keypair_next :: "rpc_buffer \<Rightarrow> (rpc_buffer \<times> (int \<times> int \<times> int) option) res" where
  "rpc_keypair_next b =
     bindR (rpc_buffer_next b) (\<lambda>(b, stream). case stream of
       None \<Rightarrow> Inr (b, None)
     | Some (streambuf, streamsize) \<Rightarrow>
       bindR (strstr_divide (drop (nat streambuf) (chunk b))) (\<lambda>querykey. case querykey of
         None \<Rightarrow> Inr (b, None)
       | Some q \<Rightarrow> Inr (b, Some (streambuf, streambuf + q + 2, streamsize - q - 2))))"

section \<open>Requests\<close>

record req_item =
  req_key :: "byte list"            \<comment> \<open>without the terminating NUL; \<open>keysize\<close> is its length\<close>
  req_value :: "byte list option"   \<comment> \<open>\<open>valuesize\<close> is its length, 0 for \<open>None\<close>\<close>

type_synonym rpc_req = "req_item list"

text \<open>\<open>rpc_parser_add\<close>: key and value are copied from the memory they point to.\<close>

definition rpc_parser_add :: "rpc_req \<Rightarrow> mem \<Rightarrow> mem \<Rightarrow> int \<Rightarrow> rpc_req res" where
  "rpc_parser_add req key val valuesize =
     bindR (mem_strlen key) (\<lambda>keysize.
     bindR (if valuesize < 0 then mem_strlen val else Inr valuesize) (\<lambda>valuesize.
     bindR (mem_read key 0 keysize) (\<lambda>k.
     bindR (if valuesize \<noteq> 0 then bindR (mem_read val 0 valuesize) (\<lambda>v. Inr (Some v)) else Inr None) (\<lambda>v.
     Inr (req @ [\<lparr>req_key = k, req_value = v\<rparr>])))))"

fun parser_loop :: "nat \<Rightarrow> rpc_buffer \<Rightarrow> rpc_req \<Rightarrow> rpc_req res option" where
  "parser_loop 0 b req = None"
| "parser_loop (Suc fuel) b req =
     (case rpc_keypair_next b of
        Inl e \<Rightarrow> Some (Inl e)
      | Inr (b', None) \<Rightarrow> Some (Inr req)
      | Inr (b', Some (key, val, valuesize)) \<Rightarrow>
          (case rpc_parser_add req (drop (nat key) (chunk b')) (drop (nat val) (chunk b')) valuesize of
             Inl e \<Rightarrow> Some (Inl e)
           | Inr req' \<Rightarrow> parser_loop fuel b' req'))"

definition rpc_parser_new :: "nat \<Rightarrow> rpc_buffer option \<Rightarrow> rpc_req option res option" where
  "rpc_parser_new fuel buffer =
     (case buffer of
        None \<Rightarrow> Some (Inr None)
      | Some b \<Rightarrow> map_option (\<lambda>r. bindR r (\<lambda>req. Inr (Some req)))
                    (parser_loop fuel (rpc_buffer_rewind b) []))"

definition rpc_parser_count :: "rpc_req option \<Rightarrow> int" where
  "rpc_parser_count req = (case req of None \<Rightarrow> 0 | Some items \<Rightarrow> int (length items))"

definition rpc_parser_index :: "rpc_req option \<Rightarrow> int \<Rightarrow> (byte list \<times> byte list option) option" where
  "rpc_parser_index req index =
     (case req of
        None \<Rightarrow> None
      | Some items \<Rightarrow>
          if 0 \<le> index \<and> index < int (length items)
          then Some (req_key (items ! nat index), req_value (items ! nat index)) else None)"

text \<open>
  \<open>rpc_parser_get\<close> compares with \<open>memcmp\<close> over the length of the wanted key: every stored
  key that starts with it matches. The terminating NUL of a shorter stored key differs from
  the wanted one; \<open>memcmp\<close> is taken to stop there, although C allows it to read on behind the
  allocation of that key. The result is the returned pointer, \<open>None\<close> for NULL.
\<close>

fun parser_get_loop :: "req_item list \<Rightarrow> byte list \<Rightarrow> byte list option" where
  "parser_get_loop [] key = None"
| "parser_get_loop (it # its) key =
     (if take (length key) (req_key it @ [0]) = key then req_value it else parser_get_loop its key)"

definition rpc_parser_get :: "rpc_req option \<Rightarrow> byte list option \<Rightarrow> byte list option" where
  "rpc_parser_get req key =
     (case (req, key) of (Some items, Some k) \<Rightarrow> parser_get_loop items k | _ \<Rightarrow> None)"

section \<open>Scanning memory\<close>

lemma mem_has_drop: "mem_has m k bs \<Longrightarrow> \<exists>rest. drop k m = map Some bs @ rest"
  unfolding mem_has_def by (metis append_take_drop_id)

lemma strstr_divide_found:
  "58 \<notin> set k \<Longrightarrow> 0 \<notin> set k \<Longrightarrow> strstr_divide (map Some (k @ divide) @ m) = Inr (Some (int (length k)))"
proof (induction k)
  case Nil
  then show ?case by (simp add: divide_def)
next
  case (Cons c k)
  then show ?case by auto
qed

lemma mem_strlen_takeWhile:
  "0 \<in> set bs \<Longrightarrow> mem_strlen (map Some bs @ m) = Inr (int (length (takeWhile (\<lambda>b. b \<noteq> 0) bs)))"
  by (induction bs) auto

lemma mem_read_front: "mem_read (map Some (xs @ ys) @ m) 0 (int (length xs)) = Inr xs"
  using mem_read_part [of "map Some (xs @ ys) @ m" 0 xs ys] by (simp add: mem_has_def)

lemma mem_read_takeWhile:
  "mem_read (map Some bs @ m) 0 (int (length (takeWhile P bs))) = Inr (takeWhile P bs)"
  using mem_read_front [of "takeWhile P bs" "dropWhile P bs" m] by simp

section \<open>Writing and parsing a request\<close>

definition ok_key :: "byte list \<Rightarrow> bool" where
  "ok_key k \<longleftrightarrow> 0 \<notin> set k \<and> 58 \<notin> set k"

definition kv_frame :: "byte list \<times> byte list \<Rightarrow> byte list" where
  "kv_frame kv = frame (fst kv @ divide @ snd kv)"

definition ok_pair :: "byte list \<times> byte list \<Rightarrow> bool" where
  "ok_pair kv \<longleftrightarrow> ok_key (fst kv) \<and> snd kv \<noteq> [] \<and> length (fst kv) + length (snd kv) + 2 < 2 ^ 31"

text \<open>What the frames and the parser need of a pair; its value may be empty.\<close>

definition pair_fits :: "byte list \<times> byte list \<Rightarrow> bool" where
  "pair_fits kv \<longleftrightarrow> ok_key (fst kv) \<and> length (fst kv) + length (snd kv) + 2 < 2 ^ 31"

lemma ok_pair_fits: "list_all ok_pair kvs \<Longrightarrow> list_all pair_fits kvs"
  by (auto simp: list_all_iff ok_pair_def pair_fits_def)

lemma keypair_buffer:
  assumes k: "0 \<notin> set k" and v: "v \<noteq> []"
  shows "\<exists>keybuf. mem_has keybuf 0 (k @ divide @ v) \<and>
           (\<forall>buffer. rpc_keypair_append buffer (map Some (k @ [0])) (map Some v) (int (length v))
                   = rpc_buffer_append buffer keybuf (int (length (k @ divide @ v))))"
proof -
  let ?m = "mem_alloc (int (length k) + int (length v) + 2)"
  have len: "length ?m = length k + length v + 2" by (simp add: nat_add_distrib)
  have d: "length divide = 2" by (simp add: divide_def)
  obtain m1 where m1: "mem_write ?m 0 k = Inr m1" "mem_has m1 0 k" "length m1 = length ?m"
    using mem_write_at_0 [of k ?m] len by auto
  obtain m2 where m2: "mem_write m1 (int (length k)) divide = Inr m2" "mem_has m2 0 (k @ divide)" "length m2 = length ?m"
    using mem_write_has [OF m1(2), of divide] m1(3) len d by auto
  obtain m3 where m3: "mem_write m2 (int (length (k @ divide))) v = Inr m3" "mem_has m3 0 ((k @ divide) @ v)"
    using mem_write_has [OF m2(2), of v] m2(3) len d by auto
  have "mem_strlen (map Some (k @ [0])) = Inr (int (length k))"
    using mem_strlen_terminated [OF k, of "[]"] by simp
  then have "rpc_keypair_append buffer (map Some (k @ [0])) (map Some v) (int (length v))
             = rpc_buffer_append buffer m3 (int (length (k @ divide @ v)))" for buffer
    using v m1(1) m2(1) m3(1) mem_read_front [of k "[0]" "[]"] d
    by (simp add: rpc_keypair_append_def add.commute add.left_commute)
  then show ?thesis using m3(2) by auto
qed

lemma keypair_next_frame:
  assumes b: "buf_has b (pre @ kv_frame (k, v) @ post)" and pos: "parse_position b = int (length pre)"
    and kv: "pair_fits (k, v)"
  shows "rpc_keypair_next b
         = Inr (b\<lparr>parse_position := int (length (pre @ kv_frame (k, v)))\<rparr>,
                Some (int (length pre) + 4, int (length pre) + 4 + int (length k) + 2, int (length v)))"
proof -
  let ?d = "k @ divide @ v"
  have "rpc_buffer_next b = Inr (b\<lparr>parse_position := int (length pre + 4 + length ?d)\<rparr>,
          Some (int (length pre) + 4, int (length ?d)))"
    by (rule next_frame [OF _ pos]) (use b kv in \<open>auto simp: kv_frame_def pair_fits_def divide_def\<close>)
  moreover have "mem_has (chunk b) (length pre + 4) (k @ divide)"
    using b by (simp add: buf_has_def mem_has_append kv_frame_def frame_def)
  then obtain rest where "drop (length pre + 4) (chunk b) = map Some (k @ divide) @ rest"
    using mem_has_drop by blast
  then have "strstr_divide (drop (nat (int (length pre) + 4)) (chunk b)) = Inr (Some (int (length k)))"
    using strstr_divide_found [of k rest] kv by (simp add: pair_fits_def ok_key_def nat_add_distrib)
  ultimately show ?thesis
    by (simp add: rpc_keypair_next_def kv_frame_def divide_def)
qed

lemma length_divide: "length divide = 2"
  by (simp add: divide_def)

lemma kv_frame_eq: "kv_frame (k, v) = int32_enc (int (length (k @ divide @ v))) @ k @ divide @ v"
  by (simp add: kv_frame_def frame_def)

text \<open>What the parser stores: the key string runs on to the next NUL of the chunk, an empty value is NULL.\<close>

fun stored_items :: "(byte list \<times> byte list) list \<Rightarrow> rpc_req" where
  "stored_items [] = []"
| "stored_items (kv # kvs) =
     \<lparr>req_key = takeWhile (\<lambda>b. b \<noteq> 0) (fst kv @ divide @ snd kv @ concat (map kv_frame kvs)),
      req_value = (if snd kv = [] then None else Some (snd kv))\<rparr> # stored_items kvs"

lemma takeWhile_nul: "takeWhile (\<lambda>b. b \<noteq> 0) (bs @ [0 :: byte]) = takeWhile (\<lambda>b. b \<noteq> 0) bs"
  by (induction bs) auto

lemma parser_add_stored:
  assumes key: "drop a m = map Some (bs @ [0]) @ rest" and val: "mem_has m c v"
  shows "rpc_parser_add req (drop a m) (drop c m) (int (length v))
         = Inr (req @ [\<lparr>req_key = takeWhile (\<lambda>b. b \<noteq> 0) bs, req_value = (if v = [] then None else Some v)\<rparr>])"
proof -
  have len: "mem_strlen (drop a m) = Inr (int (length (takeWhile (\<lambda>b. b \<noteq> 0) bs)))"
    unfolding key by (subst mem_strlen_takeWhile) (simp_all only: takeWhile_nul, simp)
  have rd: "mem_read (drop a m) 0 (int (length (takeWhile (\<lambda>b. b \<noteq> 0) bs))) = Inr (takeWhile (\<lambda>b. b \<noteq> 0) bs)"
    unfolding key using mem_read_takeWhile [of "bs @ [0]" rest "\<lambda>b. b \<noteq> 0"] by (simp only: takeWhile_nul)
  obtain r where "drop c m = map Some v @ r"
    using mem_has_drop [OF val] by blast
  then have "mem_read (drop c m) 0 (int (length v)) = Inr v"
    using mem_read_front [of v "[]" r] by simp
  with len rd show ?thesis
    by (simp add: rpc_parser_add_def)
qed

lemma parser_add_strings:
  assumes key: "drop a m = map Some (bs @ [0]) @ r" and val: "drop c m = map Some (cs @ [0]) @ r'" and "n < 0"
  shows "\<exists>req'. rpc_parser_add req (drop a m) (drop c m) n = Inr req'"
proof -
  have len: "mem_strlen (map Some (bs @ [0]) @ r) = Inr (int (length (takeWhile (\<lambda>b. b \<noteq> 0) (bs @ [0]))))"
    and rd: "mem_read (map Some (bs @ [0]) @ r) 0 (int (length (takeWhile (\<lambda>b. b \<noteq> 0) (bs @ [0]))))
             = Inr (takeWhile (\<lambda>b. b \<noteq> 0) (bs @ [0]))" for bs r
    by (rule mem_strlen_takeWhile, simp) (rule mem_read_takeWhile)
  show ?thesis
    unfolding rpc_parser_add_def key val len rd bindR_Inr using \<open>n < 0\<close>
    by (simp only: len rd bindR_Inr if_True) (simp only: bindR_Inr split: if_splits, blast)
qed

lemma parser_loop_ok:
  assumes "buf_has b (pre @ concat (map kv_frame kvs))"
    and "mem_has (chunk b) 0 ((pre @ concat (map kv_frame kvs)) @ [0])"
    and "parse_position b = int (length pre)" and "list_all pair_fits kvs" and "length kvs < fuel"
  shows "parser_loop fuel b req = Some (Inr (req @ stored_items kvs))"
  using assms
proof (induction kvs arbitrary: pre b req fuel)
  case Nil
  then obtain f where "fuel = Suc f" by (cases fuel) auto
  then show ?case
    using Nil next_end [of b pre] by (simp add: rpc_keypair_next_def)
next
  case (Cons kv kvs)
  obtain k v where kv: "kv = (k, v)" by (cases kv)
  obtain f where f: "fuel = Suc f" using Cons.prems(5) by (cases fuel) auto
  let ?post = "concat (map kv_frame kvs)"
  let ?b = "b\<lparr>parse_position := int (length (pre @ kv_frame (k, v)))\<rparr>"
  have "buf_has b (pre @ kv_frame (k, v) @ ?post)"
    using Cons.prems(1) by (simp add: kv)
  then have nxt: "rpc_keypair_next b = Inr (?b, Some (int (length pre) + 4,
        int (length pre) + 4 + int (length k) + 2, int (length v)))"
    by (rule keypair_next_frame [OF _ Cons.prems(3)]) (use Cons.prems(4) kv in simp)
  have all: "mem_has (chunk b) 0 (pre @ int32_enc (int (length (k @ divide @ v))) @ (k @ divide @ v @ ?post) @ [0])"
    using Cons.prems(2) by (simp add: kv kv_frame_eq)
  then have "mem_has (chunk b) (length pre + 4) ((k @ divide @ v @ ?post) @ [0])"
    by (simp add: mem_has_append)
  then obtain rest where key: "drop (length pre + 4) (chunk b) = map Some ((k @ divide @ v @ ?post) @ [0]) @ rest"
    using mem_has_drop by blast
  have val: "mem_has (chunk b) (length pre + 4 + length k + 2) v"
    using all by (simp add: mem_has_append length_divide add.commute add.left_commute)
  have "rpc_parser_add req (drop (nat (int (length pre) + 4)) (chunk b))
          (drop (nat (int (length pre) + 4 + int (length k) + 2)) (chunk b)) (int (length v))
        = Inr (req @ [\<lparr>req_key = takeWhile (\<lambda>b. b \<noteq> 0) (k @ divide @ v @ ?post), req_value = (if v = [] then None else Some v)\<rparr>])"
    using parser_add_stored [OF key val] by (simp add: nat_add_distrib)
  then have "parser_loop fuel b req = parser_loop f ?b
       (req @ [\<lparr>req_key = takeWhile (\<lambda>b. b \<noteq> 0) (k @ divide @ v @ ?post), req_value = (if v = [] then None else Some v)\<rparr>])"
    using nxt f by simp
  also have "\<dots> = Some (Inr ((req @ [\<lparr>req_key = takeWhile (\<lambda>b. b \<noteq> 0) (k @ divide @ v @ ?post), req_value = (if v = [] then None else Some v)\<rparr>])
                         @ stored_items kvs))"
    by (rule Cons.IH [of _ "pre @ kv_frame (k, v)"]) (use Cons.prems f kv in \<open>simp_all add: buf_has_def\<close>)
  finally show ?case by (simp add: kv)
qed

lemma stored_key_match:
  assumes "ok_key q" and "ok_key k"
  shows "take (length q) (takeWhile (\<lambda>b. b \<noteq> 0) (k @ divide @ x) @ [0]) = q \<longleftrightarrow> prefix q k"
proof -
  have "takeWhile (\<lambda>b. b \<noteq> 0) (k @ divide @ x) = k @ takeWhile (\<lambda>b. b \<noteq> 0) (divide @ x)"
    using assms(2) by (intro takeWhile_append2) (auto simp: ok_key_def)
  then obtain y where y: "takeWhile (\<lambda>b. b \<noteq> 0) (k @ divide @ x) @ [0] = k @ 58 # y"
    by (auto simp: divide_def)
  show ?thesis
  proof (cases "length q \<le> length k")
    case True
    then show ?thesis unfolding y by (auto simp: prefix_def) (metis append_take_drop_id)
  next
    case False
    then have "58 \<in> set (take (length q) (k @ 58 # y))"
      by (simp add: take_Cons')
    then have "take (length q) (k @ 58 # y) \<noteq> q"
      using assms(1) by (metis ok_key_def)
    then show ?thesis
      using False y prefix_length_le by auto
  qed
qed

lemma parser_get_stored:
  assumes "ok_key q" and "list_all ok_pair kvs"
  shows "parser_get_loop (stored_items kvs) q = map_option snd (find (\<lambda>kv. prefix q (fst kv)) kvs)"
  using assms(2) by (induction kvs) (auto simp: stored_key_match assms(1) ok_pair_def simp del: take_append)

lemma length_stored_items [simp]: "length (stored_items kvs) = length kvs"
  by (induction kvs) auto

section \<open>Properties\<close>

text \<open>
  C3. Parsing a NUL-terminated buffer of well-formed key/value frames ends after one round
  per pair and finds all of them; looking a key up gives the value of the first pair whose
  key \<^emph>\<open>starts with\<close> it, so a key that is a prefix of an earlier one is shadowed by it.
\<close>

theorem rpc_parser_spec:
  assumes "buf_has b (concat (map kv_frame kvs))"
    and "mem_has (chunk b) 0 (concat (map kv_frame kvs) @ [0])"
    and "list_all ok_pair kvs" and "length kvs < fuel"
  shows "\<exists>req. rpc_parser_new fuel (Some b) = Some (Inr (Some req)) \<and>
           rpc_parser_count (Some req) = int (length kvs) \<and>
           (\<forall>q. ok_key q \<longrightarrow>
              rpc_parser_get (Some req) (Some q) = map_option snd (find (\<lambda>kv. prefix q (fst kv)) kvs))"
proof -
  have "parser_loop fuel (rpc_buffer_rewind b) [] = Some (Inr ([] @ stored_items kvs))"
    by (rule parser_loop_ok [of _ "[]"]) (use assms ok_pair_fits in \<open>simp_all add: rpc_buffer_rewind_def buf_has_def\<close>)
  then have "rpc_parser_new fuel (Some b) = Some (Inr (Some (stored_items kvs)))"
    by (simp add: rpc_parser_new_def)
  then show ?thesis
    using parser_get_stored assms(3) by (simp add: rpc_parser_count_def rpc_parser_get_def)
qed

definition demo_pairs :: "(byte list \<times> byte list) list" where
  "demo_pairs = [([117, 105, 100], [55]), ([117], [56])]"  \<comment> \<open>\<open>uid: 7\<close>, \<open>u: 8\<close>\<close>

definition demo_request :: rpc_buffer where
  "demo_request = (let p = concat (map kv_frame demo_pairs) in
     \<lparr>chunk = map Some (p @ [0]), chunk_size = int (length p) + 1, chunk_used = int (length p), parse_position = 0\<rparr>)"

theorem rpc_parser_spec_witness:
  "\<exists>req. rpc_parser_new 3 (Some demo_request) = Some (Inr (Some req)) \<and>
     rpc_parser_count (Some req) = int (length demo_pairs) \<and>
     (\<forall>q. ok_key q \<longrightarrow>
        rpc_parser_get (Some req) (Some q) = map_option snd (find (\<lambda>kv. prefix q (fst kv)) demo_pairs))"
proof (rule rpc_parser_spec)
  show "buf_has demo_request (concat (map kv_frame demo_pairs))"
    and "mem_has (chunk demo_request) 0 (concat (map kv_frame demo_pairs) @ [0])"
    by (simp_all add: buf_has_def mem_has_def demo_request_def Let_def)
  show "list_all ok_pair demo_pairs" and "length demo_pairs < 3"
    by (simp_all add: demo_pairs_def ok_pair_def ok_key_def)
qed

text \<open>
  C4. A received buffer whose first frame carries the length minus four keeps
  \<open>rpc_parser_new\<close> in its loop for ever: no amount of rounds is enough.
\<close>

theorem rpc_parser_new_diverges:
  assumes "buf_has b (int32_enc (- 4) @ k @ divide @ x)" and "ok_key k"
    and "mem_has (chunk b) 0 ((int32_enc (- 4) @ k @ divide @ x) @ [0])"
  shows "rpc_parser_new fuel (Some b) = None"
proof -
  let ?b = "rpc_buffer_rewind b" and ?s = "k @ divide @ x"
  have pos: "parse_position ?b = 0" and chunk: "chunk ?b = chunk b"
    by (simp_all add: rpc_buffer_rewind_def)
  have "mem_read (chunk b) 0 4 = Inr (int32_enc (- 4))"
    using mem_read_part [of "chunk b" 0 "int32_enc (- 4)" ?s] assms(1) by (simp add: buf_has_def)
  then have nxt: "rpc_buffer_next ?b = Inr (?b, Some (4, - 4))"
    using assms(1) by (simp add: rpc_buffer_next_def rpc_buffer_rewind_def buf_has_def int32_dec_enc Let_def divide_def)
  have "mem_has (chunk b) 4 (?s @ [0])"
    using assms(3) by (simp add: mem_has_append)
  then obtain rest where key: "drop 4 (chunk b) = map Some (?s @ [0]) @ rest"
    using mem_has_drop by blast
  then have "strstr_divide (drop 4 (chunk b)) = Inr (Some (int (length k)))"
    using strstr_divide_found [of k] assms(2) by (simp add: ok_key_def)
  then have kn: "rpc_keypair_next ?b = Inr (?b, Some (4, 4 + int (length k) + 2, - 4 - int (length k) - 2))"
    using nxt chunk by (simp add: rpc_keypair_next_def)
  have val: "drop (nat (4 + int (length k) + 2)) (chunk b) = map Some (x @ [0]) @ rest"
  proof -
    have "drop (4 + length (k @ divide)) (chunk b) = drop (length (k @ divide)) (drop 4 (chunk b))"
      by (simp add: add.commute)
    also have "\<dots> = map Some (x @ [0]) @ rest"
      unfolding key by simp
    finally show ?thesis by (simp add: divide_def nat_add_distrib)
  qed
  have add: "\<exists>req'. rpc_parser_add req (drop 4 (chunk b)) (drop (nat (4 + int (length k) + 2)) (chunk b))
                      (- 4 - int (length k) - 2) = Inr req'" for req
    by (rule parser_add_strings [OF key val]) simp
  have "parser_loop fuel ?b req = None" for req
  proof (induction fuel arbitrary: req)
    case (Suc fuel)
    obtain req' where "rpc_parser_add req (drop 4 (chunk b)) (drop (nat (4 + int (length k) + 2)) (chunk b))
                      (- 4 - int (length k) - 2) = Inr req'"
      using add by blast
    then show ?case using kn chunk Suc by simp
  qed simp
  then show ?thesis
    by (simp add: rpc_parser_new_def)
qed

theorem rpc_parser_new_diverges_witness:
  "\<forall>fuel. rpc_parser_new fuel (Some \<lparr>chunk = map Some (int32_enc (- 4) @ [107] @ divide @ [118] @ [0]),
     chunk_size = 9, chunk_used = 8, parse_position = 0\<rparr>) = None"
  using rpc_parser_new_diverges [of "\<lparr>chunk = map Some (int32_enc (- 4) @ [107] @ divide @ [118] @ [0]),
     chunk_size = 9, chunk_used = 8, parse_position = 0\<rparr>" "[107]" "[118]"]
  by (simp add: buf_has_def mem_has_def ok_key_def divide_def)

end
