(* ===== verification/Rpc_Dispatch.thy ===== *)
theory Rpc_Dispatch
  imports Rpc_Parser
begin

text \<open>
  The table of request callbacks, \<open>rpcprovider/rpc_dispatch.c\<close>. The linked list of
  entries is represented by the sequence of its entries. A callback is identified by its
  function pointer and its \<open>opaque\<close> pointer, both numbers here; what calling it does is the
  parameter \<open>call\<close>, from the entry, the descriptor and the request to the response
  and the reclaim flag.
\<close>

section \<open>The table\<close>

record rpc_dispatch_t =
  d_cb :: nat
  d_opaque :: nat
  d_category :: int       \<comment> \<open>\<open>rpc_categroy\<close>, a \<open>char\<close>\<close>
  d_sub_category :: int

record dispatch_state =
  dispatch_list :: "rpc_dispatch_t list"
  dispatch_list_inited :: bool

definition rpc_dispatch_init :: "dispatch_state \<Rightarrow> dispatch_state" where
  "rpc_dispatch_init s =
     (if dispatch_list_inited s then s else s\<lparr>dispatch_list := [], dispatch_list_inited := True\<rparr>)"

definition rpc_dispatch_add_cb :: "int \<Rightarrow> int \<Rightarrow> nat \<Rightarrow> nat \<Rightarrow> dispatch_state \<Rightarrow> dispatch_state" where
  "rpc_dispatch_add_cb category sub_category cb opaque s =
     s\<lparr>dispatch_list := dispatch_list s @
         [\<lparr>d_cb = cb, d_opaque = opaque, d_category = category, d_sub_category = sub_category\<rparr>]\<rparr>"

fun dispatch_del :: "rpc_dispatch_t \<Rightarrow> rpc_dispatch_t list \<Rightarrow> rpc_dispatch_t list \<times> int" where
  "dispatch_del e [] = ([], 0)"
| "dispatch_del e (tmp # rest) =
     (if d_category tmp = d_category e \<and> d_sub_category tmp = d_sub_category e \<and>
         d_cb tmp = d_cb e \<and> d_opaque tmp = d_opaque e
      then (rest, 1) else apfst ((#) tmp) (dispatch_del e rest))"

definition rpc_dispatch_del_cb :: "int \<Rightarrow> int \<Rightarrow> nat \<Rightarrow> nat \<Rightarrow> dispatch_state \<Rightarrow> dispatch_state \<times> int" where
  "rpc_dispatch_del_cb category sub_category cb opaque s =
     (let (l, ret) = dispatch_del \<lparr>d_cb = cb, d_opaque = opaque, d_category = category, d_sub_category = sub_category\<rparr>
                       (dispatch_list s)
      in (s\<lparr>dispatch_list := l\<rparr>, ret))"

text \<open>
  \<open>rpc_dispatch_processor\<close>: the entry called, its response, and whether the request is
  freed on return.
\<close>

fun dispatch_lookup :: "int \<Rightarrow> int \<Rightarrow> rpc_dispatch_t list \<Rightarrow> rpc_dispatch_t option" where
  "dispatch_lookup category sub_category [] = None"
| "dispatch_lookup category sub_category (tmp # rest) =
     (if d_category tmp = category \<and> d_sub_category tmp = sub_category then Some tmp
      else dispatch_lookup category sub_category rest)"

definition rpc_dispatch_processor ::
  "(rpc_dispatch_t \<Rightarrow> int \<Rightarrow> rpc_req option \<Rightarrow> rpc_buffer option \<times> bool) \<Rightarrow> dispatch_state \<Rightarrow>
   int \<Rightarrow> int \<Rightarrow> int \<Rightarrow> rpc_req option \<Rightarrow> rpc_buffer option \<times> bool" where
  "rpc_dispatch_processor call s category sub_category fd req =
     (case dispatch_lookup category sub_category (dispatch_list s) of
        None \<Rightarrow> (None, True)
      | Some tmp \<Rightarrow> call tmp fd req)"

definition rpc_dispatch_destroy :: "dispatch_state \<Rightarrow> dispatch_state" where
  "rpc_dispatch_destroy s =
     (if dispatch_list_inited s then s\<lparr>dispatch_list := [], dispatch_list_inited := False\<rparr> else s)"

section \<open>Lemmas\<close>

lemma dispatch_lookup_find:
  "dispatch_lookup c sc l = find (\<lambda>e. d_category e = c \<and> d_sub_category e = sc) l"
  by (induction l) auto

lemma dispatch_lookup_append:
  "dispatch_lookup c sc (xs @ ys) =
     (case dispatch_lookup c sc xs of None \<Rightarrow> dispatch_lookup c sc ys | Some e \<Rightarrow> Some e)"
  by (induction xs) auto

lemma dispatch_del_remove1: "dispatch_del e l = (remove1 e l, if e \<in> set l then 1 else 0)"
  by (induction l) (auto simp: rpc_dispatch_t.equality)

lemma dispatch_lookup_Some:
  "dispatch_lookup c sc l = Some e \<Longrightarrow> e \<in> set l \<and> d_category e = c \<and> d_sub_category e = sc"
  by (induction l) (auto split: if_splits)

lemma dispatch_lookup_None:
  "dispatch_lookup c sc l = None \<longleftrightarrow> (\<forall>e\<in>set l. \<not> (d_category e = c \<and> d_sub_category e = sc))"
  by (induction l) auto

section \<open>Properties\<close>

text \<open>
  A request is answered by the callback registered first for its category and
  sub-category: a later registration for the same pair never takes over, and one for a pair
  without a callback is used.
\<close>

theorem dispatch_first_wins:
  "rpc_dispatch_processor call (rpc_dispatch_add_cb c sc cb op s) c sc fd req =
     (if \<exists>e\<in>set (dispatch_list s). d_category e = c \<and> d_sub_category e = sc
      then rpc_dispatch_processor call s c sc fd req
      else call \<lparr>d_cb = cb, d_opaque = op, d_category = c, d_sub_category = sc\<rparr> fd req) \<and>
   ((c', sc') \<noteq> (c, sc) \<longrightarrow>
     rpc_dispatch_processor call (rpc_dispatch_add_cb c sc cb op s) c' sc' fd req = rpc_dispatch_processor call s c' sc' fd req)"
  by (auto simp: rpc_dispatch_processor_def rpc_dispatch_add_cb_def dispatch_lookup_append
        dispatch_lookup_None split: option.splits)
    (auto dest: dispatch_lookup_Some)

theorem dispatch_first_wins_witness:
  "rpc_dispatch_processor (\<lambda>e fd req. (None, d_cb e = 5))
     (rpc_dispatch_add_cb 1 2 6 0 (rpc_dispatch_add_cb 1 2 5 0 \<lparr>dispatch_list = [], dispatch_list_inited = True\<rparr>)) 1 2 9 None
   = (None, True)"
  using dispatch_first_wins [of "\<lambda>e fd req. (None, d_cb e = 5)" 1 2 6 0
      "rpc_dispatch_add_cb 1 2 5 0 \<lparr>dispatch_list = [], dispatch_list_inited = True\<rparr>" 9 None 3 4]
  by (simp add: rpc_dispatch_processor_def rpc_dispatch_add_cb_def)

text \<open>
  Deleting a callback removes its first registration and nothing else, with result 1;
  deleting one that is not registered changes nothing, with result 0. Hence adding a callback
  and deleting it again leaves a table without an equal entry as it was.
\<close>

theorem dispatch_del_spec:
  "rpc_dispatch_del_cb c sc cb op s =
     (let e = \<lparr>d_cb = cb, d_opaque = op, d_category = c, d_sub_category = sc\<rparr>
      in (s\<lparr>dispatch_list := remove1 e (dispatch_list s)\<rparr>, if e \<in> set (dispatch_list s) then 1 else 0)) \<and>
   (\<lparr>d_cb = cb, d_opaque = op, d_category = c, d_sub_category = sc\<rparr> \<notin> set (dispatch_list s) \<longrightarrow>
     rpc_dispatch_del_cb c sc cb op (rpc_dispatch_add_cb c sc cb op s) = (s, 1))"
  by (simp add: rpc_dispatch_del_cb_def dispatch_del_remove1 rpc_dispatch_add_cb_def Let_def remove1_append)

theorem dispatch_del_spec_witness:
  "rpc_dispatch_del_cb 1 2 5 0 (rpc_dispatch_add_cb 1 2 5 0 \<lparr>dispatch_list = [], dispatch_list_inited = True\<rparr>)
   = (\<lparr>dispatch_list = [], dispatch_list_inited = True\<rparr>, 1)"
  using dispatch_del_spec [of 1 2 5 0 "\<lparr>dispatch_list = [], dispatch_list_inited = True\<rparr>"] by simp

end
