(* ===== verification/Rpc_Queue.thy ===== *)
theory Rpc_Queue
  imports Prelude
begin

text \<open>
  The blocking message queue of \<open>rpcprovider/rpc_queue.c\<close>. Every operation runs under the
  queue's mutex, so it is one atomic step on the record below; \<open>rpc_queue_get\<close> gives the
  mutex up once at most, in the condition wait, and is split there. What other threads do
  during the wait and how the wait ends is the parameter \<open>wait\<close>. The step relation at the
  end interleaves any number of producers, consumers and stops.
\<close>

section \<open>Operations\<close>

record 'a rpc_queue =
  rq_items :: "'a list"   \<comment> \<open>the tail queue, first entry first\<close>
  rq_stop_sign :: bool

definition rpc_queue_new :: "'a rpc_queue" where
  "rpc_queue_new = \<lparr>rq_items = [], rq_stop_sign = False\<rparr>"

definition rpc_queue_push :: "'a rpc_queue \<Rightarrow> 'a \<Rightarrow> 'a rpc_queue" where
  "rpc_queue_push rq body = rq\<lparr>rq_items := rq_items rq @ [body]\<rparr>"

text \<open>What \<open>pthread_cond_wait\<close> and \<open>pthread_cond_timedwait\<close> return.\<close>

datatype wait_ret = WaitOk | WaitTimedOut | WaitError

text \<open>The absolute time passed to the timed wait, from \<open>gettimeofday\<close> (seconds, microseconds).\<close>

definition wait_deadline :: "int \<times> int \<Rightarrow> int \<Rightarrow> int \<times> int" where
  "wait_deadline now timeout =
     (fst now + c_div timeout 1000, snd now * 1000 + c_mod timeout 1000 * 1000000)"

datatype 'a get_entry = Returned "'a option" int | Waiting

definition queue_take :: "'a rpc_queue \<Rightarrow> 'a rpc_queue" where
  "queue_take rq = rq\<lparr>rq_items := tl (rq_items rq)\<rparr>"

definition queue_get_enter :: "'a rpc_queue \<Rightarrow> int \<Rightarrow> 'a rpc_queue \<times> 'a get_entry" where
  "queue_get_enter rq timeout =
     (case rq_items rq of
        item # _ \<Rightarrow> (queue_take rq, Returned (Some item) 1)
      | [] \<Rightarrow> if rq_stop_sign rq then (rq, Returned None 0)
              else if timeout = 0 then (rq, Returned None 0)
              else (rq, Waiting))"

definition queue_get_wake :: "'a rpc_queue \<Rightarrow> wait_ret \<Rightarrow> 'a rpc_queue \<times> 'a option \<times> int" where
  "queue_get_wake rq ret_status =
     (if rq_stop_sign rq then (rq, None, -1)
      else case rq_items rq of
        [] \<Rightarrow> (rq, None, if ret_status = WaitTimedOut then 0 else -1)
      | item # _ \<Rightarrow> (queue_take rq, Some item, 1))"

definition rpc_queue_get ::
  "((int \<times> int) option \<Rightarrow> 'a rpc_queue \<Rightarrow> 'a rpc_queue \<times> wait_ret) \<Rightarrow> int \<times> int \<Rightarrow>
   'a rpc_queue \<Rightarrow> int \<Rightarrow> 'a rpc_queue \<times> 'a option \<times> int" where
  "rpc_queue_get wait now rq timeout =
     (case queue_get_enter rq timeout of
        (rq, Returned body ret) \<Rightarrow> (rq, body, ret)
      | (rq, Waiting) \<Rightarrow>
          (let (rq', ret_status) = wait (if timeout > 0 then Some (wait_deadline now timeout) else None) rq
           in queue_get_wake rq' ret_status))"

definition rpc_queue_stop :: "'a rpc_queue \<Rightarrow> 'a rpc_queue" where
  "rpc_queue_stop rq = rq\<lparr>rq_stop_sign := True\<rparr>"

text \<open>\<open>rpc_queue_destroy\<close> stops the queue and clears the caller's pointer; entries left are not freed.\<close>

definition rpc_queue_destroy :: "'a rpc_queue option \<Rightarrow> 'a rpc_queue option" where
  "rpc_queue_destroy rq = (case rq of None \<Rightarrow> None | Some _ \<Rightarrow> None)"

lemma queue_simps [simp]:
  "rq_items rpc_queue_new = []" "rq_stop_sign rpc_queue_new = False"
  "rq_items (rpc_queue_push rq x) = rq_items rq @ [x]" "rq_stop_sign (rpc_queue_push rq x) = rq_stop_sign rq"
  "rq_items (rpc_queue_stop rq) = rq_items rq" "rq_stop_sign (rpc_queue_stop rq)"
  "rq_items (queue_take rq) = tl (rq_items rq)" "rq_stop_sign (queue_take rq) = rq_stop_sign rq"
  by (simp_all add: rpc_queue_new_def rpc_queue_push_def rpc_queue_stop_def queue_take_def)

section \<open>The interface: a first-in first-out channel\<close>

text \<open>
  What the users of a queue rely on: a push appends; a poll, a get that does not wait, takes
  the oldest entry and fails exactly on the empty queue.
\<close>

locale channel =
  fixes pending :: "'q \<Rightarrow> 'a list"
    and push :: "'q \<Rightarrow> 'a \<Rightarrow> 'q"
    and poll :: "'q \<Rightarrow> 'q \<times> 'a option"
  assumes push_law: "pending (push q x) = pending q @ [x]"
    and poll_empty: "pending q = [] \<Longrightarrow> poll q = (q, None)"
    and poll_first: "pending q = x # xs \<Longrightarrow> snd (poll q) = Some x \<and> pending (fst (poll q)) = xs"
begin

fun poll_n :: "nat \<Rightarrow> 'q \<Rightarrow> 'q \<times> 'a list" where
  "poll_n 0 q = (q, [])"
| "poll_n (Suc n) q =
     (case poll q of (q', None) \<Rightarrow> (q', []) | (q', Some x) \<Rightarrow> apsnd ((#) x) (poll_n n q'))"

lemma push_all: "pending (foldl push q xs) = pending q @ xs"
  by (induction xs arbitrary: q) (simp_all add: push_law)

lemma poll_n_takes: "snd (poll_n n q) = take n (pending q) \<and> pending (fst (poll_n n q)) = drop n (pending q)"
proof (induction n arbitrary: q)
  case (Suc n)
  then show ?case
    using poll_empty [of q] poll_first [of q]
    by (cases "pending q"; cases "poll q"; force)
qed simp

lemma poll_all: "length (pending q) \<le> n \<Longrightarrow> snd (poll_n n q) = pending q \<and> pending (fst (poll_n n q)) = []"
  using poll_n_takes [of n q] by simp

end

definition rpc_queue_poll :: "'a rpc_queue \<Rightarrow> 'a rpc_queue \<times> 'a option" where
  "rpc_queue_poll rq = (case rpc_queue_get (\<lambda>_ q. (q, WaitError)) (0, 0) rq 0 of (rq', body, _) \<Rightarrow> (rq', body))"

interpretation rq: channel rq_items rpc_queue_push rpc_queue_poll
  by unfold_locales
    (simp_all add: rpc_queue_poll_def rpc_queue_get_def queue_get_enter_def)

lemma rpc_queue_get_poll:
  "rpc_queue_get wait now rq 0 =
     (fst (rpc_queue_poll rq), snd (rpc_queue_poll rq), if rq_items rq = [] then 0 else 1)"
  by (cases "rq_items rq") (simp_all add: rpc_queue_poll_def rpc_queue_get_def queue_get_enter_def)

section \<open>Concurrent use\<close>

text \<open>
  The queue with the number of consumers blocked in the wait, and two history variables:
  everything pushed and everything delivered, in the order of the critical sections.
\<close>

record 'a queue_sys =
  qs_queue :: "'a rpc_queue"
  qs_blocked :: nat
  qs_pushed :: "'a list"
  qs_got :: "'a list"

definition queue_sys_new :: "'a queue_sys" where
  "queue_sys_new = \<lparr>qs_queue = rpc_queue_new, qs_blocked = 0, qs_pushed = [], qs_got = []\<rparr>"

definition opt_list :: "'a option \<Rightarrow> 'a list" where
  "opt_list x = (case x of None \<Rightarrow> [] | Some y \<Rightarrow> [y])"

inductive queue_step :: "'a queue_sys \<Rightarrow> 'a queue_sys \<Rightarrow> bool" where
  step_push: "queue_step s (s\<lparr>qs_queue := rpc_queue_push (qs_queue s) x, qs_pushed := qs_pushed s @ [x]\<rparr>)"
| step_stop: "queue_step s (s\<lparr>qs_queue := rpc_queue_stop (qs_queue s)\<rparr>)"
| step_return: "queue_get_enter (qs_queue s) timeout = (rq, Returned body ret) \<Longrightarrow>
    queue_step s (s\<lparr>qs_queue := rq, qs_got := qs_got s @ opt_list body\<rparr>)"
| step_block: "queue_get_enter (qs_queue s) timeout = (rq, Waiting) \<Longrightarrow>
    queue_step s (s\<lparr>qs_queue := rq, qs_blocked := qs_blocked s + 1\<rparr>)"
| step_wake: "qs_blocked s = Suc n \<Longrightarrow> queue_get_wake (qs_queue s) st = (rq, body, ret) \<Longrightarrow>
    queue_step s (s\<lparr>qs_queue := rq, qs_blocked := n, qs_got := qs_got s @ opt_list body\<rparr>)"

inductive_cases queue_stepE: "queue_step s s'"

lemma opt_list_simps [simp]: "opt_list None = []" "opt_list (Some x) = [x]"
  by (simp_all add: opt_list_def)

lemma get_enter_items:
  "queue_get_enter rq timeout = (rq', Returned body ret) \<Longrightarrow>
     rq_items rq = opt_list body @ rq_items rq' \<and> (ret = 1 \<longleftrightarrow> body \<noteq> None) \<and> (ret = 0 \<or> ret = 1)"
  "queue_get_enter rq timeout = (rq', Waiting) \<Longrightarrow> rq' = rq \<and> rq_items rq = []"
  by (cases "rq_items rq"; auto simp: queue_get_enter_def split: if_splits)+

lemma get_wake_items:
  "queue_get_wake rq st = (rq', body, ret) \<Longrightarrow>
     rq_items rq = opt_list body @ rq_items rq' \<and> (ret = 1 \<longleftrightarrow> body \<noteq> None) \<and> (ret = -1 \<or> ret = 0 \<or> ret = 1)"
  by (cases "rq_items rq") (auto simp: queue_get_wake_def split: if_splits)

lemma queue_step_history:
  assumes "queue_step s s'" and "qs_pushed s = qs_got s @ rq_items (qs_queue s)"
  shows "qs_pushed s' = qs_got s' @ rq_items (qs_queue s')"
  using assms
proof (cases rule: queue_step.cases)
  case (step_return timeout rq body ret)
  then show ?thesis using assms(2) get_enter_items(1) [OF step_return(2)] by simp
next
  case (step_block timeout rq)
  then show ?thesis using assms(2) get_enter_items(2) [OF step_block(2)] by simp
next
  case (step_wake n st rq body ret)
  then show ?thesis using assms(2) get_wake_items [OF step_wake(3)] by simp
qed (use assms(2) in simp_all)

section \<open>Properties\<close>

text \<open>
  C7. Under every interleaving of any number of pushes, blocking and non-blocking gets,
  wake-ups with any wait result, and stops, what was delivered followed by what is still
  queued is exactly what was pushed: nothing is lost, duplicated or reordered.
\<close>

theorem queue_run_fifo:
  assumes "queue_step\<^sup>*\<^sup>* queue_sys_new s"
  shows "qs_pushed s = qs_got s @ rq_items (qs_queue s)"
  using assms by (induction rule: rtranclp_induct) (auto simp: queue_sys_new_def intro: queue_step_history)

theorem queue_run_fifo_witness:
  "\<exists>s :: nat queue_sys. queue_step\<^sup>*\<^sup>* queue_sys_new s \<and> qs_got s = [7] \<and> qs_pushed s = qs_got s @ rq_items (qs_queue s)"
proof -
  let ?b = "(queue_sys_new :: nat queue_sys)\<lparr>qs_queue := rpc_queue_new, qs_blocked := qs_blocked (queue_sys_new :: nat queue_sys) + 1\<rparr>"
  let ?p = "?b\<lparr>qs_queue := rpc_queue_push (qs_queue ?b) 7, qs_pushed := qs_pushed ?b @ [7]\<rparr>"
  let ?g = "?p\<lparr>qs_queue := queue_take (qs_queue ?p), qs_blocked := 0, qs_got := qs_got ?p @ opt_list (Some 7)\<rparr>"
  have "queue_step queue_sys_new ?b"
    by (rule step_block [where timeout = "- 1"]) (simp add: queue_sys_new_def queue_get_enter_def)
  moreover have "queue_step ?b ?p" by (rule step_push)
  moreover have "queue_step ?p ?g"
    by (rule step_wake [where st = WaitOk]) (simp_all add: queue_sys_new_def queue_get_wake_def)
  ultimately have "queue_step\<^sup>*\<^sup>* queue_sys_new ?g"
    by (meson rtranclp.rtrancl_into_rtrancl rtranclp.rtrancl_refl)
  moreover have "qs_got ?g = [7]" by (simp add: queue_sys_new_def)
  ultimately show ?thesis using queue_run_fifo by blast
qed

text \<open>
  The result code of \<open>rpc_queue_get\<close>, whatever happens during the wait: it is 1 exactly
  when an entry is delivered; an entry queued at the call is the one delivered, without
  waiting; and on an empty queue that is stopped, or with a zero timeout, the call
  returns 0 at once (the documentation promises -1 for the stopped one).
\<close>

theorem rpc_queue_get_spec:
  assumes "rpc_queue_get wait now rq timeout = (rq', body, ret)"
  shows "(ret = 1 \<longleftrightarrow> body \<noteq> None) \<and> ret \<in> {-1, 0, 1} \<and>
    (rq_items rq \<noteq> [] \<longrightarrow> body = Some (hd (rq_items rq)) \<and> rq_items rq' = tl (rq_items rq)) \<and>
    (rq_items rq = [] \<and> (rq_stop_sign rq \<or> timeout = 0) \<longrightarrow> rq' = rq \<and> ret = 0)"
proof (cases "queue_get_enter rq timeout")
  case (Pair r e)
  then show ?thesis
  proof (cases e)
    case (Returned b v)
    then show ?thesis
      using assms Pair
      by (cases "rq_items rq") (auto simp: rpc_queue_get_def queue_get_enter_def queue_take_def split: if_splits)
  next
    case Waiting
    then obtain q st where "queue_get_wake q st = (rq', body, ret)"
      using assms Pair by (auto simp: rpc_queue_get_def split: prod.splits)
    then show ?thesis
      using get_wake_items [of q st rq' body ret] get_enter_items(2) [of rq timeout r] Pair Waiting
      by (auto simp: queue_get_enter_def split: if_splits)
  qed
qed

theorem rpc_queue_get_spec_witness:
  "rpc_queue_get (\<lambda>_ q. (rpc_queue_push q (3 :: nat), WaitOk)) (0, 0) rpc_queue_new 5 = (rpc_queue_new, Some 3, 1) \<and>
   rpc_queue_get (\<lambda>_ q. (q, WaitOk)) (0, 0) (rpc_queue_stop rpc_queue_new :: nat rpc_queue) 5
     = (rpc_queue_stop rpc_queue_new, None, 0)"
  using rpc_queue_get_spec [of "\<lambda>_ q. (rpc_queue_push q (3 :: nat), WaitOk)" "(0, 0)" rpc_queue_new 5 rpc_queue_new "Some 3" 1]
  by (simp add: rpc_queue_get_def queue_get_enter_def queue_get_wake_def rpc_queue_push_def rpc_queue_new_def
        queue_take_def rpc_queue_stop_def)

text \<open>
  The deadline of a timed wait denotes the current time plus the timeout, but its
  nanosecond field is a valid one exactly when the two sub-second parts do not add up to a
  second or more.
\<close>

theorem wait_deadline_valid:
  assumes "0 < timeout" and "0 \<le> usec" and "usec < 1000000"
    and "wait_deadline (sec, usec) timeout = (s, ns)"
  shows "s * 1000000000 + ns = sec * 1000000000 + usec * 1000 + timeout * 1000000 \<and> 0 \<le> ns \<and>
         (ns < 1000000000 \<longleftrightarrow> usec + 1000 * (timeout mod 1000) < 1000000)"
proof -
  have "s = sec + timeout div 1000" and "ns = usec * 1000 + (timeout mod 1000) * 1000000"
    using assms by (simp_all add: wait_deadline_def)
  moreover have "timeout = 1000 * (timeout div 1000) + timeout mod 1000" by simp
  moreover have "0 \<le> timeout mod 1000" by simp
  ultimately show ?thesis using assms(2) by linarith
qed

theorem wait_deadline_valid_witness:
  "wait_deadline (10, 600000) 500 = (10, 1100000000) \<and> \<not> (1100000000 < (1000000000 :: int))"
  using wait_deadline_valid [of 500 600000 10 10 1100000000] by (simp add: wait_deadline_def)

end
