(* ===== verification/Rpc_Ringbuffer.thy ===== *)
theory Rpc_Ringbuffer
  imports Prelude
begin

text \<open>
  The receive ring of a connection, \<open>rpcprovider/rpc_ringbuffer.c\<close>: a byte ring that
  grows when a write does not fit. Pointers into the ring are offsets; a read hands out a
  pointer, either into the ring itself or to the linear copy \<open>ret_buffer\<close>. The abstract
  view is the list of the unread cells; reads and writes refine dequeue and enqueue on it
  except where the ring is read across its end.
\<close>

section \<open>State and operations\<close>

record rpc_rb =
  rb_buffer :: mem
  rb_head :: int
  rb_tail :: int
  rb_capacity :: int
  rb_expand :: int
  rb_ret_buffer :: "mem option"
  rb_ret_buffer_size :: int

text \<open>The pointer a read returns through \<open>data\<close>.\<close>

datatype rb_ptr = RbRing int | RbRet

definition rpc_rb_new :: "int \<Rightarrow> int \<Rightarrow> rpc_rb" where
  "rpc_rb_new capacity expand =
     \<lparr>rb_buffer = mem_alloc capacity, rb_head = 0, rb_tail = 0, rb_capacity = capacity,
      rb_expand = expand, rb_ret_buffer = None, rb_ret_buffer_size = 0\<rparr>"

definition rpc_rb_can_read :: "rpc_rb \<Rightarrow> int" where
  "rpc_rb_can_read rb =
     (if rb_head rb = rb_tail rb then 0
      else if rb_head rb < rb_tail rb then rb_tail rb - rb_head rb
      else rb_capacity rb - (rb_head rb - rb_tail rb))"

definition rpc_rb_can_write :: "rpc_rb \<Rightarrow> int" where
  "rpc_rb_can_write rb = rb_capacity rb - rpc_rb_can_read rb"

text \<open>Copying cells keeps them as they are, written or not.\<close>

definition cells :: "mem \<Rightarrow> int \<Rightarrow> int \<Rightarrow> mem res" where
  "cells m off n =
     (if off < 0 \<or> n < 0 \<or> int (length m) < off + n then Inl OutOfBounds
      else Inr (take (nat n) (drop (nat off) m)))"

definition put_cells :: "mem \<Rightarrow> int \<Rightarrow> mem \<Rightarrow> mem res" where
  "put_cells m off cs =
     (if off < 0 \<or> int (length m) < off + int (length cs) then Inl OutOfBounds
      else Inr (take (nat off) m @ cs @ drop (nat off + length cs) m))"

definition rb_ret_mem :: "rpc_rb \<Rightarrow> mem" where
  "rb_ret_mem rb = (case rb_ret_buffer rb of None \<Rightarrow> [] | Some m \<Rightarrow> m)"

definition rb_ret_room :: "rpc_rb \<Rightarrow> int \<Rightarrow> rpc_rb" where
  "rb_ret_room rb count =
     (if rb_ret_buffer_size rb < count
      then rb\<lparr>rb_ret_buffer := Some (mem_alloc count), rb_ret_buffer_size := count\<rparr> else rb)"

text \<open>
  \<open>rpc_rb_read\<close>. The branch that reads across the end of the ring passes
  \<open>&rb->ret_buffer + size\<close> to its recursive call, the address \<open>size\<close> pointers behind the
  member; every path of that call stores the result pointer there. Since the head stays
  below the capacity (\<open>rb_ok\<close> below), \<open>size\<close> is positive and the store is outside the
  member: a fault.
\<close>

definition rpc_rb_read :: "rpc_rb \<Rightarrow> int \<Rightarrow> (rpc_rb \<times> rb_ptr \<times> int) res" where
  "rpc_rb_read rb count =
     (if rb_head rb < rb_tail rb then
        (let n = min count (rpc_rb_can_read rb) in
         if rb_head rb + n < 0 then Inl OutOfBounds
         else Inr (rb\<lparr>rb_head := rb_head rb + n\<rparr>, RbRing (rb_head rb), n))
      else
        (let rb = rb_ret_room rb count in
         if count < rb_capacity rb - rb_head rb then
           bindR (cells (rb_buffer rb) (rb_head rb) count) (\<lambda>cs.
           bindR (put_cells (rb_ret_mem rb) 0 cs) (\<lambda>ret.
           Inr (rb\<lparr>rb_head := rb_head rb + count,
                   rb_ret_buffer := (if rb_ret_buffer rb = None then None else Some ret)\<rparr>, RbRet, count)))
         else
           bindR (cells (rb_buffer rb) (rb_head rb) (rb_capacity rb - rb_head rb)) (\<lambda>cs.
           bindR (put_cells (rb_ret_mem rb) 0 cs) (\<lambda>_. Inl OutOfBounds))))"

text \<open>The cells a returned pointer gives access to.\<close>

definition rb_deref :: "rpc_rb \<Rightarrow> rb_ptr \<Rightarrow> int \<Rightarrow> mem res" where
  "rb_deref rb p n = (case p of RbRing off \<Rightarrow> cells (rb_buffer rb) off n | RbRet \<Rightarrow> cells (rb_ret_mem rb) 0 n)"

text \<open>The growing part of \<open>rpc_rb_write\<close>.\<close>

definition rb_grow :: "rpc_rb \<Rightarrow> int \<Rightarrow> rpc_rb res" where
  "rb_grow rb count =
     (if count \<ge> rpc_rb_can_write rb then
        (let capacity_new = rpc_rb_can_read rb + count + rb_expand rb;
             buffer_new = mem_alloc capacity_new;
             nreads = rpc_rb_can_read rb in
         bindR (rpc_rb_read rb nreads) (\<lambda>(rb, readbuf, readed).
         bindR (rb_deref rb readbuf readed) (\<lambda>cs.
         bindR (put_cells buffer_new 0 cs) (\<lambda>buffer.
         Inr (rb\<lparr>rb_buffer := buffer, rb_head := 0, rb_tail := readed, rb_capacity := capacity_new\<rparr>)))))
      else Inr rb)"

text \<open>
  \<open>rpc_rb_write\<close> of \<open>count = length data\<close> bytes; \<open>None\<close> is a recursion that does not end.
\<close>

partial_function (option) rpc_rb_write :: "rpc_rb \<Rightarrow> byte list \<Rightarrow> (rpc_rb \<times> int) res option" where
  "rpc_rb_write rb data =
     (case rb_grow rb (int (length data)) of
        Inl e \<Rightarrow> Some (Inl e)
      | Inr rb \<Rightarrow>
          if rb_head rb \<le> rb_tail rb then
            (let tail_size = rb_capacity rb - rb_tail rb in
             if int (length data) \<le> tail_size then
               Some (bindR (mem_write (rb_buffer rb) (rb_tail rb) data) (\<lambda>buffer.
                 (let tail = rb_tail rb + int (length data) in
                  Inr (rb\<lparr>rb_buffer := buffer, rb_tail := (if tail = rb_capacity rb then 0 else tail)\<rparr>,
                       int (length data)))))
             else
               (case mem_write (rb_buffer rb) (rb_tail rb) (take (nat tail_size) data) of
                  Inl e \<Rightarrow> Some (Inl e)
                | Inr buffer \<Rightarrow>
                    Option.bind (rpc_rb_write (rb\<lparr>rb_buffer := buffer, rb_tail := 0\<rparr>) (drop (nat tail_size) data))
                      (\<lambda>r. Some (bindR r (\<lambda>(rb, n). Inr (rb, tail_size + n))))))
          else
            Some (bindR (mem_write (rb_buffer rb) (rb_tail rb) data) (\<lambda>buffer.
              Inr (rb\<lparr>rb_buffer := buffer, rb_tail := rb_tail rb + int (length data)\<rparr>, int (length data)))))"

declare rpc_rb_write.simps [code]

section \<open>Abstract view\<close>

definition rb_content :: "rpc_rb \<Rightarrow> mem" where
  "rb_content rb =
     (if rb_head rb \<le> rb_tail rb
      then take (nat (rb_tail rb - rb_head rb)) (drop (nat (rb_head rb)) (rb_buffer rb))
      else drop (nat (rb_head rb)) (rb_buffer rb) @ take (nat (rb_tail rb)) (rb_buffer rb))"

definition rb_ok :: "rpc_rb \<Rightarrow> bool" where
  "rb_ok rb \<longleftrightarrow> int (length (rb_buffer rb)) = rb_capacity rb \<and>
     0 \<le> rb_head rb \<and> rb_head rb < rb_capacity rb \<and> 0 \<le> rb_tail rb \<and> rb_tail rb < rb_capacity rb \<and>
     0 < rb_expand rb \<and> 0 \<le> rb_ret_buffer_size rb \<and> int (length (rb_ret_mem rb)) = rb_ret_buffer_size rb \<and>
     (rb_ret_buffer rb = None \<longleftrightarrow> rb_ret_buffer_size rb = 0)"

text \<open>The two reads that do not cross the end of the ring, and writes that fit without one.\<close>

definition rb_readable :: "rpc_rb \<Rightarrow> int \<Rightarrow> bool" where
  "rb_readable rb n \<longleftrightarrow> 0 < n \<and> n \<le> rpc_rb_can_read rb \<and>
     (rb_head rb < rb_tail rb \<or> n < rb_capacity rb - rb_head rb)"

definition rb_writable :: "rpc_rb \<Rightarrow> int \<Rightarrow> bool" where
  "rb_writable rb n \<longleftrightarrow> rb_head rb \<le> rb_tail rb \<or> n < rpc_rb_can_write rb"

lemma rb_ok_new: "0 < capacity \<Longrightarrow> 0 < expand \<Longrightarrow> rb_ok (rpc_rb_new capacity expand)"
  by (simp add: rb_ok_def rpc_rb_new_def rb_ret_mem_def)

lemma rb_content_new [simp]: "rb_content (rpc_rb_new capacity expand) = []"
  by (simp add: rb_content_def rpc_rb_new_def)

lemma rb_ends_new [simp]: "rb_head (rpc_rb_new capacity expand) = 0" "rb_tail (rpc_rb_new capacity expand) = 0"
  by (simp_all add: rpc_rb_new_def)

lemma can_read_content: "rb_ok rb \<Longrightarrow> rpc_rb_can_read rb = int (length (rb_content rb))"
  by (auto simp: rb_ok_def rpc_rb_can_read_def rb_content_def)

lemma cells_ok: "0 \<le> off \<Longrightarrow> 0 \<le> n \<Longrightarrow> off + n \<le> int (length m) \<Longrightarrow>
    cells m off n = Inr (take (nat n) (drop (nat off) m))"
  by (simp add: cells_def)

lemma put_cells_front: "length cs \<le> length m \<Longrightarrow> put_cells m 0 cs = Inr (cs @ drop (length cs) m)"
  by (simp add: put_cells_def)

lemma rb_read_linear:
  assumes ok: "rb_ok rb" and lt: "rb_head rb < rb_tail rb" and n: "0 \<le> n" "n \<le> rpc_rb_can_read rb"
  shows "\<exists>rb' p. rpc_rb_read rb n = Inr (rb', p, n) \<and> rb_ok rb' \<and>
           rb_deref rb' p n = Inr (take (nat n) (rb_content rb)) \<and> rb_content rb' = drop (nat n) (rb_content rb)"
proof -
  let ?rb = "rb\<lparr>rb_head := rb_head rb + n\<rparr>"
  have le: "n \<le> rb_tail rb - rb_head rb" using n(2) lt by (simp add: rpc_rb_can_read_def)
  have "rpc_rb_read rb n = Inr (?rb, RbRing (rb_head rb), n)"
    using ok lt n by (simp add: rpc_rb_read_def rb_ok_def min_def)
  moreover have "rb_ok ?rb" using ok n(1) le by (simp add: rb_ok_def rb_ret_mem_def)
  moreover have "rb_deref ?rb (RbRing (rb_head rb)) n = Inr (take (nat n) (rb_content rb))"
    using ok n(1) le lt by (simp add: rb_deref_def cells_ok rb_ok_def rb_content_def min_def)
  moreover have "rb_content ?rb = drop (nat n) (rb_content rb)"
    using ok n(1) le lt by (simp add: rb_content_def rb_ok_def drop_take nat_add_distrib nat_diff_distrib' add.commute)
  ultimately show ?thesis by blast
qed

lemma rb_ret_room_ok:
  assumes "rb_ok rb" and "0 \<le> n"
  shows "rb_ok (rb_ret_room rb n)" and "n \<le> int (length (rb_ret_mem (rb_ret_room rb n)))"
    and "rb_content (rb_ret_room rb n) = rb_content rb" and "rb_head (rb_ret_room rb n) = rb_head rb"
    and "rb_tail (rb_ret_room rb n) = rb_tail rb" and "rb_capacity (rb_ret_room rb n) = rb_capacity rb"
    and "rb_buffer (rb_ret_room rb n) = rb_buffer rb"
  using assms by (auto simp: rb_ok_def rb_ret_room_def rb_ret_mem_def rb_content_def)

lemma rb_read_copied:
  assumes ok: "rb_ok rb" and lt: "rb_tail rb < rb_head rb" and n: "0 < n" "n < rb_capacity rb - rb_head rb"
  shows "\<exists>rb' p. rpc_rb_read rb n = Inr (rb', p, n) \<and> rb_ok rb' \<and>
           rb_deref rb' p n = Inr (take (nat n) (rb_content rb)) \<and> rb_content rb' = drop (nat n) (rb_content rb)"
proof -
  let ?r = "rb_ret_room rb n"
  note r = rb_ret_room_ok [OF ok less_imp_le [OF n(1)]]
  let ?cs = "take (nat n) (drop (nat (rb_head rb)) (rb_buffer rb))"
  let ?ret = "?cs @ drop (nat n) (rb_ret_mem ?r)"
  let ?rb = "?r\<lparr>rb_head := rb_head rb + n, rb_ret_buffer := Some ?ret\<rparr>"
  have len: "length ?cs = nat n" using ok n by (auto simp: rb_ok_def min_def)
  have some: "rb_ret_buffer ?r \<noteq> None"
    using r(1,2) n(1) by (auto simp: rb_ok_def)
  have "put_cells (rb_ret_mem ?r) 0 ?cs = Inr ?ret"
    using put_cells_front [of ?cs "rb_ret_mem ?r"] len r(2) by simp
  then have "rpc_rb_read rb n = Inr (?rb, RbRet, n)"
    using lt n ok r some by (simp add: rpc_rb_read_def Let_def cells_ok rb_ok_def)
  moreover have "rb_ok ?rb"
    using r ok n len some by (auto simp: rb_ok_def rb_ret_mem_def)
  moreover have "rb_deref ?rb RbRet n = Inr (take (nat n) (rb_content rb))"
    using ok n lt len r(2) by (simp add: rb_deref_def rb_ret_mem_def cells_ok rb_content_def rb_ok_def)
  moreover have "rb_content ?rb = drop (nat n) (rb_content rb)"
  proof -
    have "nat n - (length (rb_buffer rb) - nat (rb_head rb)) = 0"
      using ok n by (auto simp: rb_ok_def)
    then show ?thesis
      using ok n lt r by (simp add: rb_content_def rb_ok_def nat_add_distrib add.commute)
  qed
  ultimately show ?thesis by blast
qed

lemma rb_read_ok:
  assumes "rb_ok rb" and "rb_readable rb n"
  shows "\<exists>rb' p. rpc_rb_read rb n = Inr (rb', p, n) \<and> rb_ok rb' \<and>
           rb_deref rb' p n = Inr (take (nat n) (rb_content rb)) \<and> rb_content rb' = drop (nat n) (rb_content rb)"
proof (cases "rb_head rb < rb_tail rb")
  case True
  then show ?thesis using rb_read_linear assms by (simp add: rb_readable_def)
next
  case False
  then have "rb_head rb \<noteq> rb_tail rb"
    using assms(2) by (auto simp: rb_readable_def rpc_rb_can_read_def)
  then show ?thesis using rb_read_copied False assms by (simp add: rb_readable_def)
qed

lemma rb_read_across:
  assumes ok: "rb_ok rb" and "rb_tail rb \<le> rb_head rb" and n: "rb_capacity rb - rb_head rb \<le> n"
  shows "rpc_rb_read rb n = Inl OutOfBounds"
proof -
  have "0 \<le> n" using ok n by (simp add: rb_ok_def)
  note r = rb_ret_room_ok [OF ok this]
  have "bindR (put_cells m 0 cs) (\<lambda>_. Inl OutOfBounds) = (Inl OutOfBounds :: (rpc_rb \<times> rb_ptr \<times> int) res)" for m cs
    by (simp add: put_cells_def)
  then show ?thesis
    using assms r by (simp add: rpc_rb_read_def Let_def cells_ok rb_ok_def)
qed

section \<open>Writing\<close>

lemma rb_grow_ok:
  assumes ok: "rb_ok rb" and w: "rb_writable rb n" and n: "0 \<le> n"
  shows "\<exists>rb'. rb_grow rb n = Inr rb' \<and> rb_ok rb' \<and> rb_content rb' = rb_content rb \<and> n < rpc_rb_can_write rb'"
proof (cases "n < rpc_rb_can_write rb")
  case True
  then show ?thesis using ok by (simp add: rb_grow_def)
next
  case False
  let ?k = "rpc_rb_can_read rb"
  have k: "?k = int (length (rb_content rb))" using can_read_content [OF ok] .
  obtain rb' p where rd: "rpc_rb_read rb ?k = Inr (rb', p, ?k)" "rb_ok rb'"
      "rb_deref rb' p ?k = Inr (rb_content rb)" "rb_expand rb' = rb_expand rb"
  proof (cases "rb_head rb < rb_tail rb")
    case True
    obtain rb' p where "rpc_rb_read rb ?k = Inr (rb', p, ?k)" "rb_ok rb'" "rb_deref rb' p ?k = Inr (rb_content rb)"
      using rb_read_linear [OF ok True, of ?k] k by auto
    moreover have "rb_expand rb' = rb_expand rb"
      using calculation(1) True by (auto simp: rpc_rb_read_def Let_def split: if_splits)
    ultimately show thesis using that by blast
  next
    case neg: False
    then have eq: "rb_head rb = rb_tail rb" and k0: "?k = 0"
      using w False by (auto simp: rb_writable_def rpc_rb_can_read_def)
    have "rb_ret_room rb 0 = rb" using ok by (simp add: rb_ret_room_def rb_ok_def)
    moreover have "put_cells (rb_ret_mem rb) 0 [] = Inr (rb_ret_mem rb)" by (simp add: put_cells_def)
    ultimately have "rpc_rb_read rb 0 = Inr (rb\<lparr>rb_ret_buffer := rb_ret_buffer rb\<rparr>, RbRet, 0)"
      using eq ok by (cases "rb_ret_buffer rb") (auto simp: rpc_rb_read_def rb_ok_def cells_def rb_ret_mem_def)
    moreover have "rb_content rb = []" using k k0 by simp
    ultimately show thesis using that [of rb RbRet] ok k0 by (simp add: rb_deref_def cells_def)
  qed
  let ?cap = "?k + n + rb_expand rb"
  let ?rb = "rb'\<lparr>rb_buffer := rb_content rb @ drop (length (rb_content rb)) (mem_alloc ?cap), rb_head := 0,
                 rb_tail := ?k, rb_capacity := ?cap\<rparr>"
  have e: "0 < rb_expand rb" using ok by (simp add: rb_ok_def)
  have "rb_grow rb n = Inr ?rb"
    using False rd k n e by (simp add: rb_grow_def Let_def put_cells_front)
  moreover have "rb_ok ?rb" using rd(2,4) k n e by (simp add: rb_ok_def rb_ret_mem_def)
  moreover have "rb_content ?rb = rb_content rb"
    by (subst rb_content_def) (simp add: k)
  moreover have "n < rpc_rb_can_write ?rb" using e n k by (simp add: rpc_rb_can_write_def rpc_rb_can_read_def)
  ultimately show ?thesis by blast
qed

lemma rb_grow_wrapped:
  assumes ok: "rb_ok rb" and "rb_tail rb < rb_head rb" and "rpc_rb_can_write rb \<le> n"
  shows "rb_grow rb n = Inl OutOfBounds"
proof -
  have "rpc_rb_read rb (rpc_rb_can_read rb) = Inl OutOfBounds"
    using assms by (intro rb_read_across) (simp_all add: rpc_rb_can_read_def rb_ok_def)
  then show ?thesis using assms(3) by (simp add: rb_grow_def Let_def)
qed

text \<open>Offsets as natural numbers.\<close>

lemma rb_ok_nats:
  assumes "rb_ok rb"
  obtains h t where "rb_head rb = int h" "rb_tail rb = int t" "rb_capacity rb = int (length (rb_buffer rb))"
    "h < length (rb_buffer rb)" "t < length (rb_buffer rb)"
proof (rule that [of "nat (rb_head rb)" "nat (rb_tail rb)"])
qed (use assms in \<open>auto simp: rb_ok_def\<close>)

lemma rb_write_high:
  assumes ok: "rb_ok rb" and hi: "rb_tail rb < rb_head rb" and n: "int (length data) < rpc_rb_can_write rb"
  shows "\<exists>rb'. rpc_rb_write rb data = Some (Inr (rb', int (length data))) \<and> rb_ok rb' \<and>
           rb_content rb' = rb_content rb @ map Some data"
proof -
  obtain h t where ht: "rb_head rb = int h" "rb_tail rb = int t" "rb_capacity rb = int (length (rb_buffer rb))"
    "h < length (rb_buffer rb)" "t < length (rb_buffer rb)" using rb_ok_nats [OF ok] .
  have lt: "t + length data < h" using n hi ht by (simp add: rpc_rb_can_write_def rpc_rb_can_read_def)
  let ?buf = "take t (rb_buffer rb) @ map Some data @ drop (t + length data) (rb_buffer rb)"
  let ?rb = "rb\<lparr>rb_buffer := ?buf, rb_tail := int t + int (length data)\<rparr>"
  have "rpc_rb_write rb data = Some (Inr (?rb, int (length data)))"
    using n hi ht lt by (subst rpc_rb_write.simps) (simp add: rb_grow_def mem_write_ok)
  moreover have "rb_ok ?rb" using ok ht lt by (simp add: rb_ok_def rb_ret_mem_def)
  moreover have "rb_content ?rb = rb_content rb @ map Some data"
    using ht lt by (simp add: rb_content_def)
  ultimately show ?thesis by blast
qed

lemma rb_write_low:
  assumes ok: "rb_ok rb" and lo: "rb_head rb \<le> rb_tail rb" and n: "int (length data) < rpc_rb_can_write rb"
    and fits: "int (length data) \<le> rb_capacity rb - rb_tail rb"
  shows "\<exists>rb'. rpc_rb_write rb data = Some (Inr (rb', int (length data))) \<and> rb_ok rb' \<and>
           rb_content rb' = rb_content rb @ map Some data"
proof -
  obtain h t where ht: "rb_head rb = int h" "rb_tail rb = int t" "rb_capacity rb = int (length (rb_buffer rb))"
    "h < length (rb_buffer rb)" "t < length (rb_buffer rb)" using rb_ok_nats [OF ok] .
  have le: "h \<le> t" "t + length data \<le> length (rb_buffer rb)" using lo fits ht by simp_all
  have lt: "t + length data < length (rb_buffer rb) + h"
    using n lo ht by (simp add: rpc_rb_can_write_def rpc_rb_can_read_def split: if_splits)
  let ?buf = "take t (rb_buffer rb) @ map Some data @ drop (t + length data) (rb_buffer rb)"
  let ?t = "if t + length data = length (rb_buffer rb) then 0 else t + length data"
  let ?rb = "rb\<lparr>rb_buffer := ?buf, rb_tail := int ?t\<rparr>"
  have "rpc_rb_write rb data = Some (Inr (?rb, int (length data)))"
    using n lo fits ht le by (subst rpc_rb_write.simps) (simp add: rb_grow_def mem_write_ok Let_def)
  moreover have "rb_ok ?rb" using ok ht le by (auto simp: rb_ok_def rb_ret_mem_def)
  moreover have "rb_content ?rb = rb_content rb @ map Some data"
    using ht le lt by (auto simp: rb_content_def drop_take nat_diff_distrib')
  ultimately show ?thesis by blast
qed

lemma rb_write_split:
  assumes ok: "rb_ok rb" and lo: "rb_head rb \<le> rb_tail rb" and n: "int (length data) < rpc_rb_can_write rb"
    and over: "rb_capacity rb - rb_tail rb < int (length data)"
  shows "\<exists>rb'. rpc_rb_write rb data = Some (Inr (rb', int (length data))) \<and> rb_ok rb' \<and>
           rb_content rb' = rb_content rb @ map Some data"
proof -
  obtain h t where ht: "rb_head rb = int h" "rb_tail rb = int t" "rb_capacity rb = int (length (rb_buffer rb))"
    "h < length (rb_buffer rb)" "t < length (rb_buffer rb)" using rb_ok_nats [OF ok] .
  let ?k = "length (rb_buffer rb) - t"
  have lt: "t + length data < length (rb_buffer rb) + h" and k: "?k < length data" and le: "h \<le> t"
    using n lo over ht by (simp_all add: rpc_rb_can_write_def rpc_rb_can_read_def split: if_splits)
  have h: "0 < h" using lt k ht(5) by linarith
  let ?buf = "take t (rb_buffer rb) @ map Some (take ?k data)"
  let ?rb = "rb\<lparr>rb_buffer := ?buf, rb_tail := 0\<rparr>"
  have w: "mem_write (rb_buffer rb) (rb_tail rb) (take ?k data) = Inr ?buf"
    using ht k mem_write_ok [of t "take ?k data" "rb_buffer rb"] by simp
  have ok': "rb_ok ?rb" using ok ht k by (auto simp: rb_ok_def rb_ret_mem_def)
  obtain rb' where rb': "rpc_rb_write ?rb (drop ?k data) = Some (Inr (rb', int (length (drop ?k data))))"
    "rb_ok rb'" "rb_content rb' = rb_content ?rb @ map Some (drop ?k data)"
    using rb_write_high [OF ok', of "drop ?k data"] ht lt k le h
    by (auto simp: rpc_rb_can_write_def rpc_rb_can_read_def)
  have ts: "nat (int (length (rb_buffer rb)) - int t) = ?k" using ht by simp
  have "rpc_rb_write rb data = Some (Inr (rb', int (length data)))"
    using n lo over ht k rb'(1) w
    by (subst rpc_rb_write.simps) (simp add: rb_grow_def Let_def ts)
  moreover have "rb_content ?rb @ map Some (drop ?k data) = rb_content rb @ map Some data"
    using ht le lt k h by (simp add: rb_content_def drop_take nat_diff_distrib' flip: map_append)
  ultimately show ?thesis using rb' by auto
qed

lemma rb_write_ok:
  assumes ok: "rb_ok rb" and "rb_writable rb (int (length data))"
  shows "\<exists>rb'. rpc_rb_write rb data = Some (Inr (rb', int (length data))) \<and> rb_ok rb' \<and>
           rb_content rb' = rb_content rb @ map Some data"
proof -
  obtain r where r: "rb_grow rb (int (length data)) = Inr r" "rb_ok r" "rb_content r = rb_content rb"
      "int (length data) < rpc_rb_can_write r"
    using rb_grow_ok [OF assms] by auto
  have "rb_grow r (int (length data)) = Inr r" using r(4) by (simp add: rb_grow_def)
  then have "rpc_rb_write rb data = rpc_rb_write r data"
    using r(1) by (simp add: rpc_rb_write.simps [of rb] rpc_rb_write.simps [of r])
  moreover have "\<exists>rb'. rpc_rb_write r data = Some (Inr (rb', int (length data))) \<and> rb_ok rb' \<and>
           rb_content rb' = rb_content r @ map Some data"
    using rb_write_high [OF r(2) _ r(4)] rb_write_low [OF r(2) _ r(4)] rb_write_split [OF r(2) _ r(4)]
    by (meson not_le)
  ultimately show ?thesis using r(3) by simp
qed

lemma rb_write_from_start:
  assumes ok: "rb_ok rb" and h: "rb_head rb = 0"
  shows "\<exists>rb'. rpc_rb_write rb data = Some (Inr (rb', int (length data))) \<and> rb_ok rb' \<and>
           rb_content rb' = rb_content rb @ map Some data \<and> rb_head rb' = 0"
proof -
  have w: "rb_writable rb (int (length data))" using ok h by (simp add: rb_writable_def rb_ok_def)
  obtain rb' where rb': "rpc_rb_write rb data = Some (Inr (rb', int (length data)))" "rb_ok rb'"
     "rb_content rb' = rb_content rb @ map Some data" using rb_write_ok [OF ok w] by blast
  obtain r where r: "rb_grow rb (int (length data)) = Inr r" "rb_ok r" "int (length data) < rpc_rb_can_write r"
    using rb_grow_ok [OF ok w] by auto
  have r0: "rb_head r = 0"
    using r(1) h by (auto simp: rb_grow_def Let_def bindR_eq_Inr split: if_splits prod.splits)
  then have "int (length data) \<le> rb_capacity r - rb_tail r" "0 \<le> rb_tail r"
    using r(2,3) by (auto simp: rb_ok_def rpc_rb_can_write_def rpc_rb_can_read_def split: if_splits)
  then have "rb_head rb' = 0"
    using rb'(1) r(1) r0 by (auto simp: rpc_rb_write.simps [of rb] bindR_eq_Inr Let_def split: if_splits)
  then show ?thesis using rb' by blast
qed

section \<open>The interface: a byte queue\<close>

text \<open>
  What a client of the ring relies on: a write appends to the unread bytes, a read
  delivers and removes a prefix of them, whenever the operation is admissible in the
  state. \<open>write\<close> and \<open>read\<close> are the successful outcomes.
\<close>

locale byte_fifo =
  fixes ok :: "'s \<Rightarrow> bool"
    and content :: "'s \<Rightarrow> 'c list"
    and writes :: "'s \<Rightarrow> byte list \<Rightarrow> 's \<Rightarrow> bool"
    and reads :: "'s \<Rightarrow> nat \<Rightarrow> 'c list \<Rightarrow> 's \<Rightarrow> bool"
    and cell :: "byte \<Rightarrow> 'c"
  assumes write_law: "ok s \<Longrightarrow> writes s bs s' \<Longrightarrow> ok s' \<and> content s' = content s @ map cell bs"
    and read_law: "ok s \<Longrightarrow> reads s n cs s' \<Longrightarrow> ok s' \<and> cs = take n (content s) \<and> length cs = n \<and> content s' = drop n (content s)"
begin

inductive run :: "'s \<Rightarrow> byte list \<Rightarrow> 'c list \<Rightarrow> 's \<Rightarrow> bool" where
  run_start: "run s [] [] s"
| run_write: "run s ins outs s1 \<Longrightarrow> writes s1 bs s2 \<Longrightarrow> run s (ins @ bs) outs s2"
| run_read: "run s ins outs s1 \<Longrightarrow> reads s1 n cs s2 \<Longrightarrow> run s ins (outs @ cs) s2"

lemma run_fifo:
  assumes "run s ins outs s'" and "ok s"
  shows "ok s' \<and> content s @ map cell ins = outs @ content s'"
  using assms
proof induction
  case (run_read s ins outs s1 n cs s2)
  then have "cs @ content s2 = content s1"
    using read_law [of s1 n cs s2] by simp
  then show ?case using run_read read_law [of s1 n cs s2] by simp
qed (use write_law in auto)

end

definition rb_writes :: "rpc_rb \<Rightarrow> byte list \<Rightarrow> rpc_rb \<Rightarrow> bool" where
  "rb_writes rb data rb' \<longleftrightarrow> rb_writable rb (int (length data)) \<and>
     rpc_rb_write rb data = Some (Inr (rb', int (length data)))"

definition rb_reads :: "rpc_rb \<Rightarrow> nat \<Rightarrow> mem \<Rightarrow> rpc_rb \<Rightarrow> bool" where
  "rb_reads rb n cs rb' \<longleftrightarrow> rb_readable rb (int n) \<and>
     (\<exists>p. rpc_rb_read rb (int n) = Inr (rb', p, int n) \<and> rb_deref rb' p (int n) = Inr cs)"

interpretation ring: byte_fifo rb_ok rb_content rb_writes rb_reads Some
proof
  fix s bs s'
  assume "rb_ok s" "rb_writes s bs s'"
  then show "rb_ok s' \<and> rb_content s' = rb_content s @ map Some bs"
    using rb_write_ok [of s bs] by (auto simp: rb_writes_def)
next
  fix s n cs s'
  assume ok: "rb_ok s" and r: "rb_reads s n cs s'"
  moreover have "n \<le> length (rb_content s)"
    using r can_read_content [OF ok] by (simp add: rb_reads_def rb_readable_def)
  ultimately show "rb_ok s' \<and> cs = take n (rb_content s) \<and> length cs = n \<and> rb_content s' = drop n (rb_content s)"
    using rb_read_ok [OF ok, of "int n"] by (auto simp: rb_reads_def)
qed

section \<open>Properties\<close>

text \<open>
  C5. Starting from a new ring, after any sequence of admissible writes and reads the bytes
  delivered so far followed by the unread ones are exactly the bytes written, in order.
\<close>

theorem ring_run_fifo:
  assumes "0 < capacity" and "0 < expand" and "ring.run (rpc_rb_new capacity expand) ins outs rb"
  shows "map Some ins = outs @ rb_content rb"
  using ring.run_fifo [OF assms(3) rb_ok_new [OF assms(1,2)]] by simp

theorem ring_run_fifo_witness:
  "\<exists>rb. ring.run (rpc_rb_new 4 2) ([1, 2, 3] @ []) ([] @ [Some 1, Some 2]) rb \<and>
        map Some [1, 2, 3 :: byte] = [Some 1, Some 2] @ rb_content rb"
proof -
  let ?n = "rpc_rb_new 4 2"
  let ?s = "?n\<lparr>rb_buffer := [Some 1, Some 2, Some 3, None], rb_tail := 3\<rparr>"
  let ?t = "?s\<lparr>rb_head := 2\<rparr>"
  have "ring.run ?n ([] @ [1, 2, 3]) [] ?s"
    by (rule ring.run_write [OF ring.run_start], subst rb_writes_def, subst rpc_rb_write.simps)
      (simp add: rb_writable_def rpc_rb_new_def rb_grow_def rpc_rb_can_write_def rpc_rb_can_read_def mem_write_def mem_alloc_def numeral_eq_Suc)
  then have "ring.run ?n ([] @ [1, 2, 3]) ([] @ [Some 1, Some 2]) ?t"
    by (rule ring.run_read [where n = 2])
      (simp add: rb_reads_def rb_readable_def rpc_rb_new_def rpc_rb_read_def rpc_rb_can_read_def rb_deref_def cells_def numeral_eq_Suc)
  then show ?thesis using ring_run_fifo [of 4 2] by fastforce
qed

text \<open>
  A well-formed ring never loses or corrupts data silently and never blocks: a write
  either appends exactly its bytes and keeps the ring well-formed or, exactly when the
  unread bytes wrap around the end and the data does not fit, runs into the faulty
  read across the end.
\<close>

theorem rpc_rb_write_spec:
  assumes ok: "rb_ok rb"
  shows "rpc_rb_write rb data \<noteq> None \<and>
    (if rb_tail rb < rb_head rb \<and> rpc_rb_can_write rb \<le> int (length data)
     then rpc_rb_write rb data = Some (Inl OutOfBounds)
     else \<exists>rb'. rpc_rb_write rb data = Some (Inr (rb', int (length data))) \<and> rb_ok rb' \<and>
            rb_content rb' = rb_content rb @ map Some data)"
proof (cases "rb_tail rb < rb_head rb \<and> rpc_rb_can_write rb \<le> int (length data)")
  case True
  then show ?thesis
    using rb_grow_wrapped [OF ok] by (simp add: rpc_rb_write.simps [of rb])
next
  case False
  then have "rb_writable rb (int (length data))" by (auto simp: rb_writable_def)
  then show ?thesis using rb_write_ok [OF ok] False by fastforce
qed

theorem rpc_rb_write_spec_witness:
  "\<exists>rb'. rpc_rb_write (rpc_rb_new 4 2) [1, 2] = Some (Inr (rb', 2)) \<and> rb_content rb' = [Some 1, Some 2]"
  using rpc_rb_write_spec [OF rb_ok_new [of 4 2], of "[1, 2]"] by auto

text \<open>
  Every read across the end of the ring, whatever it holds, stores the result pointer
  outside the ring object; so does the growth of a ring whose unread bytes wrap around.
\<close>

theorem rpc_rb_read_across_end:
  assumes "rb_ok rb" and "rb_tail rb < rb_head rb" and "rb_capacity rb - rb_head rb \<le> n"
  shows "rpc_rb_read rb n = Inl OutOfBounds \<and> rb_grow rb (rpc_rb_can_write rb + n) = Inl OutOfBounds"
proof -
  have "0 \<le> n" using assms by (simp add: rb_ok_def)
  then show ?thesis using rb_read_across rb_grow_wrapped assms by simp
qed

definition demo_wrapped :: rpc_rb where
  "demo_wrapped = \<lparr>rb_buffer = [Some 3, None, Some 1, Some 2], rb_head = 2, rb_tail = 1, rb_capacity = 4,
     rb_expand = 2, rb_ret_buffer = None, rb_ret_buffer_size = 0\<rparr>"

theorem rpc_rb_read_across_end_witness:
  "rb_content demo_wrapped = [Some 1, Some 2, Some 3] \<and> rpc_rb_read demo_wrapped 3 = Inl OutOfBounds"
  using rpc_rb_read_across_end [of demo_wrapped 3]
  by (simp add: demo_wrapped_def rb_ok_def rb_ret_mem_def rb_content_def)

end
