(* ===== verification/Rpc_Io.thy ===== *)
theory Rpc_Io
  imports Rpc_Shell Rpc_Dispatch Rpc_Queue Rpc_Ringbuffer
begin

text \<open>
  The connection layer, \<open>rpcprovider/rpc_io.c\<close>: every connection has a receive ring and a
  send queue; received bytes are cut into packets and handed to the worker pool as tasks,
  a worker parses and dispatches a task and queues the reply, the send thread is told
  through a signal queue which connection has something to send. A pointer to a
  connection is its descriptor (descriptors are unique in the list, \<open>io_wf\<close>). The linked
  list of connections is represented by the sequence of its entries.
\<close>

section \<open>Data\<close>

record rpc_io =
  io_send :: "rpc_buffer option rpc_queue"   \<comment> \<open>\<open>None\<close> is a NULL body\<close>
  io_recv :: rpc_rb
  io_shell :: rpc_shell
  io_shell_cached :: bool
  io_fd :: int
  io_extra :: nat

text \<open>
  A task keeps the pointer to the header, which lies in the receive ring or its copy. A ring that
  grows moves to a new, larger block: \<open>tk_block\<close> is the size of the block the pointer was taken
  in and tells whether that block is still there.
\<close>

record rpc_io_task =
  tk_fd :: int
  tk_shell :: rb_ptr
  tk_block :: int
  tk_in :: "rpc_buffer option"

record io_state =
  io_list :: "rpc_io list"
  io_inited :: bool
  io_signal_queue :: "int option rpc_queue"  \<comment> \<open>\<open>None\<close> is a NULL connection\<close>
  io_abort :: bool
  io_tasks :: "rpc_io_task list"             \<comment> \<open>registered with the worker pool, in order\<close>

definition RPC_IO_DEF_GROW_SIZE :: int where
  "RPC_IO_DEF_GROW_SIZE = 4 * 1024"

section \<open>Connections\<close>

definition rpc_io_find :: "int \<Rightarrow> io_state \<Rightarrow> rpc_io option" where
  "rpc_io_find fd s = find (\<lambda>io. io_fd io = fd) (io_list s)"

fun io_put :: "rpc_io \<Rightarrow> rpc_io list \<Rightarrow> rpc_io list" where
  "io_put io [] = []"
| "io_put io (tmp # rest) = (if io_fd tmp = io_fd io then io # rest else tmp # io_put io rest)"

definition rpc_io_init :: "io_state \<Rightarrow> io_state" where
  "rpc_io_init s =
     (if io_inited s then s
      else s\<lparr>io_list := [], io_abort := False, io_signal_queue := rpc_queue_new, io_tasks := [], io_inited := True\<rparr>)"

definition zero_shell :: rpc_shell where
  "zero_shell = \<lparr>sh_magic = 0, sh_version = 0, sh_category = 0, sh_sub_category = 0, sh_req = 0, sh_crypt = 0,
                 sh_body_size = 0, sh_reserved = 0\<rparr>"

definition io_new :: "int \<Rightarrow> nat \<Rightarrow> rpc_io" where
  "io_new fd extra =
     \<lparr>io_send = rpc_queue_new, io_recv = rpc_rb_new RPC_IO_DEF_GROW_SIZE RPC_IO_DEF_GROW_SIZE,
      io_shell = zero_shell, io_shell_cached = False, io_fd = fd, io_extra = extra\<rparr>"

definition rpc_io_add :: "int \<Rightarrow> nat \<Rightarrow> io_state \<Rightarrow> io_state \<times> int" where
  "rpc_io_add fd extra s =
     (case rpc_io_find fd s of
        None \<Rightarrow> (s\<lparr>io_list := io_list s @ [io_new fd extra]\<rparr>, 1)
      | Some _ \<Rightarrow> (s, 0))"

section \<open>Receiving\<close>

text \<open>The memory behind a pointer a ring read returned.\<close>

definition rb_mem :: "rpc_rb \<Rightarrow> rb_ptr \<Rightarrow> mem" where
  "rb_mem rb p = (case p of RbRing off \<Rightarrow> drop (nat off) (rb_buffer rb) | RbRet \<Rightarrow> rb_ret_mem rb)"

definition ptr_block :: "rpc_rb \<Rightarrow> rb_ptr \<Rightarrow> int" where
  "ptr_block rb p = (case p of RbRing off \<Rightarrow> rb_capacity rb | RbRet \<Rightarrow> rb_ret_buffer_size rb)"

text \<open>
  The header is read through its pointer again after the body has been read from the ring:
  a header in the linear copy is overwritten by the body then, or its copy has been freed.
\<close>

definition shell_reload :: "rpc_rb \<Rightarrow> rpc_rb \<Rightarrow> rb_ptr \<Rightarrow> rpc_shell res" where
  "shell_reload before after p =
     (if p = RbRet \<and> rb_ret_buffer_size before < rb_ret_buffer_size after then Inl UseAfterFree
      else bindR (mem_read (rb_mem after p) 0 shell_size) (\<lambda>bs. Inr (shell_dec bs)))"

text \<open>
  The loop of \<open>rpc_io_enqueue\<close>. \<open>can_read < sizeof(*shell)\<close> compares unsigned, so a
  negative count would not be small. The pointer \<open>shell\<close> is a local of the loop body: when
  a header is cached it is read without having been set.
\<close>

fun io_enqueue_loop :: "nat \<Rightarrow> crypt_env \<Rightarrow> rpc_io \<Rightarrow> rpc_io_task list \<Rightarrow> (rpc_io \<times> rpc_io_task list \<times> int) res option" where
  "io_enqueue_loop 0 env child tasks = None"
| "io_enqueue_loop (Suc fuel) env child tasks =
     (if \<not> io_shell_cached child \<and> 0 \<le> rpc_rb_can_read (io_recv child) \<and> rpc_rb_can_read (io_recv child) < shell_size
      then Some (Inr (child, tasks, 0))
      else if io_shell_cached child then Some (Inl UseUninit)
      else case bindR (rpc_rb_read (io_recv child) shell_size) (\<lambda>(recv, p, _).
             bindR (mem_read (rb_mem recv p) 0 shell_size) (\<lambda>bs. Inr (recv, p, shell_dec bs))) of
        Inl e \<Rightarrow> Some (Inl e)
      | Inr (recv, p, shell) \<Rightarrow>
          if sh_magic shell \<noteq> RPC_MAGIC_NUMBER then Some (Inr (child\<lparr>io_recv := recv\<rparr>, tasks, -1))
          else if sh_version shell \<noteq> RPC_VERSION_SIGN then Some (Inr (child\<lparr>io_recv := recv\<rparr>, tasks, -1))
          else if rpc_rb_can_read recv < sh_body_size shell then
            Some (Inr (child\<lparr>io_recv := recv, io_shell := shell, io_shell_cached := True\<rparr>, tasks, 1))
          else
            (case (if sh_body_size shell \<noteq> 0 then
                     bindR (rpc_rb_read recv (sh_body_size shell)) (\<lambda>(recv', body, _).
                     bindR (shell_reload recv recv' p) (\<lambda>shell.
                     bindR (rpc_buffer_new (Some (rb_mem recv' body)) (sh_body_size shell)) (\<lambda>inp.
                     case inp of
                       None \<Rightarrow> if crypt_of (sh_crypt shell) = crypt_type_none then Inr (recv', None) else Inl NullDeref
                     | Some inp \<Rightarrow>
                         bindR (rpc_buffer_decrypt env inp (crypt_of (sh_crypt shell))) (\<lambda>inp. Inr (recv', Some inp)))))
                   else Inr (recv, None)) of
               Inl e \<Rightarrow> Some (Inl e)
             | Inr (recv', inp) \<Rightarrow>
                 io_enqueue_loop fuel env (child\<lparr>io_recv := recv', io_shell_cached := False\<rparr>)
                   (tasks @ [\<lparr>tk_fd = io_fd child, tk_shell = p, tk_block = ptr_block recv' p, tk_in = inp\<rparr>])))"

definition rpc_io_enqueue :: "nat \<Rightarrow> crypt_env \<Rightarrow> int \<Rightarrow> byte list \<Rightarrow> io_state \<Rightarrow> (io_state \<times> int) res option" where
  "rpc_io_enqueue fuel env fd inbuf s =
     (case rpc_io_find fd s of
        None \<Rightarrow> Some (Inl NullDeref)
      | Some child \<Rightarrow>
          (case rpc_rb_write (io_recv child) inbuf of
             None \<Rightarrow> None
           | Some (Inl e) \<Rightarrow> Some (Inl e)
           | Some (Inr (recv, _)) \<Rightarrow>
               (case io_enqueue_loop fuel env (child\<lparr>io_recv := recv\<rparr>) (io_tasks s) of
                  None \<Rightarrow> None
                | Some (Inl e) \<Rightarrow> Some (Inl e)
                | Some (Inr (child, tasks, ret)) \<Rightarrow>
                    Some (Inr (s\<lparr>io_list := io_put child (io_list s), io_tasks := tasks\<rparr>, ret)))))"

section \<open>Processing\<close>

text \<open>
  The header a task points to. A deleted connection has freed its ring, a ring that has grown
  since has freed the block the pointer was taken in.
\<close>

definition task_shell :: "rpc_io_task \<Rightarrow> rpc_io \<Rightarrow> rpc_shell res" where
  "task_shell task child =
     (if ptr_block (io_recv child) (tk_shell task) \<noteq> tk_block task then Inl UseAfterFree
      else bindR (rb_deref (io_recv child) (tk_shell task) shell_size) (\<lambda>m.
           bindR (mem_read m 0 shell_size) (\<lambda>bs. Inr (shell_dec bs))))"

text \<open>
  The assignments to \<open>shell->req\<close> and \<open>shell->body_size\<close> go through the pointer into the
  receive ring; the other fields are stored as they were read.
\<close>

definition shell_store :: "rpc_rb \<Rightarrow> rb_ptr \<Rightarrow> rpc_shell \<Rightarrow> rpc_rb res" where
  "shell_store rb p shell =
     (case p of
        RbRing off \<Rightarrow> bindR (mem_write (rb_buffer rb) off (shell_enc shell)) (\<lambda>m. Inr (rb\<lparr>rb_buffer := m\<rparr>))
      | RbRet \<Rightarrow> bindR (mem_write (rb_ret_mem rb) 0 (shell_enc shell)) (\<lambda>m. Inr (rb\<lparr>rb_ret_buffer := Some m\<rparr>)))"

text \<open>
  \<open>rpc_io_processor\<close>, run by a worker for one task. \<open>call\<close> is the effect of the registered
  callbacks; a connection deleted in the meantime is a dangling pointer.
\<close>

definition rpc_io_processor ::
  "nat \<Rightarrow> crypt_env \<Rightarrow> (rpc_dispatch_t \<Rightarrow> int \<Rightarrow> rpc_req option \<Rightarrow> rpc_buffer option \<times> bool) \<Rightarrow> dispatch_state \<Rightarrow>
   rpc_io_task \<Rightarrow> io_state \<Rightarrow> io_state res option" where
  "rpc_io_processor fuel env call disp task s =
     (case (case tk_in task of None \<Rightarrow> Some (Inr None) | Some b \<Rightarrow> rpc_parser_new fuel (Some b)) of
        None \<Rightarrow> None
      | Some (Inl e) \<Rightarrow> Some (Inl e)
      | Some (Inr req) \<Rightarrow>
          (case rpc_io_find (tk_fd task) s of
             None \<Rightarrow> Some (Inl UseAfterFree)
           | Some child \<Rightarrow>
               Some (bindR (task_shell task child) (\<lambda>shell.
                 let (res_rpc, _) = rpc_dispatch_processor call disp (sint (sh_category shell)) (sint (sh_sub_category shell))
                                      (tk_fd task) req in
                 if sh_req shell = req_type_post then
                   Inr (s\<lparr>io_signal_queue := rpc_queue_push (io_signal_queue s) (Some (tk_fd task))\<rparr>)
                 else
                   bindR (rpc_io_make_shell env (shell\<lparr>sh_req := req_type_post\<rparr>) res_rpc) (\<lambda>(shell, body).
                   bindR (shell_store (io_recv child) (tk_shell task) shell) (\<lambda>recv.
                   Inr (s\<lparr>io_list := io_put (child\<lparr>io_send := rpc_queue_push (io_send child) body, io_recv := recv\<rparr>) (io_list s),
                          io_signal_queue := rpc_queue_push (io_signal_queue s) (Some (tk_fd task))\<rparr>)))))))"

section \<open>Sending\<close>

definition rpc_io_get :: "((int \<times> int) option \<Rightarrow> rpc_buffer option rpc_queue \<Rightarrow> rpc_buffer option rpc_queue \<times> wait_ret) \<Rightarrow>
   int \<times> int \<Rightarrow> int \<Rightarrow> int \<Rightarrow> io_state \<Rightarrow> io_state \<times> rpc_buffer option \<times> int" where
  "rpc_io_get wait now fd timeout s =
     (case rpc_io_find fd s of
        None \<Rightarrow> (s, None, 0)
      | Some child \<Rightarrow>
          (case rpc_queue_get wait now (io_send child) timeout of
             (q, out, ret) \<Rightarrow> (s\<lparr>io_list := io_put (child\<lparr>io_send := q\<rparr>) (io_list s)\<rparr>,
                               (case out of None \<Rightarrow> None | Some b \<Rightarrow> b), ret)))"

text \<open>
  The inner loop of \<open>rpc_io_routine\<close>: polls the send queue of the signalled connection
  and sends every entry; the bytes sent are collected. It ends because a poll shortens the queue.
\<close>

fun io_send_all :: "rpc_buffer option list \<Rightarrow> byte list list res" where
  "io_send_all [] = Inr []"
| "io_send_all (None # q) = Inl NullDeref"
| "io_send_all (Some out # q) =
     bindR (mem_read (rpc_buffer_get_buffer out) 0 (rpc_buffer_get_size out)) (\<lambda>bs.
     bindR (io_send_all q) (\<lambda>rest. Inr (bs # rest)))"

text \<open>
  One round of \<open>rpc_io_routine\<close> for one entry of the signal queue: \<open>io->fd\<close> is read
  through the pointer found there.
\<close>

definition io_routine_round :: "io_state \<Rightarrow> (io_state \<times> (int \<times> byte list) list) res" where
  "io_routine_round s =
     (case rpc_queue_poll (io_signal_queue s) of
        (sq, None) \<Rightarrow> Inr (s, [])
      | (sq, Some None) \<Rightarrow> Inl NullDeref
      | (sq, Some (Some fd)) \<Rightarrow>
          (case rpc_io_find fd s of
             None \<Rightarrow> Inl UseAfterFree
           | Some child \<Rightarrow>
               bindR (io_send_all (rq_items (io_send child))) (\<lambda>sent.
               Inr (s\<lparr>io_signal_queue := sq,
                      io_list := io_put (child\<lparr>io_send := (io_send child)\<lparr>rq_items := []\<rparr>\<rparr>) (io_list s)\<rparr>,
                    map (Pair fd) sent))))"

definition notify_skips :: "int \<Rightarrow> int \<Rightarrow> rpc_io \<Rightarrow> bool" where
  "notify_skips curfd notify_type tmp =
     (if notify_type = 1 then io_fd tmp \<noteq> curfd else if notify_type = 2 then io_fd tmp = curfd else False)"

fun io_notify_loop :: "int \<Rightarrow> int \<Rightarrow> int option \<Rightarrow> rpc_buffer \<Rightarrow> rpc_io list \<Rightarrow> int option rpc_queue \<Rightarrow>
    (rpc_io list \<times> int option rpc_queue \<times> int) res" where
  "io_notify_loop curfd notify_type cur inp [] sq = Inr ([], sq, 0)"
| "io_notify_loop curfd notify_type cur inp (tmp # rest) sq =
     (if notify_skips curfd notify_type tmp then
        bindR (io_notify_loop curfd notify_type cur inp rest sq) (\<lambda>(l, sq, cnt). Inr (tmp # l, sq, cnt))
      else
        bindR (rpc_buffer_clone inp) (\<lambda>copy.
        bindR (io_notify_loop curfd notify_type cur inp rest (rpc_queue_push sq cur)) (\<lambda>(l, sq, cnt).
        Inr (tmp\<lparr>io_send := rpc_queue_push (io_send tmp) copy\<rparr> # l, sq, cnt + 1))))"

definition rpc_io_nodify_fd :: "int \<Rightarrow> int \<Rightarrow> rpc_buffer \<Rightarrow> io_state \<Rightarrow> (io_state \<times> int) res" where
  "rpc_io_nodify_fd curfd notify_type inp s =
     bindR (io_notify_loop curfd notify_type (map_option io_fd (rpc_io_find curfd s)) inp (io_list s) (io_signal_queue s))
       (\<lambda>(l, sq, cnt). Inr (s\<lparr>io_list := l, io_signal_queue := sq\<rparr>, cnt))"

section \<open>Stopping and deleting\<close>

definition rpc_io_stop :: "int \<Rightarrow> io_state \<Rightarrow> io_state" where
  "rpc_io_stop fd s =
     (case rpc_io_find fd s of
        None \<Rightarrow> s
      | Some tmp \<Rightarrow> s\<lparr>io_list := io_put (tmp\<lparr>io_send := rpc_queue_stop (io_send tmp)\<rparr>) (io_list s)\<rparr>)"

fun io_drop :: "int \<Rightarrow> rpc_io list \<Rightarrow> rpc_io list" where
  "io_drop fd [] = []"
| "io_drop fd (tmp # rest) = (if io_fd tmp = fd then rest else tmp # io_drop fd rest)"

definition rpc_io_del :: "int \<Rightarrow> io_state \<Rightarrow> io_state" where
  "rpc_io_del fd s = s\<lparr>io_list := io_drop fd (io_list s)\<rparr>"

definition rpc_io_all :: "io_state \<Rightarrow> (int \<times> nat) list" where
  "rpc_io_all s = map (\<lambda>tmp. (io_fd tmp, io_extra tmp)) (io_list s)"

text \<open>
  \<open>rpc_io_destroy\<close> frees the connections and the signal queue before it waits for the
  worker pool: a task that is still queued runs on the freed objects.
\<close>

definition rpc_io_destroy :: "io_state \<Rightarrow> io_state res" where
  "rpc_io_destroy s =
     (if \<not> io_inited s then Inr s
      else if io_tasks s \<noteq> [] then Inl UseAfterFree
      else Inr (s\<lparr>io_list := [], io_abort := True, io_signal_queue := rpc_queue_stop rpc_queue_new, io_inited := False\<rparr>))"

section \<open>The list of connections\<close>

definition io_wf :: "io_state \<Rightarrow> bool" where
  "io_wf s \<longleftrightarrow> distinct (map io_fd (io_list s))"

lemma find_fd: "rpc_io_find fd s = Some io \<Longrightarrow> io \<in> set (io_list s) \<and> io_fd io = fd"
  by (auto simp: rpc_io_find_def find_Some_iff)

lemma find_fd_None: "rpc_io_find fd s = None \<longleftrightarrow> fd \<notin> io_fd ` set (io_list s)"
  by (auto simp: rpc_io_find_def find_None_iff)

lemma io_put_fds [simp]: "map io_fd (io_put io l) = map io_fd l"
  by (induction l) auto

lemma find_io_put: "find (\<lambda>io. io_fd io = fd) (io_put io l) =
    (if fd = io_fd io \<and> fd \<in> io_fd ` set l then Some io else find (\<lambda>io. io_fd io = fd) l)"
  by (induction l) auto

lemma io_drop_fds: "map io_fd (io_drop fd l) = remove1 fd (map io_fd l)"
  by (induction l) auto

lemma find_append: "find P (xs @ ys) = (case find P xs of None \<Rightarrow> find P ys | Some x \<Rightarrow> Some x)"
  by (induction xs) auto

lemma notify_loop_fds:
  "io_notify_loop curfd ty cur inp l sq = Inr (l', sq', cnt) \<Longrightarrow> map io_fd l' = map io_fd l"
  by (induction l arbitrary: l' sq sq' cnt) (auto simp: bindR_eq_Inr split: if_splits prod.splits)

section \<open>Reading packets from a linear ring\<close>

lemma mem_has_drop0: "mem_has m k d \<Longrightarrow> mem_has (drop k m) 0 d"
  by (auto simp: mem_has_def)

lemma rb_read_front:
  assumes ok: "rb_ok rb" and lin: "rb_head rb \<le> rb_tail rb" and c: "rb_content rb = map Some (d @ rest)" and d: "d \<noteq> []"
  shows "rpc_rb_read rb (int (length d)) = Inr (rb\<lparr>rb_head := rb_head rb + int (length d)\<rparr>, RbRing (rb_head rb), int (length d))"
    and "rb_ok (rb\<lparr>rb_head := rb_head rb + int (length d)\<rparr>)"
    and "rb_content (rb\<lparr>rb_head := rb_head rb + int (length d)\<rparr>) = map Some rest"
    and "rb_head rb + int (length d) \<le> rb_tail rb"
    and "mem_has (rb_buffer rb) (nat (rb_head rb)) d"
proof -
  have len: "length (rb_content rb) = nat (rb_tail rb - rb_head rb)"
    using ok lin by (auto simp: rb_content_def rb_ok_def)
  then have "int (length d) + int (length rest) = rb_tail rb - rb_head rb"
    using lin c by simp
  moreover have "0 < length d" using d by simp
  ultimately have lt: "rb_head rb < rb_tail rb" and le: "rb_head rb + int (length d) \<le> rb_tail rb" by linarith+
  show "rb_head rb + int (length d) \<le> rb_tail rb" by (fact le)
  have n: "int (length d) \<le> rpc_rb_can_read rb" using le lt by (simp add: rpc_rb_can_read_def)
  show eq: "rpc_rb_read rb (int (length d)) = Inr (rb\<lparr>rb_head := rb_head rb + int (length d)\<rparr>, RbRing (rb_head rb), int (length d))"
    using ok lt n by (simp add: rpc_rb_read_def rb_ok_def min_def Let_def)
  obtain rb' p where r: "rpc_rb_read rb (int (length d)) = Inr (rb', p, int (length d))" "rb_ok rb'"
     "rb_content rb' = drop (length d) (rb_content rb)"
    using rb_read_linear [OF ok lt _ n] by auto
  then show "rb_ok (rb\<lparr>rb_head := rb_head rb + int (length d)\<rparr>)"
    and "rb_content (rb\<lparr>rb_head := rb_head rb + int (length d)\<rparr>) = map Some rest"
    using eq c by auto
  have "take (length d) (rb_content rb) = map Some d" using c by simp
  then have "take (length d) (drop (nat (rb_head rb)) (rb_buffer rb)) = map Some d"
    using lin le by (simp add: rb_content_def min_def split: if_splits)
  then show "mem_has (rb_buffer rb) (nat (rb_head rb)) d"
    using ok le by (auto simp: mem_has_def rb_ok_def)
qed

lemma mem_has_unique: "mem_has m k xs \<Longrightarrow> mem_has m k ys \<Longrightarrow> length xs = length ys \<Longrightarrow> xs = ys"
  by (metis mem_has_def map_injective inj_Some)

lemma buf_has_unique: "buf_has b p \<Longrightarrow> buf_has b q \<Longrightarrow> p = q"
  using mem_has_unique [of "chunk b" 0 p q] by (auto simp: buf_has_def)

text \<open>A header that passes the checks, with the body the receiver decrypts to \<open>p\<close>.\<close>

definition carries :: "crypt_env \<Rightarrow> rpc_shell \<Rightarrow> byte list \<Rightarrow> byte list \<Rightarrow> bool" where
  "carries env sh w p \<longleftrightarrow>
     sh_magic sh = RPC_MAGIC_NUMBER \<and> sh_version sh = RPC_VERSION_SIGN \<and> sh_body_size sh = int (length w) \<and>
     int32_range (sh_body_size sh) \<and> int32_range (sh_reserved sh) \<and> w \<noteq> [] \<and>
     (\<forall>inp. buf_has inp w \<and> length w + 65 \<le> length (chunk inp) \<longrightarrow> (\<exists>b. rpc_buffer_decrypt env inp (crypt_of (sh_crypt sh)) = Inr b \<and> buf_has b p))"

text \<open>A task for a packet: its header still stands in the ring, its body holds the payload.\<close>

definition task_carries :: "int \<Rightarrow> rpc_rb \<Rightarrow> rpc_shell \<Rightarrow> byte list \<Rightarrow> rpc_io_task \<Rightarrow> bool" where
  "task_carries fd recv sh p t \<longleftrightarrow> tk_fd t = fd \<and>
     tk_block t = ptr_block recv (tk_shell t) \<and>
     (\<exists>off. 0 \<le> off \<and> tk_shell t = RbRing off \<and> mem_has (rb_buffer recv) (nat off) (shell_enc sh)) \<and>
     (\<exists>b. tk_in t = Some b \<and> buf_has b p)"

lemma shell_read:
  assumes "mem_has m (nat off) (shell_enc sh)" and "rb_buffer rb = m"
  shows "mem_read (rb_mem rb (RbRing off)) 0 shell_size = Inr (shell_enc sh)"
  using mem_read_has [OF mem_has_drop0 [OF assms(1)]] assms(2) by (simp add: rb_mem_def shell_size_def)

lemma can_read_linear: "rb_ok rb \<Longrightarrow> rb_content rb = map Some xs \<Longrightarrow> rpc_rb_can_read rb = int (length xs)"
  using can_read_content [of rb] by simp

lemma enqueue_packet:
  assumes c: "carries env sh w p" and ok: "rb_ok (io_recv child)" and nc: "\<not> io_shell_cached child"
    and lin: "rb_head (io_recv child) \<le> rb_tail (io_recv child)"
    and content: "rb_content (io_recv child) = map Some (shell_enc sh @ w @ rest)"
  shows "\<exists>recv' t. io_enqueue_loop (Suc fuel) env child tasks
            = io_enqueue_loop fuel env (child\<lparr>io_recv := recv', io_shell_cached := False\<rparr>) (tasks @ [t]) \<and>
          rb_ok recv' \<and> rb_head recv' \<le> rb_tail recv' \<and> rb_content recv' = map Some rest \<and>
          rb_buffer recv' = rb_buffer (io_recv child) \<and> task_carries (io_fd child) recv' sh p t"
proof -
  let ?r = "io_recv child"
  let ?r1 = "?r\<lparr>rb_head := rb_head ?r + 20\<rparr>"
  let ?r2 = "?r1\<lparr>rb_head := rb_head ?r + 20 + int (length w)\<rparr>"
  have ne: "shell_enc sh \<noteq> []" using length_shell_enc [of sh] by force
  note f1 = rb_read_front [OF ok lin content ne, simplified]
  have w: "w \<noteq> []" and dec: "shell_dec (shell_enc sh) = sh" and hd: "sh_magic sh = RPC_MAGIC_NUMBER"
    "sh_version sh = RPC_VERSION_SIGN" "sh_body_size sh = int (length w)"
    using c shell_dec_enc [of sh "[]"] by (auto simp: carries_def)
  have c1: "rb_content ?r1 = map Some (w @ rest)" using f1(3) by simp
  note f2 = rb_read_front [OF f1(2) _ c1 w, simplified, OF f1(4)]
  have rd1: "mem_read (rb_mem ?r1 (RbRing (rb_head ?r))) 0 shell_size = Inr (shell_enc sh)"
    and rd2: "mem_read (rb_mem ?r2 (RbRing (rb_head ?r))) 0 shell_size = Inr (shell_enc sh)"
    by (rule shell_read [OF f1(5)], simp)+
  have "mem_has (rb_mem ?r2 (RbRing (rb_head ?r + 20))) 0 w"
    using mem_has_drop0 [OF f2(5)] by (simp add: rb_mem_def)
  then obtain inp where inp: "rpc_buffer_new (Some (rb_mem ?r2 (RbRing (rb_head ?r + 20)))) (int (length w)) = Inr (Some inp)" "buf_has inp w"
    using rpc_buffer_new_ok w by blast
  have "int (length (chunk inp)) = int (length w) + 65" using rpc_buffer_new_room [OF inp(1)] w by simp
  then have "length w + 65 \<le> length (chunk inp)" by linarith
  with inp(2) obtain b where b: "rpc_buffer_decrypt env inp (crypt_of (sh_crypt sh)) = Inr b" "buf_has b p"
    using c by (auto simp: carries_def)
  have can: "rpc_rb_can_read ?r = int (20 + length w + length rest)" "rpc_rb_can_read ?r1 = int (length w + length rest)"
    using can_read_linear [OF ok content] can_read_linear [OF f1(2) c1] by simp_all
  have "io_enqueue_loop (Suc fuel) env child tasks
        = io_enqueue_loop fuel env (child\<lparr>io_recv := ?r2, io_shell_cached := False\<rparr>)
            (tasks @ [\<lparr>tk_fd = io_fd child, tk_shell = RbRing (rb_head ?r), tk_block = rb_capacity ?r, tk_in = Some b\<rparr>])"
    using f1(1) f2(1) can nc dec hd w rd1 rd2 inp(1) b(1)
    by (simp add: shell_size_def shell_reload_def ptr_block_def)
  moreover have "task_carries (io_fd child) ?r2 sh p \<lparr>tk_fd = io_fd child, tk_shell = RbRing (rb_head ?r), tk_block = rb_capacity ?r, tk_in = Some b\<rparr>"
    using f1(5) b(2) ok by (simp add: task_carries_def ptr_block_def rb_ok_def)
  ultimately show ?thesis
    using f2 by (intro exI [of _ ?r2] exI [of _ "\<lparr>tk_fd = io_fd child, tk_shell = RbRing (rb_head ?r), tk_block = rb_capacity ?r, tk_in = Some b\<rparr>"]) simp
qed

lemma enqueue_packets:
  assumes "list_all2 (\<lambda>(sh, p) w. \<exists>body. w = shell_enc sh @ body \<and> carries env sh body p) ms ws"
    and "rb_ok (io_recv child)" and "\<not> io_shell_cached child" and "rb_head (io_recv child) \<le> rb_tail (io_recv child)"
    and "rb_content (io_recv child) = map Some (concat ws @ rest)" and "length rest < 20" and "length ms < fuel"
  shows "\<exists>child' ts. io_enqueue_loop fuel env child tasks = Some (Inr (child', tasks @ ts, 0)) \<and>
           io_fd child' = io_fd child \<and> \<not> io_shell_cached child' \<and> rb_ok (io_recv child') \<and>
           rb_content (io_recv child') = map Some rest \<and> rb_buffer (io_recv child') = rb_buffer (io_recv child) \<and>
           list_all2 (\<lambda>(sh, p) t. task_carries (io_fd child) (io_recv child') sh p t) ms ts"
  using assms
proof (induction ms ws arbitrary: child tasks fuel rule: list_all2_induct)
  case Nil
  then obtain f where "fuel = Suc f" by (cases fuel) auto
  moreover have "rpc_rb_can_read (io_recv child) = int (length rest)"
    using can_read_linear Nil by simp
  ultimately show ?case
    using Nil by (intro exI [of _ child] exI [of _ "[]"]) (simp add: shell_size_def)
next
  case (Cons m ms w ws)
  obtain sh p where m: "m = (sh, p)" by (cases m)
  obtain body where w: "w = shell_enc sh @ body" "carries env sh body p" using Cons.hyps(1) m by auto
  obtain f where f: "fuel = Suc f" using Cons.prems(6) by (cases fuel) auto
  have "rb_content (io_recv child) = map Some (shell_enc sh @ body @ (concat ws @ rest))"
    using Cons.prems(4) w(1) by simp
  then obtain recv' t where one: "io_enqueue_loop fuel env child tasks
        = io_enqueue_loop f env (child\<lparr>io_recv := recv', io_shell_cached := False\<rparr>) (tasks @ [t])"
      "rb_ok recv'" "rb_head recv' \<le> rb_tail recv'" "rb_content recv' = map Some (concat ws @ rest)"
      "rb_buffer recv' = rb_buffer (io_recv child)" "task_carries (io_fd child) recv' sh p t"
    using enqueue_packet [OF w(2) Cons.prems(1,2,3)] f by metis
  let ?c = "child\<lparr>io_recv := recv', io_shell_cached := False\<rparr>"
  obtain child' ts where r: "io_enqueue_loop f env ?c (tasks @ [t]) = Some (Inr (child', (tasks @ [t]) @ ts, 0))"
      "io_fd child' = io_fd ?c" "\<not> io_shell_cached child'" "rb_ok (io_recv child')"
      "rb_content (io_recv child') = map Some rest" "rb_buffer (io_recv child') = rb_buffer (io_recv ?c)"
      "list_all2 (\<lambda>(sh, p) t. task_carries (io_fd ?c) (io_recv child') sh p t) ms ts"
    using Cons.IH [of ?c f "tasks @ [t]"] one Cons.prems f by auto
  moreover have "task_carries (io_fd child) (io_recv child') sh p t"
    using one(2,5,6) r(4,6) by (auto simp: task_carries_def ptr_block_def rb_ok_def)
  ultimately show ?case
    using one by (intro exI [of _ child'] exI [of _ "t # ts"]) (simp add: m)
qed

section \<open>Messages made by the sender\<close>

text \<open>A message: header fields and payload. Plain, AES- and TEA-encrypted messages are covered.\<close>

definition msg_ok :: "rpc_shell \<times> byte list \<Rightarrow> bool" where
  "msg_ok m \<longleftrightarrow> sh_magic (fst m) = RPC_MAGIC_NUMBER \<and> sh_version (fst m) = RPC_VERSION_SIGN \<and>
     sh_reserved (fst m) = 0 \<and> (sh_crypt (fst m) = 0 \<or> sh_crypt (fst m) = 1 \<or> sh_crypt (fst m) = 2) \<and>
     snd m \<noteq> [] \<and> length (snd m) < 2 ^ 30"

text \<open>The bytes on the wire that \<open>rpc_io_make_shell\<close> makes of a buffer with the payload.\<close>

definition made :: "crypt_env \<Rightarrow> rpc_shell \<times> byte list \<Rightarrow> rpc_shell \<Rightarrow> byte list \<Rightarrow> bool" where
  "made senv m sh w \<longleftrightarrow> (\<exists>b out. buf_has b (snd m) \<and>
     rpc_io_make_shell senv (fst m) (Some b) = Inr (sh, Some out) \<and> buf_has out w)"

lemma made_carries:
  assumes "made senv m sh w" and ok: "msg_ok m" and stack: "length (env_stack senv) = 8"
  shows "\<exists>body. w = shell_enc sh @ body \<and> carries env sh body (snd m)"
proof -
  obtain b out where b: "buf_has b (snd m)" "rpc_io_make_shell senv (fst m) (Some b) = Inr (sh, Some out)" "buf_has out w"
    using assms(1) by (auto simp: made_def)
  let ?p = "snd m"
  have p: "?p \<noteq> []" and plen: "length ?p < 2 ^ 30" using ok by (auto simp: msg_ok_def)
  consider (plain) "sh_crypt (fst m) = 0" | (aes) "sh_crypt (fst m) = 1" | (tea) "sh_crypt (fst m) = 2" using ok by (auto simp: msg_ok_def)
  then show ?thesis
  proof cases
    case plain
    note True = plain
    obtain out' where "rpc_io_make_shell senv (fst m) (Some b) = Inr (fst m\<lparr>sh_body_size := int (length ?p)\<rparr>, Some out')"
      "buf_has out' (shell_enc (fst m\<lparr>sh_body_size := int (length ?p)\<rparr>) @ ?p)"
      using make_shell_plain [OF b(1) p True] by blast
    then have "w = shell_enc sh @ ?p" and sh: "sh = fst m\<lparr>sh_body_size := int (length ?p)\<rparr>"
      using b(2,3) buf_has_unique by auto
    moreover have "carries env sh ?p ?p"
      using ok True p plen sh by (auto simp: carries_def msg_ok_def int32_range_def crypt_of_def rpc_buffer_decrypt_def)
    ultimately show ?thesis by blast
  next
    case aes
    obtain c out' where "rpc_io_make_shell senv (fst m) (Some b) = Inr (fst m\<lparr>sh_body_size := int (4 + length c)\<rparr>, Some out')"
      "buf_has out' (shell_enc (fst m\<lparr>sh_body_size := int (4 + length c)\<rparr>) @ int32_enc (int (length ?p)) @ c)"
      and c: "aes_cipher ?p c" "length c \<le> length ?p + 16"
      using make_shell_aes [OF b(1) p aes] by blast
    then have "w = shell_enc sh @ int32_enc (int (length ?p)) @ c" and sh: "sh = fst m\<lparr>sh_body_size := int (4 + length c)\<rparr>"
      using b(2,3) buf_has_unique by auto
    moreover have ne: "int32_enc (int (length ?p)) \<noteq> []"
      by (metis length_int32_enc list.size(3) zero_neq_numeral)
    moreover have "\<exists>d. rpc_buffer_decrypt env inp crypt_type_aes = Inr d \<and> buf_has d ?p"
      if "buf_has inp (int32_enc (int (length ?p)) @ c)" "length c + 69 \<le> length (chunk inp)" for inp
      using buffer_decrypt_aes [OF that(1) c(1)] that(2) plen by simp
    then have "carries env sh (int32_enc (int (length ?p)) @ c) ?p"
      using ok aes sh ne c(2) plen by (simp add: carries_def msg_ok_def int32_range_def crypt_of_def)
    ultimately show ?thesis by blast
  next
    case tea
    let ?q = "qq_encrypt (env_stack senv) (env_rand senv) ?p rpc_pri_key"
    let ?c = "int32_enc (int (length ?p)) @ ?q"
    obtain out' where "rpc_io_make_shell senv (fst m) (Some b) = Inr (fst m\<lparr>sh_body_size := int (length ?c)\<rparr>, Some out')"
      "buf_has out' (shell_enc (fst m\<lparr>sh_body_size := int (length ?c)\<rparr>) @ ?c)"
      using make_shell_tea [OF b(1) p tea stack] by blast
    then have "w = shell_enc sh @ ?c" and sh: "sh = fst m\<lparr>sh_body_size := int (length ?c)\<rparr>"
      using b(2,3) buf_has_unique by auto
    moreover have ne: "int32_enc (int (length ?p)) \<noteq> []"
      by (metis length_int32_enc list.size(3) zero_neq_numeral)
    moreover have "\<exists>d. rpc_buffer_decrypt env inp crypt_type_tea = Inr d \<and> buf_has d ?p" if "buf_has inp ?c" for inp
      using buffer_decrypt_tea [OF that refl stack] plen by simp
    then have "carries env sh ?c ?p"
      using ok tea sh ne length_qq_encrypt [OF stack] header_pad_lt [of "length ?p"] plen
      by (simp add: carries_def msg_ok_def int32_range_def crypt_of_def)
    ultimately show ?thesis by blast
  qed
qed

section \<open>Properties\<close>

lemma enqueue_first:
  assumes "rpc_io_find fd s = Some (io_new fd extra)"
  shows "\<exists>recv. rb_ok recv \<and> rb_head recv = 0 \<and> rb_content recv = map Some inbuf \<and>
           rpc_io_enqueue fuel env fd inbuf s =
             (case io_enqueue_loop fuel env (io_new fd extra\<lparr>io_recv := recv\<rparr>) (io_tasks s) of
                  None \<Rightarrow> None
                | Some (Inl e) \<Rightarrow> Some (Inl e)
                | Some (Inr (child, tasks, ret)) \<Rightarrow>
                    Some (Inr (s\<lparr>io_list := io_put child (io_list s), io_tasks := tasks\<rparr>, ret)))"
proof -
  have "rb_ok (rpc_rb_new RPC_IO_DEF_GROW_SIZE RPC_IO_DEF_GROW_SIZE)"
    by (rule rb_ok_new) (simp_all add: RPC_IO_DEF_GROW_SIZE_def)
  then obtain recv where "rpc_rb_write (rpc_rb_new RPC_IO_DEF_GROW_SIZE RPC_IO_DEF_GROW_SIZE) inbuf = Some (Inr (recv, int (length inbuf)))"
      "rb_ok recv" "rb_content recv = map Some inbuf" "rb_head recv = 0"
    using rb_write_from_start [of "rpc_rb_new RPC_IO_DEF_GROW_SIZE RPC_IO_DEF_GROW_SIZE" inbuf] by auto
  then show ?thesis
    using assms by (intro exI [of _ recv]) (simp add: rpc_io_enqueue_def io_new_def)
qed

lemma find_put:
  "rpc_io_find fd s = Some io \<Longrightarrow> io_fd io' = fd \<Longrightarrow>
   rpc_io_find fd (s\<lparr>io_list := io_put io' (io_list s), io_tasks := ts\<rparr>) = Some io'"
  using find_fd [of fd s io] image_eqI [of fd io_fd io "set (io_list s)"] by (auto simp: rpc_io_find_def find_io_put)

text \<open>
  C8. End to end: messages with a payload that one side turns into packets with
  \<open>rpc_io_make_shell\<close>, plain, AES- or TEA-encrypted, each under its own random numbers and its
  own stack contents, sent back to back and received as the first data of a connection, become
  exactly one task each, in order, with its header in the ring and its payload decrypted; the
  ring is empty afterwards, and no other task is added.
\<close>

theorem packets_end_to_end:
  assumes "list_all2 (\<lambda>(senv, m) (sh, w). length (env_stack senv) = 8 \<and> msg_ok m \<and> made senv m sh w) ms sent"
    and "rpc_io_find fd s = Some (io_new fd extra)" and "length ms < fuel"
  shows "\<exists>s' child ts. rpc_io_enqueue fuel env fd (concat (map snd sent)) s = Some (Inr (s', 0)) \<and>
           rpc_io_find fd s' = Some child \<and> rpc_rb_can_read (io_recv child) = 0 \<and> io_tasks s' = io_tasks s @ ts \<and>
           list_all2 (\<lambda>(sh, p) t. task_carries fd (io_recv child) sh p t) (zip (map fst sent) (map (snd \<circ> snd) ms)) ts"
proof -
  obtain recv where recv: "rb_ok recv" "rb_head recv = 0" "rb_content recv = map Some (concat (map snd sent) @ [])"
    and enq: "rpc_io_enqueue fuel env fd (concat (map snd sent)) s =
             (case io_enqueue_loop fuel env (io_new fd extra\<lparr>io_recv := recv\<rparr>) (io_tasks s) of
                  None \<Rightarrow> None
                | Some (Inl e) \<Rightarrow> Some (Inl e)
                | Some (Inr (child, tasks, ret)) \<Rightarrow>
                    Some (Inr (s\<lparr>io_list := io_put child (io_list s), io_tasks := tasks\<rparr>, ret)))"
    using enqueue_first [OF assms(2), of "concat (map snd sent)" fuel env] by auto
  let ?c = "io_new fd extra\<lparr>io_recv := recv\<rparr>" and ?ms = "zip (map fst sent) (map (snd \<circ> snd) ms)"
  have len: "length sent = length ms" using assms(1) by (simp add: list_all2_lengthD)
  have "list_all2 (\<lambda>(sh, p) w. \<exists>body. w = shell_enc sh @ body \<and> carries env sh body p) ?ms (map snd sent)"
    using assms(1)
  proof (induction ms sent rule: list_all2_induct)
    case (Cons m ms sw sws)
    then show ?case
      using made_carries [of "fst m" "snd m" "fst sw" "snd sw" env] by (cases sw; cases m) auto
  qed simp
  then obtain child ts where r: "io_enqueue_loop fuel env ?c (io_tasks s) = Some (Inr (child, io_tasks s @ ts, 0))"
      "io_fd child = fd" "rb_ok (io_recv child)" "rb_content (io_recv child) = []"
      "list_all2 (\<lambda>(sh, p) t. task_carries fd (io_recv child) sh p t) ?ms ts"
    using enqueue_packets [of env ?ms "map snd sent" ?c "[]" fuel "io_tasks s"] recv assms(3) len
    by (auto simp: io_new_def rb_ok_def)
  then show ?thesis
    using enq find_put [OF assms(2) r(2)] can_read_content [OF r(3)] by auto
qed

definition demo_io :: io_state where
  "demo_io = \<lparr>io_list = [io_new 7 0, io_new 8 0], io_inited = True, io_signal_queue = rpc_queue_new, io_abort = False, io_tasks = []\<rparr>"

definition demo_msg :: "rpc_shell \<times> byte list" where
  "demo_msg = (demo_shell\<lparr>sh_crypt := 2\<rparr>, [1, 2])"

definition demo_env2 :: crypt_env where
  "demo_env2 = demo_env\<lparr>env_stack := replicate 8 9, env_rand := (5, 6, 7, 8)\<rparr>"

lemma find_demo: "rpc_io_find 7 demo_io = Some (io_new 7 0)"
  by (simp add: rpc_io_find_def demo_io_def io_new_def)

lemma made_demo: "length (env_stack env) = 8 \<Longrightarrow> \<exists>sh w. made env demo_msg sh w"
proof -
  assume "length (env_stack env) = 8"
  moreover have b: "buf_has demo_buf (snd demo_msg)"
    by (simp add: demo_msg_def buf_has_def mem_has_def demo_buf_def)
  moreover have "snd demo_msg \<noteq> []" "sh_crypt (fst demo_msg) = 2"
    by (simp_all add: demo_msg_def)
  ultimately show ?thesis
    using make_shell_tea [OF b] b unfolding made_def by blast
qed

theorem packets_end_to_end_witness:
  "\<exists>sh w sh' w' s' child t t'. made demo_env demo_msg sh w \<and> made demo_env2 demo_msg sh' w' \<and>
     rpc_io_enqueue 3 demo_env 7 (w @ w') demo_io = Some (Inr (s', 0)) \<and>
     rpc_io_find 7 s' = Some child \<and> io_tasks s' = [t, t'] \<and>
     task_carries 7 (io_recv child) sh [1, 2] t \<and> task_carries 7 (io_recv child) sh' [1, 2] t'"
proof -
  have msg: "msg_ok demo_msg" by (simp add: msg_ok_def demo_msg_def demo_shell_def)
  have stack: "length (env_stack demo_env) = 8" "length (env_stack demo_env2) = 8"
    by (simp_all add: demo_env_def demo_env2_def)
  obtain sh w sh' w' where made: "made demo_env demo_msg sh w" "made demo_env2 demo_msg sh' w'"
    using made_demo [OF stack(1)] made_demo [OF stack(2)] by blast
  have "list_all2 (\<lambda>(senv, m) (sh, w). length (env_stack senv) = 8 \<and> msg_ok m \<and> made senv m sh w)
      [(demo_env, demo_msg), (demo_env2, demo_msg)] [(sh, w), (sh', w')]"
    using made msg stack by simp
  from packets_end_to_end [OF this find_demo, of 3 demo_env] obtain s' child ts where
      r: "rpc_io_enqueue 3 demo_env 7 (w @ w') demo_io = Some (Inr (s', 0))" "rpc_io_find 7 s' = Some child"
      "io_tasks s' = ts" and two: "list_all2 (\<lambda>(sh, p) t. task_carries 7 (io_recv child) sh p t) [(sh, [1, 2]), (sh', [1, 2])] ts"
    by (auto simp: demo_io_def demo_msg_def)
  from two obtain t t' where "ts = [t, t']" "task_carries 7 (io_recv child) sh [1, 2] t" "task_carries 7 (io_recv child) sh' [1, 2] t'"
    by (auto simp: list_all2_Cons1)
  with made r show ?thesis by blast
qed

text \<open>
  A packet whose body has not arrived completely makes the connection unusable: the
  first receive caches the header and returns 1; whatever arrives next, the second receive
  reads the header through a pointer that was never set.
\<close>

theorem partial_body_uninit:
  assumes "sh_magic sh = RPC_MAGIC_NUMBER" and "sh_version sh = RPC_VERSION_SIGN"
    and "int32_range (sh_body_size sh)" and "int32_range (sh_reserved sh)" and "int (length d) < sh_body_size sh"
    and "rpc_io_find fd s = Some (io_new fd extra)"
  shows "\<exists>s'. rpc_io_enqueue (Suc fuel) env fd (shell_enc sh @ d) s = Some (Inr (s', 1)) \<and> io_tasks s' = io_tasks s \<and>
           (\<forall>fuel' env' inbuf. rpc_io_enqueue (Suc fuel') env' fd inbuf s' = Some (Inl UseUninit))"
proof -
  obtain recv where recv: "rb_ok recv" "rb_head recv = 0" "rb_content recv = map Some (shell_enc sh @ d)"
    and enq: "rpc_io_enqueue (Suc fuel) env fd (shell_enc sh @ d) s =
             (case io_enqueue_loop (Suc fuel) env (io_new fd extra\<lparr>io_recv := recv\<rparr>) (io_tasks s) of
                  None \<Rightarrow> None
                | Some (Inl e) \<Rightarrow> Some (Inl e)
                | Some (Inr (child, tasks, ret)) \<Rightarrow>
                    Some (Inr (s\<lparr>io_list := io_put child (io_list s), io_tasks := tasks\<rparr>, ret)))"
    using enqueue_first [OF assms(6), of "shell_enc sh @ d" "Suc fuel" env] by auto
  have ne: "shell_enc sh \<noteq> []" using length_shell_enc [of sh] by force
  have lin: "rb_head recv \<le> rb_tail recv" using recv by (simp add: rb_ok_def)
  note f = rb_read_front [OF recv(1) lin recv(3) ne, unfolded recv(2), simplified]
  let ?r = "recv\<lparr>rb_head := 20\<rparr>"
  let ?c = "io_new fd extra\<lparr>io_recv := ?r, io_shell := sh, io_shell_cached := True\<rparr>"
  let ?s = "s\<lparr>io_list := io_put ?c (io_list s), io_tasks := io_tasks s\<rparr>"
  have rd: "mem_read (rb_mem ?r (RbRing 0)) 0 shell_size = Inr (shell_enc sh)"
    by (rule shell_read [of "rb_buffer recv"]) (use f(5) recv(2) in simp_all)
  have can: "rpc_rb_can_read recv = int (20 + length d)" "rpc_rb_can_read ?r = int (length d)"
    using can_read_linear [OF recv(1,3)] can_read_linear [OF f(2,3)] by simp_all
  have "rpc_io_enqueue (Suc fuel) env fd (shell_enc sh @ d) s = Some (Inr (?s, 1))"
    using enq f(1) rd can assms shell_dec_enc [OF assms(3,4), of "[]"]
    by (simp add: shell_size_def io_new_def)
  moreover have "rpc_io_enqueue (Suc fuel') env' fd inbuf ?s = Some (Inl UseUninit)" for fuel' env' inbuf
  proof -
    have "rpc_io_find fd ?s = Some ?c" by (rule find_put [OF assms(6)]) (simp add: io_new_def)
    moreover have "rb_writable ?r (int (length inbuf))" using f(4) by (simp add: rb_writable_def)
    then obtain r' where "rpc_rb_write ?r inbuf = Some (Inr (r', int (length inbuf)))"
      using rb_write_ok [OF f(2)] by blast
    ultimately show ?thesis by (simp add: rpc_io_enqueue_def)
  qed
  ultimately show ?thesis by (intro exI [of _ ?s]) simp
qed

theorem partial_body_uninit_witness:
  "\<exists>s'. rpc_io_enqueue 1 demo_env 7 (shell_enc demo_shell @ [1]) demo_io = Some (Inr (s', 1)) \<and>
        rpc_io_enqueue 1 demo_env 7 [2] s' = Some (Inl UseUninit)"
  using partial_body_uninit [of demo_shell "[1]" 7 demo_io 0 0 demo_env] find_demo
  by (auto simp: demo_shell_def int32_range_def)

lemma rewind_round:
  assumes "sh_magic sh = RPC_MAGIC_NUMBER" and "sh_version sh = RPC_VERSION_SIGN" and "sh_crypt sh = 0"
    and "sh_body_size sh = - 20" and "sh_reserved sh = 0" and "0 \<in> set d"
    and recv: "rb_ok recv" "rb_head recv = 0" "rb_content recv = map Some (shell_enc sh @ d)" and "io_recv child = recv"
    and "\<not> io_shell_cached child"
  shows "\<exists>t. io_enqueue_loop (Suc fuel) env child tasks = io_enqueue_loop fuel env child (tasks @ [t])"
proof -
  have ne: "shell_enc sh \<noteq> []" using length_shell_enc [of sh] by force
  have lin: "rb_head recv \<le> rb_tail recv" using recv by (simp add: rb_ok_def)
  note f = rb_read_front [OF recv(1) lin recv(3) ne, unfolded recv(2), simplified]
  let ?r = "recv\<lparr>rb_head := 20\<rparr>"
  have dec: "shell_dec (shell_enc sh) = sh" using shell_dec_enc [of sh "[]"] assms by (simp add: int32_range_def)
  have d: "d \<noteq> []" using assms(6) by auto
  have can: "rpc_rb_can_read recv = int (20 + length d)" "rpc_rb_can_read ?r = int (length d)"
    using can_read_linear [OF recv(1,3)] can_read_linear [OF f(2,3)] by simp_all
  note g = rb_read_front [OF f(2) _ _ d, of "[]", simplified, OF f(4,3)]
  have "rb_head ?r < rb_tail ?r" using g(4) d by (cases d) auto
  then have rew: "rpc_rb_read ?r (- 20) = Inr (recv, RbRing 20, - 20)"
    using can(2) recv(2) by (simp add: rpc_rb_read_def Let_def)
  have rd: "mem_read (rb_mem recv (RbRing 0)) 0 shell_size = Inr (shell_enc sh)"
    "mem_read (rb_mem ?r (RbRing 0)) 0 shell_size = Inr (shell_enc sh)"
    by (rule shell_read [of "rb_buffer recv"]; use f(5) recv(2) in simp)+
  obtain x where "drop 20 (rb_buffer recv) = map Some d @ x"
    using g(5) mem_has_drop [of "rb_buffer recv" 20 d] by auto
  then have mem: "rb_mem recv (RbRing 20) = map Some d @ x" by (simp add: rb_mem_def)
  obtain inp where inp: "rpc_buffer_new (Some (rb_mem recv (RbRing 20))) (- 20) = Inr (Some inp)"
  proof -
    let ?k = "takeWhile (\<lambda>b. b \<noteq> 0) d"
    let ?m = "mem_alloc (int (length ?k) + 1 + RPC_BUFFER_DEF_GROW_SIZE)"
    have len: "length ?m = length ?k + 65" by (simp add: RPC_BUFFER_DEF_GROW_SIZE_def nat_add_distrib)
    obtain m1 where m1: "mem_write ?m 0 ?k = Inr m1" "mem_has m1 0 ?k" "length m1 = length ?k + 65"
      using mem_write_at_0 [of ?k ?m] len by auto
    obtain m2 where "mem_write m1 (int (length ?k)) [0] = Inr m2"
      using mem_write_has [OF m1(2), of "[0]"] m1(3) by auto
    then show thesis
      using that m1(1) mem_strlen_takeWhile [OF assms(6), of x] mem_read_takeWhile [of d x "\<lambda>b. b \<noteq> 0"]
      by (auto simp: rpc_buffer_new_def mem Let_def)
  qed
  have "io_enqueue_loop (Suc fuel) env child tasks = io_enqueue_loop fuel env (child\<lparr>io_recv := recv, io_shell_cached := False\<rparr>)
          (tasks @ [\<lparr>tk_fd = io_fd child, tk_shell = RbRing 0, tk_block = rb_capacity (io_recv child), tk_in = Some inp\<rparr>])"
    using assms f(1) can dec rew rd inp
    by (simp add: shell_size_def shell_reload_def ptr_block_def crypt_of_def rpc_buffer_decrypt_def)
  moreover have "child\<lparr>io_recv := recv, io_shell_cached := False\<rparr> = child"
    using assms(10,11) by (cases child) simp
  ultimately show ?thesis by auto
qed

text \<open>
  A header with the body size minus 20, followed by any text, keeps the receiver in
  its loop: each round moves the head of the ring back to the header, so no number of
  rounds is enough, and each round registers one more task.
\<close>

theorem negative_body_size_diverges:
  assumes "sh_magic sh = RPC_MAGIC_NUMBER" and "sh_version sh = RPC_VERSION_SIGN" and "sh_crypt sh = 0"
    and "sh_body_size sh = - 20" and "sh_reserved sh = 0" and "0 \<in> set d"
    and "rpc_io_find fd s = Some (io_new fd extra)"
  shows "rpc_io_enqueue fuel env fd (shell_enc sh @ d) s = None"
proof -
  obtain recv where recv: "rb_ok recv" "rb_head recv = 0" "rb_content recv = map Some (shell_enc sh @ d)"
    and enq: "rpc_io_enqueue fuel env fd (shell_enc sh @ d) s =
             (case io_enqueue_loop fuel env (io_new fd extra\<lparr>io_recv := recv\<rparr>) (io_tasks s) of
                  None \<Rightarrow> None
                | Some (Inl e) \<Rightarrow> Some (Inl e)
                | Some (Inr (child, tasks, ret)) \<Rightarrow>
                    Some (Inr (s\<lparr>io_list := io_put child (io_list s), io_tasks := tasks\<rparr>, ret)))"
    using enqueue_first [OF assms(7), of "shell_enc sh @ d" fuel env] by auto
  have "io_enqueue_loop fuel env (io_new fd extra\<lparr>io_recv := recv\<rparr>) tasks = None" for tasks
  proof (induction fuel arbitrary: tasks)
    case (Suc fuel)
    then show ?case
      using rewind_round [OF assms(1-6) recv, of "io_new fd extra\<lparr>io_recv := recv\<rparr>" fuel env tasks]
      by (auto simp: io_new_def simp del: io_enqueue_loop.simps)
  qed simp
  then show ?thesis using enq by simp
qed

theorem negative_body_size_diverges_witness:
  "\<forall>fuel. rpc_io_enqueue fuel demo_env 7 (shell_enc (demo_shell\<lparr>sh_crypt := 0, sh_body_size := - 20\<rparr>) @ [0]) demo_io = None"
  using negative_body_size_diverges [of "demo_shell\<lparr>sh_crypt := 0, sh_body_size := - 20\<rparr>" "[0]" 7 demo_io 0 _ demo_env] find_demo
  by (simp add: demo_shell_def)

lemma notify_loop_spec:
  assumes "rpc_buffer_clone inp = Inr (Some c)"
  shows "io_notify_loop curfd ty cur inp l sq =
    Inr (map (\<lambda>tmp. if notify_skips curfd ty tmp then tmp
                     else tmp\<lparr>io_send := rpc_queue_push (io_send tmp) (Some c)\<rparr>) l,
         sq\<lparr>rq_items := rq_items sq @ replicate (length (filter (\<lambda>tmp. \<not> notify_skips curfd ty tmp) l)) cur\<rparr>,
         int (length (filter (\<lambda>tmp. \<not> notify_skips curfd ty tmp) l)))"
  by (induction l arbitrary: sq) (simp_all add: assms rpc_queue_push_def)

text \<open>
  \<open>rpc_io_nodify_fd\<close> puts a copy of the message on the send queue of exactly the
  connections its type selects and returns their number; but every signal it gives to the
  send thread names the current connection (NULL when it is not connected), not the
  connection the copy is for, so messages to others stay queued.
\<close>

theorem notify_spec:
  assumes "buf_has inp p" and "p \<noteq> []"
  shows "\<exists>c. buf_has c p \<and> rpc_io_nodify_fd curfd ty inp s =
    (let chosen = filter (\<lambda>tmp. \<not> notify_skips curfd ty tmp) (io_list s) in
     Inr (s\<lparr>io_list := map (\<lambda>tmp. if notify_skips curfd ty tmp then tmp
                              else tmp\<lparr>io_send := rpc_queue_push (io_send tmp) (Some c)\<rparr>) (io_list s),
            io_signal_queue := (io_signal_queue s)\<lparr>rq_items := rq_items (io_signal_queue s) @
               replicate (length chosen) (map_option io_fd (rpc_io_find curfd s))\<rparr>\<rparr>, int (length chosen)))"
proof -
  obtain c where "rpc_buffer_clone inp = Inr (Some c)" "buf_has c p"
    using rpc_buffer_clone_ok [OF assms] by blast
  then show ?thesis
    by (intro exI [of _ c]) (simp add: rpc_io_nodify_fd_def notify_loop_spec Let_def)
qed

theorem notify_spec_witness:
  "\<exists>s'. rpc_io_nodify_fd 7 2 demo_buf demo_io = Inr (s', 1) \<and> rq_items (io_signal_queue s') = [Some 7] \<and>
        map (\<lambda>io. (io_fd io, length (rq_items (io_send io)))) (io_list s') = [(7, 0), (8, 1)]"
  using notify_spec [of demo_buf "[1, 2]" 7 2 demo_io]
  by (auto simp: buf_has_def mem_has_def demo_buf_def demo_io_def notify_skips_def io_new_def rpc_io_find_def Let_def)

lemma io_wf_list:
  "io_wf (s\<lparr>io_list := l\<rparr>) \<longleftrightarrow> distinct (map io_fd l)"
  "io_wf (s\<lparr>io_list := l, io_tasks := ts\<rparr>) \<longleftrightarrow> distinct (map io_fd l)"
  "io_wf (s\<lparr>io_list := l, io_signal_queue := q\<rparr>) \<longleftrightarrow> distinct (map io_fd l)"
  "io_wf (s\<lparr>io_signal_queue := q\<rparr>) \<longleftrightarrow> io_wf s"
  by (simp_all add: io_wf_def)

lemma io_wf_enqueue: "io_wf s \<Longrightarrow> rpc_io_enqueue fuel env fd inbuf s = Some (Inr (s', r)) \<Longrightarrow> io_wf s'"
  by (auto simp: rpc_io_enqueue_def io_wf_def split: option.splits sum.splits)

lemma processor_fds: "rpc_io_processor fuel env call disp task s = Some (Inr s') \<Longrightarrow> map io_fd (io_list s') = map io_fd (io_list s)"
  by (auto simp: rpc_io_processor_def bindR_eq_Inr Let_def case_prod_beta split: option.splits sum.splits if_splits)

lemma io_wf_processor: "io_wf s \<Longrightarrow> rpc_io_processor fuel env call disp task s = Some (Inr s') \<Longrightarrow> io_wf s'"
  using processor_fds by (metis io_wf_def)

lemma io_wf_routine: "io_wf s \<Longrightarrow> io_routine_round s = Inr (s', sent) \<Longrightarrow> io_wf s'"
  by (auto simp: io_routine_round_def io_wf_def bindR_eq_Inr split: option.splits prod.splits)

lemma io_wf_notify: "io_wf s \<Longrightarrow> rpc_io_nodify_fd curfd ty inp s = Inr (s', cnt) \<Longrightarrow> io_wf s'"
  using notify_loop_fds by (fastforce simp: rpc_io_nodify_fd_def io_wf_def bindR_eq_Inr)

text \<open>
  Descriptors stay unique in the list of connections under every operation, and a
  deleted descriptor is not found any more.
\<close>

theorem io_wf_preserved:
  assumes wf: "io_wf s"
  shows "io_wf (fst (rpc_io_add fd extra s)) \<and> io_wf (rpc_io_del fd s) \<and> rpc_io_find fd (rpc_io_del fd s) = None \<and>
    io_wf (rpc_io_stop fd s) \<and> io_wf (fst (rpc_io_get wait now fd timeout s)) \<and>
    (\<forall>fuel env inbuf s' r. rpc_io_enqueue fuel env fd inbuf s = Some (Inr (s', r)) \<longrightarrow> io_wf s') \<and>
    (\<forall>fuel env call disp task s'. rpc_io_processor fuel env call disp task s = Some (Inr s') \<longrightarrow> io_wf s') \<and>
    (\<forall>s' sent. io_routine_round s = Inr (s', sent) \<longrightarrow> io_wf s') \<and>
    (\<forall>ty inp s' cnt. rpc_io_nodify_fd fd ty inp s = Inr (s', cnt) \<longrightarrow> io_wf s')"
proof (intro conjI)
  show "io_wf (fst (rpc_io_add fd extra s))"
    using wf find_fd_None [of fd s] by (auto simp: rpc_io_add_def io_wf_def io_new_def split: option.splits)
  show "io_wf (rpc_io_del fd s)"
    using wf by (simp add: rpc_io_del_def io_wf_def io_drop_fds)
  have "fd \<notin> set (map io_fd (io_drop fd (io_list s)))"
    using wf by (simp add: io_drop_fds io_wf_def)
  then show "rpc_io_find fd (rpc_io_del fd s) = None"
    by (simp add: find_fd_None rpc_io_del_def)
  show "io_wf (rpc_io_stop fd s)" "io_wf (fst (rpc_io_get wait now fd timeout s))"
    using wf by (auto simp: rpc_io_stop_def rpc_io_get_def io_wf_def split: option.splits prod.splits)
qed (use io_wf_enqueue [OF wf] io_wf_processor [OF wf] io_wf_routine [OF wf] io_wf_notify [OF wf] in blast)+

theorem io_wf_preserved_witness:
  "io_wf (fst (rpc_io_add 9 0 demo_io)) \<and> rpc_io_find 7 (rpc_io_del 7 demo_io) = None"
  using io_wf_preserved [of demo_io 9 0] io_wf_preserved [of demo_io 7]
  by (simp add: io_wf_def demo_io_def io_new_def)

text \<open>The store through the pointer of a task changes the twenty bytes of the header only.\<close>

lemma shell_store_ok:
  assumes "task_shell task child = Inr shell"
  shows "\<exists>recv. shell_store (io_recv child) (tk_shell task) sh = Inr recv"
  using assms
  by (auto simp: task_shell_def rb_deref_def cells_def shell_size_def shell_store_def mem_write_def bindR_eq_Inr
      split: if_splits rb_ptr.splits)

lemma shell_store_ring:
  assumes "shell_store rb (RbRing off) sh = Inr recv"
  shows "mem_has (rb_buffer recv) (nat off) (shell_enc sh)"
    and "off + 20 \<le> rb_head rb \<Longrightarrow> rb_head rb \<le> rb_tail rb \<Longrightarrow> rb_content recv = rb_content rb"
proof -
  have o: "0 \<le> off" "nat off + 20 \<le> length (rb_buffer rb)"
    and r: "recv = rb\<lparr>rb_buffer := take (nat off) (rb_buffer rb) @ map Some (shell_enc sh) @ drop (nat off + 20) (rb_buffer rb)\<rparr>"
    using assms by (auto simp: shell_store_def mem_write_def bindR_eq_Inr split: if_splits)
  then show "mem_has (rb_buffer recv) (nat off) (shell_enc sh)"
    by (simp add: mem_has_def)
  assume "off + 20 \<le> rb_head rb" "rb_head rb \<le> rb_tail rb"
  moreover from this have "nat off + 20 \<le> nat (rb_head rb)" using o(1) by linarith
  ultimately show "rb_content recv = rb_content rb"
    using o by (simp add: r rb_content_def min_def)
qed

text \<open>
  The packet of an optional body: the header alone when there is none, else the packet of the
  payload \<open>p\<close>.
\<close>

definition packet_of :: "crypt_env \<Rightarrow> rpc_shell \<Rightarrow> rpc_buffer option \<Rightarrow> byte list \<Rightarrow> rpc_shell \<Rightarrow> byte list \<Rightarrow> bool" where
  "packet_of env shell body p sh w \<longleftrightarrow>
     (case body of
        None \<Rightarrow> sh = shell\<lparr>sh_body_size := 0\<rparr> \<and> w = shell_enc sh
      | Some b \<Rightarrow> made env (shell, p) sh w)"

lemma make_packet:
  assumes "\<forall>b. body = Some b \<longrightarrow> buf_has b p \<and> msg_ok (shell, p)" and "length (env_stack env) = 8"
  shows "\<exists>sh out w. rpc_io_make_shell env shell body = Inr (sh, Some out) \<and> buf_has out w \<and> w \<noteq> [] \<and>
           packet_of env shell body p sh w"
proof -
  have ne: "shell_enc sh @ x \<noteq> []" for sh x
    using length_shell_enc [of sh] by force
  show ?thesis
  proof (cases body)
    case None
    then show ?thesis
      using make_shell_empty [of env shell] ne [of _ "[]"] by (auto simp: packet_of_def)
  next
    case (Some b)
    then have b: "buf_has b p" and p: "p \<noteq> []" and cr: "sh_crypt shell = 0 \<or> sh_crypt shell = 1 \<or> sh_crypt shell = 2"
      using assms(1) by (auto simp: msg_ok_def)
    obtain sh out x where m: "rpc_io_make_shell env shell (Some b) = Inr (sh, Some out)" "buf_has out (shell_enc sh @ x)"
      using make_shell_plain [OF b p, of shell env] make_shell_aes [OF b p, of shell env] make_shell_tea [OF b p _ assms(2), of shell] cr by blast
    moreover have "made env (shell, p) sh (shell_enc sh @ x)"
      using m b by (auto simp: made_def)
    ultimately show ?thesis
      using Some ne by (auto simp: packet_of_def)
  qed
qed

text \<open>
  C9. A worker runs a task whose header still stands where the task points to. For a \<open>post\<close>
  request it only signals the connection. For a \<open>get\<close> request it queues exactly one reply on
  the connection and signals it: the packet of the answer, which is not empty, under the request's
  header marked as a \<open>post\<close>, or that header with body size 0 when the callback answers NULL or there
  is no callback. The changed header is also written back into the receive ring, over the request's
  header; bytes that wait in the ring behind it are untouched.
\<close>

theorem processor_replies:
  assumes "rpc_io_find (tk_fd task) s = Some child" and "task_shell task child = Inr shell"
    and "(case tk_in task of None \<Rightarrow> Some (Inr None) | Some b \<Rightarrow> rpc_parser_new fuel (Some b)) = Some (Inr req)"
    and "rpc_dispatch_processor call disp (sint (sh_category shell)) (sint (sh_sub_category shell)) (tk_fd task) req
         = (res_rpc, reclaim)"
    and "\<forall>answer. res_rpc = Some answer \<longrightarrow> buf_has answer p \<and> msg_ok (shell\<lparr>sh_req := req_type_post\<rparr>, p)"
    and "length (env_stack env) = 8"
  shows "if sh_req shell = req_type_post
         then rpc_io_processor fuel env call disp task s =
                Some (Inr (s\<lparr>io_signal_queue := rpc_queue_push (io_signal_queue s) (Some (tk_fd task))\<rparr>))
         else \<exists>s' sh w out recv. rpc_io_processor fuel env call disp task s = Some (Inr s') \<and>
                rpc_io_find (tk_fd task) s' = Some (child\<lparr>io_send := rpc_queue_push (io_send child) (Some out), io_recv := recv\<rparr>) \<and>
                packet_of env (shell\<lparr>sh_req := req_type_post\<rparr>) res_rpc p sh w \<and> buf_has out w \<and>
                shell_store (io_recv child) (tk_shell task) sh = Inr recv \<and>
                (\<forall>off. tk_shell task = RbRing off \<and> off + 20 \<le> rb_head (io_recv child) \<and> rb_head (io_recv child) \<le> rb_tail (io_recv child)
                   \<longrightarrow> rb_content recv = rb_content (io_recv child)) \<and>
                rq_items (io_signal_queue s') = rq_items (io_signal_queue s) @ [Some (tk_fd task)]"
proof (cases "sh_req shell = req_type_post")
  case True
  then show ?thesis using assms by (simp add: rpc_io_processor_def Let_def)
next
  case False
  obtain sh w out where m: "rpc_io_make_shell env (shell\<lparr>sh_req := req_type_post\<rparr>) res_rpc = Inr (sh, Some out)"
      "buf_has out w" "packet_of env (shell\<lparr>sh_req := req_type_post\<rparr>) res_rpc p sh w"
    using make_packet [OF assms(5,6)] by blast
  obtain recv where recv: "shell_store (io_recv child) (tk_shell task) sh = Inr recv"
    using shell_store_ok [OF assms(2)] by blast
  have fd: "io_fd child = tk_fd task" using find_fd [OF assms(1)] by simp
  let ?c = "child\<lparr>io_send := rpc_queue_push (io_send child) (Some out), io_recv := recv\<rparr>"
  let ?s = "s\<lparr>io_list := io_put ?c (io_list s), io_signal_queue := rpc_queue_push (io_signal_queue s) (Some (tk_fd task))\<rparr>"
  have "rpc_io_processor fuel env call disp task s = Some (Inr ?s)"
    using assms False m(1) recv by (simp add: rpc_io_processor_def Let_def)
  moreover have "rpc_io_find (tk_fd task) ?s = Some ?c"
    using find_put [OF assms(1), of ?c "io_tasks s"] fd by (simp add: rpc_io_find_def)
  moreover have "rb_content recv = rb_content (io_recv child)"
    if "tk_shell task = RbRing off \<and> off + 20 \<le> rb_head (io_recv child) \<and> rb_head (io_recv child) \<le> rb_tail (io_recv child)" for off
    using shell_store_ring(2) [of "io_recv child" off sh recv] recv that by simp
  ultimately show ?thesis
    unfolding if_not_P [OF False] using m(2,3) recv
    by (intro exI [of _ ?s] exI [of _ sh] exI [of _ w] exI [of _ out] exI [of _ recv]) auto
qed

definition demo_ring :: rpc_rb where
  "demo_ring = \<lparr>rb_buffer = map Some (shell_enc (demo_shell\<lparr>sh_req := 0\<rparr>) @ [1, 2, 3]), rb_head = 20, rb_tail = 22, rb_capacity = 23,
     rb_expand = 1, rb_ret_buffer = None, rb_ret_buffer_size = 0\<rparr>"

theorem processor_replies_witness:
  "\<exists>s' out recv. rpc_io_processor 0 demo_env (\<lambda>_ _ _. (Some demo_buf, True))
       (rpc_dispatch_add_cb 3 4 1 1 \<lparr>dispatch_list = [], dispatch_list_inited = True\<rparr>)
       \<lparr>tk_fd = 7, tk_shell = RbRing 0, tk_block = 23, tk_in = None\<rparr>
       (demo_io\<lparr>io_list := [(io_new 7 0)\<lparr>io_recv := demo_ring\<rparr>]\<rparr>) = Some (Inr s') \<and>
     rpc_io_find 7 s' = Some ((io_new 7 0)\<lparr>io_send := rpc_queue_push rpc_queue_new (Some out), io_recv := recv\<rparr>) \<and>
     rb_content recv = [Some 1, Some 2]"
proof -
  let ?t = "\<lparr>tk_fd = 7, tk_shell = RbRing 0, tk_block = 23, tk_in = None\<rparr>" and ?c = "(io_new 7 0)\<lparr>io_recv := demo_ring\<rparr>"
  let ?sh = "demo_shell\<lparr>sh_req := 0\<rparr>" and ?d = "rpc_dispatch_add_cb 3 4 1 1 \<lparr>dispatch_list = [], dispatch_list_inited = True\<rparr>"
  have "shell_dec (shell_enc ?sh @ []) = ?sh"
    by (rule shell_dec_enc) (simp_all add: demo_shell_def int32_range_def)
  then have t: "task_shell ?t ?c = Inr ?sh"
    by (simp add: task_shell_def ptr_block_def demo_ring_def rb_deref_def cells_def shell_size_def mem_read_def o_def)
  have d: "rpc_dispatch_processor (\<lambda>_ _ _. (Some demo_buf, True)) ?d (sint (sh_category ?sh)) (sint (sh_sub_category ?sh)) 7 None = (Some demo_buf, True)"
    by (simp add: rpc_dispatch_processor_def rpc_dispatch_add_cb_def demo_shell_def)
  have c: "rb_content demo_ring = [Some 1, Some 2]"
    by (simp add: rb_content_def demo_ring_def)
  show ?thesis
    using processor_replies [of ?t "demo_io\<lparr>io_list := [?c]\<rparr>" ?c ?sh 0 None "\<lambda>_ _ _. (Some demo_buf, True)" ?d "Some demo_buf" True "[1, 2]" demo_env] t d c
    by (auto simp: rpc_io_find_def io_new_def demo_shell_def req_type_post_def msg_ok_def demo_env_def buf_has_def mem_has_def demo_buf_def demo_ring_def)
qed

end
