(* ===== verification/Rpc_Request.thy ===== *)
theory Rpc_Request
  imports Rpc_Io
begin

text \<open>
  Requests of the client, \<open>rpcprovider/rpc_request.c\<close>, and the push of the server,
  \<open>rpc_service_push\<close> of \<open>rpcprovider/rpc_service.c\<close>: a request registers its handle in
  the dispatch table under the category of the answer, queues its packet on the
  connection, and is answered when the default dispatcher stores the answer in the handle.
  Handles live in a heap; a missing address is a freed handle.
\<close>

section \<open>State\<close>

record rpc_handle =
  h_req :: "rpc_req option"
  h_category :: int
  h_sub_category :: int

record client_state =
  cs_io :: io_state
  cs_disp :: dispatch_state
  cs_handles :: "nat \<rightharpoonup> rpc_handle"
  rc_client_fd :: int

text \<open>The address of \<open>rpc_default_dispatcher\<close>.\<close>

definition default_dispatcher_cb :: nat where
  "default_dispatcher_cb = 1"

section \<open>Operations\<close>

text \<open>\<open>rpc_default_dispatcher\<close> keeps the request: the reclaim flag is cleared, the response is NULL.\<close>

definition rpc_default_dispatcher :: "nat \<Rightarrow> rpc_req option \<Rightarrow> (nat \<rightharpoonup> rpc_handle) \<Rightarrow> (nat \<rightharpoonup> rpc_handle) res" where
  "rpc_default_dispatcher opaque req handles =
     (case handles opaque of
        None \<Rightarrow> Inl UseAfterFree
      | Some h \<Rightarrow> Inr (handles(opaque \<mapsto> h\<lparr>h_req := req\<rparr>)))"

text \<open>A request or answer that reaches the dispatch table of the client, when only requests are registered there.\<close>

definition client_deliver :: "int \<Rightarrow> int \<Rightarrow> rpc_req option \<Rightarrow> client_state \<Rightarrow> client_state res" where
  "client_deliver category sub_category req s =
     (case dispatch_lookup category sub_category (dispatch_list (cs_disp s)) of
        None \<Rightarrow> Inr s
      | Some e \<Rightarrow> bindR (rpc_default_dispatcher (d_opaque e) req (cs_handles s)) (\<lambda>hs. Inr (s\<lparr>cs_handles := hs\<rparr>)))"

definition request_shell :: "int \<Rightarrow> int \<Rightarrow> 6 word \<Rightarrow> 2 word \<Rightarrow> rpc_shell" where
  "request_shell category sub_category enc_type req =
     \<lparr>sh_magic = RPC_MAGIC_NUMBER, sh_version = RPC_VERSION_SIGN, sh_category = word_of_int category,
      sh_sub_category = word_of_int sub_category, sh_req = req, sh_crypt = enc_type, sh_body_size = 0, sh_reserved = 0\<rparr>"

definition rpc_request_destroy :: "nat \<Rightarrow> client_state \<Rightarrow> client_state res" where
  "rpc_request_destroy handle s =
     (case cs_handles s handle of
        None \<Rightarrow> Inl UseAfterFree
      | Some h \<Rightarrow>
          Inr (s\<lparr>cs_disp := fst (rpc_dispatch_del_cb (h_category h) (h_sub_category h) default_dispatcher_cb handle (cs_disp s)),
                 cs_handles := (cs_handles s)(handle := None)\<rparr>))"

text \<open>\<open>rpc_request_new\<close>; \<open>handle\<close> is the address the allocator gives the new handle.\<close>

definition rpc_request_new :: "crypt_env \<Rightarrow> nat \<Rightarrow> int \<Rightarrow> int \<Rightarrow> 6 word \<Rightarrow> rpc_buffer option \<Rightarrow> client_state \<Rightarrow>
    (client_state \<times> nat option) res" where
  "rpc_request_new env handle category sub_category enc_type inp s =
     bindR (rpc_io_make_shell env (request_shell category sub_category enc_type 0) inp) (\<lambda>(_, shellbuf).
     let s = s\<lparr>cs_handles := (cs_handles s)(handle \<mapsto> \<lparr>h_req = None, h_category = category, h_sub_category = sub_category\<rparr>),
               cs_disp := rpc_dispatch_add_cb category sub_category default_dispatcher_cb handle (cs_disp s)\<rparr> in
     case shellbuf of
       None \<Rightarrow> Inl NullDeref
     | Some shellbuf \<Rightarrow>
         bindR (rpc_io_nodify_fd (rc_client_fd s) 1 shellbuf (cs_io s)) (\<lambda>(io, notify_ret).
         if notify_ret = 0
         then bindR (rpc_request_destroy handle (s\<lparr>cs_io := io\<rparr>)) (\<lambda>s. Inr (s, None))
         else Inr (s\<lparr>cs_io := io\<rparr>, Some handle)))"

text \<open>
  \<open>rpc_request_wait\<close>: \<open>wait\<close> is the condition wait (with the deadline, if any), which
  gives the handle as the other threads leave it and the wait's result.
\<close>

definition rpc_request_wait :: "((int \<times> int) option \<Rightarrow> rpc_handle \<Rightarrow> rpc_handle \<times> wait_ret) \<Rightarrow> int \<times> int \<Rightarrow>
    rpc_handle \<Rightarrow> int \<Rightarrow> rpc_handle \<times> int" where
  "rpc_request_wait wait now handle timeout =
     (if h_req handle = None then
        (case wait (if timeout \<ge> 0 then Some (wait_deadline now timeout) else None) handle of
           (handle', wait_r) \<Rightarrow> (handle', if wait_r \<noteq> WaitTimedOut then 1 else 0))
      else (handle, 1))"

definition rpc_request_ok :: "rpc_handle \<Rightarrow> rpc_req option \<times> int" where
  "rpc_request_ok handle = (case h_req handle of Some req \<Rightarrow> (Some req, 1) | None \<Rightarrow> (None, 0))"

text \<open>\<open>rpc_service_push\<close>: a \<open>post\<close> packet for the connections the type selects.\<close>

definition rpc_service_push :: "crypt_env \<Rightarrow> int \<Rightarrow> int \<Rightarrow> int \<Rightarrow> int \<Rightarrow> 6 word \<Rightarrow> rpc_buffer option \<Rightarrow> io_state \<Rightarrow> (io_state \<times> int) res" where
  "rpc_service_push env fd notify_type category sub_category enc inp io =
     bindR (rpc_io_make_shell env (request_shell category sub_category enc req_type_post) inp) (\<lambda>(_, rpc).
     case rpc of None \<Rightarrow> Inl NullDeref | Some rpc \<Rightarrow> rpc_io_nodify_fd fd notify_type rpc io)"

section \<open>Lemmas\<close>

lemma filter_fd: "io_wf s \<Longrightarrow> rpc_io_find fd s = Some io \<Longrightarrow> filter (\<lambda>tmp. io_fd tmp = fd) (io_list s) = [io]"
  unfolding io_wf_def rpc_io_find_def
proof (induction "io_list s" arbitrary: s)
  case (Cons x xs)
  have xs: "io_list s = x # xs" using Cons.hyps(2) by simp
  show ?case
  proof (cases "io_fd x = fd")
    case True
    then have "filter (\<lambda>tmp. io_fd tmp = fd) xs = []"
      using Cons.prems(1) unfolding xs [symmetric] by (auto simp: filter_empty_conv xs rev_image_eqI)
    then show ?thesis using True Cons.prems(2) by (simp add: xs)
  next
    case False
    then show ?thesis using Cons.hyps(1) [of "s\<lparr>io_list := xs\<rparr>"] Cons.prems by (simp add: xs)
  qed
qed simp

lemma notify_one:
  assumes wf: "io_wf s" and f: "rpc_io_find fd s = Some child" and b: "buf_has inp p" and p: "p \<noteq> []"
  shows "\<exists>s' c. rpc_io_nodify_fd fd 1 inp s = Inr (s', 1) \<and> buf_has c p \<and>
           rpc_io_find fd s' = Some (child\<lparr>io_send := rpc_queue_push (io_send child) (Some c)\<rparr>)"
proof -
  obtain c where c: "rpc_buffer_clone inp = Inr (Some c)" "buf_has c p"
    using rpc_buffer_clone_ok [OF b p] by blast
  have n: "notify_skips fd 1 tmp \<longleftrightarrow> io_fd tmp \<noteq> fd" for tmp by (simp add: notify_skips_def)
  have one: "filter (\<lambda>tmp. io_fd tmp = fd) (io_list s) = [child]" by (rule filter_fd [OF wf f])
  let ?g = "\<lambda>tmp. if io_fd tmp \<noteq> fd then tmp else tmp\<lparr>io_send := rpc_queue_push (io_send tmp) (Some c)\<rparr>"
  have "find (\<lambda>io. io_fd io = fd) (map ?g l) = map_option ?g (find (\<lambda>io. io_fd io = fd) l)" for l :: "rpc_io list"
    by (induction l) auto
  then have "find (\<lambda>io. io_fd io = fd) (map ?g (io_list s)) = Some (?g child)"
    using f by (simp add: rpc_io_find_def)
  then show ?thesis
    using c one find_fd [OF f]
    by (simp add: rpc_io_nodify_fd_def notify_loop_spec n) (auto simp: rpc_io_find_def)
qed

text \<open>The state a new request leaves.\<close>

definition with_request :: "nat \<Rightarrow> int \<Rightarrow> int \<Rightarrow> io_state \<Rightarrow> client_state \<Rightarrow> client_state" where
  "with_request h c sc io s =
     s\<lparr>cs_handles := (cs_handles s)(h \<mapsto> \<lparr>h_req = None, h_category = c, h_sub_category = sc\<rparr>),
       cs_disp := rpc_dispatch_add_cb c sc default_dispatcher_cb h (cs_disp s), cs_io := io\<rparr>"

lemma request_new_ok:
  assumes "io_wf (cs_io s)" and "rpc_io_find (rc_client_fd s) (cs_io s) = Some child"
    and "\<forall>b. inp = Some b \<longrightarrow> buf_has b p \<and> p \<noteq> [] \<and> length p < 2 ^ 30" and "enc \<in> {0, 1, 2}"
    and "length (env_stack env) = 8"
  shows "\<exists>io out sh w. rpc_request_new env h c sc enc inp s = Inr (with_request h c sc io s, Some h) \<and> io_wf io \<and>
     packet_of env (request_shell c sc enc 0) inp p sh w \<and> buf_has out w \<and>
     rpc_io_find (rc_client_fd s) io = Some (child\<lparr>io_send := rpc_queue_push (io_send child) (Some out)\<rparr>)"
proof -
  have "\<forall>b. inp = Some b \<longrightarrow> buf_has b p \<and> msg_ok (request_shell c sc enc 0, p)"
    using assms(3,4) by (auto simp: msg_ok_def request_shell_def)
  then obtain sh out w where mk: "rpc_io_make_shell env (request_shell c sc enc 0) inp = Inr (sh, Some out)" "buf_has out w" "w \<noteq> []"
    and pk: "packet_of env (request_shell c sc enc 0) inp p sh w"
    using make_packet assms(5) by blast
  obtain io o' where nt: "rpc_io_nodify_fd (rc_client_fd s) 1 out (cs_io s) = Inr (io, 1)" "buf_has o' w"
      "rpc_io_find (rc_client_fd s) io = Some (child\<lparr>io_send := rpc_queue_push (io_send child) (Some o')\<rparr>)"
    using notify_one [OF assms(1,2) mk(2,3)] by blast
  then show ?thesis
    using mk(1) pk io_wf_notify [OF assms(1) nt(1)]
    by (intro exI [of _ io] exI [of _ o'] exI [of _ sh] exI [of _ w]) (simp add: rpc_request_new_def with_request_def Let_def)
qed

section \<open>Properties\<close>

text \<open>
  C12. A request on a live connection, plain or encrypted, with no body or a non-empty one, when
  no other request waits for the same category: exactly its packet, the one \<open>rpc_io_make_shell\<close>
  makes of the request's header (marked \<open>get\<close>) and body, is queued on the connection; the answer
  that arrives for its category is stored in its handle and nowhere else; and destroying the handle
  restores the dispatch table.
\<close>

theorem request_answered:
  assumes "io_wf (cs_io s)" and "rpc_io_find (rc_client_fd s) (cs_io s) = Some child"
    and "\<forall>b. inp = Some b \<longrightarrow> buf_has b p \<and> p \<noteq> [] \<and> length p < 2 ^ 30" and "enc \<in> {0, 1, 2}"
    and "length (env_stack env) = 8"
    and free: "\<forall>e\<in>set (dispatch_list (cs_disp s)). \<not> (d_category e = c \<and> d_sub_category e = sc)"
  shows "\<exists>s1 s2 out sh w. rpc_request_new env h c sc enc inp s = Inr (s1, Some h) \<and>
     packet_of env (request_shell c sc enc 0) inp p sh w \<and> buf_has out w \<and>
     rpc_io_find (rc_client_fd s) (cs_io s1) = Some (child\<lparr>io_send := rpc_queue_push (io_send child) (Some out)\<rparr>) \<and>
     client_deliver c sc (Some answer) s1 = Inr s2 \<and>
     map_option rpc_request_ok (cs_handles s2 h) = Some (Some answer, 1) \<and>
     (\<forall>h'. h' \<noteq> h \<longrightarrow> cs_handles s2 h' = cs_handles s h') \<and>
     (\<exists>s3. rpc_request_destroy h s2 = Inr s3 \<and> cs_disp s3 = cs_disp s \<and> cs_handles s3 h = None)"
proof -
  obtain io o' sh w where new: "rpc_request_new env h c sc enc inp s = Inr (with_request h c sc io s, Some h)"
      and pk: "packet_of env (request_shell c sc enc 0) inp p sh w" "buf_has o' w"
      and io: "rpc_io_find (rc_client_fd s) io = Some (child\<lparr>io_send := rpc_queue_push (io_send child) (Some o')\<rparr>)"
    using request_new_ok [OF assms(1-5)] by blast
  let ?e = "\<lparr>d_cb = default_dispatcher_cb, d_opaque = h, d_category = c, d_sub_category = sc\<rparr>"
  let ?h = "\<lparr>h_req = None, h_category = c, h_sub_category = sc\<rparr>"
  let ?s1 = "with_request h c sc io s"
  let ?s2 = "?s1\<lparr>cs_handles := (cs_handles ?s1)(h \<mapsto> ?h\<lparr>h_req := Some answer\<rparr>)\<rparr>"
  have "dispatch_lookup c sc (dispatch_list (cs_disp s)) = None" using free by (simp add: dispatch_lookup_None)
  then have "dispatch_lookup c sc (dispatch_list (cs_disp ?s1)) = Some ?e"
    by (simp add: with_request_def rpc_dispatch_add_cb_def dispatch_lookup_append)
  then have dl: "client_deliver c sc (Some answer) ?s1 = Inr ?s2"
    by (simp add: client_deliver_def rpc_default_dispatcher_def with_request_def)
  have "?e \<notin> set (dispatch_list (cs_disp s))" using free by auto
  then have "rpc_request_destroy h ?s2 = Inr (?s2\<lparr>cs_disp := cs_disp s, cs_handles := (cs_handles ?s2)(h := None)\<rparr>)"
    by (simp add: with_request_def rpc_request_destroy_def rpc_dispatch_del_cb_def rpc_dispatch_add_cb_def dispatch_del_remove1 remove1_append Let_def)
  then show ?thesis
    using new dl io pk by (intro exI [of _ ?s1] exI [of _ ?s2] exI [of _ o'] exI [of _ sh] exI [of _ w]) (simp add: rpc_request_ok_def with_request_def)
qed

definition demo_client :: client_state where
  "demo_client = \<lparr>cs_io = demo_io, cs_disp = \<lparr>dispatch_list = [], dispatch_list_inited = True\<rparr>,
     cs_handles = Map.empty, rc_client_fd = 7\<rparr>"

theorem request_answered_witness:
  "\<exists>s1 s2. rpc_request_new demo_env 5 3 4 2 (Some demo_buf) demo_client = Inr (s1, Some 5) \<and>
     client_deliver 3 4 (Some []) s1 = Inr s2 \<and> map_option rpc_request_ok (cs_handles s2 5) = Some (Some [], 1)"
proof -
  have "buf_has demo_buf [1, 2]" by (simp add: buf_has_def mem_has_def demo_buf_def)
  then show ?thesis
    using request_answered [of demo_client "io_new 7 0" "Some demo_buf" "[1, 2]" 2 demo_env 3 4 5 "[]"] find_demo
    by (auto simp: demo_client_def io_wf_def demo_io_def io_new_def demo_env_def)
qed

text \<open>
  Two requests waiting for the same category share one slot: every answer goes to the
  handle registered first, the second is not answered while the first exists.
\<close>

theorem second_request_starves:
  assumes "rpc_request_new env h1 c sc enc1 inp1 s = Inr (s1, Some h1)"
    and "rpc_request_new env h2 c sc enc2 inp2 s1 = Inr (s2, Some h2)" and "h1 \<noteq> h2"
    and free: "\<forall>e\<in>set (dispatch_list (cs_disp s)). \<not> (d_category e = c \<and> d_sub_category e = sc)"
  shows "\<exists>s3. client_deliver c sc answer s2 = Inr s3 \<and>
     map_option h_req (cs_handles s3 h1) = Some answer \<and> map_option h_req (cs_handles s3 h2) = Some None"
proof -
  have disp: "dispatch_list (cs_disp s') = dispatch_list (cs_disp t) @
        [\<lparr>d_cb = default_dispatcher_cb, d_opaque = h, d_category = c, d_sub_category = sc\<rparr>] \<and>
      cs_handles s' = (cs_handles t)(h \<mapsto> \<lparr>h_req = None, h_category = c, h_sub_category = sc\<rparr>)"
    if "rpc_request_new env h c sc enc inp t = Inr (s', Some h)" for h enc inp t s'
    using that by (auto simp: rpc_request_new_def bindR_eq_Inr Let_def rpc_dispatch_add_cb_def split: option.splits if_splits)
  have "dispatch_lookup c sc (dispatch_list (cs_disp s)) = None" using free by (simp add: dispatch_lookup_None)
  then have "dispatch_lookup c sc (dispatch_list (cs_disp s2)) =
      Some \<lparr>d_cb = default_dispatcher_cb, d_opaque = h1, d_category = c, d_sub_category = sc\<rparr>"
    using disp [OF assms(1)] disp [OF assms(2)] by (simp add: dispatch_lookup_append)
  then show ?thesis
    using disp [OF assms(1)] disp [OF assms(2)] assms(3)
    by (simp add: client_deliver_def rpc_default_dispatcher_def)
qed

theorem second_request_starves_witness:
  "\<exists>s1 s2 s3. rpc_request_new demo_env 5 3 4 0 None demo_client = Inr (s1, Some 5) \<and>
     rpc_request_new demo_env 6 3 4 0 None s1 = Inr (s2, Some 6) \<and> client_deliver 3 4 (Some []) s2 = Inr s3 \<and>
     map_option h_req (cs_handles s3 6) = Some None"
proof -
  obtain io out where r1: "rpc_request_new demo_env 5 3 4 0 None demo_client = Inr (with_request 5 3 4 io demo_client, Some 5)"
      "io_wf io" "rpc_io_find 7 io = Some ((io_new 7 0)\<lparr>io_send := rpc_queue_push (io_send (io_new 7 0)) (Some out)\<rparr>)"
    using request_new_ok [of demo_client "io_new 7 0" None "[]" 0 demo_env 5 3 4] find_demo
    by (auto simp: demo_client_def io_wf_def demo_io_def io_new_def demo_env_def)
  obtain io' where r2: "rpc_request_new demo_env 6 3 4 0 None (with_request 5 3 4 io demo_client)
      = Inr (with_request 6 3 4 io' (with_request 5 3 4 io demo_client), Some 6)"
    using request_new_ok [of "with_request 5 3 4 io demo_client" _ None "[]" 0 demo_env 6 3 4] r1
    by (auto simp: demo_client_def with_request_def demo_env_def)
  show ?thesis
    using second_request_starves [OF r1(1) r2, of "Some []"] r1(1) r2 by (auto simp: demo_client_def)
qed

text \<open>
  \<open>rpc_request_wait\<close> returns 0 exactly when it waited and the wait timed out; when the
  wait ends for any other reason, an error such as an invalid deadline included, it
  reports success without an answer in the handle.
\<close>

theorem request_wait_result:
  assumes "rpc_request_wait wait now handle timeout = (handle', status)"
  shows "(status = 0 \<or> status = 1) \<and> (h_req handle \<noteq> None \<longrightarrow> handle' = handle \<and> status = 1) \<and>
    (h_req handle = None \<longrightarrow>
       (status = 1 \<longleftrightarrow> snd (wait (if timeout \<ge> 0 then Some (wait_deadline now timeout) else None) handle) \<noteq> WaitTimedOut))"
  using assms by (auto simp: rpc_request_wait_def split: if_splits prod.splits)

theorem request_wait_result_witness:
  "rpc_request_wait (\<lambda>_ h. (h, WaitError)) (10, 600000) \<lparr>h_req = None, h_category = 1, h_sub_category = 2\<rparr> 500
   = (\<lparr>h_req = None, h_category = 1, h_sub_category = 2\<rparr>, 1)"
  using request_wait_result [of "\<lambda>_ h. (h, WaitError)" "(10, 600000)" "\<lparr>h_req = None, h_category = 1, h_sub_category = 2\<rparr>" 500]
  by (simp add: rpc_request_wait_def)

end
