(* ===== verification/Linked_List.thy ===== *)
theory Linked_List
  imports Prelude
begin

text \<open>
  The intrusive doubly linked list of \<open>utils/list.h\<close> that \<open>rpc_dispatch.c\<close>,
  \<open>rpc_io.c\<close>, the sessions and the devices keep their entries in. The heap maps the
  address of a \<open>struct list_head\<close> to its two fields. \<open>ring\<close> relates the heap to the
  sequence of entries a traversal visits; the operations refine insertion and removal on
  that sequence, which is how the other theories represent these lists.
\<close>

section \<open>The heap and the operations\<close>

type_synonym addr = nat

record list_heap =
  lnext :: "addr \<Rightarrow> addr"
  lprev :: "addr \<Rightarrow> addr"

definition set_next :: "addr \<Rightarrow> addr \<Rightarrow> list_heap \<Rightarrow> list_heap" where
  "set_next p q h = h\<lparr>lnext := (lnext h)(p := q)\<rparr>"

definition set_prev :: "addr \<Rightarrow> addr \<Rightarrow> list_heap \<Rightarrow> list_heap" where
  "set_prev p q h = h\<lparr>lprev := (lprev h)(p := q)\<rparr>"

definition INIT_LIST_HEAD :: "addr \<Rightarrow> list_heap \<Rightarrow> list_heap" where
  "INIT_LIST_HEAD p h = set_prev p p (set_next p p h)"

definition list_add_between :: "addr \<Rightarrow> addr \<Rightarrow> addr \<Rightarrow> list_heap \<Rightarrow> list_heap" where
  "list_add_between new prev next h =
     set_next prev new (set_prev new prev (set_next new next (set_prev next new h)))"

definition list_add :: "addr \<Rightarrow> addr \<Rightarrow> list_heap \<Rightarrow> list_heap" where
  "list_add new head h = list_add_between new head (lnext h head) h"

definition list_add_tail :: "addr \<Rightarrow> addr \<Rightarrow> list_heap \<Rightarrow> list_heap" where
  "list_add_tail new head h = list_add_between new (lprev h head) head h"

definition list_unlink :: "addr \<Rightarrow> addr \<Rightarrow> list_heap \<Rightarrow> list_heap" where
  "list_unlink prev next h = set_next prev next (set_prev next prev h)"

definition list_del :: "addr \<Rightarrow> list_heap \<Rightarrow> list_heap" where
  "list_del entry h = set_prev entry 0 (set_next entry 0 (list_unlink (lprev h entry) (lnext h entry) h))"

definition list_del_init :: "addr \<Rightarrow> list_heap \<Rightarrow> list_heap" where
  "list_del_init entry h = INIT_LIST_HEAD entry (list_unlink (lprev h entry) (lnext h entry) h)"

definition list_move :: "addr \<Rightarrow> addr \<Rightarrow> list_heap \<Rightarrow> list_heap" where
  "list_move entry head h = list_add entry head (list_unlink (lprev h entry) (lnext h entry) h)"

definition list_move_tail :: "addr \<Rightarrow> addr \<Rightarrow> list_heap \<Rightarrow> list_heap" where
  "list_move_tail entry head h = list_add_tail entry head (list_unlink (lprev h entry) (lnext h entry) h)"

definition list_empty :: "addr \<Rightarrow> list_heap \<Rightarrow> bool" where
  "list_empty head h \<longleftrightarrow> lnext h head = head"

text \<open>\<open>list_for_each\<close>: the entries visited; \<open>None\<close> when the fuel is spent before the head is met again.\<close>

fun visit :: "nat \<Rightarrow> list_heap \<Rightarrow> addr \<Rightarrow> addr \<Rightarrow> addr list option" where
  "visit 0 h head pos = (if pos = head then Some [] else None)"
| "visit (Suc fuel) h head pos =
     (if pos = head then Some [] else map_option ((#) pos) (visit fuel h head (lnext h pos)))"

definition list_for_each :: "nat \<Rightarrow> list_heap \<Rightarrow> addr \<Rightarrow> addr list option" where
  "list_for_each fuel h head = visit fuel h head (lnext h head)"

section \<open>Linked segments\<close>

text \<open>\<open>dpath h a xs b\<close>: from \<open>a\<close> the links lead through \<open>xs\<close> to \<open>b\<close>, forwards and backwards.\<close>

fun dpath :: "list_heap \<Rightarrow> addr \<Rightarrow> addr list \<Rightarrow> addr \<Rightarrow> bool" where
  "dpath h a [] b \<longleftrightarrow> lnext h a = b \<and> lprev h b = a"
| "dpath h a (x # xs) b \<longleftrightarrow> lnext h a = x \<and> lprev h x = a \<and> dpath h x xs b"

definition ring :: "list_heap \<Rightarrow> addr \<Rightarrow> addr list \<Rightarrow> bool" where
  "ring h head xs \<longleftrightarrow> dpath h head xs head \<and> distinct (head # xs)"

lemma link_simps [simp]:
  "lnext (set_next p q h) a = (if a = p then q else lnext h a)"
  "lprev (set_next p q h) = lprev h"
  "lprev (set_prev p q h) a = (if a = p then q else lprev h a)"
  "lnext (set_prev p q h) = lnext h"
  by (simp_all add: set_next_def set_prev_def)

lemma dpath_frame:
  "dpath h a xs b \<Longrightarrow> \<forall>y\<in>set (a # xs). lnext h' y = lnext h y \<Longrightarrow> \<forall>y\<in>set (xs @ [b]). lprev h' y = lprev h y \<Longrightarrow>
   dpath h' a xs b"
  by (induction xs arbitrary: a) auto

lemma dpath_ends: "dpath h a xs b \<Longrightarrow> lnext h a = hd (xs @ [b])" "dpath h a xs b \<Longrightarrow> lprev h b = last (a # xs)"
  by (induction xs arbitrary: a) auto

lemma dpath_insert:
  "dpath h a (xs @ ys) b \<Longrightarrow> distinct (a # xs @ ys) \<Longrightarrow> b \<notin> set (xs @ ys) \<Longrightarrow> x \<notin> {a, b} \<union> set (xs @ ys) \<Longrightarrow>
   dpath (list_add_between x (last (a # xs)) (hd (ys @ [b])) h) a (xs @ x # ys) b"
proof (induction xs arbitrary: a)
  case Nil
  then show ?case
  proof (cases ys)
    case (Cons y ys')
    then have p: "lnext h a = y" "lprev h y = a" "dpath h y ys' b" using Nil(1) by simp_all
    have d: "a \<notin> set (y # ys')" "y \<notin> set ys'" "y \<noteq> b" "x \<notin> set (y # ys')" "x \<noteq> b" "x \<noteq> a"
      using Nil(2-4) Cons by auto
    have "dpath (list_add_between x a y h) y ys' b"
      by (rule dpath_frame [OF p(3)]) (use d in \<open>auto simp: list_add_between_def\<close>)
    then show ?thesis using d Cons by (auto simp: list_add_between_def)
  qed (auto simp: list_add_between_def)
next
  case (Cons z xs)
  have "last (z # xs) \<noteq> a" "hd (ys @ [b]) \<noteq> z"
    using Cons.prems by (cases ys; auto)+
  moreover have "last (z # xs) \<in> set (z # xs)" by simp
  ultimately show ?case
    using Cons.IH [of z] Cons.prems by (auto simp: list_add_between_def split: if_splits)
qed

lemma dpath_unlink:
  "dpath h a (xs @ x # ys) b \<Longrightarrow> distinct (a # xs @ x # ys) \<Longrightarrow> b \<notin> set (xs @ x # ys) \<Longrightarrow>
   dpath (list_unlink (lprev h x) (lnext h x) h) a (xs @ ys) b"
proof (induction xs arbitrary: a)
  case Nil
  then show ?case
  proof (cases ys)
    case (Cons y ys')
    then have p: "lnext h a = x" "lprev h x = a" "lnext h x = y" "dpath h y ys' b" using Nil(1) by simp_all
    have d: "a \<notin> set (y # ys')" "y \<notin> set ys'" "y \<noteq> b"
      using Nil(2-3) Cons by auto
    have "dpath (list_unlink a y h) y ys' b"
      by (rule dpath_frame [OF p(4)]) (use d in \<open>auto simp: list_unlink_def\<close>)
    then show ?thesis using d p Cons by (auto simp: list_unlink_def)
  qed (auto simp: list_unlink_def)
next
  case (Cons z xs)
  have "lprev h x \<in> set (z # xs)"
    using Cons.prems by (induction xs arbitrary: z a) auto
  moreover have "lnext h x \<in> set (ys @ [b])"
    using Cons.prems by (cases ys) (induction xs arbitrary: z a; auto)+
  ultimately show ?case
    using Cons.IH [of z] Cons.prems by (auto simp: list_unlink_def)
qed

section \<open>Rings\<close>

lemma ring_init: "ring (INIT_LIST_HEAD head h) head []"
  by (simp add: ring_def INIT_LIST_HEAD_def)

lemma ring_insert:
  assumes "ring h head (xs @ ys)" and "x \<notin> set (head # xs @ ys)"
  shows "ring (list_add_between x (last (head # xs)) (hd (ys @ [head])) h) head (xs @ x # ys)"
  using assms dpath_insert [of h head xs ys head x] by (auto simp: ring_def)

lemma ring_add_tail:
  assumes "ring h head xs" and "x \<notin> set (head # xs)"
  shows "ring (list_add_tail x head h) head (xs @ [x])"
  using ring_insert [of h head xs "[]" x] assms dpath_ends(2) [of h head xs head]
  by (simp add: ring_def list_add_tail_def)

lemma ring_add:
  assumes "ring h head xs" and "x \<notin> set (head # xs)"
  shows "ring (list_add x head h) head (x # xs)"
  using ring_insert [of h head "[]" xs x] assms dpath_ends(1) [of h head xs head]
  by (simp add: ring_def list_add_def)

lemma ring_unlink:
  assumes "ring h head (xs @ x # ys)"
  shows "ring (list_unlink (lprev h x) (lnext h x) h) head (xs @ ys)"
  using assms dpath_unlink [of h head xs x ys head] by (auto simp: ring_def)

lemma ring_frame:
  "ring h head xs \<Longrightarrow> x \<notin> set (head # xs) \<Longrightarrow> ring (set_prev x p (set_next x q h)) head xs"
  unfolding ring_def by (auto intro: dpath_frame [of h])

lemma ring_del:
  assumes "ring h head xs" and "x \<in> set xs"
  shows "ring (list_del x h) head (remove1 x xs)"
proof -
  obtain us vs where xs: "xs = us @ x # vs" "x \<notin> set us"
    using split_list_first [OF assms(2)] by blast
  then have "ring (list_unlink (lprev h x) (lnext h x) h) head (us @ vs)"
    using assms(1) ring_unlink by simp
  moreover have "x \<notin> set (head # us @ vs)" using assms(1) xs by (auto simp: ring_def)
  ultimately show ?thesis
    using xs ring_frame by (simp add: list_del_def remove1_append)
qed

lemma ring_move_tail:
  assumes "ring h head xs" and "x \<in> set xs"
  shows "ring (list_move_tail x head h) head (remove1 x xs @ [x])"
proof -
  obtain us vs where xs: "xs = us @ x # vs" "x \<notin> set us"
    using split_list_first [OF assms(2)] by blast
  then have "ring (list_unlink (lprev h x) (lnext h x) h) head (us @ vs)"
    using assms(1) ring_unlink by simp
  moreover have "x \<notin> set (head # us @ vs)" using assms(1) xs by (auto simp: ring_def)
  ultimately show ?thesis
    using xs ring_add_tail [of _ head "us @ vs" x] by (simp add: list_move_tail_def remove1_append)
qed

lemma ring_move:
  assumes "ring h head xs" and "x \<in> set xs"
  shows "ring (list_move x head h) head (x # remove1 x xs)"
proof -
  obtain us vs where xs: "xs = us @ x # vs" "x \<notin> set us"
    using split_list_first [OF assms(2)] by blast
  then have "ring (list_unlink (lprev h x) (lnext h x) h) head (us @ vs)"
    using assms(1) ring_unlink by simp
  moreover have "x \<notin> set (head # us @ vs)" using assms(1) xs by (auto simp: ring_def)
  ultimately show ?thesis
    using xs ring_add by (simp add: list_move_def remove1_append)
qed

lemma ring_empty: "ring h head xs \<Longrightarrow> list_empty head h \<longleftrightarrow> xs = []"
  by (cases xs) (auto simp: ring_def list_empty_def)

lemma visit_dpath:
  "dpath h a xs b \<Longrightarrow> b \<notin> set xs \<Longrightarrow> length xs \<le> fuel \<Longrightarrow> visit fuel h b (lnext h a) = Some xs"
proof (induction xs arbitrary: a fuel)
  case (Cons x xs)
  then obtain f where "fuel = Suc f" by (cases fuel) auto
  then show ?case using Cons by auto
qed (case_tac fuel; simp)

lemma ring_visit: "ring h head xs \<Longrightarrow> length xs \<le> fuel \<Longrightarrow> list_for_each fuel h head = Some xs"
  using visit_dpath [of h head xs head fuel] by (simp add: ring_def list_for_each_def)

section \<open>The interface: a sequence of entries\<close>

datatype list_op = AddFront addr | AddTail addr | Delete addr | MoveFront addr | MoveTail addr

fun list_step :: "list_op \<Rightarrow> addr list \<Rightarrow> addr list" where
  "list_step (AddFront x) xs = x # xs"
| "list_step (AddTail x) xs = xs @ [x]"
| "list_step (Delete x) xs = remove1 x xs"
| "list_step (MoveFront x) xs = x # remove1 x xs"
| "list_step (MoveTail x) xs = remove1 x xs @ [x]"

text \<open>An entry is added only when it is not linked, and removed or moved only when it is.\<close>

fun list_allowed :: "addr \<Rightarrow> list_op \<Rightarrow> addr list \<Rightarrow> bool" where
  "list_allowed head (AddFront x) xs = (x \<notin> set (head # xs))"
| "list_allowed head (AddTail x) xs = (x \<notin> set (head # xs))"
| "list_allowed head (Delete x) xs = (x \<in> set xs)"
| "list_allowed head (MoveFront x) xs = (x \<in> set xs)"
| "list_allowed head (MoveTail x) xs = (x \<in> set xs)"

fun list_allowed_all :: "addr \<Rightarrow> list_op list \<Rightarrow> addr list \<Rightarrow> bool" where
  "list_allowed_all head [] xs = True"
| "list_allowed_all head (op # ops) xs = (list_allowed head op xs \<and> list_allowed_all head ops (list_step op xs))"

locale entry_list =
  fixes repr :: "'h \<Rightarrow> addr \<Rightarrow> addr list \<Rightarrow> bool"
    and exec :: "addr \<Rightarrow> list_op \<Rightarrow> 'h \<Rightarrow> 'h"
    and init :: "addr \<Rightarrow> 'h \<Rightarrow> 'h"
    and walk :: "nat \<Rightarrow> 'h \<Rightarrow> addr \<Rightarrow> addr list option"
  assumes init_law: "repr (init head h) head []"
    and exec_law: "repr h head xs \<Longrightarrow> list_allowed head op xs \<Longrightarrow> repr (exec head op h) head (list_step op xs)"
    and walk_law: "repr h head xs \<Longrightarrow> length xs \<le> fuel \<Longrightarrow> walk fuel h head = Some xs"
begin

lemma exec_all:
  "repr h head xs \<Longrightarrow> list_allowed_all head ops xs \<Longrightarrow>
   repr (fold (exec head) ops h) head (fold list_step ops xs)"
  by (induction ops arbitrary: h xs) (auto intro: exec_law)

lemma walk_all:
  assumes "list_allowed_all head ops []" and "length (fold list_step ops []) \<le> fuel"
  shows "walk fuel (fold (exec head) ops (init head h)) head = Some (fold list_step ops [])"
  using walk_law [OF exec_all [OF init_law assms(1)] assms(2)] .

end

fun list_exec :: "addr \<Rightarrow> list_op \<Rightarrow> list_heap \<Rightarrow> list_heap" where
  "list_exec head (AddFront x) h = list_add x head h"
| "list_exec head (AddTail x) h = list_add_tail x head h"
| "list_exec head (Delete x) h = list_del x h"
| "list_exec head (MoveFront x) h = list_move x head h"
| "list_exec head (MoveTail x) h = list_move_tail x head h"

interpretation linked: entry_list ring list_exec INIT_LIST_HEAD list_for_each
proof
  fix h head xs op
  assume "ring h head xs" and "list_allowed head op xs"
  then show "ring (list_exec head op h) head (list_step op xs)"
    by (cases op) (auto intro: ring_add ring_add_tail ring_del ring_move ring_move_tail)
qed (fact ring_init ring_visit)+

section \<open>Properties\<close>

text \<open>
  C6. After any sequence of insertions at either end, removals and moves of linked
  entries, a traversal of the list ends and visits exactly the entries of the abstract
  sequence in its order.
\<close>

theorem list_refines_sequence:
  assumes "list_allowed_all head ops []" and "length (fold list_step ops []) \<le> fuel"
  shows "list_for_each fuel (fold (list_exec head) ops (INIT_LIST_HEAD head h)) head
         = Some (fold list_step ops [])"
  by (rule linked.walk_all [OF assms])

theorem list_refines_sequence_witness:
  "list_for_each 3 (fold (list_exec 9) [AddTail 1, AddTail 2, AddFront 3, MoveTail 1, Delete 2]
     (INIT_LIST_HEAD 9 \<lparr>lnext = id, lprev = id\<rparr>)) 9 = Some [3, 1]"
  using list_refines_sequence [of 9 "[AddTail 1, AddTail 2, AddFront 3, MoveTail 1, Delete 2]" 3] by simp

end
