(* ===== verification/Day_Hours.thy ===== *)
theory Day_Hours
  imports Prelude
begin

text \<open>
  The weekly recording schedule, \<open>service/record/day_hours_set.c\<close>: one character per hour
  of the week, set, read, imported and dumped. Weekdays count from 1 to 7 and hours from
  1 to 24.
\<close>

section \<open>Operations\<close>

record day_hours =
  dh_weekday :: "char list"

definition day_hours_new :: "int \<Rightarrow> day_hours" where
  "day_hours_new b_set_all = \<lparr>dh_weekday = replicate (7 * 24) (if b_set_all \<noteq> 0 then CHR ''1'' else CHR ''0'')\<rparr>"

definition day_hours_from :: "char list \<Rightarrow> day_hours" where
  "day_hours_from szdh = \<lparr>dh_weekday = take (7 * 24) szdh\<rparr>"

text \<open>The bounds test of set and get; it tests the weekday where the hour is meant.\<close>

definition dh_rejects :: "int \<Rightarrow> int \<Rightarrow> bool" where
  "dh_rejects weekday hour \<longleftrightarrow> weekday < 0 \<or> weekday > 7 \<or> hour < 0 \<or> weekday > 24"

definition dh_index :: "int \<Rightarrow> int \<Rightarrow> int" where
  "dh_index weekday hour = (weekday - 1) * 24 + hour - 1"

definition day_hours_set :: "day_hours option \<Rightarrow> int \<Rightarrow> int \<Rightarrow> int \<Rightarrow> (day_hours option \<times> int) res" where
  "day_hours_set dh weekday hour b_set =
     (case dh of
        None \<Rightarrow> Inr (None, 0)
      | Some d \<Rightarrow>
          if dh_rejects weekday hour then Inr (Some d, 0)
          else if 0 \<le> dh_index weekday hour \<and> dh_index weekday hour < int (length (dh_weekday d))
          then Inr (Some (d\<lparr>dh_weekday := (dh_weekday d)[nat (dh_index weekday hour) := (if b_set \<noteq> 0 then CHR ''1'' else CHR ''0'')]\<rparr>), 1)
          else Inl OutOfBounds)"

text \<open>\<open>day_hours_get\<close>: \<open>*b_set\<close> and the result; \<open>None\<close> when \<open>*b_set\<close> is not written.\<close>

definition day_hours_get :: "day_hours option \<Rightarrow> int \<Rightarrow> int \<Rightarrow> (bool option \<times> int) res" where
  "day_hours_get dh weekday hour =
     (case dh of
        None \<Rightarrow> Inr (None, 0)
      | Some d \<Rightarrow>
          if dh_rejects weekday hour then Inr (None, 0)
          else if 0 \<le> dh_index weekday hour \<and> dh_index weekday hour < int (length (dh_weekday d))
          then Inr (Some (dh_weekday d ! nat (dh_index weekday hour) = CHR ''1''), 1)
          else Inl OutOfBounds)"

definition day_hours_dump :: "day_hours option \<Rightarrow> char list option" where
  "day_hours_dump dh = map_option dh_weekday dh"

section \<open>Properties\<close>

definition dh_ok :: "day_hours \<Rightarrow> bool" where
  "dh_ok d \<longleftrightarrow> length (dh_weekday d) = 7 * 24"

definition dh_valid :: "int \<Rightarrow> int \<Rightarrow> bool" where
  "dh_valid weekday hour \<longleftrightarrow> 1 \<le> weekday \<and> weekday \<le> 7 \<and> 1 \<le> hour \<and> hour \<le> 24"

lemma dh_index_range:
  "dh_valid weekday hour \<Longrightarrow> 0 \<le> dh_index weekday hour \<and> dh_index weekday hour < 168 \<and> \<not> dh_rejects weekday hour"
  by (auto simp: dh_valid_def dh_index_def dh_rejects_def)

lemma dh_index_inj:
  assumes "dh_valid w h" and "dh_valid w' h'" and "dh_index w h = dh_index w' h'"
  shows "w = w' \<and> h = h'"
proof -
  have "24 * (w - w') = h' - h" using assms(3) by (simp add: dh_index_def)
  moreover have "\<bar>h' - h\<bar> < 24" using assms(1,2) by (auto simp: dh_valid_def)
  ultimately have "w - w' = 0" by (cases "w - w' = 0") auto
  then show ?thesis using assms(3) by (simp add: dh_index_def)
qed

text \<open>
  For weekdays 1 to 7 and hours 1 to 24 the schedule is a table: setting an hour
  succeeds, reading it back gives what was set and every other hour is unchanged.
\<close>

theorem day_hours_set_get:
  assumes "dh_ok d" and "dh_valid w h"
  shows "\<exists>d'. day_hours_set (Some d) w h b = Inr (Some d', 1) \<and> dh_ok d' \<and>
    day_hours_get (Some d') w h = Inr (Some (b \<noteq> 0), 1) \<and>
    (\<forall>w' h'. dh_valid w' h' \<and> (w', h') \<noteq> (w, h) \<longrightarrow> day_hours_get (Some d') w' h' = day_hours_get (Some d) w' h')"
proof -
  let ?i = "nat (dh_index w h)"
  let ?d = "d\<lparr>dh_weekday := (dh_weekday d)[?i := (if b \<noteq> 0 then CHR ''1'' else CHR ''0'')]\<rparr>"
  note r = dh_index_range [OF assms(2)]
  have len: "length (dh_weekday d) = 168" using assms(1) by (simp add: dh_ok_def)
  have "day_hours_set (Some d) w h b = Inr (Some ?d, 1)"
    using r len by (simp add: day_hours_set_def)
  moreover have "?i < length (dh_weekday d)" using r len by auto
  then have "day_hours_get (Some ?d) w h = Inr (Some (b \<noteq> 0), 1)"
    using r len by (simp add: day_hours_get_def)
  moreover have "day_hours_get (Some ?d) w' h' = day_hours_get (Some d) w' h'"
    if v: "dh_valid w' h'" and ne: "(w', h') \<noteq> (w, h)" for w' h'
  proof -
    have "dh_index w' h' \<noteq> dh_index w h" using dh_index_inj [OF v assms(2)] ne by auto
    then have "nat (dh_index w h) \<noteq> nat (dh_index w' h')" using r dh_index_range [OF v] by auto
    then show ?thesis using r dh_index_range [OF v] len by (simp add: day_hours_get_def)
  qed
  ultimately show ?thesis using len by (intro exI [of _ ?d]) (simp add: dh_ok_def)
qed

theorem day_hours_set_get_witness:
  "\<exists>d'. day_hours_set (Some (day_hours_new 0)) 7 24 1 = Inr (Some d', 1) \<and> day_hours_get (Some d') 7 24 = Inr (Some True, 1)"
  using day_hours_set_get [of "day_hours_new 0" 7 24 1] by (auto simp: dh_ok_def dh_valid_def day_hours_new_def)

text \<open>
  The bounds test accepts arguments that lie outside the table: a call faults exactly
  when the weekday is 0 to 7, the hour is not negative and the position is before the
  first or behind the last hour, for instance on weekday 0 or on hour 25 of the last day.
\<close>

lemma day_hours_set_faults:
  assumes "dh_ok d"
  shows "(day_hours_set (Some d) w h b = Inl OutOfBounds) =
    (0 \<le> w \<and> w \<le> 7 \<and> 0 \<le> h \<and> ((w - 1) * 24 + h \<le> 0 \<or> 168 < (w - 1) * 24 + h))"
  using assms by (auto simp: day_hours_set_def dh_rejects_def dh_index_def dh_ok_def)

end
