(* ===== verification/Hashmap.thy ===== *)
theory Hashmap
  imports Prelude
begin

text \<open>
  The string-keyed hash table of \<open>utils/hashmap.c\<close>: case-insensitive keys, several entries
  per key, iterators as positions. A bucket is the list of its chain. A key is the byte
  string without its NUL. An allocation failure inside a call is the parameter \<open>mem_ok\<close>.
\<close>

section \<open>Data and the hash function\<close>

record hashentry =
  he_key :: "byte list"
  he_data :: "byte list"   \<comment> \<open>\<open>len\<close> is its length\<close>

record hashmap =
  hm_size :: nat
  hm_end_iterator :: int
  hm_buckets :: "hashentry list list"

definition EINVAL :: int where "EINVAL = 22"
definition ERANGE :: int where "ERANGE = 34"
definition ENOMEM :: int where "ENOMEM = 12"
definition EFAULT :: int where "EFAULT = 14"

text \<open>\<open>tolower\<close> in the C locale; \<open>stricmp\<close> compares keys after it.\<close>

definition to_lower :: "byte \<Rightarrow> byte" where
  "to_lower c = (if 65 \<le> c \<and> c \<le> 90 then c + 32 else c)"

abbreviation fold_case :: "byte list \<Rightarrow> byte list" where
  "fold_case k \<equiv> map to_lower k"

definition stricmp_eq :: "byte list \<Rightarrow> byte list \<Rightarrow> bool" where
  "stricmp_eq a b \<longleftrightarrow> fold_case a = fold_case b"

text \<open>One round of \<open>hashfunc\<close>; the carried bit is \<open>1 << (sizeof(uint32_t) - 1)\<close>, that is 8.\<close>

definition hash_round :: "u32 \<Rightarrow> byte \<Rightarrow> u32" where
  "hash_round hash c = drop_bit 1 hash + (ucast (to_lower c) + (if hash AND 1 \<noteq> 0 then 8 else 0))"

text \<open>
  \<open>hashfunc\<close>. The loop starts behind the first character, so an empty key is read past
  its terminator; \<open>tolower\<close> of a negative \<open>char\<close> is not defined.
\<close>

fun hashfunc :: "byte list option \<Rightarrow> nat \<Rightarrow> int res" where
  "hashfunc None sz = Inr (- EINVAL)"
| "hashfunc (Some key) sz =
     (if sz = 0 then Inr (- ERANGE)
      else if \<exists>c\<in>set key. 128 \<le> c then Inl OutOfBounds
      else case key of
        [] \<Rightarrow> Inl OutOfBounds
      | c # cs \<Rightarrow> Inr (sint (foldl hash_round (ucast (to_lower c)) cs mod word_of_nat sz)))"

section \<open>Operations\<close>

definition hashmap_create :: "bool \<Rightarrow> nat \<Rightarrow> hashmap option" where
  "hashmap_create mem_ok nbuckets =
     (if nbuckets = 0 \<or> \<not> mem_ok then None
      else Some \<lparr>hm_size = nbuckets, hm_end_iterator = 0, hm_buckets = replicate nbuckets []\<rparr>)"

definition hashmap_insert :: "bool \<Rightarrow> hashmap option \<Rightarrow> byte list option \<Rightarrow> byte list option \<Rightarrow> (hashmap option \<times> int) res" where
  "hashmap_insert mem_ok mp key data =
     (case (mp, key) of
        (Some m, Some k) \<Rightarrow>
          (case data of
             None \<Rightarrow> Inr (mp, - ERANGE)
           | Some d \<Rightarrow>
               if d = [] then Inr (mp, - ERANGE)
               else bindR (hashfunc key (hm_size m)) (\<lambda>hash.
                 if hash < 0 then Inr (mp, hash)
                 else if \<not> mem_ok then Inr (mp, - ENOMEM)
                 else Inr (Some (m\<lparr>hm_buckets := (hm_buckets m)[nat hash := hm_buckets m ! nat hash @ [\<lparr>he_key = k, he_data = d\<rparr>]],
                                   hm_end_iterator := hm_end_iterator m + 1\<rparr>), 0)))
      | _ \<Rightarrow> Inr (mp, - EINVAL))"

definition hashmap_first :: "hashmap option \<Rightarrow> int" where
  "hashmap_first mp = (case mp of None \<Rightarrow> - EINVAL | Some m \<Rightarrow> if hm_end_iterator m = 0 then -1 else 0)"

definition hashmap_is_end :: "hashmap option \<Rightarrow> int \<Rightarrow> int" where
  "hashmap_is_end mp iter =
     (case mp of None \<Rightarrow> - EINVAL | Some m \<Rightarrow> if iter < 0 then - EINVAL else if iter = hm_end_iterator m then 1 else 0)"

text \<open>\<open>hashmap_find\<close> and \<open>hashmap_return_entry\<close> walk all chains, bucket by bucket.\<close>

fun find_loop :: "hashentry list \<Rightarrow> byte list \<Rightarrow> int \<Rightarrow> int" where
  "find_loop [] key iter = iter"
| "find_loop (ptr # rest) key iter = (if stricmp_eq (he_key ptr) key then iter else find_loop rest key (iter + 1))"

definition hashmap_find :: "hashmap option \<Rightarrow> byte list option \<Rightarrow> int" where
  "hashmap_find mp key =
     (case (mp, key) of (Some m, Some k) \<Rightarrow> find_loop (concat (hm_buckets m)) k 0 | _ \<Rightarrow> - EINVAL)"

fun entry_loop :: "hashentry list \<Rightarrow> int \<Rightarrow> int \<Rightarrow> hashentry option" where
  "entry_loop [] iter count = None"
| "entry_loop (ptr # rest) iter count = (if count = iter then Some ptr else entry_loop rest iter (count + 1))"

text \<open>The entry, and the length or the error code, converted to \<open>unsigned int\<close>.\<close>

definition hashmap_return_entry :: "hashmap option \<Rightarrow> int \<Rightarrow> hashentry option \<times> u32" where
  "hashmap_return_entry mp iter =
     (case mp of
        None \<Rightarrow> (None, word_of_int (- EINVAL))
      | Some m \<Rightarrow>
          if iter < 0 then (None, word_of_int (- EINVAL))
          else (case entry_loop (concat (hm_buckets m)) iter 0 of
                  Some ptr \<Rightarrow> (Some ptr, word_of_nat (length (he_data ptr)))
                | None \<Rightarrow> (None, word_of_int (- EFAULT))))"

definition hashmap_search :: "hashmap option \<Rightarrow> byte list option \<Rightarrow> u32 res" where
  "hashmap_search mp key =
     (case (mp, key) of
        (Some m, Some k) \<Rightarrow>
          bindR (hashfunc key (hm_size m)) (\<lambda>hash.
          if hash < 0 then Inr (word_of_int hash)
          else Inr (word_of_nat (length (filter (\<lambda>ptr. stricmp_eq (he_key ptr) k) (hm_buckets m ! nat hash)))))
      | _ \<Rightarrow> Inr (word_of_int (- EINVAL)))"

definition hashmap_entry_by_key :: "hashmap option \<Rightarrow> byte list option \<Rightarrow> (byte list option \<times> u32) res" where
  "hashmap_entry_by_key mp key =
     (case (mp, key) of
        (Some m, Some k) \<Rightarrow>
          bindR (hashfunc key (hm_size m)) (\<lambda>hash.
          if hash < 0 then Inr (None, word_of_int hash)
          else case find (\<lambda>ptr. stricmp_eq (he_key ptr) k) (hm_buckets m ! nat hash) of
            Some ptr \<Rightarrow> Inr (Some (he_data ptr), word_of_nat (length (he_data ptr)))
          | None \<Rightarrow> Inr (None, 0))
      | _ \<Rightarrow> Inr (None, word_of_int (- EINVAL)))"

text \<open>\<open>hashmap_remove\<close> counts in a \<open>short\<close>; the result is that count as \<open>unsigned int\<close>.\<close>

fun remove_loop :: "byte list \<Rightarrow> hashentry list \<Rightarrow> hashentry list \<times> nat" where
  "remove_loop key [] = ([], 0)"
| "remove_loop key (ptr # rest) =
     (if stricmp_eq (he_key ptr) key then apsnd Suc (remove_loop key rest) else apfst ((#) ptr) (remove_loop key rest))"

definition hashmap_remove :: "hashmap option \<Rightarrow> byte list option \<Rightarrow> (hashmap option \<times> u32) res" where
  "hashmap_remove mp key =
     (case (mp, key) of
        (Some m, Some k) \<Rightarrow>
          bindR (hashfunc key (hm_size m)) (\<lambda>hash.
          if hash < 0 then Inr (mp, word_of_int hash)
          else (case remove_loop k (hm_buckets m ! nat hash) of
            (chain, deleted) \<Rightarrow>
              Inr (Some (m\<lparr>hm_buckets := (hm_buckets m)[nat hash := chain],
                           hm_end_iterator := hm_end_iterator m - int deleted\<rparr>),
                   scast (word_of_nat deleted :: 16 word))))
      | _ \<Rightarrow> Inr (mp, word_of_int (- EINVAL)))"

section \<open>Keys and buckets\<close>

definition ok_name :: "byte list \<Rightarrow> bool" where
  "ok_name k \<longleftrightarrow> k \<noteq> [] \<and> (\<forall>c\<in>set k. c < 128)"

text \<open>The bucket of an admissible key in a table of admissible size.\<close>

definition bucket_of :: "nat \<Rightarrow> byte list \<Rightarrow> nat" where
  "bucket_of sz k = unat (foldl hash_round (ucast (to_lower (hd k))) (tl k) mod word_of_nat sz)"

definition hm_ok :: "hashmap \<Rightarrow> bool" where
  "hm_ok m \<longleftrightarrow> 0 < hm_size m \<and> hm_size m < 2 ^ 31 \<and> length (hm_buckets m) = hm_size m \<and>
     hm_end_iterator m = int (length (concat (hm_buckets m))) \<and>
     (\<forall>i<hm_size m. \<forall>e\<in>set (hm_buckets m ! i). ok_name (he_key e) \<and> bucket_of (hm_size m) (he_key e) = i)"

definition hm_entries :: "hashmap \<Rightarrow> byte list \<Rightarrow> byte list list" where
  "hm_entries m k = map he_data (filter (\<lambda>e. stricmp_eq (he_key e) k) (concat (hm_buckets m)))"

lemma to_lower_idem [simp]: "to_lower (to_lower c) = to_lower c"
  by (auto simp: to_lower_def word_le_nat_alt unat_plus_if_size word_size)

lemma bucket_fold_case:
  assumes "stricmp_eq a b" and "a \<noteq> []"
  shows "bucket_of sz a = bucket_of sz b"
proof -
  have "foldl hash_round h cs = foldl (\<lambda>h c. drop_bit 1 h + (ucast c + (if h AND 1 \<noteq> 0 then 8 else 0))) h (fold_case cs)" for h cs
    by (induction cs arbitrary: h) (simp_all add: hash_round_def)
  moreover obtain x xs y ys where "a = x # xs" "b = y # ys" "to_lower x = to_lower y" "fold_case xs = fold_case ys"
    using assms by (cases a; cases b) (auto simp: stricmp_eq_def)
  ultimately show ?thesis by (simp add: bucket_of_def)
qed

lemma bucket_lt: "0 < sz \<Longrightarrow> sz < 2 ^ 31 \<Longrightarrow> bucket_of sz k < sz"
  by (simp add: bucket_of_def unat_mod unat_of_nat)

lemma hashfunc_bucket:
  assumes "ok_name k" and "0 < sz" and "sz < 2 ^ 31"
  shows "hashfunc (Some k) sz = Inr (int (bucket_of sz k))"
proof -
  have "sint w = int (unat w)" if "unat w < 2 ^ 31" for w :: u32
  proof -
    have "int (unat w) < int (2 ^ 31)" using that by (simp only: of_nat_less_iff)
    then have "uint w < 2 ^ 31" by simp
    moreover have "0 \<le> uint w" by simp
    ultimately have "signed_take_bit 31 (uint w) = uint w" by (intro signed_take_bit_int_eq_self) linarith+
    then show ?thesis using sint_uint [of w] by simp
  qed
  moreover have "unat (foldl hash_round (ucast (to_lower (hd k))) (tl k) mod word_of_nat sz) < 2 ^ 31"
    using bucket_lt [OF assms(2,3), of k] assms(3) by (simp add: bucket_of_def)
  ultimately have s: "sint (foldl hash_round (ucast (to_lower (hd k))) (tl k) mod word_of_nat sz) = int (bucket_of sz k)"
    unfolding bucket_of_def by blast
  obtain c cs where k: "k = c # cs" using assms(1) by (cases k) (auto simp: ok_name_def)
  have "\<not> (\<exists>c\<in>set k. 128 \<le> c)" using assms(1) unfolding ok_name_def by (meson leD)
  then have "hashfunc (Some k) sz = Inr (sint (foldl hash_round (ucast (to_lower c)) cs mod word_of_nat sz))"
    using assms(2) k by (simp only: hashfunc.simps if_False list.case) simp
  then show ?thesis using s k by simp
qed

lemma filter_concat_only:
  "i < length bs \<Longrightarrow> (\<forall>j<length bs. j \<noteq> i \<longrightarrow> filter P (bs ! j) = []) \<Longrightarrow> filter P (concat bs) = filter P (bs ! i)"
proof (induction bs arbitrary: i)
  case (Cons b bs)
  show ?case
  proof (cases i)
    case 0
    then have "filter P (bs ! j) = []" if "j < length bs" for j
      using Cons.prems(2) that by (auto dest: spec [of _ "Suc j"])
    then have "filter P (concat bs) = []" by (simp add: filter_empty_conv) (metis in_set_conv_nth)
    then show ?thesis using 0 by simp
  next
    case (Suc i')
    have "filter P b = []" using Cons.prems(2) Suc by (auto dest: spec [of _ 0])
    moreover have "\<forall>j<length bs. j \<noteq> i' \<longrightarrow> filter P (bs ! j) = []"
      using Cons.prems(2) Suc by (auto dest: spec [of _ "Suc j" for j])
    ultimately show ?thesis using Cons.IH [of i'] Cons.prems(1) Suc by simp
  qed
qed simp

lemma entries_in_bucket:
  assumes ok: "hm_ok m" and k: "ok_name k"
  shows "filter (\<lambda>e. stricmp_eq (he_key e) k) (concat (hm_buckets m))
         = filter (\<lambda>e. stricmp_eq (he_key e) k) (hm_buckets m ! bucket_of (hm_size m) k)"
proof (rule filter_concat_only)
  show "bucket_of (hm_size m) k < length (hm_buckets m)"
    using ok bucket_lt [of "hm_size m" k] by (simp add: hm_ok_def)
  show "\<forall>j<length (hm_buckets m). j \<noteq> bucket_of (hm_size m) k \<longrightarrow>
      filter (\<lambda>e. stricmp_eq (he_key e) k) (hm_buckets m ! j) = []"
    using ok bucket_fold_case by (force simp: hm_ok_def filter_empty_conv ok_name_def)
qed

lemma length_concat_update:
  "i < length bs \<Longrightarrow> length (concat (bs[i := x])) + length (bs ! i) = length (concat bs) + length x"
  by (induction bs arbitrary: i) (auto simp: nth_Cons split: nat.splits)

lemma remove_loop_filter:
  "remove_loop k l = (filter (\<lambda>e. \<not> stricmp_eq (he_key e) k) l, length (filter (\<lambda>e. stricmp_eq (he_key e) k) l))"
  by (induction l) auto

lemma stricmp_eq_sym: "stricmp_eq a b \<longleftrightarrow> stricmp_eq b a"
  by (auto simp: stricmp_eq_def)

lemma stricmp_eq_trans: "stricmp_eq a b \<Longrightarrow> stricmp_eq b c \<Longrightarrow> stricmp_eq a c"
  by (simp add: stricmp_eq_def)

section \<open>The interface: a multimap\<close>

locale multimap =
  fixes ok :: "'m \<Rightarrow> bool"
    and key_ok :: "'k \<Rightarrow> bool"
    and val_ok :: "'v \<Rightarrow> bool"
    and same :: "'k \<Rightarrow> 'k \<Rightarrow> bool"
    and entries :: "'m \<Rightarrow> 'k \<Rightarrow> 'v list"
    and put :: "'m \<Rightarrow> 'k \<Rightarrow> 'v \<Rightarrow> 'm"
    and del :: "'m \<Rightarrow> 'k \<Rightarrow> 'm"
  assumes put_law: "ok m \<Longrightarrow> key_ok k \<Longrightarrow> val_ok v \<Longrightarrow> key_ok k' \<Longrightarrow>
      ok (put m k v) \<and> entries (put m k v) k' = entries m k' @ (if same k k' then [v] else [])"
    and del_law: "ok m \<Longrightarrow> key_ok k \<Longrightarrow> key_ok k' \<Longrightarrow>
      ok (del m k) \<and> entries (del m k) k' = (if same k k' then [] else entries m k')"
begin

lemma put_all:
  assumes "ok m" and "\<forall>(k, v)\<in>set kvs. key_ok k \<and> val_ok v" and "key_ok k'"
  shows "ok (foldl (\<lambda>m (k, v). put m k v) m kvs) \<and>
    entries (foldl (\<lambda>m (k, v). put m k v) m kvs) k' = entries m k' @ map snd (filter (\<lambda>(k, v). same k k') kvs)"
  using assms
proof (induction kvs arbitrary: m)
  case (Cons kv kvs)
  obtain k v where kv: "kv = (k, v)" by (cases kv)
  then have "ok (put m k v)" and e: "entries (put m k v) k' = entries m k' @ (if same k k' then [v] else [])"
    using put_law [of m k v k'] Cons.prems by auto
  then show ?case using Cons.IH [of "put m k v"] Cons.prems kv by auto
qed simp

lemma put_all_del:
  assumes "ok m" and "\<forall>(k, v)\<in>set kvs. key_ok k \<and> val_ok v" and "key_ok k'" and "key_ok j"
  shows "entries (del (foldl (\<lambda>m (k, v). put m k v) m kvs) j) k' =
    (if same j k' then [] else entries m k' @ map snd (filter (\<lambda>(k, v). same k k') kvs))"
  using put_all [OF assms(1-3)] del_law [OF _ assms(4,3)] by simp

end

text \<open>The tables a successful insertion and removal leave.\<close>

definition hm_put :: "hashmap \<Rightarrow> byte list \<Rightarrow> byte list \<Rightarrow> hashmap" where
  "hm_put m k d = (case hashmap_insert True (Some m) (Some k) (Some d) of Inr (Some m', _) \<Rightarrow> m' | _ \<Rightarrow> m)"

definition hm_del :: "hashmap \<Rightarrow> byte list \<Rightarrow> hashmap" where
  "hm_del m k = (case hashmap_remove (Some m) (Some k) of Inr (Some m', _) \<Rightarrow> m' | _ \<Rightarrow> m)"

lemma hm_hash: "hm_ok m \<Longrightarrow> ok_name k \<Longrightarrow> hashfunc (Some k) (hm_size m) = Inr (int (bucket_of (hm_size m) k))"
  by (rule hashfunc_bucket) (simp_all add: hm_ok_def)

lemma insert_ok:
  assumes "hm_ok m" and "ok_name k" and "d \<noteq> []"
  shows "hashmap_insert True (Some m) (Some k) (Some d) = Inr (Some (hm_put m k d), 0)"
  using assms hm_hash [OF assms(1,2)] by (simp add: hashmap_insert_def hm_put_def del: hashfunc.simps)

lemma hm_put_ok:
  assumes ok: "hm_ok m" and k: "ok_name k" and d: "d \<noteq> []" and k': "ok_name k'"
  shows "hm_ok (hm_put m k d) \<and> hm_entries (hm_put m k d) k' = hm_entries m k' @ (if stricmp_eq k k' then [d] else [])"
proof -
  let ?i = "bucket_of (hm_size m) k"
  let ?m = "m\<lparr>hm_buckets := (hm_buckets m)[?i := hm_buckets m ! ?i @ [\<lparr>he_key = k, he_data = d\<rparr>]],
              hm_end_iterator := hm_end_iterator m + 1\<rparr>"
  have i: "?i < length (hm_buckets m)" using ok bucket_lt [of "hm_size m" k] by (simp add: hm_ok_def)
  have m: "hm_put m k d = ?m"
    using hm_hash [OF ok k] d by (simp add: hm_put_def hashmap_insert_def del: hashfunc.simps)
  have ok': "hm_ok ?m"
    using ok i k length_concat_update [OF i, of "hm_buckets m ! ?i @ [\<lparr>he_key = k, he_data = d\<rparr>]"]
    by (auto simp: hm_ok_def nth_list_update)
  have "?i = bucket_of (hm_size m) k'" if "stricmp_eq k k'"
    using bucket_fold_case [OF that] k by (simp add: ok_name_def)
  then have "hm_entries ?m k' = hm_entries m k' @ (if stricmp_eq k k' then [d] else [])"
    using entries_in_bucket [OF ok' k'] entries_in_bucket [OF ok k'] i
    by (auto simp: hm_entries_def nth_list_update)
  then show ?thesis using m ok' by simp
qed

lemma hm_del_ok:
  assumes ok: "hm_ok m" and k: "ok_name k" and k': "ok_name k'"
  shows "hm_ok (hm_del m k) \<and> hm_entries (hm_del m k) k' = (if stricmp_eq k k' then [] else hm_entries m k')"
proof -
  let ?i = "bucket_of (hm_size m) k"
  let ?f = "filter (\<lambda>e. \<not> stricmp_eq (he_key e) k) (hm_buckets m ! ?i)"
  let ?n = "length (filter (\<lambda>e. stricmp_eq (he_key e) k) (hm_buckets m ! ?i))"
  let ?m = "m\<lparr>hm_buckets := (hm_buckets m)[?i := ?f], hm_end_iterator := hm_end_iterator m - int ?n\<rparr>"
  have i: "?i < length (hm_buckets m)" using ok bucket_lt [of "hm_size m" k] by (simp add: hm_ok_def)
  have m: "hm_del m k = ?m"
    using hm_hash [OF ok k] by (simp add: hm_del_def hashmap_remove_def remove_loop_filter del: hashfunc.simps)
  have "length ?f + ?n = length (hm_buckets m ! ?i)"
    by (metis add.commute sum_length_filter_compl)
  then have ok': "hm_ok ?m"
    using ok i k length_concat_update [OF i, of ?f]
    by (auto simp: hm_ok_def nth_list_update)
  have same: "?i = bucket_of (hm_size m) k'" if "stricmp_eq k k'"
    using bucket_fold_case [OF that] k by (simp add: ok_name_def)
  have "filter (\<lambda>e. stricmp_eq (he_key e) k') ?f = (if stricmp_eq k k' then [] else filter (\<lambda>e. stricmp_eq (he_key e) k') (hm_buckets m ! ?i))"
    by (auto simp: filter_empty_conv intro!: filter_cong dest: stricmp_eq_trans stricmp_eq_sym [THEN iffD1])
  then have "hm_entries ?m k' = (if stricmp_eq k k' then [] else hm_entries m k')"
    using entries_in_bucket [OF ok' k'] entries_in_bucket [OF ok k'] i same
    by (auto simp: hm_entries_def nth_list_update)
  then show ?thesis using m ok' by simp
qed

interpretation hm: multimap hm_ok ok_name "\<lambda>d. d \<noteq> []" stricmp_eq hm_entries hm_put hm_del
  by unfold_locales (use hm_put_ok hm_del_ok in blast)+

section \<open>Properties\<close>

lemma hm_ok_create: "hashmap_create True n = Some m \<Longrightarrow> n < 2 ^ 31 \<Longrightarrow> hm_ok m \<and> hm_entries m k = []"
  by (auto simp: hashmap_create_def hm_ok_def hm_entries_def split: if_splits)

lemma find_filter: "find P xs = (case filter P xs of [] \<Rightarrow> None | x # _ \<Rightarrow> Some x)"
  by (induction xs) auto

lemma entry_by_key_entries:
  assumes "hm_ok m" and "ok_name k"
  shows "hashmap_entry_by_key (Some m) (Some k) =
     Inr (case hm_entries m k of [] \<Rightarrow> (None, 0) | d # _ \<Rightarrow> (Some d, word_of_nat (length d)))"
  using hm_hash [OF assms] entries_in_bucket [OF assms]
  by (auto simp: hashmap_entry_by_key_def hm_entries_def find_filter simp del: hashfunc.simps split: list.splits)

lemma search_entries:
  assumes "hm_ok m" and "ok_name k"
  shows "hashmap_search (Some m) (Some k) = Inr (word_of_nat (length (hm_entries m k)))"
  using hm_hash [OF assms] entries_in_bucket [OF assms]
  by (simp add: hashmap_search_def hm_entries_def del: hashfunc.simps)

lemma remove_entries:
  assumes "hm_ok m" and "ok_name k"
  shows "hashmap_remove (Some m) (Some k) = Inr (Some (hm_del m k), scast (word_of_nat (length (hm_entries m k)) :: 16 word))"
  using hm_hash [OF assms] entries_in_bucket [OF assms]
  by (simp add: hashmap_remove_def hm_del_def hm_entries_def remove_loop_filter del: hashfunc.simps)

text \<open>
  C17. The table is a case-insensitive multimap: after any insertions into a new table, each
  of which succeeds, looking a key up gives the data inserted first under it, whatever its
  case and whatever shares its bucket, searching counts its entries, and removing it deletes
  all of them and no others.
\<close>

theorem hashmap_multimap:
  assumes "hashmap_create True n = Some m0" and "n < 2 ^ 31"
    and "\<forall>(k, d)\<in>set kvs. ok_name k \<and> d \<noteq> []" and "ok_name k" and "ok_name j"
    and m_def: "m = foldl (\<lambda>m (k, d). hm_put m k d) m0 kvs"
    and ds_def: "ds = map snd (filter (\<lambda>(k', d). stricmp_eq k' k) kvs)"
  shows "(\<forall>d. d \<noteq> [] \<longrightarrow> hashmap_insert True (Some m) (Some k) (Some d) = Inr (Some (hm_put m k d), 0)) \<and>
    hashmap_entry_by_key (Some m) (Some k) = Inr (case ds of [] \<Rightarrow> (None, 0) | d # _ \<Rightarrow> (Some d, word_of_nat (length d))) \<and>
    hashmap_search (Some m) (Some k) = Inr (word_of_nat (length ds)) \<and>
    (\<exists>m' c. hashmap_remove (Some m) (Some j) = Inr (Some m', c) \<and>
       hashmap_search (Some m') (Some k) = Inr (if stricmp_eq j k then 0 else word_of_nat (length ds)))"
proof -
  have m0: "hm_ok m0" "hm_entries m0 k = []" using hm_ok_create [OF assms(1,2)] by auto
  have ok: "hm_ok m" and e: "hm_entries m k = ds"
    using hm.put_all [OF m0(1) assms(3,4)] m0(2) by (simp_all add: m_def ds_def)
  have del: "hm_ok (hm_del m j)" "hm_entries (hm_del m j) k = (if stricmp_eq j k then [] else ds)"
    using hm.del_law [OF ok assms(5,4)] e by auto
  have "hashmap_search (Some (hm_del m j)) (Some k) = Inr (if stricmp_eq j k then 0 else word_of_nat (length ds))"
    using search_entries [OF del(1) assms(4)] del(2) by simp
  then show ?thesis
    using insert_ok [OF ok assms(4)] entry_by_key_entries [OF ok assms(4)] search_entries [OF ok assms(4)]
      remove_entries [OF ok assms(5)] e by auto
qed

theorem hashmap_multimap_witness:
  "hashmap_entry_by_key (Some (foldl (\<lambda>m (k, d). hm_put m k d) \<lparr>hm_size = 1, hm_end_iterator = 0, hm_buckets = [[]]\<rparr>
      [([97], [1]), ([98], [2]), ([65], [3])])) (Some [65]) = Inr (Some [1], 1)"
  using hashmap_multimap [of 1 "\<lparr>hm_size = 1, hm_end_iterator = 0, hm_buckets = [[]]\<rparr>"
      "[([97], [1]), ([98], [2]), ([65], [3])]" "[65]" "[65]", OF _ _ _ _ _ refl refl]
  by (simp add: hashmap_create_def ok_name_def stricmp_eq_def to_lower_def)

end
