(* ===== verification/Rollbuf_Pool.thy ===== *)
theory Rollbuf_Pool
  imports Rpc_Ringbuffer
begin

text \<open>
  The media buffer between a producer and a consumer thread, \<open>common/rollbuf_pool.c\<close>. The
  producer appends at the end of one flat block and the consumer takes from its front and moves the rest
  down. What the other thread does while one sleeps or waits is a parameter: a function
  applied in each sleep of \<open>push\<close>, a list of functions, one per wake-up, for \<open>get\<close>; \<open>get\<close>
  still waits when the list is used up. The test for room and the append of \<open>push\<close> are taken
  as one step, as they are with a single producer. The client is the pair of callbacks it
  sets; the calls made are the events of a \<open>get\<close>.
\<close>

section \<open>State and operations\<close>

datatype rollbuf_event = OnBuffering int | OnBufferingOk

record rollbuf_client_t =
  on_buffering_cb :: bool
  on_buffering_ok_cb :: bool

record rollbuf_pool_state =
  rp_buffer_pool :: mem
  rp_buffer_size :: int
  rp_pool_size :: int
  rp_finish_singal :: bool
  rp_stop_signal :: bool
  rp_cb :: "rollbuf_client_t option"

definition ROLLBUF_POOL_MAX_BUF_DEF_SIZE :: int where
  "ROLLBUF_POOL_MAX_BUF_DEF_SIZE = 5 * 1024 * 1024"

definition ROLLBUF_POOL_MAX_BUF_THROW_TIMEOUT :: int where
  "ROLLBUF_POOL_MAX_BUF_THROW_TIMEOUT = 500"

definition ROLLBUF_POOL_MAX_BUF_EVERY_WAIT_TIME :: int where
  "ROLLBUF_POOL_MAX_BUF_EVERY_WAIT_TIME = 100"

definition rollbuf_pool_create :: "rollbuf_client_t option \<Rightarrow> int \<Rightarrow> rollbuf_pool_state" where
  "rollbuf_pool_create client pool_size =
     (let pool_size = (if pool_size \<le> 0 then ROLLBUF_POOL_MAX_BUF_DEF_SIZE else pool_size) in
      \<lparr>rp_buffer_pool = mem_alloc pool_size, rp_buffer_size = 0, rp_pool_size = pool_size,
       rp_finish_singal = False, rp_stop_signal = False, rp_cb = client\<rparr>)"

text \<open>The waiting loop of \<open>rollbuf_pool_push\<close>: the state it leaves and whether there is room.\<close>

function push_wait ::
  "(rollbuf_pool_state \<Rightarrow> rollbuf_pool_state) \<Rightarrow> int \<Rightarrow> int \<Rightarrow> rollbuf_pool_state \<Rightarrow> rollbuf_pool_state \<times> bool" where
  "push_wait others max_sleep_time_ms dsize st =
     (if rp_pool_size st \<le> rp_buffer_size st + dsize
      then (if max_sleep_time_ms > 0
            then push_wait others (max_sleep_time_ms - ROLLBUF_POOL_MAX_BUF_EVERY_WAIT_TIME) dsize (others st)
            else (st, False))
      else (st, True))"
  by auto
termination
  by (relation "measure (\<lambda>(_, t, _, _). nat t)") (auto simp: ROLLBUF_POOL_MAX_BUF_EVERY_WAIT_TIME_def)

declare push_wait.simps [simp del]

definition push_append :: "rollbuf_pool_state \<Rightarrow> byte list \<Rightarrow> rollbuf_pool_state res" where
  "push_append st data =
     bindR (mem_write (rp_buffer_pool st) (rp_buffer_size st) data) (\<lambda>m.
     Inr (st\<lparr>rp_buffer_pool := m, rp_buffer_size := rp_buffer_size st + int (length data)\<rparr>))"

definition rollbuf_pool_push ::
  "(rollbuf_pool_state \<Rightarrow> rollbuf_pool_state) \<Rightarrow> rollbuf_pool_state option \<Rightarrow> byte list \<Rightarrow> (rollbuf_pool_state option \<times> bool) res" where
  "rollbuf_pool_push others pool data =
     (case pool of
        None \<Rightarrow> Inr (None, False)
      | Some st \<Rightarrow>
          if rp_stop_signal st then Inr (Some st, False)
          else (case push_wait others ROLLBUF_POOL_MAX_BUF_THROW_TIMEOUT (int (length data)) st of
                  (st, False) \<Rightarrow> Inr (Some st, False)
                | (st, True) \<Rightarrow> bindR (push_append st data) (\<lambda>st. Inr (Some st, True))))"

text \<open>The call of \<open>on_buffering_ok_cb\<close> when there was buffering.\<close>

definition buffering_ok :: "bool \<Rightarrow> rollbuf_pool_state \<Rightarrow> rollbuf_event list" where
  "buffering_ok b_buffering st =
     (case rp_cb st of None \<Rightarrow> [] | Some cb \<Rightarrow> if b_buffering \<and> on_buffering_ok_cb cb then [OnBufferingOk] else [])"

definition buffering_start :: "rollbuf_pool_state \<Rightarrow> rollbuf_event list" where
  "buffering_start st = (case rp_cb st of None \<Rightarrow> [] | Some cb \<Rightarrow> if on_buffering_cb cb then [OnBuffering 0] else [])"

text \<open>The copy out and the move down at the end of \<open>rollbuf_pool_get\<close>.\<close>

definition get_take :: "rollbuf_pool_state \<Rightarrow> int \<Rightarrow> (rollbuf_pool_state \<times> byte list) res" where
  "get_take st need_size =
     bindR (mem_read (rp_buffer_pool st) 0 need_size) (\<lambda>out.
     bindR (mem_read (rp_buffer_pool st) need_size (rp_buffer_size st - need_size)) (\<lambda>rest.
     bindR (mem_write (rp_buffer_pool st) 0 rest) (\<lambda>m.
     Inr (st\<lparr>rp_buffer_pool := m, rp_buffer_size := rp_buffer_size st - need_size\<rparr>, out))))"

text \<open>
  The loop and the end of \<open>rollbuf_pool_get\<close>: the state, the return value, the bytes delivered (whose number is \<open>*result_size\<close>)
  and the callbacks made.
\<close>

fun get_loop :: "(rollbuf_pool_state \<Rightarrow> rollbuf_pool_state) list \<Rightarrow> bool \<Rightarrow> rollbuf_event list \<Rightarrow> rollbuf_pool_state \<Rightarrow> int \<Rightarrow>
    (rollbuf_pool_state \<times> int \<times> byte list \<times> rollbuf_event list) res option" where
  "get_loop wakes b_buffering ev st need_size =
     (if need_size > rp_buffer_size st
      then (if rp_stop_signal st then Some (Inr (st, -1, [], ev @ buffering_ok b_buffering st))
            else if rp_finish_singal st
            then Some (bindR (mem_read (rp_buffer_pool st) 0 (rp_buffer_size st)) (\<lambda>out.
                       Inr (st\<lparr>rp_buffer_size := 0\<rparr>, 0, out, ev @ buffering_ok b_buffering st)))
            else (case wakes of
                    [] \<Rightarrow> None
                  | w # wakes \<Rightarrow> get_loop wakes True (ev @ buffering_start st) (w st) need_size))
      else if rp_stop_signal st then Some (Inr (st, -1, [], ev @ buffering_ok b_buffering st))
      else Some (bindR (get_take st need_size) (\<lambda>(st', out).
                 Inr (st', 1, out, ev @ buffering_ok b_buffering st))))"

declare get_loop.simps [simp del]

definition rollbuf_pool_get ::
  "(rollbuf_pool_state \<Rightarrow> rollbuf_pool_state) list \<Rightarrow> rollbuf_pool_state option \<Rightarrow> int \<Rightarrow>
   (rollbuf_pool_state option \<times> int \<times> byte list \<times> rollbuf_event list) res option" where
  "rollbuf_pool_get wakes pool need_size =
     (case pool of
        None \<Rightarrow> Some (Inr (None, -1, [], []))
      | Some st \<Rightarrow> map_option (\<lambda>r. bindR r (\<lambda>(st, r). Inr (Some st, r))) (get_loop wakes False [] st need_size))"

definition rollbuf_pool_finish :: "rollbuf_pool_state \<Rightarrow> rollbuf_pool_state" where
  "rollbuf_pool_finish st = st\<lparr>rp_finish_singal := True\<rparr>"

definition rollbuf_pool_stop :: "rollbuf_pool_state \<Rightarrow> rollbuf_pool_state" where
  "rollbuf_pool_stop st = st\<lparr>rp_stop_signal := True\<rparr>"

text \<open>\<open>rollbuf_pool_destroy\<close>: the flags a waiting consumer sees before the block is freed, and the pointer.\<close>

definition rollbuf_pool_destroy :: "rollbuf_pool_state option \<Rightarrow> rollbuf_pool_state option \<times> rollbuf_pool_state option" where
  "rollbuf_pool_destroy pool =
     (case pool of
        None \<Rightarrow> (None, None)
      | Some st \<Rightarrow>
          (Some (if \<not> rp_stop_signal st \<or> \<not> rp_finish_singal st then rollbuf_pool_finish (rollbuf_pool_stop st) else st), None))"

section \<open>Invariant and contents\<close>

definition rp_content :: "rollbuf_pool_state \<Rightarrow> mem" where
  "rp_content st = take (nat (rp_buffer_size st)) (rp_buffer_pool st)"

definition rp_ok :: "rollbuf_pool_state \<Rightarrow> bool" where
  "rp_ok st \<longleftrightarrow> int (length (rp_buffer_pool st)) = rp_pool_size st \<and> 0 \<le> rp_buffer_size st \<and>
     rp_buffer_size st \<le> rp_pool_size st \<and> None \<notin> set (rp_content st)"

lemma rp_ok_create [simp]: "rp_ok (rollbuf_pool_create client n)"
  by (simp add: rp_ok_def rp_content_def rollbuf_pool_create_def Let_def ROLLBUF_POOL_MAX_BUF_DEF_SIZE_def)

lemma rp_content_create [simp]: "rp_content (rollbuf_pool_create client n) = []"
  by (simp add: rp_content_def rollbuf_pool_create_def Let_def)

lemma map_Some_the: "None \<notin> set m \<Longrightarrow> map Some (map the m) = m"
  by (induction m) auto

lemma rp_flags [simp]:
  "rp_ok (rollbuf_pool_finish st) = rp_ok st" "rp_content (rollbuf_pool_finish st) = rp_content st"
  "rp_ok (rollbuf_pool_stop st) = rp_ok st" "rp_content (rollbuf_pool_stop st) = rp_content st"
  by (simp_all add: rp_ok_def rp_content_def rollbuf_pool_finish_def rollbuf_pool_stop_def)

lemma push_append_ok:
  assumes "rp_ok st" and "rp_buffer_size st + int (length data) < rp_pool_size st"
  obtains st' where "push_append st data = Inr st'" and "rp_ok st'" and "rp_content st' = rp_content st @ map Some data"
proof -
  obtain n where n: "rp_buffer_size st = int n" using assms(1) by (metis rp_ok_def nonneg_int_cases)
  have len: "n + length data \<le> length (rp_buffer_pool st)" using assms n by (simp add: rp_ok_def)
  show ?thesis
    using that assms n len by (simp add: push_append_def mem_write_ok rp_ok_def rp_content_def nat_add_distrib)
qed

lemma get_take_ok:
  assumes "rp_ok st" and "0 \<le> n" and "n \<le> rp_buffer_size st"
  obtains st' out where "get_take st n = Inr (st', out)" and "rp_ok st'"
    and "map Some out = take (nat n) (rp_content st)" and "rp_content st' = drop (nat n) (rp_content st)"
proof -
  obtain k where k: "n = int k" using assms(2) nonneg_int_cases by blast
  obtain b where b: "rp_buffer_size st = int b" using assms(1) by (metis rp_ok_def nonneg_int_cases)
  let ?m = "rp_buffer_pool st"
  have kb: "k \<le> b" "b \<le> length ?m" using assms k b by (simp_all add: rp_ok_def)
  have some: "None \<notin> set (take b ?m)" using assms(1) b by (simp add: rp_ok_def rp_content_def)
  have sub: "set (take k ?m) \<subseteq> set (take b ?m)" "set (take (b - k) (drop k ?m)) \<subseteq> set (take b ?m)"
    using kb by (auto simp: set_take_subset_set_take take_drop dest: in_set_dropD)
  then have n1: "None \<notin> set (take k ?m)" and n2: "None \<notin> set (take (b - k) (drop k ?m))" using some by auto
  let ?out = "map the (take k ?m)" and ?rest = "map the (take (b - k) (drop k ?m))"
  have r1: "mem_read ?m 0 n = Inr ?out"
    using n1 k kb by (simp add: mem_read_def Let_def)
  have r2: "mem_read ?m n (rp_buffer_size st - n) = Inr ?rest"
    using n2 k b kb by (simp add: mem_read_def Let_def nat_diff_distrib)
  have w: "mem_write ?m 0 ?rest = Inr (map Some ?rest @ drop (b - k) ?m)"
    using mem_write_ok [of 0 ?rest ?m] kb by simp
  have content: "take k (take b ?m) = take k ?m" "drop k (take b ?m) = take (b - k) (drop k ?m)"
    using kb by (simp_all add: drop_take min_def)
  show ?thesis
    by (rule that)
      (use r1 r2 w n1 n2 content k b kb assms(1) in
        \<open>auto simp: get_take_def rp_ok_def rp_content_def nat_diff_distrib map_Some_the simp del: map_map\<close>)
qed

text \<open>The wait ends after at most five sleeps, in a state reached by them, with room or with the timeout.\<close>

lemma push_wait_result:
  "\<exists>k. k \<le> nat ((t + 99) div 100) \<and> push_wait others t d st =
     ((others ^^ k) st, rp_buffer_size ((others ^^ k) st) + d < rp_pool_size ((others ^^ k) st))"
proof (induction others t d st rule: push_wait.induct)
  case (1 others t d st)
  show ?case
  proof (cases "rp_pool_size st \<le> rp_buffer_size st + d \<and> 0 < t")
    case True
    with 1 obtain k where k: "k \<le> nat ((t - 100 + 99) div 100)"
      "push_wait others (t - 100) d (others st) =
        ((others ^^ k) (others st), rp_buffer_size ((others ^^ k) (others st)) + d < rp_pool_size ((others ^^ k) (others st)))"
      by (auto simp: ROLLBUF_POOL_MAX_BUF_EVERY_WAIT_TIME_def)
    have "Suc k \<le> nat ((t + 99) div 100)"
    proof -
      have "(t + 99) div 100 = (t - 100 + 99) div 100 + 1" by simp
      moreover have "0 \<le> (t - 100 + 99) div 100" using True by (intro pos_imp_zdiv_nonneg_iff [THEN iffD2]) auto
      ultimately show ?thesis using k(1) by linarith
    qed
    then show ?thesis
      using True k(2) by (intro exI [of _ "Suc k"])
        (subst push_wait.simps, simp add: ROLLBUF_POOL_MAX_BUF_EVERY_WAIT_TIME_def funpow_swap1)
  next
    case False
    then show ?thesis by (intro exI [of _ 0]) (subst push_wait.simps, auto)
  qed
qed

text \<open>As long as the other thread keeps the invariant, a push never faults and keeps it too.\<close>

lemma push_safe:
  assumes "rp_ok st" and "\<And>s. rp_ok s \<Longrightarrow> rp_ok (others s)"
  obtains st' b k where "rollbuf_pool_push others (Some st) data = Inr (Some st', b)" and "rp_ok st'"
    and "k \<le> 5" and "rp_content st' = rp_content ((others ^^ k) st) @ (if b then map Some data else [])"
proof (cases "rp_stop_signal st")
  case True
  then show ?thesis using that [of st False 0] assms(1) by (simp add: rollbuf_pool_push_def)
next
  case False
  obtain k where k: "k \<le> 5" and w: "push_wait others 500 (int (length data)) st =
     ((others ^^ k) st, rp_buffer_size ((others ^^ k) st) + int (length data) < rp_pool_size ((others ^^ k) st))"
    using push_wait_result [of 500 others "int (length data)" st] by auto
  have ok: "rp_ok ((others ^^ k) st)" for k by (induction k) (use assms in auto)
  show ?thesis
  proof (cases "rp_buffer_size ((others ^^ k) st) + int (length data) < rp_pool_size ((others ^^ k) st)")
    case True
    then obtain st' where "push_append ((others ^^ k) st) data = Inr st'" "rp_ok st'"
      "rp_content st' = rp_content ((others ^^ k) st) @ map Some data"
      using push_append_ok [OF ok True] by blast
    then show ?thesis
      using that [of st' True k] False True w k by (simp add: rollbuf_pool_push_def ROLLBUF_POOL_MAX_BUF_THROW_TIMEOUT_def)
  next
    case no_room: False
    then show ?thesis
      using that [of "(others ^^ k) st" False k] False w k ok
      by (simp add: rollbuf_pool_push_def ROLLBUF_POOL_MAX_BUF_THROW_TIMEOUT_def)
  qed
qed

text \<open>A stopped pool answers every \<open>get\<close> at once with \<open>-1\<close> and takes no data.\<close>

lemma stopped_pool:
  assumes "rp_stop_signal st"
  shows "rollbuf_pool_get wakes (Some st) n = Some (Inr (Some st, -1, [], []))"
    and "rollbuf_pool_push others (Some st) data = Inr (Some st, False)"
  using assms
  by (simp_all add: rollbuf_pool_get_def rollbuf_pool_push_def get_loop.simps buffering_ok_def split: option.splits)

section \<open>The pool as a byte queue\<close>

text \<open>A producer's step: a push that succeeds, or one of the two signals. A consumer's: a \<open>get\<close> that delivers.\<close>

definition rp_writes :: "rollbuf_pool_state \<Rightarrow> byte list \<Rightarrow> rollbuf_pool_state \<Rightarrow> bool" where
  "rp_writes st data st' \<longleftrightarrow>
     rollbuf_pool_push (\<lambda>s. s) (Some st) data = Inr (Some st', True) \<or>
     data = [] \<and> (st' = rollbuf_pool_finish st \<or> st' = rollbuf_pool_stop st)"

definition rp_reads :: "rollbuf_pool_state \<Rightarrow> nat \<Rightarrow> mem \<Rightarrow> rollbuf_pool_state \<Rightarrow> bool" where
  "rp_reads st n cs st' \<longleftrightarrow>
     (\<exists>need ret out ev. 0 \<le> need \<and> rollbuf_pool_get [] (Some st) need = Some (Inr (Some st', ret, out, ev)) \<and>
        ret \<noteq> -1 \<and> n = length out \<and> cs = map Some out)"

lemma rp_write_law:
  assumes ok: "rp_ok st" and w: "rp_writes st data st'"
  shows "rp_ok st' \<and> rp_content st' = rp_content st @ map Some data"
  using w unfolding rp_writes_def
proof
  assume push: "rollbuf_pool_push (\<lambda>s. s) (Some st) data = Inr (Some st', True)"
  have id: "((\<lambda>s. s) ^^ k) st = st" for k by (induction k) auto
  obtain st'' b k where "rollbuf_pool_push (\<lambda>s. s) (Some st) data = Inr (Some st'', b)" "rp_ok st''" "k \<le> 5"
    "rp_content st'' = rp_content (((\<lambda>s. s) ^^ k) st) @ (if b then map Some data else [])"
    using push_safe [OF ok, where others = "\<lambda>s. s"] by blast
  then show ?thesis using push id by simp
qed (auto simp: ok)

lemma rp_finish_get:
  assumes "rp_ok st"
  shows "mem_read (rp_buffer_pool st) 0 (rp_buffer_size st) = Inr (map the (rp_content st))"
  using assms by (simp add: mem_read_def rp_ok_def rp_content_def Let_def)

lemma rp_read_law:
  assumes ok: "rp_ok st" and r: "rp_reads st n cs st'"
  shows "rp_ok st' \<and> cs = take n (rp_content st) \<and> length cs = n \<and> rp_content st' = drop n (rp_content st)"
proof -
  obtain need ret out ev where need: "0 \<le> need" and ret: "ret \<noteq> -1" and n: "n = length out" and cs: "cs = map Some out"
    and get: "get_loop [] False [] st need = Some (Inr (st', ret, out, ev))"
    using r by (auto simp: rp_reads_def rollbuf_pool_get_def bindR_eq_Inr)
  have len: "length (rp_content st) = nat (rp_buffer_size st)" using ok unfolding rp_ok_def rp_content_def length_take by linarith
  show ?thesis
  proof (cases "need > rp_buffer_size st")
    case True
    then have "out = map the (rp_content st)" "st' = st\<lparr>rp_buffer_size := 0\<rparr>"
      using get ret by (auto simp: get_loop.simps rp_finish_get [OF ok] split: if_splits)
    then show ?thesis using ok n cs len by (simp add: rp_ok_def rp_content_def map_Some_the del: map_map)
  next
    case False
    then have take: "get_take st need = Inr (st', out)"
      using get ret by (auto simp: get_loop.simps bindR_eq_Inr split: if_splits)
    obtain s2 o2 where "get_take st need = Inr (s2, o2)" and g: "rp_ok s2"
      "map Some o2 = take (nat need) (rp_content st)" "rp_content s2 = drop (nat need) (rp_content st)"
      using get_take_ok [OF ok need] False by auto
    then have eq: "s2 = st'" "o2 = out" using take by auto
    have "length (map Some out) = nat need" using False len need unfolding g(2) [unfolded eq] by simp
    then have "n = nat need" "length cs = n" using n cs by simp_all
    then show ?thesis using g cs unfolding eq by simp
  qed
qed

interpretation rp: byte_fifo rp_ok rp_content rp_writes rp_reads Some
  by unfold_locales (erule (1) rp_write_law, erule (1) rp_read_law)

section \<open>Property\<close>

text \<open>
  C19. Media data passes the pool unchanged: from a newly created pool, under any interleaving of
  successful pushes, end and stop signals and gets (the last one, after the end signal, may
  deliver less than asked for), the bytes delivered followed by those still held are exactly
  the bytes pushed, in order, and the pool stays within its allocation.
\<close>

theorem rollbuf_pool_fifo:
  assumes "rp.run (rollbuf_pool_create client pool_size) ins outs st"
  shows "map Some ins = outs @ rp_content st \<and> rp_ok st"
  using rp.run_fifo [OF assms] by simp

theorem rollbuf_pool_fifo_witness:
  "\<exists>st. rp.run (rollbuf_pool_create None 8) ([1, 2, 3] @ []) ([] @ [Some 1, Some 2]) st \<and>
        map Some [1, 2, 3 :: byte] = [Some 1, Some 2] @ rp_content st"
proof -
  let ?n = "rollbuf_pool_create None 8"
  let ?s = "?n\<lparr>rp_buffer_pool := [Some 1, Some 2, Some 3, None, None, None, None, None], rp_buffer_size := 3\<rparr>"
  let ?t = "?s\<lparr>rp_buffer_pool := [Some 3, Some 2, Some 3, None, None, None, None, None], rp_buffer_size := 1\<rparr>"
  have w: "rp_writes ?n [1, 2, 3] ?s"
    unfolding rp_writes_def rollbuf_pool_push_def
    by (subst push_wait.simps)
      (simp add: rollbuf_pool_create_def push_append_def mem_write_def mem_alloc_def eval_nat_numeral)
  have r: "rp_reads ?s 2 [Some 1, Some 2] ?t"
    unfolding rp_reads_def
    by (rule exI [of _ 2], rule exI [of _ 1], rule exI [of _ "[1, 2]"], rule exI [of _ "[]"])
      (simp add: rollbuf_pool_get_def get_loop.simps get_take_def mem_read_def mem_write_def buffering_ok_def
        rollbuf_pool_create_def Let_def eval_nat_numeral)
  have "rp.run ?n ([] @ [1, 2, 3]) [] ?s" by (rule rp.run_write [OF rp.run_start w])
  then have "rp.run ?n ([] @ [1, 2, 3]) ([] @ [Some 1, Some 2]) ?t" by (rule rp.run_read [OF _ r])
  then show ?thesis using rollbuf_pool_fifo [of None 8] by fastforce
qed

end
