(* ===== verification/Base64.thy ===== *)
theory Base64
  imports Prelude
begin

text \<open>
  The two Base64 codecs of \<open>utils/baes64.c\<close> and \<open>utils/urlbaes64.c\<close>. They share one scheme,
  with another alphabet and padding character each; the first breaks lines after 72
  characters, the second does not. The encoders write to a buffer whose size they compute beforehand, in
  32-bit arithmetic; a write behind it is a fault.
\<close>

section \<open>The codecs\<close>

definition base64_table :: "byte list" where
  "base64_table = map of_char ''ABCDEFGHIJKLMNOPQRSTUVWXYZabcdefghijklmnopqrstuvwxyz0123456789+/''"

definition urlbase64_table :: "byte list" where
  "urlbase64_table = map of_char ''ABCDEFGHIJKLMNOPQRSTUVWXYZabcdefghijklmnopqrstuvwxyz0123456789-_''"

text \<open>The four characters of three bytes, and the padded ones of the one or two bytes left over.\<close>

definition enc_quad :: "byte list \<Rightarrow> byte \<Rightarrow> byte \<Rightarrow> byte \<Rightarrow> byte list" where
  "enc_quad tbl a b c =
     [tbl ! unat (drop_bit 2 a), tbl ! unat (push_bit 4 (a AND 0x03) OR drop_bit 4 b),
      tbl ! unat (push_bit 2 (b AND 0x0f) OR drop_bit 6 c), tbl ! unat (c AND 0x3f)]"

fun enc_tail :: "byte list \<Rightarrow> byte \<Rightarrow> byte list \<Rightarrow> byte list" where
  "enc_tail tbl pad [a] = [tbl ! unat (drop_bit 2 a), tbl ! unat (push_bit 4 (a AND 0x03)), pad, pad]"
| "enc_tail tbl pad [a, b] =
     [tbl ! unat (drop_bit 2 a), tbl ! unat (push_bit 4 (a AND 0x03) OR drop_bit 4 b), tbl ! unat (push_bit 2 (b AND 0x0f)), pad]"
| "enc_tail tbl pad _ = []"

text \<open>The loop of \<open>base64_encode\<close>: the characters written, the bytes left over and \<open>line_len\<close>.\<close>

fun base64_encode_loop :: "byte list \<Rightarrow> nat \<Rightarrow> byte list \<times> byte list \<times> nat" where
  "base64_encode_loop (a # b # c # rest) line_len =
     (let (nl, line_len) = (if line_len + 4 \<ge> 72 then ([10], 0) else ([], line_len + 4));
          (out, left, line_len) = base64_encode_loop rest line_len
      in (enc_quad base64_table a b c @ nl @ out, left, line_len))"
| "base64_encode_loop left line_len = ([], left, line_len)"

text \<open>The size of the output buffer.\<close>

definition enc_olen :: "nat \<Rightarrow> u32" where
  "enc_olen len = (let olen = word_of_nat len * 4 div 3 + 4; olen = olen + olen div 72 in olen + 1)"

definition enc_store :: "nat \<Rightarrow> byte list \<Rightarrow> byte list res" where
  "enc_store len out = (if unat (enc_olen len) < length out + 1 then Inl OutOfBounds else Inr out)"

definition base64_encode :: "byte list \<Rightarrow> byte list res" where
  "base64_encode src =
     (let (out, left, line_len) = base64_encode_loop src 0;
          line_len' = (if left \<noteq> [] then line_len + 4 else line_len)
      in enc_store (length src) (out @ enc_tail base64_table 61 left @ (if line_len' \<noteq> 0 then [10] else [])))"

fun urlbase64_encode_loop :: "byte list \<Rightarrow> byte list \<times> byte list" where
  "urlbase64_encode_loop (a # b # c # rest) = apfst ((@) (enc_quad urlbase64_table a b c)) (urlbase64_encode_loop rest)"
| "urlbase64_encode_loop left = ([], left)"

text \<open>A negative length stands for that of the C string.\<close>

definition str_arg :: "mem \<Rightarrow> int \<Rightarrow> byte list res" where
  "str_arg src len = bindR (if len < 0 then mem_strlen src else Inr len) (mem_read src 0)"

definition urlbase64_encode :: "mem \<Rightarrow> int \<Rightarrow> byte list res" where
  "urlbase64_encode src len =
     bindR (str_arg src len) (\<lambda>src.
       let (out, left) = urlbase64_encode_loop src in
       enc_store (length src) (out @ enc_tail urlbase64_table 126 left))"

text \<open>The reverse table of the decoders.\<close>

definition dtable :: "byte list \<Rightarrow> byte \<Rightarrow> byte list" where
  "dtable tbl pad =
     (foldl (\<lambda>d i. d[unat (tbl ! i) := word_of_nat i]) (replicate 256 0x80) [0..<length tbl])[unat pad := 0]"

definition dec_count :: "byte list \<Rightarrow> byte list \<Rightarrow> nat" where
  "dec_count dt src = length (filter (\<lambda>s. dt ! unat s \<noteq> 0x80) src)"

text \<open>
  The loop of the decoders over \<open>count\<close>, the arrays \<open>in\<close> and \<open>block\<close>, and the bytes written.
\<close>

fun dec_loop :: "byte list \<Rightarrow> byte list \<Rightarrow> nat \<times> byte list \<times> byte list \<times> byte list \<Rightarrow> nat \<times> byte list \<times> byte list \<times> byte list" where
  "dec_loop dt [] st = st"
| "dec_loop dt (s # src) (count, inb, block, out) =
     (let tmp = dt ! unat s in
      if tmp = 0x80 then dec_loop dt src (count, inb, block, out)
      else let inb = inb[count := s]; block = block[count := tmp] in
           if count + 1 = 4
           then dec_loop dt src (0, inb, block, out @
                  [push_bit 2 (block ! 0) OR drop_bit 4 (block ! 1), push_bit 4 (block ! 1) OR drop_bit 2 (block ! 2),
                   push_bit 6 (block ! 2) OR block ! 3])
           else dec_loop dt src (count + 1, inb, block, out))"

text \<open>The padding taken back; \<open>in\<close> is only read once it has been filled.\<close>

definition dec_unpad :: "byte \<Rightarrow> nat \<times> byte list \<times> byte list \<times> byte list \<Rightarrow> byte list" where
  "dec_unpad pad st =
     (case st of (count, inb, block, out) \<Rightarrow>
        if out = [] then out
        else if inb ! 2 = pad then take (length out - 2) out
        else if inb ! 3 = pad then take (length out - 1) out else out)"

definition dec_start :: "nat \<times> byte list \<times> byte list \<times> byte list" where
  "dec_start = (0, replicate 4 0, replicate 4 0, [])"

text \<open>
  The loop writes its bytes one behind the other into a buffer of the given size, so a write
  is outside it when there are more bytes than that.
\<close>

definition dec_store :: "nat \<Rightarrow> nat \<times> byte list \<times> byte list \<times> byte list \<Rightarrow> (nat \<times> byte list \<times> byte list \<times> byte list) res" where
  "dec_store room st = (if room < length (snd (snd (snd st))) then Inl OutOfBounds else Inr st)"

definition base64_decode :: "byte list \<Rightarrow> byte list option res" where
  "base64_decode src =
     (let dt = dtable base64_table 61 in
      if dec_count dt src mod 4 \<noteq> 0 then Inr None
      else bindR (dec_store (dec_count dt src) (dec_loop dt src dec_start)) (\<lambda>st. Inr (Some (dec_unpad 61 st))))"

text \<open>The URL decoder writes two terminators behind the bytes it returns.\<close>

definition urlbase64_decode :: "mem \<Rightarrow> int \<Rightarrow> byte list res" where
  "urlbase64_decode src len =
     bindR (str_arg src len) (\<lambda>src.
       let dt = dtable urlbase64_table 126; room = dec_count dt src + 1 in
       bindR (dec_store room (dec_loop dt src dec_start)) (\<lambda>st.
       let out = dec_unpad 126 st in
       if room < length out + 2 then Inl OutOfBounds else Inr out))"

section \<open>Sextets\<close>

lemma and_masks: "(a :: byte) AND 3 = take_bit 2 a" "a AND 15 = take_bit 4 a" "a AND 63 = take_bit 6 a"
  by (simp_all add: take_bit_eq_mask mask_eq_exp_minus_1)

lemma byte_eqI:
  fixes v w :: byte
  assumes "\<And>n. n \<in> {0, 1, 2, 3, 4, 5, 6, 7} \<Longrightarrow> bit v n = bit w n"
  shows "v = w"
proof (rule bit_word_eqI)
  fix n assume "n < LENGTH(8)"
  then have "n \<in> {0, 1, 2, 3, 4, 5, 6, 7}" by auto
  then show "bit v n = bit w n" by (rule assms)
qed

lemma sextets_back:
  fixes a b c :: byte
  shows "push_bit 2 (drop_bit 2 a) OR drop_bit 4 (push_bit 4 (a AND 3) OR drop_bit 4 b) = a"
    and "push_bit 2 (drop_bit 2 a) OR drop_bit 4 (push_bit 4 (a AND 3)) = a"
    and "push_bit 4 (push_bit 4 (a AND 3) OR drop_bit 4 b) OR drop_bit 2 (push_bit 2 (b AND 15) OR drop_bit 6 c) = b"
    and "push_bit 4 (push_bit 4 (a AND 3) OR drop_bit 4 b) OR drop_bit 2 (push_bit 2 (b AND 15)) = b"
    and "push_bit 6 (push_bit 2 (b AND 15) OR drop_bit 6 c) OR (c AND 63) = c"
  unfolding and_masks by (rule byte_eqI; elim insertE emptyE; simp add: bit_simps numeral_2_eq_2 [symmetric] numeral_3_eq_3 [symmetric]; blast?)+

lemma sextet_bound:
  fixes a b c :: byte
  shows "unat (drop_bit 2 a) < 64" and "unat (push_bit 4 (a AND 3) OR drop_bit 4 b) < 64"
    and "unat (push_bit 4 (a AND 3)) < 64" and "unat (push_bit 2 (b AND 15)) < 64"
    and "unat (push_bit 2 (b AND 15) OR drop_bit 6 c) < 64" and "unat (c AND 63) < 64"
proof -
  have lt: "unat w < 64" if "take_bit 6 w = w" for w :: byte
  proof -
    have "unat w = take_bit 6 (unat w)" using that unsigned_take_bit_eq [of 6 w] by simp
    then show ?thesis using take_bit_nat_less_exp [of 6 "unat w"] by simp
  qed
  show "unat (drop_bit 2 a) < 64" and "unat (push_bit 4 (a AND 3) OR drop_bit 4 b) < 64"
    and "unat (push_bit 4 (a AND 3)) < 64" and "unat (push_bit 2 (b AND 15)) < 64"
    and "unat (push_bit 2 (b AND 15) OR drop_bit 6 c) < 64" and "unat (c AND 63) < 64"
    unfolding and_masks by (rule lt, rule byte_eqI; elim insertE emptyE; simp add: bit_simps)+
qed

section \<open>The scheme behind both codecs\<close>

text \<open>The characters of a byte string without line breaks.\<close>

fun enc_chars :: "byte list \<Rightarrow> byte \<Rightarrow> byte list \<Rightarrow> byte list" where
  "enc_chars tbl pad (a # b # c # rest) = enc_quad tbl a b c @ enc_chars tbl pad rest"
| "enc_chars tbl pad left = enc_tail tbl pad left"

lemma length_enc_chars: "length (enc_chars tbl pad data) = 4 * ((length data + 2) div 3)"
proof (induction tbl pad data rule: enc_chars.induct)
  case (1 tbl pad a b c rest)
  have "(length rest + 2 + 3) div 3 = (length rest + 2) div 3 + 1" by simp
  then show ?case using 1 by (simp add: enc_quad_def)
qed simp_all

lemma dec_loop_skips:
  "dec_loop dt src st = dec_loop dt (filter (\<lambda>s. dt ! unat s \<noteq> 0x80) src) st"
  by (induction dt src st rule: dec_loop.induct) (simp_all add: Let_def)

lemma dec_loop_append: "dec_loop dt (xs @ ys) st = dec_loop dt ys (dec_loop dt xs st)"
  by (induction dt xs st rule: dec_loop.induct) (simp_all add: Let_def)

lemma foldl_update_nth:
  assumes "\<forall>i<n. unat (t i :: byte) < length d" and "inj_on t {..<n}" and "i < n"
  shows "foldl (\<lambda>d i. d[unat (t i) := f i]) d [0..<n] ! unat (t i) = f i"
  using assms
proof (induction n)
  case (Suc n)
  have len: "length (foldl (\<lambda>d i. d[unat (t i) := f i]) d [0..<k]) = length d" for k by (induction k) auto
  show ?case
  proof (cases "i = n")
    case False
    then have "i < n" and "t i \<noteq> t n" using Suc.prems by (auto dest: inj_onD)
    then have "unat (t n) \<noteq> unat (t i)" by (simp add: word_unat_eq_iff)
    then show ?thesis using Suc \<open>i < n\<close> by (simp add: inj_on_def)
  qed (use Suc.prems len in simp)
qed simp

lemma foldl_update_other:
  "\<forall>i<n. t i \<noteq> (x :: byte) \<Longrightarrow> foldl (\<lambda>d i. d[unat (t i) := f i]) d [0..<n] ! unat x = d ! unat x"
  by (induction n) (simp_all add: word_unat_eq_iff)

lemma length_dtable: "length (dtable tbl pad) = 256"
proof -
  have "length (foldl (\<lambda>d i. d[unat (tbl ! i) := word_of_nat i]) d [0..<k]) = length d" for k and d :: "byte list"
    by (induction k) auto
  then show ?thesis by (simp add: dtable_def)
qed

lemma list4_update:
  "length xs = 4 \<Longrightarrow> xs[0 := a, Suc 0 := b, Suc (Suc 0) := c, Suc (Suc (Suc 0)) := d] = [a, b, c, d]"
  by (auto simp: length4_conv)

lemma dec_four:
  assumes "length inb = 4" and "length block = 4" and "dt ! unat x0 \<noteq> 0x80" and "dt ! unat x1 \<noteq> 0x80"
    and "dt ! unat x2 \<noteq> 0x80" and "dt ! unat x3 \<noteq> 0x80"
  shows "dec_loop dt [x0, x1, x2, x3] (0, inb, block, out) =
    (0, [x0, x1, x2, x3], [dt ! unat x0, dt ! unat x1, dt ! unat x2, dt ! unat x3],
     out @ [push_bit 2 (dt ! unat x0) OR drop_bit 4 (dt ! unat x1), push_bit 4 (dt ! unat x1) OR drop_bit 2 (dt ! unat x2),
            push_bit 6 (dt ! unat x2) OR dt ! unat x3])"
  using assms by (simp add: Let_def list4_update numeral_2_eq_2)

lemma triple_induct [case_names Nil One Two Three]:
  assumes "P []" and "\<And>a. P [a]" and "\<And>a b. P [a, b]" and "\<And>a b c rest. P rest \<Longrightarrow> P (a # b # c # rest)"
  shows "P (data :: byte list)"
  by (induction data rule: urlbase64_encode_loop.induct) (use assms in auto)

text \<open>The laws of an alphabet with its padding character.\<close>

locale codec64 =
  fixes tbl :: "byte list" and pad :: byte
  assumes length_tbl: "length tbl = 64" and distinct_tbl: "distinct tbl" and pad_notin: "pad \<notin> set tbl"
begin

lemma byte_index [simp]: "unat (x :: byte) < 256"
  using unsigned_less [of x] by simp

lemma dtable_tbl: "i < 64 \<Longrightarrow> dtable tbl pad ! unat (tbl ! i) = word_of_nat i"
proof -
  assume i: "i < 64"
  then have "unat (tbl ! i) \<noteq> unat pad" using pad_notin length_tbl by (auto simp: in_set_conv_nth word_unat_eq_iff)
  moreover have "inj_on (nth tbl) {..<64}"
    using distinct_tbl length_tbl by (simp add: inj_on_def nth_eq_iff_index_eq)
  ultimately show ?thesis
    using foldl_update_nth [of 64 "nth tbl" "replicate 256 0x80" i word_of_nat] i length_tbl by (simp add: dtable_def)
qed

lemma dtable_pad: "dtable tbl pad ! unat pad = 0"
  using length_dtable [of tbl pad] by (simp add: dtable_def)

lemma dtable_other: "x \<notin> set tbl \<Longrightarrow> x \<noteq> pad \<Longrightarrow> dtable tbl pad ! unat x = 0x80"
  using foldl_update_other [of "length tbl" "nth tbl" x "word_of_nat :: nat \<Rightarrow> byte" "replicate 256 0x80"]
  by (auto simp: dtable_def in_set_conv_nth word_unat_eq_iff [of x pad])

lemma dtable_char:
  "unat w < 64 \<Longrightarrow> dtable tbl pad ! unat (tbl ! unat w) = w"
  "unat w < 64 \<Longrightarrow> w \<noteq> 0x80" "unat w < 64 \<Longrightarrow> tbl ! unat w \<noteq> pad"
  using dtable_tbl [of "unat w"] pad_notin length_tbl by (auto simp: in_set_conv_nth)

lemmas chars = dtable_char [OF sextet_bound(1)] dtable_char [OF sextet_bound(2)] dtable_char [OF sextet_bound(3)]
  dtable_char [OF sextet_bound(4)] dtable_char [OF sextet_bound(5)] dtable_char [OF sextet_bound(6)] dtable_pad

lemma pad_code: "(0 :: byte) \<noteq> 0x80"
  by simp

lemma dec_quad:
  assumes "length inb = 4" and "length block = 4"
  shows "\<exists>block'. length block' = 4 \<and> dec_loop (dtable tbl pad) (enc_quad tbl a b c) (0, inb, block, out) =
    (0, enc_quad tbl a b c, block', out @ [a, b, c])"
  by (simp only: enc_quad_def dec_four [OF assms] chars sextets_back not_False_eq_True) simp

lemma dec_tail2:
  assumes "length inb = 4" and "length block = 4"
  shows "\<exists>block' x. length block' = 4 \<and> dec_loop (dtable tbl pad) (enc_tail tbl pad [a, b]) (0, inb, block, out) =
    (0, enc_tail tbl pad [a, b], block', out @ [a, b] @ [x])"
  by (simp only: enc_tail.simps dec_four [OF assms] chars pad_code sextets_back not_False_eq_True) simp

lemma dec_tail1:
  assumes "length inb = 4" and "length block = 4"
  shows "\<exists>block' x y. length block' = 4 \<and> dec_loop (dtable tbl pad) (enc_tail tbl pad [a]) (0, inb, block, out) =
    (0, enc_tail tbl pad [a], block', out @ [a] @ [x, y])"
  by (simp only: enc_tail.simps dec_four [OF assms] chars pad_code sextets_back not_False_eq_True) simp

lemma nth4: "[w, x, y, z] ! 2 = y" "[w, x, y, z] ! 3 = z"
  by simp_all

lemma quad_no_pad: "enc_quad tbl a b c ! 2 \<noteq> pad" "enc_quad tbl a b c ! 3 \<noteq> pad"
  unfolding enc_quad_def nth4 by (rule chars)+

lemma tail_pad:
  "enc_tail tbl pad [a] ! 2 = pad" "enc_tail tbl pad [a] ! 3 = pad"
  "enc_tail tbl pad [a, b] ! 2 \<noteq> pad" "enc_tail tbl pad [a, b] ! 3 = pad"
  unfolding enc_tail.simps nth4 by (rule chars refl)+

lemma dec_chars:
  assumes "length inb = 4" and "length block = 4"
  shows "\<exists>inb' block' extra. dec_loop (dtable tbl pad) (enc_chars tbl pad data) (0, inb, block, out) = (0, inb', block', out @ data @ extra)
    \<and> (if data = [] then inb' = inb else (inb' ! 2 = pad \<longleftrightarrow> length data mod 3 = 1) \<and> (inb' ! 3 = pad \<longleftrightarrow> length data mod 3 \<noteq> 0))
    \<and> length extra = (3 - length data mod 3) mod 3"
  using assms
proof (induction data arbitrary: inb block out rule: triple_induct)
  case (Three a b c rest)
  obtain block1 where len: "length block1 = 4" and d1: "dec_loop (dtable tbl pad) (enc_quad tbl a b c) (0, inb, block, out) =
      (0, enc_quad tbl a b c, block1, out @ [a, b, c])"
    using dec_quad [OF Three(2,3)] by blast
  have "length (enc_quad tbl a b c) = 4" by (simp add: enc_quad_def)
  from Three(1) [OF this len, of "out @ [a, b, c]"] obtain inb' block' extra
    where d2: "dec_loop (dtable tbl pad) (enc_chars tbl pad rest) (0, enc_quad tbl a b c, block1, out @ [a, b, c]) =
        (0, inb', block', (out @ [a, b, c]) @ rest @ extra)"
      and last: "if rest = [] then inb' = enc_quad tbl a b c
        else (inb' ! 2 = pad \<longleftrightarrow> length rest mod 3 = 1) \<and> (inb' ! 3 = pad \<longleftrightarrow> length rest mod 3 \<noteq> 0)"
      and extra: "length extra = (3 - length rest mod 3) mod 3"
    by blast
  have "length (a # b # c # rest) mod 3 = length rest mod 3" by simp
  then show ?case
    using d1 d2 last extra quad_no_pad [of a b c]
    by (intro exI [of _ inb'] exI [of _ block'] exI [of _ extra])
      (simp add: dec_loop_append split: if_splits)
next
  case (One a)
  then show ?case using dec_tail1 [of inb block a out] tail_pad(1,2) [of a] by fastforce
next
  case (Two a b)
  then show ?case using dec_tail2 [of inb block a b out] tail_pad(3,4) [of a b] by fastforce
qed simp

abbreviation keeps :: "byte \<Rightarrow> bool" where
  "keeps s \<equiv> dtable tbl pad ! unat s \<noteq> 0x80"

lemma keep_quad: "filter keeps (enc_quad tbl a b c) = enc_quad tbl a b c"
  by (simp only: enc_quad_def filter.simps chars not_False_eq_True if_True)

lemma keep_tail: "filter keeps (enc_tail tbl pad left) = enc_tail tbl pad left"
  by (cases left rule: urlbase64_encode_loop.cases)
    (simp_all only: enc_tail.simps filter.simps chars pad_code not_False_eq_True if_True)

lemma set_chars: "set (enc_chars tbl pad data) \<subseteq> insert pad (set tbl)"
proof (induction data rule: urlbase64_encode_loop.induct)
  case (1 a b c rest)
  then show ?case unfolding enc_chars.simps enc_quad_def using sextet_bound length_tbl by (simp del: push_bit_and)
qed (use sextet_bound length_tbl in \<open>simp_all del: push_bit_and\<close>)

lemma unpad_chars:
  assumes "filter keeps src = enc_chars tbl pad data"
  shows "dec_unpad pad (dec_loop (dtable tbl pad) src dec_start) = data"
    and "dec_count (dtable tbl pad) src = 4 * ((length data + 2) div 3)"
proof -
  obtain inb' block' extra where d: "dec_loop (dtable tbl pad) src dec_start = (0, inb', block', data @ extra)"
    and flags: "data \<noteq> [] \<Longrightarrow> (inb' ! 2 = pad \<longleftrightarrow> length data mod 3 = 1) \<and> (inb' ! 3 = pad \<longleftrightarrow> length data mod 3 \<noteq> 0)"
    and extra: "length extra = (3 - length data mod 3) mod 3"
    using dec_chars [of "replicate 4 0" "replicate 4 0" data "[]"] dec_loop_skips [of "dtable tbl pad" src dec_start] assms
    by (auto simp: dec_start_def split: if_splits)
  show "dec_unpad pad (dec_loop (dtable tbl pad) src dec_start) = data"
  proof (cases "data = []")
    case True
    then show ?thesis using d extra by (simp add: dec_unpad_def)
  next
    case False
    consider "length data mod 3 = 0" | "length data mod 3 = 1" | "length data mod 3 = 2" by fastforce
    then show ?thesis using d extra flags [OF False] False by cases (simp_all add: dec_unpad_def)
  qed
  show "dec_count (dtable tbl pad) src = 4 * ((length data + 2) div 3)"
    by (simp add: dec_count_def assms length_enc_chars)
qed

end

section \<open>The two alphabets\<close>

interpretation b64: codec64 base64_table 61
  by unfold_locales (simp_all add: base64_table_def)

interpretation u64: codec64 urlbase64_table 126
  by unfold_locales (simp_all add: urlbase64_table_def)

section \<open>The encoders\<close>

lemma url_loop_chars:
  "urlbase64_encode_loop src = (out, left) \<Longrightarrow> out @ enc_tail urlbase64_table 126 left = enc_chars urlbase64_table 126 src"
  by (induction src arbitrary: out left rule: urlbase64_encode_loop.induct) (auto simp: apfst_def map_prod_def split: prod.splits)

text \<open>Line breaks are the only characters the decoder drops, and there is one after every 18 blocks.\<close>

lemma newline_dropped: "dtable base64_table 61 ! 10 = 0x80"
  using b64.dtable_other [of 10] by (simp add: base64_table_def)

lemma b64_loop_chars:
  "base64_encode_loop src l = (out, left, l') \<Longrightarrow>
   filter b64.keeps (out @ enc_tail base64_table 61 left) = enc_chars base64_table 61 src"
proof (induction src l arbitrary: out left l' rule: base64_encode_loop.induct)
  case (1 a b c rest l)
  then show ?case
    by (auto simp: Let_def b64.keep_quad newline_dropped split: prod.splits if_splits)
qed (auto simp: b64.keep_tail simp del: filter.simps enc_tail.simps)

lemma b64_loop_length:
  assumes "base64_encode_loop src (4 * m) = (out, left, l')" and "m < 18"
  shows "\<exists>m' nl. l' = 4 * m' \<and> m' < 18 \<and> length out = 4 * (length src div 3) + nl \<and> 18 * nl + m' = m + length src div 3 \<and>
           length left = length src mod 3"
  using assms
proof (induction src arbitrary: m out left l' rule: urlbase64_encode_loop.induct)
  case (1 a b c rest)
  let ?m = "if m = 17 then 0 else m + 1"
  have m: "?m < 18" using 1(3) by simp
  obtain out1 where loop: "base64_encode_loop rest (4 * ?m) = (out1, left, l')"
    and out: "out = enc_quad base64_table a b c @ (if m = 17 then [10] else []) @ out1"
    using 1(2,3) by (auto simp: Let_def add.commute split: prod.splits if_splits)
  obtain m' nl where "l' = 4 * m'" "m' < 18" "length out1 = 4 * (length rest div 3) + nl"
    "18 * nl + m' = ?m + length rest div 3" "length left = length rest mod 3"
    using 1(1) [OF loop] m by blast
  moreover have "length (a # b # c # rest) div 3 = length rest div 3 + 1" "length (a # b # c # rest) mod 3 = length rest mod 3"
    by simp_all
  moreover have "length out = 4 + (if m = 17 then 1 else 0) + length out1" by (simp add: out enc_quad_def)
  ultimately have "l' = 4 * m' \<and> m' < 18 \<and> length out = 4 * (length (a # b # c # rest) div 3) + (nl + (if m = 17 then 1 else 0)) \<and>
      18 * (nl + (if m = 17 then 1 else 0)) + m' = m + length (a # b # c # rest) div 3 \<and> length left = length (a # b # c # rest) mod 3"
    by (intro conjI) (cases "m = 17"; simp; fail)+
  then show ?case by blast
qed auto

lemma length_enc_tail: "length (enc_tail tbl pad left) = (if length left \<in> {1, 2} then 4 else 0)"
  by (cases "(tbl, pad, left)" rule: enc_tail.cases) auto

lemma unat_plus_one: "unat (w :: u32) + 1 < 2 ^ 32 \<Longrightarrow> unat (w + 1) = unat w + 1"
  by (simp add: unat_add_lem [THEN iffD1])

text \<open>The computed size of the buffer, as long as the multiplication does not wrap.\<close>

lemma enc_olen_nat:
  assumes "len < 2 ^ 29"
  shows "unat (enc_olen len) = len * 4 div 3 + 4 + (len * 4 div 3 + 4) div 72 + 1"
proof -
  define q where "q = len * 4 div 3 + 4"
  have q: "q < 2 ^ 30" using assms by (simp add: q_def)
  have l: "unat (word_of_nat len :: u32) = len" using assms by (simp add: unsigned_of_nat take_bit_nat_eq_self)
  have m: "unat ((word_of_nat len :: u32) * 4) = len * 4" using assms l by (simp add: unat_mult_lem [THEN iffD1])
  have "unat ((word_of_nat len :: u32) * 4 div 3) = len * 4 div 3" using m by (simp add: unat_div)
  then have o: "unat ((word_of_nat len :: u32) * 4 div 3 + 4) = q"
    using assms by (simp add: q_def unat_add_lem [THEN iffD1])
  then have "unat (((word_of_nat len :: u32) * 4 div 3 + 4) div 72) = q div 72" by (simp add: unat_div)
  with o have "unat ((word_of_nat len :: u32) * 4 div 3 + 4 + ((word_of_nat len :: u32) * 4 div 3 + 4) div 72) = q + q div 72"
    using q by (simp add: unat_add_lem [THEN iffD1])
  then have "unat ((word_of_nat len :: u32) * 4 div 3 + 4 + ((word_of_nat len :: u32) * 4 div 3 + 4) div 72 + 1) = q + q div 72 + 1"
    by (subst unat_plus_one) (use q in simp_all)
  then show ?thesis unfolding enc_olen_def Let_def q_def .
qed

lemma encode_fits:
  fixes nl q len :: nat
  assumes "nl * 18 \<le> q + 17" and "q = (len + 2) div 3"
  shows "4 * q + nl + 1 \<le> len * 4 div 3 + 4 + (len * 4 div 3 + 4) div 72 + 1"
proof -
  define p where "p = len * 4 div 3 + 4"
  have "4 * q \<le> p" unfolding assms(2) p_def by linarith
  moreover have "4 * q + 1 \<le> p \<or> 4 * q + 4 \<le> p" unfolding assms(2) p_def by linarith
  moreover have "nl \<le> (4 * q + 68) div 72" using assms(1) by linarith
  moreover have "(4 * q + 68) div 72 \<le> 1 + p div 72" using calculation(1) by linarith
  ultimately have "4 * q + nl \<le> p + p div 72" by linarith
  then show ?thesis unfolding p_def by simp
qed

lemma blocks_div: "(n + 2) div 3 = n div 3 + (if n mod 3 = 0 then 0 else 1 :: nat)"
  by (cases "n mod 3 = 0") (simp_all, presburger+)

lemma base64_encode_ok:
  assumes "length data < 2 ^ 29"
  obtains out where "base64_encode data = Inr out" and "filter b64.keeps out = enc_chars base64_table 61 data"
proof -
  obtain out left l where loop: "base64_encode_loop data 0 = (out, left, l)" by (cases "base64_encode_loop data 0") auto
  obtain m nl where m: "l = 4 * m" "length out = 4 * (length data div 3) + nl" "18 * nl + m = length data div 3"
    and left: "length left = length data mod 3"
    using b64_loop_length [of data 0 out left l] loop by auto
  let ?nl = "if (if left \<noteq> [] then l + 4 else l) \<noteq> 0 then [10 :: byte] else []"
  have "left = [] \<longleftrightarrow> length data mod 3 = 0" using left by (metis length_0_conv)
  then have q: "(length data + 2) div 3 = length data div 3 + (if left = [] then 0 else 1)"
    using blocks_div [of "length data"] by simp
  have len: "length (out @ enc_tail base64_table 61 left @ ?nl) = 4 * ((length data + 2) div 3) + (nl + length ?nl)"
  proof -
    have "length left < 3" using left by simp
    then have "length left \<in> {1, 2} \<longleftrightarrow> left \<noteq> []" by (auto simp: less_Suc_eq numeral_3_eq_3)
    then show ?thesis using m(2) q by (simp add: length_enc_tail)
  qed
  have "(nl + length ?nl) * 18 \<le> (length data + 2) div 3 + 17"
    using m(1,3) q by (auto split: if_splits)
  from encode_fits [OF this refl]
  have "base64_encode data = Inr (out @ enc_tail base64_table 61 left @ ?nl)"
    using len by (simp add: base64_encode_def loop Let_def enc_store_def enc_olen_nat [OF assms])
  moreover have "filter b64.keeps (out @ enc_tail base64_table 61 left @ ?nl) = enc_chars base64_table 61 data"
    using b64_loop_chars [OF loop] newline_dropped by simp
  ultimately show ?thesis by (rule that)
qed

lemma urlbase64_encode_ok:
  assumes "str_arg src len = Inr data" and "length data < 2 ^ 29"
  shows "urlbase64_encode src len = Inr (enc_chars urlbase64_table 126 data)"
proof -
  obtain out left where loop: "urlbase64_encode_loop data = (out, left)" by (cases "urlbase64_encode_loop data") auto
  have "length (enc_chars urlbase64_table 126 data) + 1 \<le> unat (enc_olen (length data))"
    using encode_fits [of 0 _ "length data", OF _ refl] by (simp add: length_enc_chars enc_olen_nat [OF assms(2)])
  then show ?thesis
    using assms(1) by (simp add: urlbase64_encode_def loop enc_store_def url_loop_chars [OF loop] del: length_append)
qed

lemma keep_chars: "filter u64.keeps (enc_chars urlbase64_table 126 data) = enc_chars urlbase64_table 126 data"
  by (induction data rule: urlbase64_encode_loop.induct) 
    (simp_all add: u64.keep_quad u64.keep_tail del: enc_tail.simps filter.simps)

lemma url_text_no_nul: "0 \<notin> set (enc_chars urlbase64_table 126 data)"
proof -
  have "0 \<notin> insert 126 (set urlbase64_table)" by (simp add: urlbase64_table_def)
  then show ?thesis using u64.set_chars by blast
qed

text \<open>The URL decoder writes two terminators, one behind the buffer when there is nothing to decode.\<close>

lemma urlbase64_decode_empty: "urlbase64_decode [] 0 = Inl OutOfBounds"
  by (simp add: urlbase64_decode_def str_arg_def mem_read_def dec_count_def dec_start_def dec_store_def dec_unpad_def)

text \<open>Three bytes are written for four characters, so the buffers of the decoders hold them, whatever the text.\<close>

lemma dec_loop_length:
  assumes "dec_loop dt src (c, inb, block, out) = (c', inb', block', out')" and "c < 4"
  shows "4 * length out' + 3 * c' = 4 * length out + 3 * (c + dec_count dt src)"
  using assms
proof (induction src arbitrary: c inb block out)
  case (Cons x src)
  show ?case
  proof (cases "dt ! unat x = 0x80")
    case True
    then show ?thesis
      using Cons.IH [of c inb block out] Cons.prems by (simp add: dec_count_def)
  next
    case False
    then have n: "dec_count dt (x # src) = Suc (dec_count dt src)"
      by (simp add: dec_count_def)
    show ?thesis
    proof (cases "c + 1 = 4")
      case True
      then show ?thesis
        using Cons.IH [of 0 "inb[c := x]" "block[c := dt ! unat x]"] Cons.prems(1) False n by (auto simp: Let_def)
    next
      case neq: False
      then show ?thesis
        using Cons.IH [of "c + 1" "inb[c := x]" "block[c := dt ! unat x]" out] Cons.prems False n by (auto simp: Let_def)
    qed
  qed
qed (simp add: dec_count_def)

lemma dec_store_ok:
  assumes "dec_count dt src \<le> room"
  shows "dec_store room (dec_loop dt src dec_start) = Inr (dec_loop dt src dec_start)"
proof -
  obtain c inb block out where d: "dec_loop dt src dec_start = (c, inb, block, out)"
    by (cases "dec_loop dt src dec_start") auto
  then have "4 * length out + 3 * c = 3 * dec_count dt src"
    using dec_loop_length [of dt src 0 "replicate 4 0" "replicate 4 0" "[]"] by (simp add: dec_start_def)
  then show ?thesis
    using assms d by (simp add: dec_store_def)
qed

section \<open>Property\<close>

text \<open>
  C20. Both codecs are lossless on byte strings of less than \<open>2 ^ 29\<close> bytes: the encoders stay
  inside the buffer they allocate, and decoding the text, again inside the decoder's buffer, gives the
  bytes back, for the line-broken format and, for data that is not empty, for the URL format, where
  the length of the text may also be left to its terminator. The text of empty data makes the URL decoder write
  behind its buffer. The decoder of the line-broken format stays inside its buffer for every text.
\<close>

theorem base64_round_trip:
  assumes "length data < 2 ^ 29"
  shows "(\<exists>out. base64_encode data = Inr out \<and> base64_decode out = Inr (Some data)) \<and>
         (if data = []
          then urlbase64_encode [] 0 = Inr [] \<and> urlbase64_decode [] 0 = Inl OutOfBounds
          else \<exists>out. urlbase64_encode (map Some data) (int (length data)) = Inr out \<and>
            urlbase64_decode (map Some out) (int (length out)) = Inr data \<and>
            urlbase64_decode (map Some out @ [Some 0]) (-1) = Inr data) \<and>
         (\<exists>r. base64_decode text64 = Inr r)"
proof (intro conjI)
  obtain out where out: "base64_encode data = Inr out" "filter b64.keeps out = enc_chars base64_table 61 data"
    using base64_encode_ok [OF assms] by blast
  then show "\<exists>out. base64_encode data = Inr out \<and> base64_decode out = Inr (Some data)"
    using b64.unpad_chars [OF out(2)] dec_store_ok [OF order_refl, of "dtable base64_table 61" out]
    by (auto simp: base64_decode_def Let_def)
  show "\<exists>r. base64_decode text64 = Inr r"
    using dec_store_ok [OF order_refl, of "dtable base64_table 61" text64] by (simp add: base64_decode_def Let_def)
  show "if data = [] then urlbase64_encode [] 0 = Inr [] \<and> urlbase64_decode [] 0 = Inl OutOfBounds
        else \<exists>out. urlbase64_encode (map Some data) (int (length data)) = Inr out \<and>
          urlbase64_decode (map Some out) (int (length out)) = Inr data \<and> urlbase64_decode (map Some out @ [Some 0]) (-1) = Inr data"
  proof (cases "data = []")
    case True
    then show ?thesis
      using urlbase64_encode_ok [of "[]" 0 "[]"] urlbase64_decode_empty by (simp add: str_arg_def mem_read_def)
  next
    case False
    let ?out = "enc_chars urlbase64_table 126 data"
    have enc: "urlbase64_encode (map Some data) (int (length data)) = Inr ?out"
      using urlbase64_encode_ok [of "map Some data" "int (length data)" data] assms by (simp add: str_arg_def)
    have "0 < length data" using False by simp
    then have "length data + 2 \<le> 4 * ((length data + 2) div 3) + 1" by linarith
    then have dec: "urlbase64_decode src len = Inr data" if "str_arg src len = Inr ?out" for src len
      using that u64.unpad_chars [OF keep_chars [of data]] dec_store_ok [of "dtable urlbase64_table 126" ?out "dec_count (dtable urlbase64_table 126) ?out + 1"]
      by (simp add: urlbase64_decode_def Let_def)
    have "str_arg (map Some ?out) (int (length ?out)) = Inr ?out"
      and "str_arg (map Some ?out @ [Some 0]) (-1) = Inr ?out"
      using mem_strlen_terminated [of ?out "[]"] url_text_no_nul [of data] by (auto simp: str_arg_def mem_read_def Let_def comp_def)
    then show ?thesis
      using enc dec False by auto
  qed
qed

theorem base64_round_trip_witness:
  "length [72, 105 :: byte] < 2 ^ 29 \<and> base64_encode [72, 105] = Inr [83, 71, 107, 61, 10] \<and>
   base64_decode [83, 71, 107, 61, 10] = Inr (Some [72, 105])"
proof -
  have "base64_encode [72, 105] = Inr [83, 71, 107, 61, 10]" by code_simp
  then show ?thesis using base64_round_trip [of "[72, 105]"] by simp
qed

end
