(* ===== verification/Adler32.thy ===== *)
theory Adler32
  imports Prelude
begin

text \<open>
  The checksum of \<open>utils/alder32.c\<close>. The sums are 32-bit words that are only reduced when
  the second one gets large; the bytes are read through \<open>char *\<close>, which is signed. The reference is
  the textbook loop the same file keeps in a disabled section: both sums reduced after every byte.
\<close>

section \<open>The program\<close>

definition ADLER_BASE :: u32 where
  "ADLER_BASE = 65521"

fun DO1 :: "byte \<Rightarrow> u32 \<times> u32 \<Rightarrow> u32 \<times> u32" where
  "DO1 c (s1, s2) = (let s1 = s1 + scast c in (s1, s2 + s1))"

definition DO16 :: "byte list \<Rightarrow> u32 \<times> u32 \<Rightarrow> u32 \<times> u32" where
  "DO16 buf s = fold DO1 (take 16 buf) s"

text \<open>The inner loop: the bytes left and the sums.\<close>

fun adler_inner :: "byte list \<Rightarrow> u32 \<times> u32 \<Rightarrow> byte list \<times> u32 \<times> u32" where
  "adler_inner buf s =
     (if 16 < length buf \<and> snd s < push_bit 31 1 then adler_inner (drop 16 buf) (DO16 buf s) else (buf, s))"

declare adler_inner.simps [simp del]

lemma adler_inner_rest: "length (fst (adler_inner buf s)) \<le> length buf"
proof (induction buf s rule: adler_inner.induct)
  case (1 buf s)
  then show ?case by (subst adler_inner.simps) (auto intro: order_trans)
qed

function adler_loop :: "byte list \<Rightarrow> u32 \<times> u32 \<Rightarrow> u32 \<times> u32" where
  "adler_loop buf s =
     (if buf = [] then s
      else (case adler_inner buf s of
              ([], s) \<Rightarrow> s
            | (c # rest, s) \<Rightarrow> adler_loop rest (map_prod (\<lambda>s1. s1 mod ADLER_BASE) (\<lambda>s2. s2 mod ADLER_BASE) (DO1 c s))))"
  by auto
termination
proof (relation "measure (\<lambda>(buf, s). length buf)")
  fix buf :: "byte list" and s :: "u32 \<times> u32" and x y c rest
  assume "(x, y) = adler_inner buf s" "x = c # rest"
  then show "((rest, map_prod (\<lambda>s1. s1 mod ADLER_BASE) (\<lambda>s2. s2 mod ADLER_BASE) (DO1 c y)), buf, s)
      \<in> measure (\<lambda>(buf, s). length buf)"
    using adler_inner_rest [of buf s] by (auto dest: sym)
qed simp

declare adler_loop.simps [simp del]

definition adler32 :: "byte list \<Rightarrow> u32" where
  "adler32 buf = (let (s1, s2) = adler_loop buf (1 AND 0xffff, drop_bit 16 1) in push_bit 16 s2 OR s1)"

section \<open>The reference\<close>

fun ref_step :: "byte \<Rightarrow> nat \<times> nat \<Rightarrow> nat \<times> nat" where
  "ref_step c (a, b) = (let a = (a + unat c) mod 65521 in (a, (b + a) mod 65521))"

definition adler32_ref :: "byte list \<Rightarrow> u32" where
  "adler32_ref data = (let (a, b) = fold ref_step data (1, 0) in push_bit 16 (word_of_nat b) OR word_of_nat a)"

section \<open>The unreduced sums\<close>

fun nat_step :: "byte \<Rightarrow> nat \<times> nat \<Rightarrow> nat \<times> nat" where
  "nat_step c (n1, n2) = (n1 + unat c, n2 + n1 + unat c)"

lemma nat_fold_mono: "fold nat_step cs (n1, n2) = (m1, m2) \<Longrightarrow> n1 \<le> m1 \<and> n2 \<le> m2"
proof (induction cs arbitrary: n1 n2)
  case (Cons c cs)
  from Cons.prems have "fold nat_step cs (n1 + unat c, n2 + n1 + unat c) = (m1, m2)" by simp
  from Cons.IH [OF this] show ?case by linarith
qed simp

lemma nat_fold_bound:
  assumes "fold nat_step cs (n1, n2) = (m1, m2)" and "\<forall>c\<in>set cs. unat c < 128"
  shows "m1 \<le> n1 + 127 * length cs \<and> m2 \<le> n2 + length cs * (n1 + 127 * length cs)"
  using assms
proof (induction cs arbitrary: n1 n2)
  case (Cons c cs)
  then have "m1 \<le> n1 + unat c + 127 * length cs" "m2 \<le> n2 + n1 + unat c + length cs * (n1 + unat c + 127 * length cs)"
    and c: "unat c \<le> 127" by fastforce+
  moreover define x where "x = length cs * (n1 + 127 * Suc (length cs))"
  moreover have "length cs * (n1 + unat c + 127 * length cs) \<le> x"
    unfolding x_def using c by (intro mult_left_mono) auto
  ultimately have "m2 \<le> n2 + (n1 + 127 * Suc (length cs)) + length cs * (n1 + 127 * Suc (length cs))"
    unfolding x_def [symmetric] using c by simp
  also have "\<dots> = n2 + length (c # cs) * (n1 + 127 * length (c # cs))" by simp
  finally show ?case using \<open>m1 \<le> n1 + unat c + 127 * length cs\<close> c by simp
qed simp

text \<open>How large the first sum can be is known from the second: it has grown with it.\<close>

definition sums_inv :: "nat \<times> nat \<Rightarrow> bool" where
  "sums_inv n \<longleftrightarrow> fst n ^ 2 \<le> 65520 ^ 2 + 254 * snd n"

lemma sums_inv_step: "sums_inv n \<Longrightarrow> unat c < 128 \<Longrightarrow> sums_inv (nat_step c n)"
proof (cases n)
  case (Pair n1 n2)
  assume inv: "sums_inv n" and c: "unat c < 128"
  have "(n1 + unat c) ^ 2 \<le> n1 ^ 2 + 2 * unat c * (n1 + unat c)" by (simp add: power2_eq_square algebra_simps)
  also have "\<dots> \<le> n1 ^ 2 + 254 * (n1 + unat c)" using c by (intro add_left_mono mult_right_mono) auto
  finally show ?thesis using inv Pair by (simp add: sums_inv_def)
qed

lemma sums_inv_fold: "sums_inv n \<Longrightarrow> \<forall>c\<in>set cs. unat c < 128 \<Longrightarrow> sums_inv (fold nat_step cs n)"
  by (induction cs arbitrary: n) (auto simp: sums_inv_step)

lemma sums_inv_small: "sums_inv (n1, n2) \<Longrightarrow> n2 < 2 ^ 31 + 2 ^ 25 \<Longrightarrow> n1 < 800000"
proof (rule ccontr)
  assume "sums_inv (n1, n2)" "n2 < 2 ^ 31 + 2 ^ 25" "\<not> n1 < 800000"
  then have "(800000 :: nat) ^ 2 \<le> n1 ^ 2" by (intro power_mono) simp_all
  moreover have "n1 ^ 2 \<le> 65520 ^ 2 + 254 * n2" using \<open>sums_inv (n1, n2)\<close> by (simp add: sums_inv_def)
  ultimately show False using \<open>n2 < 2 ^ 31 + 2 ^ 25\<close> by simp
qed

text \<open>The words hold the unreduced sums as long as these fit; reduced, they are the reference's.\<close>

lemma scast_ascii: "unat c < 128 \<Longrightarrow> unat (scast (c :: byte) :: u32) = unat c"
proof -
  assume c: "unat c < 128"
  have "uint c < 128" using c by (metis int_ops(3) of_nat_less_iff of_nat_numeral uint_nat)
  moreover have "- 128 \<le> uint c" using uint_nonnegative [of c] by linarith
  ultimately have "sint c = uint c" using signed_take_bit_int_eq_self [of 7 "uint c"] by (simp add: sint_uint)
  then have "scast c = (ucast c :: u32)" by (simp only: scast_eq ucast_eq)
  then show ?thesis using c by (simp add: unsigned_ucast_eq take_bit_nat_eq_self)
qed

lemma fold_DO1:
  assumes "fold nat_step cs (unat s1, unat s2) = (m1, m2)" and "m1 < 2 ^ 32" and "m2 < 2 ^ 32"
    and "\<forall>c\<in>set cs. unat c < 128"
  shows "map_prod unat unat (fold DO1 cs (s1, s2)) = (m1, m2)"
  using assms
proof (induction cs arbitrary: s1 s2)
  case (Cons c cs)
  have "unat s1 + unat c \<le> m1" "unat s2 + unat s1 + unat c \<le> m2"
    using nat_fold_mono [of cs "unat s1 + unat c" "unat s2 + unat s1 + unat c" m1 m2] Cons.prems(1) by auto
  then have "unat (s1 + scast c) = unat s1 + unat c" "unat (s2 + (s1 + scast c)) = unat s2 + unat s1 + unat c"
    using Cons.prems(2-4) scast_ascii [of c] by (simp_all add: unat_add_lem [THEN iffD1])
  then show ?case using Cons by (simp add: Let_def)
qed simp

lemma ref_fold:
  "fold ref_step cs (n1 mod 65521, n2 mod 65521) = map_prod (\<lambda>m. m mod 65521) (\<lambda>m. m mod 65521) (fold nat_step cs (n1, n2))"
proof (induction cs arbitrary: n1 n2)
  case (Cons c cs)
  have "ref_step c (n1 mod 65521, n2 mod 65521) = ((n1 + unat c) mod 65521, (n2 + n1 + unat c) mod 65521)"
    by (simp add: Let_def mod_simps add.assoc)
  then show ?case by (simp add: Cons)
qed simp

lemma DO16_ok:
  assumes inv: "sums_inv (map_prod unat unat s)" and lt: "snd s < push_bit 31 1" and ascii: "\<forall>c\<in>set buf. unat c < 128"
  shows "map_prod unat unat (DO16 buf s) = fold nat_step (take 16 buf) (map_prod unat unat s) \<and>
         snd (fold nat_step (take 16 buf) (map_prod unat unat s)) < 2 ^ 31 + 2 ^ 25 - 2 ^ 20"
proof -
  obtain s1 s2 where s: "s = (s1, s2)" by (cases s)
  obtain m1 m2 where m: "fold nat_step (take 16 buf) (unat s1, unat s2) = (m1, m2)" by fastforce
  have s2: "unat s2 < 2 ^ 31" using lt s by (simp add: word_less_nat_alt)
  then have s1: "unat s1 < 800000" using inv s by (intro sums_inv_small [of _ "unat s2"]) simp_all
  have asc: "\<forall>c\<in>set (take 16 buf). unat c < 128" using ascii by (auto dest: in_set_takeD)
  define k where "k = length (take 16 buf)"
  have k: "k \<le> 16" by (simp add: k_def)
  have b: "m1 \<le> unat s1 + 127 * k" "m2 \<le> unat s2 + k * (unat s1 + 127 * k)"
    using nat_fold_bound [OF m asc] by (simp_all add: k_def)
  have "k * (unat s1 + 127 * k) \<le> 16 * (unat s1 + 127 * 16)" using k by (intro mult_mono) auto
  then have "m2 < 2 ^ 31 + 2 ^ 25 - 2 ^ 20" "m1 < 2 ^ 32" using b k s1 s2 by simp_all
  then show ?thesis using fold_DO1 [OF m _ _ asc] by (simp add: s DO16_def m)
qed

text \<open>The inner loop takes a prefix, keeps the invariant and leaves room for one more byte.\<close>

lemma inner_ok:
  assumes "sums_inv (map_prod unat unat s)" and "unat (snd s) < 2 ^ 31 + 2 ^ 25 - 2 ^ 20"
    and "\<forall>c\<in>set buf. unat c < 128" and "adler_inner buf s = (rest, s')"
  shows "\<exists>cs. buf = cs @ rest \<and> map_prod unat unat s' = fold nat_step cs (map_prod unat unat s) \<and>
    unat (snd s') < 2 ^ 31 + 2 ^ 25 - 2 ^ 20 \<and> (buf \<noteq> [] \<longrightarrow> rest \<noteq> [])"
  using assms
proof (induction buf s arbitrary: rest s' rule: adler_inner.induct)
  case (1 buf s)
  show ?case
  proof (cases "16 < length buf \<and> snd s < push_bit 31 1")
    case True
    let ?s = "DO16 buf s"
    have d: "map_prod unat unat ?s = fold nat_step (take 16 buf) (map_prod unat unat s)"
      and lim: "snd (fold nat_step (take 16 buf) (map_prod unat unat s)) < 2 ^ 31 + 2 ^ 25 - 2 ^ 20"
      using DO16_ok [OF 1(2)] True 1(4) by blast+
    have asc: "\<forall>c\<in>set (take 16 buf). unat c < 128" "\<forall>c\<in>set (drop 16 buf). unat c < 128"
      using 1(4) by (auto dest: in_set_takeD in_set_dropD)
    have inv: "sums_inv (map_prod unat unat ?s)" unfolding d by (rule sums_inv_fold [OF 1(2) asc(1)])
    have "snd (map_prod unat unat ?s) < 2 ^ 31 + 2 ^ 25 - 2 ^ 20" using lim unfolding d .
    then have "unat (snd ?s) < 2 ^ 31 + 2 ^ 25 - 2 ^ 20" by simp
    moreover have "adler_inner (drop 16 buf) ?s = (rest, s')" using 1(5) True by (simp add: adler_inner.simps [of buf s])
    ultimately obtain cs where cs: "drop 16 buf = cs @ rest" "map_prod unat unat s' = fold nat_step cs (map_prod unat unat ?s)"
      "unat (snd s') < 2 ^ 31 + 2 ^ 25 - 2 ^ 20" "drop 16 buf \<noteq> [] \<longrightarrow> rest \<noteq> []"
      using 1(1) [OF True inv _ asc(2)] by blast
    have "buf = (take 16 buf @ cs) @ rest" using cs(1) by (metis append.assoc append_take_drop_id)
    then show ?thesis using cs True unfolding d by (intro exI [of _ "take 16 buf @ cs"]) auto
  next
    case False
    then show ?thesis using 1 by (auto simp: adler_inner.simps [of buf s])
  qed
qed

lemma adler_loop_ref:
  assumes "unat s1 < 65521" and "unat s2 < 65521" and "\<forall>c\<in>set buf. unat c < 128"
  shows "map_prod unat unat (adler_loop buf (s1, s2)) = fold ref_step buf (unat s1, unat s2)"
  using assms
proof (induction "length buf" arbitrary: buf s1 s2 rule: less_induct)
  case less
  show ?case
  proof (cases "buf = []")
    case False
    have "unat s1 ^ 2 \<le> 65520 ^ 2" using less.prems(1) by (intro power_mono) simp_all
    then have inv: "sums_inv (map_prod unat unat (s1, s2))" by (simp add: sums_inv_def)
    obtain rest t where inner: "adler_inner buf (s1, s2) = (rest, t)" by (cases "adler_inner buf (s1, s2)")
    have lim: "unat (snd (s1, s2)) < 2 ^ 31 + 2 ^ 25 - 2 ^ 20" using less.prems(2) by simp
    obtain cs where buf: "buf = cs @ rest" and t: "map_prod unat unat t = fold nat_step cs (unat s1, unat s2)"
      and t2: "unat (snd t) < 2 ^ 31 + 2 ^ 25 - 2 ^ 20" and "rest \<noteq> []"
      using inner_ok [OF inv lim less.prems(3) inner] False by auto
    then obtain c rest' where rest: "rest = c # rest'" by (cases rest) auto
    obtain t1 t2' where tt: "t = (t1, t2')" by (cases t)
    have asc: "\<forall>c\<in>set cs. unat c < 128" "unat c < 128" "\<forall>c\<in>set rest'. unat c < 128"
      using less.prems(3) by (auto simp: buf rest)
    have "sums_inv (map_prod unat unat t)" unfolding t using sums_inv_fold [OF inv asc(1)] by simp
    then have t1: "unat t1 < 800000" using t2 tt by (intro sums_inv_small [of _ "unat t2'"]) simp_all
    define u where "u = DO1 c t"
    have u: "map_prod unat unat u = nat_step c (map_prod unat unat t)"
      using fold_DO1 [of "[c]" t1 t2' "unat t1 + unat c" "unat t2' + unat t1 + unat c"] t1 t2 asc(2) tt by (simp add: u_def)
    let ?v = "map_prod (\<lambda>s1. s1 mod ADLER_BASE) (\<lambda>s2. s2 mod ADLER_BASE) u"
    have v: "map_prod unat unat ?v = fold ref_step (cs @ [c]) (unat s1, unat s2)"
    proof -
      have "fold ref_step (cs @ [c]) (unat s1, unat s2) = map_prod (\<lambda>m. m mod 65521) (\<lambda>m. m mod 65521) (map_prod unat unat u)"
        using ref_fold [of "cs @ [c]" "unat s1" "unat s2"] less.prems(1,2) by (simp add: u t)
      then show ?thesis by (cases u) (simp add: ADLER_BASE_def unat_mod)
    qed
    have small: "unat (fst ?v) < 65521" "unat (snd ?v) < 65521"
      by (cases u; simp add: ADLER_BASE_def unat_mod)+
    have "adler_loop buf (s1, s2) = adler_loop rest' ?v"
      using False by (simp add: adler_loop.simps [of buf] inner rest u_def)
    moreover have "map_prod unat unat (adler_loop rest' (fst ?v, snd ?v)) = fold ref_step rest' (unat (fst ?v), unat (snd ?v))"
      by (rule less.hyps [OF _ small asc(3)]) (simp add: buf rest)
    moreover have "(unat (fst ?v), unat (snd ?v)) = fold ref_step (cs @ [c]) (unat s1, unat s2)"
      unfolding v [symmetric] by (cases u) simp
    ultimately show ?thesis by (cases u) (simp add: buf rest)
  qed (simp add: adler_loop.simps)
qed

section \<open>Property\<close>

text \<open>
  C21. For data whose bytes are below 128 the checksum with delayed reduction is the textbook
  Adler-32: the 32-bit sums never wrap before they are reduced, whatever the length of the data.
\<close>

theorem adler32_correct:
  assumes "\<forall>c\<in>set buf. unat c < 128"
  shows "adler32 buf = adler32_ref buf"
proof -
  obtain r1 r2 where r: "adler_loop buf (1, 0) = (r1, r2)" by fastforce
  have "fold ref_step buf (1, 0) = (unat r1, unat r2)"
    using adler_loop_ref [of 1 0 buf] assms r by simp
  then show ?thesis using r by (simp add: adler32_def adler32_ref_def)
qed

theorem adler32_correct_witness:
  "adler32 [87, 105, 107, 105] = 0x3DA0195"
proof -
  have a: "\<forall>c\<in>set [87, 105, 107, 105 :: byte]. unat c < 128" by simp
  have "adler32_ref [87, 105, 107, 105] = 0x3DA0195" by (simp add: adler32_ref_def Let_def)
  then show ?thesis using adler32_correct [OF a] by simp
qed

text \<open>Other bytes are sign-extended, and the result is not the checksum.\<close>

lemma adler32_sign_extends: "adler32 [0x80] \<noteq> adler32_ref [0x80]"
proof -
  have "adler32_ref [0x80] = 0x810081" by (simp add: adler32_ref_def Let_def)
  moreover have "adler32 [0x80] = 0x620062"
    by (simp add: adler32_def adler_loop.simps adler_inner.simps ADLER_BASE_def)
  ultimately show ?thesis by simp
qed

end
