(* ===== verification/Pref.thy ===== *)
theory Pref
  imports Prelude
begin

text \<open>
  The reference counter of \<open>common/pref.c\<close> that sessions and devices carry. Get, put,
  count and try-release run under the counter's mutex and are single steps;
  \<open>pref_release\<close> tests the count outside the mutex and is a small state machine.
\<close>

section \<open>Operations\<close>

record pref =
  refcount :: int

definition pref_init :: pref where
  "pref_init = \<lparr>refcount = 0\<rparr>"

definition pref_get :: "pref \<Rightarrow> pref \<times> int" where
  "pref_get ref = (ref\<lparr>refcount := refcount ref + 1\<rparr>, refcount ref + 1)"

definition pref_put :: "pref \<Rightarrow> pref \<times> int" where
  "pref_put ref = (ref\<lparr>refcount := refcount ref - 1\<rparr>, refcount ref - 1)"

definition pref_count :: "pref \<Rightarrow> int" where
  "pref_count ref = refcount ref"

text \<open>The caller's pointer after the call (\<open>None\<close> for NULL) and the result.\<close>

definition pref_try_release :: "pref option \<Rightarrow> pref option \<times> int" where
  "pref_try_release r =
     (case r of None \<Rightarrow> (None, 0) | Some ref \<Rightarrow> if refcount ref = 0 then (None, 1) else (Some ref, 0))"

text \<open>
  Where a call of \<open>pref_release\<close> is: about to test the count, past the test and about to
  take the mutex and wait, waiting, or done.
\<close>

datatype release_pc = RelTest | RelEnter | RelWait | RelDone

record pref_sys =
  ps_ref :: pref
  ps_pc :: release_pc

definition pref_release_step :: "pref_sys \<Rightarrow> pref_sys option" where
  "pref_release_step s =
     (case ps_pc s of
        RelTest \<Rightarrow> Some (s\<lparr>ps_pc := (if refcount (ps_ref s) \<noteq> 0 then RelEnter else RelDone)\<rparr>)
      | RelEnter \<Rightarrow> Some (s\<lparr>ps_pc := RelWait\<rparr>)
      | RelWait \<Rightarrow> None
      | RelDone \<Rightarrow> None)"

text \<open>A put by a holder signals the condition: a release that waits goes back to its test.\<close>

definition pref_put_step :: "pref_sys \<Rightarrow> pref_sys" where
  "pref_put_step s =
     s\<lparr>ps_ref := fst (pref_put (ps_ref s)), ps_pc := (if ps_pc s = RelWait then RelTest else ps_pc s)\<rparr>"

text \<open>Holders put back what they hold; no new references are taken.\<close>

inductive pref_step :: "pref_sys \<Rightarrow> pref_sys \<Rightarrow> bool" where
  step_release: "pref_release_step s = Some s' \<Longrightarrow> pref_step s s'"
| step_put: "0 < refcount (ps_ref s) \<Longrightarrow> pref_step s (pref_put_step s)"

inductive_simps pref_step_simps: "pref_step s s'"

section \<open>The interface: a counted reference\<close>

locale ref_count =
  fixes rcount :: "'r \<Rightarrow> int"
    and rnew :: 'r
    and rget :: "'r \<Rightarrow> 'r \<times> int"
    and rput :: "'r \<Rightarrow> 'r \<times> int"
  assumes new_law: "rcount rnew = 0"
    and get_law: "rcount (fst (rget r)) = rcount r + 1 \<and> snd (rget r) = rcount (fst (rget r))"
    and put_law: "rcount (fst (rput r)) = rcount r - 1 \<and> snd (rput r) = rcount (fst (rput r))"
begin

lemma first_get: "rcount (fst (rget rnew)) = 1"
  by (simp add: get_law new_law)

lemma gets: "rcount (((fst \<circ> rget) ^^ n) r) = rcount r + int n"
  by (induction n) (simp_all add: get_law)

lemma puts: "rcount (((fst \<circ> rput) ^^ n) r) = rcount r - int n"
  by (induction n) (simp_all add: put_law)

lemma balanced: "rcount (((fst \<circ> rput) ^^ n) (((fst \<circ> rget) ^^ n) r)) = rcount r"
  by (simp add: gets puts)

end

interpretation pref: ref_count refcount pref_init pref_get pref_put
  by unfold_locales (simp_all add: pref_init_def pref_get_def pref_put_def)

section \<open>Properties\<close>

lemma release_done_zero:
  assumes "pref_step\<^sup>*\<^sup>* s s'" and "ps_pc s = RelTest" and "0 \<le> refcount (ps_ref s)"
  shows "0 \<le> refcount (ps_ref s') \<and> (ps_pc s' = RelDone \<longrightarrow> refcount (ps_ref s') = 0)"
  using assms(1)
proof (induction rule: rtranclp_induct)
  case base
  then show ?case using assms by simp
next
  case (step y z)
  then show ?case
    by (auto simp: pref_step_simps pref_release_step_def pref_put_step_def pref_put_def split: release_pc.splits if_splits)
qed

text \<open>
  C13. \<open>pref_release\<close> frees the counter only when no reference is left, but it can miss the
  last put: from any positive count there is a run in which every holder has put its
  reference back and the release waits for a signal that nobody can give any more.
\<close>

theorem pref_release_lost_wakeup:
  assumes "0 < n"
  shows "(\<forall>s. pref_step\<^sup>*\<^sup>* \<lparr>ps_ref = \<lparr>refcount = n\<rparr>, ps_pc = RelTest\<rparr> s \<and> ps_pc s = RelDone \<longrightarrow> refcount (ps_ref s) = 0) \<and>
    (\<exists>s. pref_step\<^sup>*\<^sup>* \<lparr>ps_ref = \<lparr>refcount = n\<rparr>, ps_pc = RelTest\<rparr> s \<and>
       refcount (ps_ref s) = 0 \<and> ps_pc s = RelWait \<and> (\<nexists>s'. pref_step s s'))"
proof (intro conjI allI impI)
  fix s
  assume "pref_step\<^sup>*\<^sup>* \<lparr>ps_ref = \<lparr>refcount = n\<rparr>, ps_pc = RelTest\<rparr> s \<and> ps_pc s = RelDone"
  then show "refcount (ps_ref s) = 0"
    using release_done_zero [of "\<lparr>ps_ref = \<lparr>refcount = n\<rparr>, ps_pc = RelTest\<rparr>" s] assms by simp
next
  let ?e = "\<lambda>k. \<lparr>ps_ref = \<lparr>refcount = k\<rparr>, ps_pc = RelEnter\<rparr>"
  have "pref_step\<^sup>*\<^sup>* (?e (int m)) (?e 0)" for m
  proof (induction m)
    case (Suc m)
    have "pref_step (?e (int (Suc m))) (?e (int m))"
      using step_put [of "?e (int (Suc m))"] by (simp add: pref_put_step_def pref_put_def)
    then show ?case using Suc by (meson converse_rtranclp_into_rtranclp)
  qed simp
  from this [of "nat n"] have puts: "pref_step\<^sup>*\<^sup>* (?e n) (?e 0)" using assms by simp
  have "pref_step \<lparr>ps_ref = \<lparr>refcount = n\<rparr>, ps_pc = RelTest\<rparr> (?e n)"
    using assms by (intro step_release) (simp add: pref_release_step_def)
  moreover have "pref_step (?e 0) \<lparr>ps_ref = \<lparr>refcount = 0\<rparr>, ps_pc = RelWait\<rparr>"
    by (intro step_release) (simp add: pref_release_step_def)
  ultimately have "pref_step\<^sup>*\<^sup>* \<lparr>ps_ref = \<lparr>refcount = n\<rparr>, ps_pc = RelTest\<rparr> \<lparr>ps_ref = \<lparr>refcount = 0\<rparr>, ps_pc = RelWait\<rparr>"
    using puts by (meson converse_rtranclp_into_rtranclp rtranclp.rtrancl_into_rtrancl)
  moreover have "\<nexists>s'. pref_step \<lparr>ps_ref = \<lparr>refcount = 0\<rparr>, ps_pc = RelWait\<rparr> s'"
    by (simp add: pref_step_simps pref_release_step_def)
  ultimately show "\<exists>s. pref_step\<^sup>*\<^sup>* \<lparr>ps_ref = \<lparr>refcount = n\<rparr>, ps_pc = RelTest\<rparr> s \<and>
       refcount (ps_ref s) = 0 \<and> ps_pc s = RelWait \<and> (\<nexists>s'. pref_step s s')"
    by (intro exI [of _ "\<lparr>ps_ref = \<lparr>refcount = 0\<rparr>, ps_pc = RelWait\<rparr>"]) simp
qed

theorem pref_release_lost_wakeup_witness:
  "\<exists>s. pref_step\<^sup>*\<^sup>* \<lparr>ps_ref = \<lparr>refcount = 1\<rparr>, ps_pc = RelTest\<rparr> s \<and> refcount (ps_ref s) = 0 \<and>
       ps_pc s = RelWait \<and> (\<nexists>s'. pref_step s s')"
  using pref_release_lost_wakeup [of 1] by simp

end
