(* ===== verification/Service_Session.thy ===== *)
theory Service_Session
  imports Pref
begin

text \<open>
  The table of logged-in users, \<open>service/service_session.c\<close>: login with conflict
  resolution, logout by mark, the heartbeat sweep, and references to a session. The
  linked list is represented by the sequence of its entries; an entry has an address, by
  which \<open>online_session_dref\<close> finds it. Entries that a thread has unlinked and whose
  \<open>pref_release\<close> it waits for are kept aside. The table has no lock in the source; an operation is one
  step here, so races of two threads inside the list are not covered. The account database is a parameter.
\<close>

section \<open>Data\<close>

record db_account_basic =
  ab_uuid :: string
  ab_pwd :: string
  ab_nickname :: string
  ab_comment :: string
  ab_created_time :: string

record online_session =
  os_basic :: db_account_basic
  os_ref_admin_uuid :: string
  os_is_admin :: bool
  os_is_online :: bool
  os_fd :: int
  os_ip :: string
  os_port :: int
  os_is_heartbeated :: bool

record session_entry =
  se_addr :: nat
  se_session :: online_session
  se_ref :: pref
  se_mark_deleted :: bool

record session_state =
  session_list :: "session_entry list"
  session_list_inited :: bool
  session_stop_sign :: bool
  session_releasing :: "session_entry list"

section \<open>Operations\<close>

definition online_session_init :: "session_state \<Rightarrow> session_state" where
  "online_session_init s =
     (if session_list_inited s then s
      else s\<lparr>session_list := [], session_stop_sign := False, session_list_inited := True\<rparr>)"

text \<open>
  Unlinking an entry and releasing its counter: at once when it is zero, otherwise the
  thread waits in \<open>pref_release\<close> with the entry already off the list.
\<close>

definition entry_free :: "session_entry \<Rightarrow> bool" where
  "entry_free e \<longleftrightarrow> refcount (se_ref e) = 0"

text \<open>The sweep; the \<open>return\<close> behind a deletion ends it. The result is the list and an entry waited for.\<close>

fun heartbeat_loop :: "session_entry list \<Rightarrow> session_entry list \<times> session_entry option" where
  "heartbeat_loop [] = ([], None)"
| "heartbeat_loop (tmp # rest) =
     (if \<not> os_is_heartbeated (se_session tmp) \<or> se_mark_deleted tmp
      then (rest, if entry_free tmp then None else Some tmp)
      else apfst ((#) (tmp\<lparr>se_session := (se_session tmp)\<lparr>os_is_heartbeated := False\<rparr>\<rparr>)) (heartbeat_loop rest))"

definition releasing_add :: "session_entry option \<Rightarrow> session_state \<Rightarrow> session_state" where
  "releasing_add e s =
     (case e of None \<Rightarrow> s | Some x \<Rightarrow> s\<lparr>session_releasing := session_releasing s @ [x]\<rparr>)"

definition online_session_check_all_hearbeat :: "session_state \<Rightarrow> session_state" where
  "online_session_check_all_hearbeat s =
     (if session_stop_sign s then s
      else (let (l, w) = heartbeat_loop (session_list s) in releasing_add w (s\<lparr>session_list := l\<rparr>)))"

text \<open>When an existing entry has to give way to a new session.\<close>

definition session_conflict :: "online_session \<Rightarrow> online_session \<Rightarrow> bool" where
  "session_conflict new old \<longleftrightarrow>
     (os_is_admin new \<and> ab_uuid (os_basic old) = ab_uuid (os_basic new)) \<or>
     (\<not> os_is_admin new \<and> os_ref_admin_uuid old = os_ref_admin_uuid new \<and> ab_uuid (os_basic old) = ab_uuid (os_basic new)) \<or>
     os_fd new = os_fd old"

fun add_loop :: "online_session \<Rightarrow> session_entry list \<Rightarrow> session_entry list \<times> session_entry option" where
  "add_loop new [] = ([], None)"
| "add_loop new (tmp # rest) =
     (if session_conflict new (se_session tmp)
      then (if entry_free tmp then add_loop new rest else (rest, Some tmp))
      else apfst ((#) tmp) (add_loop new rest))"

text \<open>
  \<open>online_session_add\<close>; the result is \<open>None\<close> while the call waits for a reference. The
  new entry gets the address \<open>addr\<close>. The conflict push is a stub that does nothing.
\<close>

definition online_session_add :: "nat \<Rightarrow> online_session \<Rightarrow> session_state \<Rightarrow> session_state \<times> bool option" where
  "online_session_add addr session s =
     (case add_loop session (session_list s) of
        (l, Some w) \<Rightarrow> (releasing_add (Some w) (s\<lparr>session_list := l\<rparr>), None)
      | (l, None) \<Rightarrow>
          (s\<lparr>session_list := l @ [\<lparr>se_addr = addr, se_session = session, se_ref = pref_init, se_mark_deleted = False\<rparr>]\<rparr>,
           Some True))"

fun mark_loop :: "int \<Rightarrow> session_entry list \<Rightarrow> session_entry list \<times> bool" where
  "mark_loop fd [] = ([], False)"
| "mark_loop fd (tmp # rest) =
     (if os_fd (se_session tmp) = fd then (tmp\<lparr>se_mark_deleted := True\<rparr> # rest, True)
      else apfst ((#) tmp) (mark_loop fd rest))"

definition online_session_del :: "int \<Rightarrow> session_state \<Rightarrow> session_state \<times> bool" where
  "online_session_del fd s = (let (l, r) = mark_loop fd (session_list s) in (s\<lparr>session_list := l\<rparr>, r))"

text \<open>The result of \<open>online_session_ref\<close> is the address of the entry found.\<close>

fun ref_loop :: "int \<Rightarrow> session_entry list \<Rightarrow> session_entry list \<times> nat option" where
  "ref_loop fd [] = ([], None)"
| "ref_loop fd (tmp # rest) =
     (if os_fd (se_session tmp) = fd then (tmp\<lparr>se_ref := fst (pref_get (se_ref tmp))\<rparr> # rest, Some (se_addr tmp))
      else apfst ((#) tmp) (ref_loop fd rest))"

definition online_session_ref :: "int \<Rightarrow> session_state \<Rightarrow> session_state \<times> nat option" where
  "online_session_ref fd s = (let (l, r) = ref_loop fd (session_list s) in (s\<lparr>session_list := l\<rparr>, r))"

fun session_dref_loop :: "nat \<Rightarrow> session_entry list \<Rightarrow> session_entry list" where
  "session_dref_loop addr [] = []"
| "session_dref_loop addr (tmp # rest) =
     (if se_addr tmp = addr then tmp\<lparr>se_ref := fst (pref_put (se_ref tmp))\<rparr> # rest else tmp # session_dref_loop addr rest)"

definition online_session_dref :: "nat \<Rightarrow> session_state \<Rightarrow> session_state" where
  "online_session_dref addr s = s\<lparr>session_list := session_dref_loop addr (session_list s)\<rparr>"

text \<open>
  The lookups of an administrator or a child: a copy of the online session, or an offline
  session made from the database, whose query is \<open>db\<close>.
\<close>

definition offline_session :: "db_account_basic \<Rightarrow> string \<Rightarrow> bool \<Rightarrow> online_session" where
  "offline_session basic ref_admin is_admin =
     \<lparr>os_basic = basic, os_ref_admin_uuid = ref_admin, os_is_admin = is_admin, os_is_online = False,
      os_fd = 0, os_ip = [], os_port = 0, os_is_heartbeated = False\<rparr>"

definition find_admin_session :: "string \<Rightarrow> session_state \<Rightarrow> session_entry option" where
  "find_admin_session ref_admin_uuid s =
     find (\<lambda>tmp. os_is_admin (se_session tmp) \<and> os_ref_admin_uuid (se_session tmp) = ref_admin_uuid) (session_list s)"

definition find_child_session :: "string \<Rightarrow> string \<Rightarrow> session_state \<Rightarrow> session_entry option" where
  "find_child_session ref_admin_uuid uuid s =
     find (\<lambda>tmp. \<not> os_is_admin (se_session tmp) \<and> os_ref_admin_uuid (se_session tmp) = ref_admin_uuid \<and>
                ab_uuid (os_basic (se_session tmp)) = uuid) (session_list s)"

definition online_session_try_get_admin :: "(string \<Rightarrow> db_account_basic list option) \<Rightarrow> string \<Rightarrow> session_state \<Rightarrow> online_session option res" where
  "online_session_try_get_admin db ref_admin_uuid s =
     (case find_admin_session ref_admin_uuid s of
        Some tmp \<Rightarrow> Inr (Some (se_session tmp))
      | None \<Rightarrow>
          (case db ref_admin_uuid of
             None \<Rightarrow> Inr None
           | Some [] \<Rightarrow> Inl OutOfBounds
           | Some (account # _) \<Rightarrow> Inr (Some (offline_session account (ab_uuid account) True))))"

definition online_session_try_get_child :: "(string \<Rightarrow> string \<Rightarrow> db_account_basic list option) \<Rightarrow> string \<Rightarrow> string \<Rightarrow> session_state \<Rightarrow> online_session option res" where
  "online_session_try_get_child db ref_admin_uuid uuid s =
     (case find_child_session ref_admin_uuid uuid s of
        Some tmp \<Rightarrow> Inr (Some (se_session tmp))
      | None \<Rightarrow>
          (case db ref_admin_uuid uuid of
             None \<Rightarrow> Inr None
           | Some [] \<Rightarrow> Inl OutOfBounds
           | Some (account # _) \<Rightarrow> Inr (Some (offline_session account ref_admin_uuid False))))"

definition online_session_count :: "session_state \<Rightarrow> int" where
  "online_session_count s = int (length (session_list s))"

text \<open>
  \<open>online_session_get_all\<close>: the array is allocated with one byte per session and one
  more, and written with four bytes per session.
\<close>

definition online_session_get_all :: "session_state \<Rightarrow> int list res" where
  "online_session_get_all s =
     (let cnt = length (session_list s) in
      if cnt = 0 then Inr []
      else if cnt + 1 < 4 * cnt then Inl OutOfBounds
      else Inr (map (\<lambda>tmp. os_fd (se_session tmp)) (session_list s)))"

definition online_session_destroy :: "session_state \<Rightarrow> session_state" where
  "online_session_destroy s =
     (if \<not> session_list_inited s then s
      else (case dropWhile entry_free (session_list s) of
              [] \<Rightarrow> s\<lparr>session_stop_sign := True, session_list := [], session_list_inited := False\<rparr>
            | e # rest \<Rightarrow> releasing_add (Some e) (s\<lparr>session_stop_sign := True, session_list := rest\<rparr>)))"

section \<open>Invariant\<close>

text \<open>The fields that decide conflicts.\<close>

type_synonym session_key = "bool \<times> string \<times> string \<times> int"

definition skey :: "online_session \<Rightarrow> session_key" where
  "skey x = (os_is_admin x, os_ref_admin_uuid x, ab_uuid (os_basic x), os_fd x)"

definition key_conflict :: "session_key \<Rightarrow> session_key \<Rightarrow> bool" where
  "key_conflict new old = (case (new, old) of ((a, r, u, f), (a', r', u', f')) \<Rightarrow>
     (a \<and> u' = u) \<or> (\<not> a \<and> r' = r \<and> u' = u) \<or> f = f')"

abbreviation entry_keys :: "session_entry list \<Rightarrow> session_key list" where
  "entry_keys l \<equiv> map (\<lambda>e. skey (se_session e)) l"

definition sess_ok :: "session_state \<Rightarrow> bool" where
  "sess_ok s \<longleftrightarrow> sorted_wrt (\<lambda>old new. \<not> key_conflict new old) (entry_keys (session_list s))"

lemma session_conflict_key: "session_conflict new old = key_conflict (skey new) (skey old)"
  by (auto simp: session_conflict_def key_conflict_def skey_def)

lemma skey_simps [simp]: "skey (x\<lparr>os_is_heartbeated := b\<rparr>) = skey x"
  by (simp add: skey_def)

text \<open>Every loop keeps a subsequence of the keys.\<close>

inductive sub_keys :: "session_key list \<Rightarrow> session_key list \<Rightarrow> bool" where
  sub_nil: "sub_keys [] xs"
| sub_keep: "sub_keys xs ys \<Longrightarrow> sub_keys (x # xs) (x # ys)"
| sub_drop: "sub_keys xs ys \<Longrightarrow> sub_keys xs (y # ys)"

lemma sub_keys_refl: "sub_keys xs xs"
  by (induction xs) (auto intro: sub_keys.intros)

lemma sub_keys_set: "sub_keys xs ys \<Longrightarrow> set xs \<subseteq> set ys"
  by (induction rule: sub_keys.induct) auto

lemma sub_keys_sorted: "sub_keys xs ys \<Longrightarrow> sorted_wrt P ys \<Longrightarrow> sorted_wrt P xs"
proof (induction rule: sub_keys.induct)
  case (sub_keep xs ys x)
  then show ?case using sub_keys_set [OF sub_keep.hyps] by auto
qed auto

lemma heartbeat_keys: "sub_keys (entry_keys (fst (heartbeat_loop l))) (entry_keys l)"
  by (induction l) (auto intro: sub_keys.intros sub_keys_refl)

lemma add_keys: "sub_keys (entry_keys (fst (add_loop new l))) (entry_keys l)"
  by (induction l) (auto intro: sub_keys.intros sub_keys_refl)

lemma mark_keys: "entry_keys (fst (mark_loop fd l)) = entry_keys l"
  by (induction l) auto

lemma ref_keys: "entry_keys (fst (ref_loop fd l)) = entry_keys l"
  by (induction l) auto

lemma dref_keys: "entry_keys (session_dref_loop addr l) = entry_keys l"
  by (induction l) auto

lemma add_no_conflict:
  "add_loop new l = (l', None) \<Longrightarrow> e \<in> set l' \<Longrightarrow> \<not> session_conflict new (se_session e)"
proof (induction l arbitrary: l')
  case (Cons tmp rest)
  then show ?case by (cases "add_loop new rest") (auto split: if_splits)
qed auto

lemma releasing_add_list [simp]: "session_list (releasing_add e s) = session_list s"
  by (cases e) (simp_all add: releasing_add_def)

lemma sess_ok_add:
  assumes "sess_ok s" shows "sess_ok (fst (online_session_add addr new s))"
proof (cases "add_loop new (session_list s)")
  case (Pair l w)
  have l: "sorted_wrt (\<lambda>old new. \<not> key_conflict new old) (entry_keys l)"
    using assms add_keys [of new "session_list s"] Pair sub_keys_sorted by (fastforce simp: sess_ok_def)
  show ?thesis
  proof (cases w)
    case None
    have "\<not> key_conflict (skey new) k" if "k \<in> set (entry_keys l)" for k
      using that add_no_conflict [of new "session_list s" l] Pair None by (auto simp: session_conflict_key)
    then show ?thesis using l Pair None by (simp add: online_session_add_def sess_ok_def sorted_wrt_append)
  next
    case (Some x)
    then show ?thesis using l Pair by (simp add: online_session_add_def sess_ok_def)
  qed
qed

lemma sess_ok_fds:
  assumes "sess_ok s" shows "distinct (map (\<lambda>e. os_fd (se_session e)) (session_list s))"
proof -
  have "sorted_wrt (\<lambda>old new. \<not> key_conflict new old) (entry_keys l) \<Longrightarrow> distinct (map (\<lambda>e. os_fd (se_session e)) l)" for l
    by (induction l) (auto simp: key_conflict_def skey_def)
  then show ?thesis using assms by (simp add: sess_ok_def)
qed

section \<open>Properties\<close>

text \<open>
  C14. Logins never coexist with a session they conflict with: every operation keeps the
  table free of conflicts, so connections are unique in it and an account is logged in at
  most once; and a login that is not held up ends with the new session in the table.
\<close>

theorem session_table_invariant:
  assumes "sess_ok s"
  shows "sess_ok (fst (online_session_add addr new s)) \<and> sess_ok (online_session_check_all_hearbeat s) \<and>
    sess_ok (fst (online_session_del fd s)) \<and> sess_ok (fst (online_session_ref fd s)) \<and> sess_ok (online_session_dref a s) \<and>
    distinct (map (\<lambda>e. os_fd (se_session e)) (session_list s)) \<and>
    (snd (online_session_add addr new s) = Some True \<longrightarrow>
       (\<exists>old. session_list (fst (online_session_add addr new s)) =
          old @ [\<lparr>se_addr = addr, se_session = new, se_ref = pref_init, se_mark_deleted = False\<rparr>] \<and>
          (\<forall>e\<in>set old. \<not> session_conflict new (se_session e))))"
proof (intro conjI)
  show "sess_ok (fst (online_session_add addr new s))" by (rule sess_ok_add [OF assms])
  show "sess_ok (online_session_check_all_hearbeat s)"
    using assms sub_keys_sorted [OF heartbeat_keys [of "session_list s"]]
    by (simp add: online_session_check_all_hearbeat_def sess_ok_def split_beta Let_def)
  show "sess_ok (fst (online_session_del fd s))" "sess_ok (fst (online_session_ref fd s))" "sess_ok (online_session_dref a s)"
    using assms by (simp_all add: sess_ok_def online_session_del_def online_session_ref_def online_session_dref_def
        Let_def split_beta mark_keys ref_keys dref_keys)
  show "distinct (map (\<lambda>e. os_fd (se_session e)) (session_list s))" by (rule sess_ok_fds [OF assms])
qed (use add_no_conflict in \<open>auto simp: online_session_add_def split: prod.splits option.splits\<close>)

definition demo_session :: "string \<Rightarrow> int \<Rightarrow> online_session" where
  "demo_session uuid fd = \<lparr>os_basic = \<lparr>ab_uuid = uuid, ab_pwd = [], ab_nickname = [], ab_comment = [], ab_created_time = []\<rparr>,
     os_ref_admin_uuid = uuid, os_is_admin = True, os_is_online = True, os_fd = fd, os_ip = [], os_port = 0, os_is_heartbeated = False\<rparr>"

definition demo_table :: "int \<Rightarrow> session_state" where
  "demo_table refs = \<lparr>session_list = [\<lparr>se_addr = 1, se_session = demo_session ''ann'' 5, se_ref = \<lparr>refcount = refs\<rparr>, se_mark_deleted = False\<rparr>,
      \<lparr>se_addr = 2, se_session = demo_session ''bob'' 6, se_ref = \<lparr>refcount = 0\<rparr>, se_mark_deleted = False\<rparr>],
     session_list_inited = True, session_stop_sign = False, session_releasing = []\<rparr>"

lemma demo_table_ok: "sess_ok (demo_table refs)"
  by (simp add: sess_ok_def demo_table_def skey_def key_conflict_def demo_session_def)

theorem session_table_invariant_witness:
  "map (\<lambda>e. os_fd (se_session e)) (session_list (fst (online_session_add 3 (demo_session ''ann'' 9) (demo_table 0)))) = [6, 9] \<and>
   sess_ok (fst (online_session_add 3 (demo_session ''ann'' 9) (demo_table 0)))"
  using session_table_invariant [OF demo_table_ok [of 0], of 3 "demo_session ''ann'' 9"]
  by (simp add: online_session_add_def demo_table_def session_conflict_def entry_free_def demo_session_def)

lemma dref_absent: "addr \<notin> set (map se_addr l) \<Longrightarrow> session_dref_loop addr l = l"
  by (induction l) auto

text \<open>The first entry in the list that conflicts and is held stops the loop of a login.\<close>

lemma add_loop_held:
  assumes "e \<in> set l" and "session_conflict new (se_session e)" and "\<not> entry_free e"
  obtains pre w post where "l = pre @ w # post" and "session_conflict new (se_session w)" and "\<not> entry_free w"
    and "\<forall>x \<in> set pre. session_conflict new (se_session x) \<longrightarrow> entry_free x"
    and "add_loop new l = (filter (\<lambda>x. \<not> session_conflict new (se_session x)) pre @ post, Some w)"
proof -
  obtain pre w post where l: "l = pre @ w # post" and w: "session_conflict new (se_session w)" "\<not> entry_free w"
    and pre: "\<forall>x \<in> set pre. \<not> (session_conflict new (se_session x) \<and> \<not> entry_free x)"
    using split_list_first_prop [of l "\<lambda>x. session_conflict new (se_session x) \<and> \<not> entry_free x"] assms by blast
  have "add_loop new (pre @ w # post) = (filter (\<lambda>x. \<not> session_conflict new (se_session x)) pre @ post, Some w)"
    using pre w by (induction pre) auto
  then show thesis
    using that l w pre by blast
qed

text \<open>What the threads of the service do with the table.\<close>

datatype session_op = Login nat online_session | Logout int | Get int | Put nat | Sweep

fun session_do :: "session_op \<Rightarrow> session_state \<Rightarrow> session_state" where
  "session_do (Login a new) s = fst (online_session_add a new s)"
| "session_do (Logout fd) s = fst (online_session_del fd s)"
| "session_do (Get fd) s = fst (online_session_ref fd s)"
| "session_do (Put a) s = online_session_dref a s"
| "session_do Sweep s = online_session_check_all_hearbeat s"

lemma loop_addrs:
  "set (map se_addr (fst (add_loop new l))) \<subseteq> set (map se_addr l)"
  "map se_addr (fst (mark_loop fd l)) = map se_addr l"
  "map se_addr (fst (ref_loop fd l)) = map se_addr l"
  "map se_addr (session_dref_loop a l) = map se_addr l"
  "set (map se_addr (fst (heartbeat_loop l))) \<subseteq> set (map se_addr l)"
  by (induction l) auto

lemma session_do_addrs:
  "se_addr ` set (session_list (session_do p s)) \<subseteq> se_addr ` set (session_list s) \<union> (case p of Login a new \<Rightarrow> {a} | _ \<Rightarrow> {})"
proof (cases p)
  case (Login a new)
  then show ?thesis
    using loop_addrs(1) [of new "session_list s"]
    by (cases "add_loop new (session_list s)") (auto simp: online_session_add_def releasing_add_def split: option.splits)
next
  case (Logout fd)
  then show ?thesis
    using loop_addrs(2) [of fd "session_list s", THEN arg_cong [of _ _ set]] by (simp add: online_session_del_def case_prod_beta Let_def)
next
  case (Get fd)
  then show ?thesis
    using loop_addrs(3) [of fd "session_list s", THEN arg_cong [of _ _ set]] by (simp add: online_session_ref_def case_prod_beta Let_def)
next
  case (Put a)
  then show ?thesis
    using loop_addrs(4) [of a "session_list s", THEN arg_cong [of _ _ set]] by (simp add: online_session_dref_def)
next
  case Sweep
  then show ?thesis
    using loop_addrs(5) [of "session_list s"]
    by (auto simp: online_session_check_all_hearbeat_def case_prod_beta Let_def releasing_add_def split: option.splits)
qed

lemma session_do_releasing: "set (session_releasing s) \<subseteq> set (session_releasing (session_do p s))"
  by (cases p) (auto simp: online_session_add_def online_session_del_def online_session_ref_def online_session_dref_def
      online_session_check_all_hearbeat_def releasing_add_def Let_def split: prod.splits option.splits)

lemma waits_for_ever:
  assumes "w \<in> set (session_releasing s)" and "se_addr w \<notin> se_addr ` set (session_list s)"
    and "\<forall>a new. Login a new \<in> set ps \<longrightarrow> a \<noteq> se_addr w"
  shows "w \<in> set (session_releasing (fold session_do ps s)) \<and> se_addr w \<notin> se_addr ` set (session_list (fold session_do ps s))"
  using assms
proof (induction ps arbitrary: s)
  case (Cons p ps)
  have "se_addr w \<notin> se_addr ` set (session_list (session_do p s))"
    using session_do_addrs [of p s] Cons.prems(2,3) by (cases p) (simp; blast)+
  then show ?case
    using Cons.IH [of "session_do p s"] session_do_releasing [of s p] Cons.prems(1,3) by auto
qed simp

lemma dref_present:
  "distinct (map se_addr (pre @ w # post)) \<Longrightarrow>
   session_dref_loop (se_addr w) (pre @ w # post) = pre @ w\<lparr>se_ref := fst (pref_put (se_ref w))\<rparr> # post"
  by (induction pre) auto

text \<open>
  C15. When the table has a session that conflicts with a new login and that somebody holds a
  reference to, the login does not return: the first such entry \<open>w\<close> is taken off the list and its
  counter, which is not zero, is waited for. Before the login the holder's \<open>online_session_dref\<close>
  would have returned the reference. Now it changes nothing, because it looks for the entry in the
  list, and so it is after any further logins, logouts, references, returns and sweeps of other
  threads (the memory of \<open>w\<close> is still allocated, so no new entry gets its address): the entry is
  waited for with the same counter for ever.
\<close>

theorem login_conflict_deadlock:
  assumes "distinct (map se_addr (session_list s))" and "e \<in> set (session_list s)"
    and "session_conflict new (se_session e)" and "refcount (se_ref e) \<noteq> 0"
  shows "\<exists>w pre post s1. online_session_add addr new s = (s1, None) \<and> session_list s = pre @ w # post \<and>
    session_conflict new (se_session w) \<and> refcount (se_ref w) \<noteq> 0 \<and>
    session_list s1 = filter (\<lambda>x. \<not> session_conflict new (se_session x)) pre @ post \<and>
    session_releasing s1 = session_releasing s @ [w] \<and>
    session_list (online_session_dref (se_addr w) s) = pre @ w\<lparr>se_ref := fst (pref_put (se_ref w))\<rparr> # post \<and>
    (\<forall>ps. (\<forall>a n. Login a n \<in> set ps \<longrightarrow> a \<noteq> se_addr w) \<longrightarrow>
       w \<in> set (session_releasing (fold session_do ps s1)) \<and>
       online_session_dref (se_addr w) (fold session_do ps s1) = fold session_do ps s1)"
proof -
  have "\<not> entry_free e"
    using assms(4) by (simp add: entry_free_def)
  from add_loop_held [OF assms(2,3) this] obtain pre w post where l: "session_list s = pre @ w # post"
    and w: "session_conflict new (se_session w)" "\<not> entry_free w"
    and loop: "add_loop new (session_list s) = (filter (\<lambda>x. \<not> session_conflict new (se_session x)) pre @ post, Some w)"
    by metis
  let ?s1 = "releasing_add (Some w) (s\<lparr>session_list := filter (\<lambda>x. \<not> session_conflict new (se_session x)) pre @ post\<rparr>)"
  have add: "online_session_add addr new s = (?s1, None)"
    using loop by (simp add: online_session_add_def)
  have off: "w \<in> set (session_releasing ?s1)" "se_addr w \<notin> se_addr ` set (session_list ?s1)"
    using assms(1) l by (auto simp: releasing_add_def)
  have "w \<in> set (session_releasing (fold session_do ps ?s1)) \<and> online_session_dref (se_addr w) (fold session_do ps ?s1) = fold session_do ps ?s1"
    if "\<forall>a n. Login a n \<in> set ps \<longrightarrow> a \<noteq> se_addr w" for ps
    using waits_for_ever [OF off that] dref_absent [of "se_addr w" "session_list (fold session_do ps ?s1)"]
    by (simp add: online_session_dref_def)
  moreover have "session_list (online_session_dref (se_addr w) s) = pre @ w\<lparr>se_ref := fst (pref_put (se_ref w))\<rparr> # post"
    using dref_present [of pre w post] assms(1) l by (simp add: online_session_dref_def)
  ultimately show ?thesis
    using add l w by (intro exI [of _ w] exI [of _ pre] exI [of _ post] exI [of _ ?s1]) (simp add: entry_free_def releasing_add_def)
qed

theorem login_conflict_deadlock_witness:
  "\<exists>s1 w. online_session_add 3 (demo_session ''ann'' 9) (demo_table 1) = (s1, None) \<and> session_releasing s1 = [w] \<and>
     w \<in> set (session_releasing (fold session_do [Put 1, Sweep, Login 4 (demo_session ''ann'' 9)] s1))"
proof -
  let ?e = "\<lparr>se_addr = 1, se_session = demo_session ''ann'' 5, se_ref = \<lparr>refcount = 1\<rparr>, se_mark_deleted = False\<rparr>"
  have "distinct (map se_addr (session_list (demo_table 1)))" "?e \<in> set (session_list (demo_table 1))"
    "session_conflict (demo_session ''ann'' 9) (se_session ?e)" "refcount (se_ref ?e) \<noteq> 0"
    by (simp_all add: demo_table_def session_conflict_def demo_session_def)
  from login_conflict_deadlock [OF this, of 3] obtain w pre post s1 where
    r: "online_session_add 3 (demo_session ''ann'' 9) (demo_table 1) = (s1, None)" "session_list (demo_table 1) = pre @ w # post"
    "session_conflict (demo_session ''ann'' 9) (se_session w)" "session_releasing s1 = session_releasing (demo_table 1) @ [w]"
    and ever: "\<forall>ps. (\<forall>a n. Login a n \<in> set ps \<longrightarrow> a \<noteq> se_addr w) \<longrightarrow> w \<in> set (session_releasing (fold session_do ps s1))"
    by blast
  have "w \<in> set (session_list (demo_table 1))"
    using r(2) by simp
  then have "se_addr w \<in> {1, 2}"
    by (auto simp: demo_table_def)
  then show ?thesis
    using r(1,4) ever [rule_format, of "[Put 1, Sweep, Login 4 (demo_session ''ann'' 9)]"]
    by (intro exI [of _ s1] exI [of _ w]) (auto simp: demo_table_def)
qed

definition is_dead :: "session_entry \<Rightarrow> bool" where
  "is_dead e \<longleftrightarrow> \<not> os_is_heartbeated (se_session e) \<or> se_mark_deleted e"

definition clear_beat :: "session_entry \<Rightarrow> session_entry" where
  "clear_beat e = e\<lparr>se_session := (se_session e)\<lparr>os_is_heartbeated := False\<rparr>\<rparr>"

lemma heartbeat_loop_spec:
  "heartbeat_loop l = (map clear_beat (takeWhile (Not \<circ> is_dead) l) @ drop 1 (dropWhile (Not \<circ> is_dead) l),
     (case dropWhile (Not \<circ> is_dead) l of [] \<Rightarrow> None | e # _ \<Rightarrow> if entry_free e then None else Some e))"
  by (induction l) (auto simp: is_dead_def clear_beat_def)

text \<open>
  What one heartbeat sweep does: the sessions before the first dead one lose their
  heartbeat flag, the first dead one is removed, and everything behind it is left as it
  is, dead or not. So a sweep removes one session at most, however many have died.
\<close>

theorem heartbeat_sweep_spec:
  assumes "\<not> session_stop_sign s"
  shows "session_list (online_session_check_all_hearbeat s) =
      map clear_beat (takeWhile (Not \<circ> is_dead) (session_list s)) @ drop 1 (dropWhile (Not \<circ> is_dead) (session_list s)) \<and>
    online_session_count s \<le> online_session_count (online_session_check_all_hearbeat s) + 1"
proof -
  have "length l = length (takeWhile P l) + length (dropWhile P l)" for P and l :: "session_entry list"
    by (metis length_append takeWhile_dropWhile_id)
  from this [of "session_list s" "Not \<circ> is_dead"] show ?thesis
    using assms by (simp add: online_session_check_all_hearbeat_def heartbeat_loop_spec online_session_count_def)
qed

theorem heartbeat_sweep_spec_witness:
  "is_dead (session_list (demo_table 0) ! 1) \<and>
   map (\<lambda>e. os_fd (se_session e)) (session_list (online_session_check_all_hearbeat (demo_table 0))) = [6]"
  using heartbeat_sweep_spec [of "demo_table 0"] by (simp add: demo_table_def is_dead_def demo_session_def)

text \<open>The array of \<open>online_session_get_all\<close> is too small for any number of sessions.\<close>

lemma session_get_all_overflows: "online_session_get_all s = (if session_list s = [] then Inr [] else Inl OutOfBounds)"
  by (cases "session_list s") (auto simp: online_session_get_all_def Let_def)

end
