(* ===== verification/Db_Sql.thy ===== *)
theory Db_Sql
  imports Service_Session
begin

text \<open>
  The database below \<open>service/db/db_account.c\<close>. The source hands SQL text to SQLite; here a
  statement is a constructor per text in the source with the values put into it. SQLite itself is the
  parameter \<open>engine\<close> of everything that queries. What is relied on is the locale
  \<open>sqlite_engine\<close>: a statement none of whose values contains a quotation mark acts on
  the tables as SQL defines, which \<open>sql_sem\<close> spells out. For other values the text is another statement and nothing
  is known. The texts are put together by \<open>sprintf\<close> in arrays on the stack. In those of 4096 characters
  they fit: the names and fields a request may put there are checked or cut to the arrays of the structures first,
  or have passed the smaller array of 1024 characters, which \<open>db_account_device_get\<close> can overrun and models.
\<close>

section \<open>Tables\<close>

record admin_row =
  ad_uuid :: string
  ad_license_type :: int
  ad_licensed_time :: string
  ad_expired_time :: string

record child_row =
  ch_uuid :: string
  ch_ref_admin_uuid :: string

record db_device_basic =
  dv_uuid :: string
  dv_plugin_name :: string
  dv_ip :: string
  dv_port :: int
  dv_user :: string
  dv_pwd :: string
  dv_channel :: int
  dv_seg_folder :: string
  dv_seg_in_count :: int
  dv_seg_per_sec :: int
  dv_created_time :: string

record account_device_row =
  av_uuid :: string
  av_ref_admin_uuid :: string
  av_nickname :: string
  av_comment :: string
  av_is_top_level :: int
  av_ref_parent_uuid :: string

text \<open>A table that has not been created is \<open>None\<close>. The clock gives creation times their default.\<close>

record sql_db =
  t_account_license :: "(int \<times> string) list option"
  t_account_basic :: "db_account_basic list option"
  t_account_admin :: "admin_row list option"
  t_account_child :: "child_row list option"
  t_account_child_permission :: "unit list option"
  t_device_basic :: "db_device_basic list option"
  t_account_device :: "account_device_row list option"
  db_now :: string
  db_open :: bool

datatype sql_table = TLicense | TBasic | TAdmin | TChild | TPermission | TDevice | TAccountDevice

section \<open>Statements\<close>

datatype sql_stmt =
    CreateTable sql_table
  | DropTable sql_table
  | InsertLicense int string
  | InsertBasic string string string string
  | InsertAdmin string int string string
  | InsertChild string string
  | InsertDevice db_device_basic
  | InsertAccountDevice string string string string int string
  | UpdateBasic string string string string
  | DeleteBasic string
  | DeleteBasicOfAdmin string
  | DeleteAdmin string
  | DeleteChildren string
  | DeleteChild string string
  | DeleteDevices string
  | DeleteDevice string string
  | DeleteAccountDevices string
  | DeleteAccountDevice string string
  | SelectBasic string
  | SelectBasicPwd string string
  | SelectAdmin string
  | SelectChild string
  | SelectAdmins "string option"
  | SelectChildren string "string option"
  | SelectDeviceAt string int int string
  | SelectDeviceFolder string
  | SelectDevices string "string option"

datatype sql_row =
    BasicRow db_account_basic
  | AdminRow admin_row
  | ChildRow child_row
  | DeviceRow db_device_basic
  | JoinRow db_device_basic account_device_row

text \<open>The values of a statement, and that none of them ends its literal.\<close>

fun sql_values :: "sql_stmt \<Rightarrow> string list" where
  "sql_values (InsertBasic u p n c) = [u, p, n, c]"
| "sql_values (InsertAdmin u t l e) = [u, l, e]"
| "sql_values (InsertChild u r) = [u, r]"
| "sql_values (InsertDevice d) = [dv_uuid d, dv_plugin_name d, dv_ip d, dv_user d, dv_pwd d, dv_seg_folder d]"
| "sql_values (InsertAccountDevice u r n c t p) = [u, r, n, c, p]"
| "sql_values (UpdateBasic p n c u) = [p, n, c, u]"
| "sql_values (DeleteBasic u) = [u]"
| "sql_values (DeleteBasicOfAdmin u) = [u]"
| "sql_values (DeleteAdmin u) = [u]"
| "sql_values (DeleteChildren r) = [r]"
| "sql_values (DeleteChild r u) = [r, u]"
| "sql_values (DeleteDevices r) = [r]"
| "sql_values (DeleteDevice u r) = [u, r]"
| "sql_values (DeleteAccountDevices r) = [r]"
| "sql_values (DeleteAccountDevice u r) = [u, r]"
| "sql_values (SelectBasic u) = [u]"
| "sql_values (SelectBasicPwd u p) = [u, p]"
| "sql_values (SelectAdmin u) = [u]"
| "sql_values (SelectChild u) = [u]"
| "sql_values (SelectAdmins s) = (case s of None \<Rightarrow> [] | Some u \<Rightarrow> [u])"
| "sql_values (SelectChildren r s) = (case s of None \<Rightarrow> [r] | Some u \<Rightarrow> [r, u])"
| "sql_values (SelectDeviceAt i p c r) = [i, r]"
| "sql_values (SelectDeviceFolder w) = [w]"
| "sql_values (SelectDevices r s) = (case s of None \<Rightarrow> [r] | Some u \<Rightarrow> [r, u])"
| "sql_values _ = []"

definition no_quote :: "string \<Rightarrow> bool" where
  "no_quote s \<longleftrightarrow> CHR 0x27 \<notin> set s"

definition plain_stmt :: "sql_stmt \<Rightarrow> bool" where
  "plain_stmt st \<longleftrightarrow> list_all no_quote (sql_values st)"

section \<open>What the statements mean\<close>

text \<open>Inserting respects the primary key; \<open>None\<close> is an error, also when a table is missing.\<close>

definition insert_row :: "('r \<Rightarrow> 'k) \<Rightarrow> 'r \<Rightarrow> 'r list option \<Rightarrow> 'r list option" where
  "insert_row key r t = (case t of None \<Rightarrow> None | Some rows \<Rightarrow> if key r \<in> key ` set rows then None else Some (rows @ [r]))"

definition delete_rows :: "('r \<Rightarrow> bool) \<Rightarrow> 'r list option \<Rightarrow> 'r list option" where
  "delete_rows P t = map_option (filter (\<lambda>r. \<not> P r)) t"

definition chosen :: "string option \<Rightarrow> string \<Rightarrow> bool" where
  "chosen specified u \<longleftrightarrow> (case specified of None \<Rightarrow> True | Some v \<Rightarrow> u = v)"

text \<open>The effect of a statement that changes tables.\<close>

fun sql_change :: "sql_stmt \<Rightarrow> sql_db \<Rightarrow> sql_db option" where
  "sql_change (CreateTable t) db = Some (case t of
       TLicense \<Rightarrow> db\<lparr>t_account_license := Some (case t_account_license db of None \<Rightarrow> [] | Some r \<Rightarrow> r)\<rparr>
     | TBasic \<Rightarrow> db\<lparr>t_account_basic := Some (case t_account_basic db of None \<Rightarrow> [] | Some r \<Rightarrow> r)\<rparr>
     | TAdmin \<Rightarrow> db\<lparr>t_account_admin := Some (case t_account_admin db of None \<Rightarrow> [] | Some r \<Rightarrow> r)\<rparr>
     | TChild \<Rightarrow> db\<lparr>t_account_child := Some (case t_account_child db of None \<Rightarrow> [] | Some r \<Rightarrow> r)\<rparr>
     | TPermission \<Rightarrow> db\<lparr>t_account_child_permission := Some (case t_account_child_permission db of None \<Rightarrow> [] | Some r \<Rightarrow> r)\<rparr>
     | TDevice \<Rightarrow> db\<lparr>t_device_basic := Some (case t_device_basic db of None \<Rightarrow> [] | Some r \<Rightarrow> r)\<rparr>
     | TAccountDevice \<Rightarrow> db\<lparr>t_account_device := Some (case t_account_device db of None \<Rightarrow> [] | Some r \<Rightarrow> r)\<rparr>)"
| "sql_change (DropTable t) db = Some (case t of
       TLicense \<Rightarrow> db\<lparr>t_account_license := None\<rparr>
     | TBasic \<Rightarrow> db\<lparr>t_account_basic := None\<rparr>
     | TAdmin \<Rightarrow> db\<lparr>t_account_admin := None\<rparr>
     | TChild \<Rightarrow> db\<lparr>t_account_child := None\<rparr>
     | TPermission \<Rightarrow> db\<lparr>t_account_child_permission := None\<rparr>
     | TDevice \<Rightarrow> db\<lparr>t_device_basic := None\<rparr>
     | TAccountDevice \<Rightarrow> db\<lparr>t_account_device := None\<rparr>)"
| "sql_change (InsertLicense n c) db =
     map_option (\<lambda>t. db\<lparr>t_account_license := Some t\<rparr>) (insert_row fst (n, c) (t_account_license db))"
| "sql_change (InsertBasic u p n c) db =
     map_option (\<lambda>t. db\<lparr>t_account_basic := Some t\<rparr>)
       (insert_row ab_uuid \<lparr>ab_uuid = u, ab_pwd = p, ab_nickname = n, ab_comment = c, ab_created_time = db_now db\<rparr> (t_account_basic db))"
| "sql_change (InsertAdmin u t l e) db =
     map_option (\<lambda>x. db\<lparr>t_account_admin := Some x\<rparr>)
       (insert_row ad_uuid \<lparr>ad_uuid = u, ad_license_type = t, ad_licensed_time = l, ad_expired_time = e\<rparr> (t_account_admin db))"
| "sql_change (InsertChild u r) db =
     map_option (\<lambda>t. db\<lparr>t_account_child := Some t\<rparr>)
       (insert_row ch_uuid \<lparr>ch_uuid = u, ch_ref_admin_uuid = r\<rparr> (t_account_child db))"
| "sql_change (InsertDevice d) db =
     map_option (\<lambda>t. db\<lparr>t_device_basic := Some t\<rparr>)
       (insert_row dv_uuid (d\<lparr>dv_created_time := db_now db\<rparr>) (t_device_basic db))"
| "sql_change (InsertAccountDevice u r n c t p) db =
     map_option (\<lambda>x. db\<lparr>t_account_device := Some x\<rparr>)
       (insert_row av_uuid \<lparr>av_uuid = u, av_ref_admin_uuid = r, av_nickname = n, av_comment = c, av_is_top_level = t, av_ref_parent_uuid = p\<rparr>
          (t_account_device db))"
| "sql_change (UpdateBasic p n c u) db =
     map_option (\<lambda>t. db\<lparr>t_account_basic := Some (map (\<lambda>r. if ab_uuid r = u then r\<lparr>ab_pwd := p, ab_nickname := n, ab_comment := c\<rparr> else r) t)\<rparr>)
       (t_account_basic db)"
| "sql_change (DeleteBasic u) db =
     map_option (\<lambda>t. db\<lparr>t_account_basic := Some t\<rparr>) (delete_rows (\<lambda>r. ab_uuid r = u) (t_account_basic db))"
| "sql_change (DeleteBasicOfAdmin u) db =
     (case t_account_admin db of
        None \<Rightarrow> None
      | Some admins \<Rightarrow>
          map_option (\<lambda>t. db\<lparr>t_account_basic := Some t\<rparr>)
            (delete_rows (\<lambda>r. ab_uuid r \<in> set (filter (\<lambda>x. x = u) (map ad_uuid admins))) (t_account_basic db)))"
| "sql_change (DeleteAdmin u) db =
     map_option (\<lambda>t. db\<lparr>t_account_admin := Some t\<rparr>) (delete_rows (\<lambda>r. ad_uuid r = u) (t_account_admin db))"
| "sql_change (DeleteChildren r) db =
     map_option (\<lambda>t. db\<lparr>t_account_child := Some t\<rparr>) (delete_rows (\<lambda>c. ch_ref_admin_uuid c = r) (t_account_child db))"
| "sql_change (DeleteChild r u) db =
     map_option (\<lambda>t. db\<lparr>t_account_child := Some t\<rparr>) (delete_rows (\<lambda>c. ch_ref_admin_uuid c = r \<and> ch_uuid c = u) (t_account_child db))"
| "sql_change (DeleteDevices r) db =
     (case t_account_device db of
        None \<Rightarrow> None
      | Some avs \<Rightarrow> map_option (\<lambda>t. db\<lparr>t_device_basic := Some t\<rparr>)
          (delete_rows (\<lambda>d. dv_uuid d \<in> av_uuid ` set (filter (\<lambda>a. av_ref_admin_uuid a = r) avs)) (t_device_basic db)))"
| "sql_change (DeleteDevice u r) db =
     (case t_account_device db of
        None \<Rightarrow> None
      | Some avs \<Rightarrow> map_option (\<lambda>t. db\<lparr>t_device_basic := Some t\<rparr>)
          (delete_rows (\<lambda>d. dv_uuid d \<in> av_uuid ` set (filter (\<lambda>a. av_uuid a = u \<and> av_ref_admin_uuid a = r) avs)) (t_device_basic db)))"
| "sql_change (DeleteAccountDevices r) db =
     map_option (\<lambda>t. db\<lparr>t_account_device := Some t\<rparr>) (delete_rows (\<lambda>a. av_ref_admin_uuid a = r) (t_account_device db))"
| "sql_change (DeleteAccountDevice u r) db =
     map_option (\<lambda>t. db\<lparr>t_account_device := Some t\<rparr>)
       (delete_rows (\<lambda>a. av_uuid a = u \<and> av_ref_admin_uuid a = r) (t_account_device db))"
| "sql_change _ db = Some db"

text \<open>The rows a query gives.\<close>

fun sql_select :: "sql_stmt \<Rightarrow> sql_db \<Rightarrow> sql_row list option" where
  "sql_select (SelectBasic u) db = map_option (\<lambda>t. map BasicRow (filter (\<lambda>r. ab_uuid r = u) t)) (t_account_basic db)"
| "sql_select (SelectBasicPwd u p) db =
     map_option (\<lambda>t. map BasicRow (filter (\<lambda>r. ab_uuid r = u \<and> ab_pwd r = p) t)) (t_account_basic db)"
| "sql_select (SelectAdmin u) db = map_option (\<lambda>t. map AdminRow (filter (\<lambda>r. ad_uuid r = u) t)) (t_account_admin db)"
| "sql_select (SelectChild u) db = map_option (\<lambda>t. map ChildRow (filter (\<lambda>r. ch_uuid r = u) t)) (t_account_child db)"
| "sql_select (SelectAdmins s) db =
     (case t_account_admin db of
        None \<Rightarrow> None
      | Some admins \<Rightarrow> map_option (\<lambda>t. map BasicRow (filter (\<lambda>r. ab_uuid r \<in> set (filter (chosen s) (map ad_uuid admins))) t)) (t_account_basic db))"
| "sql_select (SelectChildren r s) db =
     (case t_account_child db of
        None \<Rightarrow> None
      | Some cs \<Rightarrow> map_option (\<lambda>t. map BasicRow (filter (\<lambda>b. ab_uuid b \<in> ch_uuid ` set (filter (\<lambda>c. ch_ref_admin_uuid c = r \<and> chosen s (ch_uuid c)) cs)) t))
          (t_account_basic db))"
| "sql_select (SelectDeviceAt i p c r) db =
     (case t_account_device db of
        None \<Rightarrow> None
      | Some avs \<Rightarrow> map_option (\<lambda>t. map DeviceRow (filter (\<lambda>d. dv_ip d = i \<and> dv_port d = p \<and> dv_channel d = c \<and>
          dv_uuid d \<in> av_uuid ` set (filter (\<lambda>a. av_ref_admin_uuid a = r) avs)) t)) (t_device_basic db))"
| "sql_select (SelectDeviceFolder w) db = map_option (\<lambda>t. map DeviceRow (filter (\<lambda>d. dv_seg_folder d = w) t)) (t_device_basic db)"
| "sql_select (SelectDevices r s) db =
     (case (t_device_basic db, t_account_device db) of
        (Some ds, Some avs) \<Rightarrow>
          Some (concat (map (\<lambda>d. map (JoinRow d) (filter (\<lambda>a. av_uuid a = dv_uuid d \<and> av_ref_admin_uuid a = r \<and> chosen s (av_uuid a)) avs)) ds))
      | _ \<Rightarrow> None)"
| "sql_select _ db = Some []"

type_synonym sql_engine = "sql_stmt \<Rightarrow> sql_db \<Rightarrow> sql_db \<times> sql_row list option"

definition sql_sem :: sql_engine where
  "sql_sem st db =
     (case sql_change st db of
        None \<Rightarrow> (db, None)
      | Some db' \<Rightarrow> (db', sql_select st db))"

locale sqlite_engine =
  fixes engine :: sql_engine
  assumes engine_plain: "plain_stmt st \<Longrightarrow> engine st db = sql_sem st db"

interpretation sem: sqlite_engine sql_sem
  by unfold_locales simp

section \<open>The provider\<close>

datatype e_sql_query_result = e_query_done | e_query_row | e_query_error

text \<open>A statement handle: the rows from the current one on.\<close>

record sqlite_param =
  pa_rows :: "sql_row list"
  pa_fields :: int

fun row_fields :: "sql_row \<Rightarrow> int" where
  "row_fields (BasicRow _) = 5"
| "row_fields (AdminRow _) = 5"
| "row_fields (ChildRow _) = 3"
| "row_fields (DeviceRow _) = 11"
| "row_fields (JoinRow _ _) = 15"

definition sql_create_new :: "sql_db \<Rightarrow> bool" where
  "sql_create_new db = db_open db"

definition sql_query :: "sql_engine \<Rightarrow> sql_stmt \<Rightarrow> sql_db \<Rightarrow> sql_db \<times> e_sql_query_result \<times> sqlite_param" where
  "sql_query engine st db =
     (case engine st db of
        (db', None) \<Rightarrow> (db', e_query_error, \<lparr>pa_rows = [], pa_fields = 0\<rparr>)
      | (db', Some []) \<Rightarrow> (db', e_query_done, \<lparr>pa_rows = [], pa_fields = 0\<rparr>)
      | (db', Some (r # rs)) \<Rightarrow> (db', e_query_row, \<lparr>pa_rows = r # rs, pa_fields = row_fields r\<rparr>))"

definition sql_fetch_row :: "sqlite_param \<Rightarrow> sqlite_param \<times> sql_row option" where
  "sql_fetch_row p = (case pa_rows p of [] \<Rightarrow> (p, None) | r # rs \<Rightarrow> (p\<lparr>pa_rows := rs\<rparr>, Some r))"

text \<open>\<open>db_exec\<close> of \<open>service/db/db_util.c\<close>.\<close>

definition db_exec :: "sql_engine \<Rightarrow> sql_stmt \<Rightarrow> sql_db \<Rightarrow> sql_db \<times> e_sql_query_result" where
  "db_exec engine st db =
     (if \<not> sql_create_new db then (db, e_query_error)
      else (let (db', r, _) = sql_query engine st db in (db', r)))"

end
