(* ===== verification/Block_Stream.thy ===== *)
theory Block_Stream
  imports Prelude
begin

text \<open>
  What the digests of \<open>utils/md5.c\<close> and \<open>utils/sha.c\<close> have in common: bytes are collected
  into blocks of 64 and every full block is compressed into a chaining value. The stream
  is described without arrays by the chaining value and the bytes of the open block, and compared with
  cutting the whole message into blocks. The contract of a streaming context is a locale both digests interpret.
\<close>

section \<open>Absorbing bytes\<close>

fun absorb :: "('s \<Rightarrow> byte list \<Rightarrow> 's) \<Rightarrow> byte \<Rightarrow> 's \<times> byte list \<Rightarrow> 's \<times> byte list" where
  "absorb cmp c (st, p) = (let p = p @ [c] in if length p = 64 then (cmp st p, []) else (st, p))"

function hash_blocks :: "('s \<Rightarrow> byte list \<Rightarrow> 's) \<Rightarrow> 's \<Rightarrow> byte list \<Rightarrow> 's" where
  "hash_blocks cmp st msg =
     (if length msg < 64 then st else hash_blocks cmp (cmp st (take 64 msg)) (drop 64 msg))"
  by auto
termination by (relation "measure (\<lambda>(_, _, msg). length msg)") auto

declare hash_blocks.simps [simp del]

lemma absorb_blocks:
  assumes "length p < 64"
  shows "fst (fold (absorb cmp) cs (st, p)) = hash_blocks cmp st (p @ cs)"
  using assms
proof (induction cs arbitrary: st p)
  case Nil
  then show ?case by (simp add: hash_blocks.simps)
next
  case (Cons c cs)
  show ?case
  proof (cases "length (p @ [c]) = 64")
    case True
    then have "hash_blocks cmp st (p @ c # cs) = hash_blocks cmp (cmp st (p @ [c])) cs"
      by (subst hash_blocks.simps) simp
    then show ?thesis using Cons.IH [of "[]"] True by simp
  next
    case False
    then show ?thesis using Cons.IH [of "p @ [c]"] Cons.prems by simp
  qed
qed

lemma absorb_open: "length p < 64 \<Longrightarrow> length (snd (fold (absorb cmp) cs (st, p))) = (length p + length cs) mod 64"
proof (induction cs arbitrary: st p)
  case (Cons c cs)
  show ?case
  proof (cases "length (p @ [c]) = 64")
    case True
    then have "(length p + length (c # cs)) mod 64 = length cs mod 64" by simp
    then show ?thesis using Cons.IH [of "[]"] True by simp
  next
    case False
    then show ?thesis using Cons.IH [of "p @ [c]"] Cons.prems by simp
  qed
qed simp

text \<open>The open block lies at the start of the 64-byte array of the context.\<close>

definition open_block :: "byte list \<Rightarrow> byte list \<Rightarrow> bool" where
  "open_block arr p \<longleftrightarrow> length arr = 64 \<and> length p < 64 \<and> take (length p) arr = p"

lemma open_block_put:
  assumes "open_block arr p"
  shows "length p + 1 = 64 \<Longrightarrow> arr[length p := c] = p @ [c]"
    and "length p + 1 \<noteq> 64 \<Longrightarrow> open_block (arr[length p := c]) (p @ [c])"
proof -
  have len: "length arr = 64" and lt: "length p < length arr" and pre: "take (length p) arr = p"
    using assms by (simp_all add: open_block_def)
  have t: "take (Suc (length p)) (arr[length p := c]) = p @ [c]"
    using lt pre by (simp add: take_Suc_conv_app_nth)
  show "arr[length p := c] = p @ [c]" if "length p + 1 = 64"
    using t len that by simp
  show "open_block (arr[length p := c]) (p @ [c])" if "length p + 1 \<noteq> 64"
    using t len lt that by (simp add: open_block_def)
qed

section \<open>The contract of a streaming context\<close>

text \<open>\<open>fed c msg\<close>: the context \<open>c\<close> has been given the bytes \<open>msg\<close>.\<close>

locale byte_stream =
  fixes fed :: "'c \<Rightarrow> byte list \<Rightarrow> bool"
    and feed :: "'c \<Rightarrow> byte list \<Rightarrow> 'c"
    and accepts :: "byte list \<Rightarrow> bool"
  assumes feed_law: "fed c msg \<Longrightarrow> accepts data \<Longrightarrow> fed (feed c data) (msg @ data)"
begin

lemma feed_all:
  assumes "fed c msg" and "\<forall>data\<in>set parts. accepts data"
  shows "fed (foldl feed c parts) (msg @ concat parts)"
  using assms
proof (induction parts arbitrary: c msg)
  case (Cons data parts)
  then show ?case using Cons.IH [OF feed_law [of c msg data]] by simp
qed simp

end

end
