(* ===== verification/Sha.thy ===== *)
theory Sha
  imports Block_Stream
begin

text \<open>
  The SHA-1 digest of \<open>utils/sha.c\<close>, streaming in the same way as MD5 with a 64-bit count of
  bytes. \<open>SHA_final\<close> pads byte by byte through \<open>SHA_update\<close> and leaves the digest in the
  block array. The reference pads the whole message and compresses it block by block.
\<close>

section \<open>The compression function\<close>

definition rol :: "nat \<Rightarrow> u32 \<Rightarrow> u32" where
  "rol bits value = push_bit bits value OR drop_bit (32 - bits) value"

text \<open>The schedule of 80 words: the block in big-endian order, then the expansion.\<close>

definition sha_words :: "byte list \<Rightarrow> u32 list" where
  "sha_words p = map (\<lambda>t. be32_dec (take 4 (drop (4 * t) p))) [0..<16]"

definition sha_expand :: "u32 list \<Rightarrow> nat \<Rightarrow> u32 list" where
  "sha_expand W t = W @ [rol 1 (W ! (t - 3) XOR W ! (t - 8) XOR W ! (t - 14) XOR W ! (t - 16))]"

definition sha_schedule :: "byte list \<Rightarrow> u32 list" where
  "sha_schedule p = foldl sha_expand (sha_words p) [16..<80]"

definition sha_round :: "u32 list \<Rightarrow> u32 \<times> u32 \<times> u32 \<times> u32 \<times> u32 \<Rightarrow> nat \<Rightarrow> u32 \<times> u32 \<times> u32 \<times> u32 \<times> u32" where
  "sha_round W abcde t =
     (case abcde of (A, B, C, D, E) \<Rightarrow>
        let tmp = rol 5 A + E + W ! t;
            tmp = (if t < 20 then tmp + ((D XOR (B AND (C XOR D))) + 0x5A827999)
                   else if t < 40 then tmp + ((B XOR C XOR D) + 0x6ED9EBA1)
                   else if t < 60 then tmp + (((B AND C) OR (D AND (B OR C))) + 0x8F1BBCDC)
                   else tmp + ((B XOR C XOR D) + 0xCA62C1D6))
        in (tmp, A, rol 30 B, C, D))"

definition sha_compress :: "u32 \<times> u32 \<times> u32 \<times> u32 \<times> u32 \<Rightarrow> byte list \<Rightarrow> u32 \<times> u32 \<times> u32 \<times> u32 \<times> u32" where
  "sha_compress state p =
     (case (state, foldl (sha_round (sha_schedule p)) state [0..<80]) of
        ((s0, s1, s2, s3, s4), (A, B, C, D, E)) \<Rightarrow> (s0 + A, s1 + B, s2 + C, s3 + D, s4 + E))"

section \<open>The streaming interface\<close>

record SHA_CTX =
  sh_count :: u64
  sh_buf :: "byte list"
  sh_state :: "u32 \<times> u32 \<times> u32 \<times> u32 \<times> u32"

definition SHA1_transform :: "SHA_CTX \<Rightarrow> SHA_CTX" where
  "SHA1_transform ctx = ctx\<lparr>sh_state := sha_compress (sh_state ctx) (sh_buf ctx)\<rparr>"

definition SHA_init :: "SHA_CTX \<Rightarrow> SHA_CTX" where
  "SHA_init ctx = ctx\<lparr>sh_state := (0x67452301, 0xEFCDAB89, 0x98BADCFE, 0x10325476, 0xC3D2E1F0), sh_count := 0\<rparr>"

fun sha_update_loop :: "nat \<Rightarrow> byte list \<Rightarrow> SHA_CTX \<Rightarrow> SHA_CTX" where
  "sha_update_loop i [] ctx = ctx"
| "sha_update_loop i (c # p) ctx =
     (let ctx = ctx\<lparr>sh_buf := (sh_buf ctx)[i := c]\<rparr> in
      if i + 1 = 64 then sha_update_loop 0 p (SHA1_transform ctx) else sha_update_loop (i + 1) p ctx)"

definition SHA_update :: "SHA_CTX \<Rightarrow> byte list \<Rightarrow> SHA_CTX" where
  "SHA_update ctx data =
     sha_update_loop (unat (sh_count ctx mod 64)) data (ctx\<lparr>sh_count := sh_count ctx + word_of_nat (length data)\<rparr>)"

lemma sha_update_loop_count: "sh_count (sha_update_loop i p ctx) = sh_count ctx"
  by (induction i p ctx rule: sha_update_loop.induct) (simp_all add: Let_def SHA1_transform_def)

text \<open>The padding loop of \<open>SHA_final\<close>.\<close>

function sha_pad_loop :: "SHA_CTX \<Rightarrow> SHA_CTX" where
  "sha_pad_loop ctx = (if sh_count ctx mod 64 \<noteq> 64 - 8 then sha_pad_loop (SHA_update ctx [0]) else ctx)"
  by auto

lemma count_mod: "unat ((c :: u64) mod 64) = unat c mod 64"
  by (simp add: unat_mod)

lemma count_plus_mod: "unat ((c :: u64) + word_of_nat n) mod 64 = (unat c + n) mod 64"
proof -
  have "unat (c + word_of_nat n) = (unat c + n) mod 2 ^ 64"
    by (simp add: unat_word_ariths unsigned_of_nat take_bit_eq_mod mod_simps)
  then show ?thesis by (simp add: mod_mod_cancel)
qed

lemma pad_step:
  fixes m :: nat
  assumes "m < 64" and "m \<noteq> 56"
  shows "(120 - m) mod 64 = Suc ((120 - (m + 1) mod 64) mod 64)"
proof -
  consider "m < 56" | "56 < m" "m < 63" | "m = 63" using assms by linarith
  then show ?thesis
  proof cases
    case 1
    then have "120 - m = (56 - m) + 64" "120 - (m + 1) = (55 - m) + 64" by simp_all
    then have "(120 - m) mod 64 = 56 - m" "(120 - (m + 1)) mod 64 = 55 - m" by (simp_all only: mod_add_self2) simp_all
    then show ?thesis using 1 by simp
  qed simp_all
qed

termination sha_pad_loop
proof (relation "measure (\<lambda>ctx. (56 + 64 - unat (sh_count ctx) mod 64) mod 64)")
  fix ctx :: SHA_CTX
  assume "sh_count ctx mod 64 \<noteq> 64 - 8"
  then have ne: "unat (sh_count ctx) mod 64 \<noteq> 56" using count_mod [of "sh_count ctx"] by (auto simp: word_unat_eq_iff)
  have step: "unat (sh_count (SHA_update ctx [0])) mod 64 = (unat (sh_count ctx) mod 64 + 1) mod 64"
    using count_plus_mod [of "sh_count ctx" 1] by (simp add: SHA_update_def sha_update_loop_count mod_simps del: sha_update_loop.simps)
  define m where "m = unat (sh_count ctx) mod 64"
  have "m < 64" "m \<noteq> 56" using ne by (simp_all add: m_def)
  then have "(56 + 64 - (m + 1) mod 64) mod 64 < (56 + 64 - m) mod 64"
    using pad_step [of m] by simp
  then show "(SHA_update ctx [0], ctx) \<in> measure (\<lambda>ctx. (56 + 64 - unat (sh_count ctx) mod 64) mod 64)"
    using step by (simp add: m_def)
qed simp

declare sha_pad_loop.simps [simp del]

definition SHA_final :: "SHA_CTX \<Rightarrow> SHA_CTX \<times> byte list" where
  "SHA_final ctx =
     (let cnt = sh_count ctx * 8;
          ctx = sha_pad_loop (SHA_update ctx [0x80]);
          ctx = foldl (\<lambda>ctx i. SHA_update ctx [ucast (drop_bit ((7 - i) * 8) cnt)]) ctx [0..<8];
          ctx = (case sh_state ctx of (s0, s1, s2, s3, s4) \<Rightarrow>
                   ctx\<lparr>sh_buf := concat (map be32_enc [s0, s1, s2, s3, s4]) @ drop 20 (sh_buf ctx)\<rparr>)
      in (ctx, sh_buf ctx))"

definition SHA :: "SHA_CTX \<Rightarrow> byte list \<Rightarrow> byte list" where
  "SHA ctx data = take 20 (snd (SHA_final (SHA_update (SHA_init ctx) data)))"

section \<open>The reference\<close>

definition sha_pad :: "byte list \<Rightarrow> byte list" where
  "sha_pad msg = msg @ 0x80 # replicate ((119 - length msg mod 64) mod 64) 0 @
     map (\<lambda>i. ucast (drop_bit ((7 - i) * 8) (word_of_nat (8 * length msg) :: u64))) [0..<8]"

definition sha1 :: "byte list \<Rightarrow> byte list" where
  "sha1 msg =
     (case hash_blocks sha_compress (0x67452301, 0xEFCDAB89, 0x98BADCFE, 0x10325476, 0xC3D2E1F0) (sha_pad msg) of
        (s0, s1, s2, s3, s4) \<Rightarrow> concat (map be32_enc [s0, s1, s2, s3, s4]))"

section \<open>Streaming\<close>

definition sha_fed :: "SHA_CTX \<Rightarrow> byte list \<Rightarrow> bool" where
  "sha_fed ctx msg \<longleftrightarrow> sh_count ctx = word_of_nat (length msg) \<and>
     (case fold (absorb sha_compress) msg ((0x67452301, 0xEFCDAB89, 0x98BADCFE, 0x10325476, 0xC3D2E1F0), []) of
        (st, p) \<Rightarrow> sh_state ctx = st \<and> open_block (sh_buf ctx) p)"

lemma sha_init_fed: "length (sh_buf ctx) = 64 \<Longrightarrow> sha_fed (SHA_init ctx) []"
  by (simp add: sha_fed_def SHA_init_def open_block_def)

lemma sha_loop_absorbs:
  assumes "sh_state ctx = st" and "open_block (sh_buf ctx) p"
  shows "case fold (absorb sha_compress) cs (st, p) of
           (st', p') \<Rightarrow> sh_state (sha_update_loop (length p) cs ctx) = st' \<and> open_block (sh_buf (sha_update_loop (length p) cs ctx)) p'"
  using assms
proof (induction cs arbitrary: ctx st p)
  case (Cons c cs)
  let ?ctx = "ctx\<lparr>sh_buf := (sh_buf ctx)[length p := c]\<rparr>"
  note put = open_block_put [OF Cons.prems(2), of c]
  show ?case
  proof (cases "length p + 1 = 64")
    case True
    have "open_block (sh_buf (SHA1_transform ?ctx)) []"
      using Cons.prems(2) by (simp add: open_block_def SHA1_transform_def)
    from Cons.IH [OF refl this] show ?thesis
      using True put(1) Cons.prems(1) by (simp add: Let_def SHA1_transform_def)
  next
    case False
    then have "open_block (sh_buf ?ctx) (p @ [c])" using put(2) by simp
    from Cons.IH [OF _ this, of st] show ?thesis using False Cons.prems(1) by (simp add: Let_def)
  qed
qed simp

lemma sha_mod: "unat ((word_of_nat n :: u64) mod 64) = n mod 64"
proof -
  have "unat (word_of_nat n :: u64) = n mod 2 ^ 64" by (simp add: unsigned_of_nat take_bit_eq_mod)
  then show ?thesis by (simp add: count_mod mod_mod_cancel)
qed

lemma sha_update_fed:
  assumes "sha_fed ctx msg"
  shows "sha_fed (SHA_update ctx data) (msg @ data)"
proof -
  let ?init = "(0x67452301, 0xEFCDAB89, 0x98BADCFE, 0x10325476, 0xC3D2E1F0) :: u32 \<times> u32 \<times> u32 \<times> u32 \<times> u32"
  obtain st p where f: "fold (absorb sha_compress) msg (?init, []) = (st, p)"
    by (cases "fold (absorb sha_compress) msg (?init, [])")
  have p: "length p = length msg mod 64" using absorb_open [of "[]" sha_compress msg ?init] f by simp
  let ?ctx = "ctx\<lparr>sh_count := sh_count ctx + word_of_nat (length data)\<rparr>"
  have "sh_state ?ctx = st" "open_block (sh_buf ?ctx) p" and cnt: "sh_count ctx = word_of_nat (length msg)"
    using assms f by (simp_all add: sha_fed_def)
  from sha_loop_absorbs [OF this(1,2), of data] show ?thesis
    using f p by (simp add: sha_fed_def SHA_update_def cnt sha_mod sha_update_loop_count)
qed

interpretation sha: byte_stream sha_fed SHA_update "\<lambda>_. True"
  by unfold_locales (rule sha_update_fed)

lemma pad_count: "(120 - (n + 1) mod 64) mod 64 = (119 - n mod 64) mod (64 :: nat)"
proof -
  define m where "m = n mod 64"
  have "(n + 1) mod 64 = (m + 1) mod 64" by (simp add: m_def mod_simps)
  moreover have "m < 64" by (simp add: m_def)
  ultimately show ?thesis unfolding m_def [symmetric] by (cases "m = 63") simp_all
qed

lemma sha_pad_loop_fed:
  "sha_fed ctx msg \<Longrightarrow> sha_fed (sha_pad_loop ctx) (msg @ replicate ((120 - length msg mod 64) mod 64) 0)"
proof (induction ctx arbitrary: msg rule: sha_pad_loop.induct)
  case (1 ctx)
  define m where "m = length msg mod 64"
  have m: "m < 64" by (simp add: m_def)
  have "unat (sh_count ctx mod 64) = m" using 1(2) by (simp add: sha_fed_def sha_mod m_def)
  then have go: "sh_count ctx mod 64 \<noteq> 64 - 8 \<longleftrightarrow> m \<noteq> 56" by (auto simp: word_unat_eq_iff)
  show ?case
  proof (cases "m = 56")
    case True
    then show ?thesis using go 1(2) by (simp add: sha_pad_loop.simps [of ctx] m_def)
  next
    case False
    have "(length msg + 1) mod 64 = (m + 1) mod 64" by (simp add: m_def mod_simps)
    then have "(120 - m) mod 64 = Suc ((120 - (length msg + 1) mod 64) mod 64)"
      using pad_step [OF m False] by simp
    then show ?thesis
      using 1(1) [of "msg @ [0]"] go False sha_update_fed [OF 1(2), of "[0]"]
      by (simp add: sha_pad_loop.simps [of ctx] m_def)
  qed
qed

text \<open>The digest of a context that has been fed a message.\<close>

lemma sha_final_digest:
  assumes "sha_fed ctx msg"
  shows "take 20 (snd (SHA_final ctx)) = sha1 msg"
proof -
  let ?init = "(0x67452301, 0xEFCDAB89, 0x98BADCFE, 0x10325476, 0xC3D2E1F0) :: u32 \<times> u32 \<times> u32 \<times> u32 \<times> u32"
  define cnt where "cnt = sh_count ctx * 8"
  define part where "part i = (ucast (drop_bit ((7 - i) * 8) cnt) :: byte)" for i :: nat
  define c1 where "c1 = sha_pad_loop (SHA_update ctx [0x80])"
  define c2 where "c2 = foldl (\<lambda>ctx i. SHA_update ctx [part i]) c1 [0..<8]"
  have cnt: "cnt = word_of_nat (8 * length msg)" using assms by (simp add: cnt_def sha_fed_def)
  have "sha_fed c1 ((msg @ [0x80]) @ replicate ((119 - length msg mod 64) mod 64) 0)"
    using sha_pad_loop_fed [OF sha_update_fed [OF assms, of "[0x80]"]] pad_count [of "length msg"] by (simp add: c1_def)
  then have "sha_fed (foldl SHA_update c1 (map (\<lambda>i. [part i]) [0..<8]))
      (((msg @ [0x80]) @ replicate ((119 - length msg mod 64) mod 64) 0) @ concat (map (\<lambda>i. [part i]) [0..<8]))"
    by (rule sha.feed_all) simp
  moreover have "concat (map (\<lambda>i. [part i]) [0..<8]) = map part [0..<8]" by simp
  moreover have "foldl SHA_update c1 (map (\<lambda>i. [part i]) [0..<8]) = c2" by (simp add: c2_def foldl_map)
  moreover have "((msg @ [0x80]) @ replicate ((119 - length msg mod 64) mod 64) 0) @ map part [0..<8] = sha_pad msg"
    by (simp add: sha_pad_def part_def cnt)
  ultimately have fed: "sha_fed c2 (sha_pad msg)" by simp
  then have "sh_state c2 = hash_blocks sha_compress ?init (sha_pad msg)"
    using absorb_blocks [of "[]" sha_compress "sha_pad msg" ?init] by (auto simp: sha_fed_def split: prod.splits)
  moreover have "snd (SHA_final ctx) = (case sh_state c2 of (s0, s1, s2, s3, s4) \<Rightarrow> concat (map be32_enc [s0, s1, s2, s3, s4]) @ drop 20 (sh_buf c2))"
    unfolding SHA_final_def Let_def c2_def c1_def part_def cnt_def by (simp split: prod.splits)
  ultimately show ?thesis by (simp add: sha1_def split: prod.splits)
qed

lemma sha1_streaming:
  assumes "length (sh_buf ctx) = 64"
  shows "take 20 (snd (SHA_final (foldl SHA_update (SHA_init ctx) parts))) = sha1 (concat parts)"
  using sha_final_digest [OF sha.feed_all [OF sha_init_fed [OF assms]]] by simp

lemma SHA_correct: "length (sh_buf ctx) = 64 \<Longrightarrow> SHA ctx data = sha1 data"
  using sha1_streaming [of ctx "[data]"] by (simp add: SHA_def)

lemma length_sha1 [simp]: "length (sha1 msg) = 20"
  by (simp add: sha1_def split: prod.splits)

end
