(* ===== verification/Md5.thy ===== *)
theory Md5
  imports Block_Stream
begin

text \<open>
  The message digest of \<open>utils/md5.c\<close>: the compression function with its four rounds, and the
  streaming interface that collects bytes into blocks of 64, counts bits in two 32-bit words
  and pads the message at the end. The reference is the digest as specified in RFC 1321: pad the whole message, cut it
  into blocks and compress them one after another.
\<close>

section \<open>The compression function\<close>

definition md5_F :: "u32 \<Rightarrow> u32 \<Rightarrow> u32 \<Rightarrow> u32" where
  "md5_F x y z = (x AND y) OR (NOT x AND z)"

definition md5_G :: "u32 \<Rightarrow> u32 \<Rightarrow> u32 \<Rightarrow> u32" where
  "md5_G x y z = (x AND z) OR (y AND NOT z)"

definition md5_H :: "u32 \<Rightarrow> u32 \<Rightarrow> u32 \<Rightarrow> u32" where
  "md5_H x y z = x XOR y XOR z"

definition md5_I :: "u32 \<Rightarrow> u32 \<Rightarrow> u32 \<Rightarrow> u32" where
  "md5_I x y z = y XOR (x OR NOT z)"

definition ROTATE_LEFT :: "u32 \<Rightarrow> nat \<Rightarrow> u32" where
  "ROTATE_LEFT x n = push_bit n x OR drop_bit (32 - n) x"

definition FF :: "u32 \<Rightarrow> u32 \<Rightarrow> u32 \<Rightarrow> u32 \<Rightarrow> u32 \<Rightarrow> nat \<Rightarrow> u32 \<Rightarrow> u32" where
  "FF a b c d x s ac = ROTATE_LEFT (a + (md5_F b c d + x + ac)) s + b"

definition GG :: "u32 \<Rightarrow> u32 \<Rightarrow> u32 \<Rightarrow> u32 \<Rightarrow> u32 \<Rightarrow> nat \<Rightarrow> u32 \<Rightarrow> u32" where
  "GG a b c d x s ac = ROTATE_LEFT (a + (md5_G b c d + x + ac)) s + b"

definition HH :: "u32 \<Rightarrow> u32 \<Rightarrow> u32 \<Rightarrow> u32 \<Rightarrow> u32 \<Rightarrow> nat \<Rightarrow> u32 \<Rightarrow> u32" where
  "HH a b c d x s ac = ROTATE_LEFT (a + (md5_H b c d + x + ac)) s + b"

definition II :: "u32 \<Rightarrow> u32 \<Rightarrow> u32 \<Rightarrow> u32 \<Rightarrow> u32 \<Rightarrow> nat \<Rightarrow> u32 \<Rightarrow> u32" where
  "II a b c d x s ac = ROTATE_LEFT (a + (md5_I b c d + x + ac)) s + b"

definition S11 :: nat where
  "S11 = 7"

definition S12 :: nat where
  "S12 = 12"

definition S13 :: nat where
  "S13 = 17"

definition S14 :: nat where
  "S14 = 22"

definition S21 :: nat where
  "S21 = 5"

definition S22 :: nat where
  "S22 = 9"

definition S23 :: nat where
  "S23 = 14"

definition S24 :: nat where
  "S24 = 20"

definition S31 :: nat where
  "S31 = 4"

definition S32 :: nat where
  "S32 = 11"

definition S33 :: nat where
  "S33 = 16"

definition S34 :: nat where
  "S34 = 23"

definition S41 :: nat where
  "S41 = 6"

definition S42 :: nat where
  "S42 = 10"

definition S43 :: nat where
  "S43 = 15"

definition S44 :: nat where
  "S44 = 21"

definition Transform_FF :: "u32 list \<Rightarrow> u32 \<times> u32 \<times> u32 \<times> u32 \<Rightarrow> u32 \<times> u32 \<times> u32 \<times> u32" where
  "Transform_FF x abcd =
     (case abcd of (a, b, c, d) \<Rightarrow>
      let a = FF a b c d (x ! 0) S11 3614090360; d = FF d a b c (x ! 1) S12 3905402710;
          c = FF c d a b (x ! 2) S13 606105819; b = FF b c d a (x ! 3) S14 3250441966;
          a = FF a b c d (x ! 4) S11 4118548399; d = FF d a b c (x ! 5) S12 1200080426;
          c = FF c d a b (x ! 6) S13 2821735955; b = FF b c d a (x ! 7) S14 4249261313;
          a = FF a b c d (x ! 8) S11 1770035416; d = FF d a b c (x ! 9) S12 2336552879;
          c = FF c d a b (x ! 10) S13 4294925233; b = FF b c d a (x ! 11) S14 2304563134;
          a = FF a b c d (x ! 12) S11 1804603682; d = FF d a b c (x ! 13) S12 4254626195;
          c = FF c d a b (x ! 14) S13 2792965006; b = FF b c d a (x ! 15) S14 1236535329
      in (a, b, c, d))"

definition Transform_GG :: "u32 list \<Rightarrow> u32 \<times> u32 \<times> u32 \<times> u32 \<Rightarrow> u32 \<times> u32 \<times> u32 \<times> u32" where
  "Transform_GG x abcd =
     (case abcd of (a, b, c, d) \<Rightarrow>
      let a = GG a b c d (x ! 1) S21 4129170786; d = GG d a b c (x ! 6) S22 3225465664;
          c = GG c d a b (x ! 11) S23 643717713; b = GG b c d a (x ! 0) S24 3921069994;
          a = GG a b c d (x ! 5) S21 3593408605; d = GG d a b c (x ! 10) S22 38016083;
          c = GG c d a b (x ! 15) S23 3634488961; b = GG b c d a (x ! 4) S24 3889429448;
          a = GG a b c d (x ! 9) S21 568446438; d = GG d a b c (x ! 14) S22 3275163606;
          c = GG c d a b (x ! 3) S23 4107603335; b = GG b c d a (x ! 8) S24 1163531501;
          a = GG a b c d (x ! 13) S21 2850285829; d = GG d a b c (x ! 2) S22 4243563512;
          c = GG c d a b (x ! 7) S23 1735328473; b = GG b c d a (x ! 12) S24 2368359562
      in (a, b, c, d))"

definition Transform_HH :: "u32 list \<Rightarrow> u32 \<times> u32 \<times> u32 \<times> u32 \<Rightarrow> u32 \<times> u32 \<times> u32 \<times> u32" where
  "Transform_HH x abcd =
     (case abcd of (a, b, c, d) \<Rightarrow>
      let a = HH a b c d (x ! 5) S31 4294588738; d = HH d a b c (x ! 8) S32 2272392833;
          c = HH c d a b (x ! 11) S33 1839030562; b = HH b c d a (x ! 14) S34 4259657740;
          a = HH a b c d (x ! 1) S31 2763975236; d = HH d a b c (x ! 4) S32 1272893353;
          c = HH c d a b (x ! 7) S33 4139469664; b = HH b c d a (x ! 10) S34 3200236656;
          a = HH a b c d (x ! 13) S31 681279174; d = HH d a b c (x ! 0) S32 3936430074;
          c = HH c d a b (x ! 3) S33 3572445317; b = HH b c d a (x ! 6) S34 76029189;
          a = HH a b c d (x ! 9) S31 3654602809; d = HH d a b c (x ! 12) S32 3873151461;
          c = HH c d a b (x ! 15) S33 530742520; b = HH b c d a (x ! 2) S34 3299628645
      in (a, b, c, d))"

definition Transform_II :: "u32 list \<Rightarrow> u32 \<times> u32 \<times> u32 \<times> u32 \<Rightarrow> u32 \<times> u32 \<times> u32 \<times> u32" where
  "Transform_II x abcd =
     (case abcd of (a, b, c, d) \<Rightarrow>
      let a = II a b c d (x ! 0) S41 4096336452; d = II d a b c (x ! 7) S42 1126891415;
          c = II c d a b (x ! 14) S43 2878612391; b = II b c d a (x ! 5) S44 4237533241;
          a = II a b c d (x ! 12) S41 1700485571; d = II d a b c (x ! 3) S42 2399980690;
          c = II c d a b (x ! 10) S43 4293915773; b = II b c d a (x ! 1) S44 2240044497;
          a = II a b c d (x ! 8) S41 1873313359; d = II d a b c (x ! 15) S42 4264355552;
          c = II c d a b (x ! 6) S43 2734768916; b = II b c d a (x ! 13) S44 1309151649;
          a = II a b c d (x ! 4) S41 4149444226; d = II d a b c (x ! 11) S42 3174756917;
          c = II c d a b (x ! 2) S43 718787259; b = II b c d a (x ! 9) S44 3951481745
      in (a, b, c, d))"

definition Transform :: "u32 \<times> u32 \<times> u32 \<times> u32 \<Rightarrow> u32 list \<Rightarrow> u32 \<times> u32 \<times> u32 \<times> u32" where
  "Transform buf x =
     (case (buf, Transform_II x (Transform_HH x (Transform_GG x (Transform_FF x buf)))) of
        ((b0, b1, b2, b3), (a, b, c, d)) \<Rightarrow> (b0 + a, b1 + b, b2 + c, b3 + d))"

section \<open>The streaming interface\<close>

record MD5_CTX =
  md_i0 :: u32
  md_i1 :: u32
  md_buf :: "u32 \<times> u32 \<times> u32 \<times> u32"
  md_in :: "byte list"
  md_digest :: "byte list"

definition PADDING :: "byte list" where
  "PADDING = 0x80 # replicate 63 0"

definition MD5_Init :: "MD5_CTX \<Rightarrow> MD5_CTX" where
  "MD5_Init ctx = ctx\<lparr>md_i0 := 0, md_i1 := 0, md_buf := (0x67452301, 0xefcdab89, 0x98badcfe, 0x10325476)\<rparr>"

text \<open>The words of the first \<open>n\<close> groups of four bytes, the lowest byte first.\<close>

definition md5_words :: "nat \<Rightarrow> byte list \<Rightarrow> u32 list" where
  "md5_words n bs = map (\<lambda>i. le32_dec (take 4 (drop (4 * i) bs))) [0..<n]"

definition md5_mdi :: "MD5_CTX \<Rightarrow> nat" where
  "md5_mdi ctx = unat (drop_bit 3 (md_i0 ctx) AND 0x3F)"

fun update_loop :: "nat \<Rightarrow> byte list \<Rightarrow> MD5_CTX \<Rightarrow> MD5_CTX" where
  "update_loop mdi [] ctx = ctx"
| "update_loop mdi (c # inBuf) ctx =
     (let ctx = ctx\<lparr>md_in := (md_in ctx)[mdi := c]\<rparr> in
      if mdi + 1 = 0x40
      then update_loop 0 inBuf (ctx\<lparr>md_buf := Transform (md_buf ctx) (md5_words 16 (md_in ctx))\<rparr>)
      else update_loop (mdi + 1) inBuf ctx)"

definition MD5_Update :: "MD5_CTX \<Rightarrow> byte list \<Rightarrow> MD5_CTX" where
  "MD5_Update ctx inBuf =
     (let inLen = word_of_nat (length inBuf) :: u32;
          mdi = md5_mdi ctx;
          i1 = (if md_i0 ctx + push_bit 3 inLen < md_i0 ctx then md_i1 ctx + 1 else md_i1 ctx)
      in update_loop mdi inBuf (ctx\<lparr>md_i0 := md_i0 ctx + push_bit 3 inLen, md_i1 := i1 + drop_bit 29 inLen\<rparr>))"

definition md5_digest :: "u32 \<times> u32 \<times> u32 \<times> u32 \<Rightarrow> byte list" where
  "md5_digest buf = (case buf of (b0, b1, b2, b3) \<Rightarrow> concat (map le32_enc [b0, b1, b2, b3]))"

definition MD5_Final :: "MD5_CTX \<Rightarrow> MD5_CTX" where
  "MD5_Final ctx =
     (let len_words = [md_i0 ctx, md_i1 ctx];
          mdi = md5_mdi ctx;
          padLen = (if mdi < 56 then 56 - mdi else 120 - mdi);
          ctx = MD5_Update ctx (take padLen PADDING);
          buf = Transform (md_buf ctx) (md5_words 14 (md_in ctx) @ len_words)
      in ctx\<lparr>md_buf := buf, md_digest := md5_digest buf\<rparr>)"

section \<open>The reference\<close>

definition md5_compress :: "u32 \<times> u32 \<times> u32 \<times> u32 \<Rightarrow> byte list \<Rightarrow> u32 \<times> u32 \<times> u32 \<times> u32" where
  "md5_compress buf block = Transform buf (md5_words 16 block)"

definition md5_pad :: "byte list \<Rightarrow> byte list" where
  "md5_pad msg = msg @ 0x80 # replicate ((119 - length msg mod 64) mod 64) 0 @
     le32_enc (word_of_nat (8 * length msg)) @ le32_enc (word_of_nat (8 * length msg div 2 ^ 32))"

definition md5 :: "byte list \<Rightarrow> byte list" where
  "md5 msg = md5_digest (hash_blocks md5_compress (0x67452301, 0xefcdab89, 0x98badcfe, 0x10325476) (md5_pad msg))"

section \<open>Absorbing bytes\<close>

text \<open>The context after a stream: chaining value and open block.\<close>

definition ctx_holds :: "MD5_CTX \<Rightarrow> (u32 \<times> u32 \<times> u32 \<times> u32) \<times> byte list \<Rightarrow> bool" where
  "ctx_holds ctx st \<longleftrightarrow> md_buf ctx = fst st \<and> open_block (md_in ctx) (snd st)"

lemma update_loop_absorbs:
  assumes "ctx_holds ctx (buf, p)"
  shows "ctx_holds (update_loop (length p) cs ctx) (fold (absorb md5_compress) cs (buf, p)) \<and>
         md_i0 (update_loop (length p) cs ctx) = md_i0 ctx \<and> md_i1 (update_loop (length p) cs ctx) = md_i1 ctx"
  using assms
proof (induction cs arbitrary: ctx buf p)
  case (Cons c cs)
  let ?in = "(md_in ctx)[length p := c]"
  have ob: "open_block (md_in ctx) p" using Cons.prems by (simp add: ctx_holds_def)
  show ?case
  proof (cases "length p + 1 = 64")
    case True
    then have "ctx_holds (ctx\<lparr>md_in := ?in, md_buf := Transform (md_buf ctx) (md5_words 16 ?in)\<rparr>) (md5_compress buf (p @ [c]), [])"
      using Cons.prems open_block_put(1) [OF ob True] ob by (simp add: ctx_holds_def open_block_def md5_compress_def)
    from Cons.IH [OF this] show ?thesis using True by (simp add: Let_def)
  next
    case False
    then have "ctx_holds (ctx\<lparr>md_in := ?in\<rparr>) (buf, p @ [c])"
      using Cons.prems open_block_put(2) [OF ob] by (simp add: ctx_holds_def)
    from Cons.IH [OF this] show ?thesis using False by (simp add: Let_def)
  qed
qed simp

section \<open>Counting bits\<close>

lemma unat_of_nat_u32: "unat (word_of_nat n :: u32) = n mod 2 ^ 32"
  by (simp add: unsigned_of_nat take_bit_eq_mod)

lemma add_div_carry:
  fixes a b m :: nat
  assumes "0 < m"
  shows "(a + b) div m = a div m + b div m + (if (a mod m + b mod m) mod m < a mod m then 1 else 0)"
proof -
  have "(a + b) div m = a div m + b div m + (a mod m + b mod m) div m" by (rule div_add1_eq)
  moreover have "(a mod m + b mod m) div m = (if (a mod m + b mod m) mod m < a mod m then 1 else 0)"
  proof (cases "a mod m + b mod m < m")
    case False
    have lt: "a mod m < m" "b mod m < m" using assms by simp_all
    define r where "r = a mod m + b mod m - m"
    have r: "a mod m + b mod m = m + r" "r < m" "r < a mod m" using False lt unfolding r_def by linarith+
    then show ?thesis using assms by (simp add: div_add_self1)
  qed simp
  ultimately show ?thesis by simp
qed

text \<open>The two words are the length of the message in bits.\<close>

definition counts :: "MD5_CTX \<Rightarrow> nat \<Rightarrow> bool" where
  "counts ctx n \<longleftrightarrow> md_i0 ctx = word_of_nat (8 * n) \<and> md_i1 ctx = word_of_nat (8 * n div 2 ^ 32)"

lemma counts_add:
  assumes "counts ctx n" and "k < 2 ^ 32"
  defines "w \<equiv> word_of_nat k :: u32"
  shows "md_i0 ctx + push_bit 3 w = word_of_nat (8 * (n + k))"
    and "(if md_i0 ctx + push_bit 3 w < md_i0 ctx then md_i1 ctx + 1 else md_i1 ctx) + drop_bit 29 w = word_of_nat (8 * (n + k) div 2 ^ 32)"
proof -
  have p: "push_bit 3 w = word_of_nat (8 * k)" by (simp add: w_def push_bit_eq_mult)
  then show i0: "md_i0 ctx + push_bit 3 w = word_of_nat (8 * (n + k))"
    using assms(1) by (simp add: counts_def algebra_simps)
  have carry: "md_i0 ctx + push_bit 3 w < md_i0 ctx \<longleftrightarrow>
      ((8 * n) mod 2 ^ 32 + (8 * k) mod 2 ^ 32) mod 2 ^ 32 < (8 * n) mod 2 ^ 32"
    unfolding i0 using assms(1) by (simp add: counts_def word_less_nat_alt unat_of_nat_u32 mod_simps algebra_simps del: of_nat_mult of_nat_add)
  have d: "drop_bit 29 w = word_of_nat (8 * k div 2 ^ 32)"
  proof (rule word_unat_eq_iff [THEN iffD2])
    have "unat w = k" using assms(2) by (simp add: w_def unat_of_nat_u32)
    then have "unat (drop_bit 29 w) = k div 2 ^ 29" by (simp add: drop_bit_eq_div unat_div)
    moreover have "k div 2 ^ 29 < 2 ^ 32" using assms(2) by simp
    ultimately show "unat (drop_bit 29 w) = unat (word_of_nat (8 * k div 2 ^ 32) :: u32)"
      unfolding unat_of_nat_u32 by simp
  qed
  define q r b where "q = 8 * n div 2 ^ 32" and "r = 8 * k div 2 ^ 32"
    and "b \<longleftrightarrow> ((8 * n) mod 2 ^ 32 + (8 * k) mod 2 ^ 32) mod 2 ^ 32 < (8 * n) mod 2 ^ 32"
  have total: "8 * (n + k) div 2 ^ 32 = q + r + (if b then 1 else 0)"
    unfolding distrib_left q_def r_def b_def by (rule add_div_carry) simp
  have i1: "md_i1 ctx = word_of_nat q" using assms(1) by (simp add: counts_def q_def)
  show "(if md_i0 ctx + push_bit 3 w < md_i0 ctx then md_i1 ctx + 1 else md_i1 ctx) + drop_bit 29 w = word_of_nat (8 * (n + k) div 2 ^ 32)"
    unfolding total i1 carry [folded b_def] d [folded r_def] by (cases b) simp_all
qed

lemma counts_mdi: "counts ctx n \<Longrightarrow> md5_mdi ctx = n mod 64"
proof -
  assume "counts ctx n"
  then have "md5_mdi ctx = unat (take_bit 6 (drop_bit 3 (word_of_nat (8 * n) :: u32)))"
    by (simp add: md5_mdi_def counts_def take_bit_eq_mask mask_eq_exp_minus_1)
  also have "\<dots> = (8 * n) mod 2 ^ 32 div 8 mod 64"
    unfolding unsigned_take_bit_eq unat_drop_bit_eq unat_of_nat_u32 by (simp add: take_bit_eq_mod drop_bit_eq_div)
  also have "\<dots> = n mod 64"
  proof -
    have "(8 * n) mod (8 * 2 ^ 29) = 8 * (n mod 2 ^ 29)" by (rule mult_mod_right [symmetric])
    then have "(8 * n) mod 2 ^ 32 div 8 = n mod 2 ^ 29" by simp
    then show ?thesis by (simp add: mod_mod_cancel)
  qed
  finally show ?thesis .
qed

section \<open>The whole digest\<close>

text \<open>The state of a context that has been fed the message.\<close>

definition md5_state :: "MD5_CTX \<Rightarrow> byte list \<Rightarrow> bool" where
  "md5_state ctx msg \<longleftrightarrow> counts ctx (length msg) \<and>
     ctx_holds ctx (fold (absorb md5_compress) msg ((0x67452301, 0xefcdab89, 0x98badcfe, 0x10325476), []))"

lemma md5_init_state: "length (md_in ctx) = 64 \<Longrightarrow> md5_state (MD5_Init ctx) []"
  by (simp add: md5_state_def counts_def ctx_holds_def open_block_def MD5_Init_def)

lemma md5_update_state:
  assumes "md5_state ctx msg" and "length data < 2 ^ 32"
  shows "md5_state (MD5_Update ctx data) (msg @ data)"
proof -
  let ?init = "(0x67452301, 0xefcdab89, 0x98badcfe, 0x10325476) :: u32 \<times> u32 \<times> u32 \<times> u32"
  obtain buf p where st: "fold (absorb md5_compress) msg (?init, []) = (buf, p)" by (cases "fold (absorb md5_compress) msg (?init, [])")
  have p: "length p = length msg mod 64" using absorb_open [of "[]" md5_compress msg ?init] st by simp
  define ctx' where "ctx' = ctx\<lparr>md_i0 := word_of_nat (8 * (length msg + length data)),
    md_i1 := word_of_nat (8 * (length msg + length data) div 2 ^ 32)\<rparr>"
  have counts: "counts ctx (length msg)" using assms(1) by (simp add: md5_state_def)
  have upd: "MD5_Update ctx data = update_loop (length p) data ctx'"
    unfolding MD5_Update_def Let_def counts_add(2) [OF counts assms(2)]
    unfolding counts_add(1) [OF counts assms(2)] counts_mdi [OF counts] p ctx'_def ..
  have "ctx_holds ctx' (buf, p)" using assms(1) st by (simp add: md5_state_def ctx_holds_def ctx'_def)
  from update_loop_absorbs [OF this, of data] p show ?thesis
    by (simp add: md5_state_def upd st counts_def ctx'_def)
qed

interpretation md5: byte_stream md5_state MD5_Update "\<lambda>data. length data < 2 ^ 32"
  by unfold_locales (rule md5_update_state)

lemma md5_words_append:
  assumes "length p = 56"
  shows "md5_words 16 (p @ le32_enc a @ le32_enc b) = md5_words 14 p @ [a, b]"
proof -
  have "[0..<16] = [0..<14] @ [14, 15 :: nat]" by (simp add: upt_rec)
  moreover have "take 4 (drop (4 * i) (p @ le32_enc a @ le32_enc b)) = take 4 (drop (4 * i) p)" if "i < 14" for i
    using that assms by simp
  ultimately show ?thesis using assms by (simp add: md5_words_def)
qed

text \<open>The padding up to the length is the beginning of \<open>PADDING\<close>.\<close>

lemma padding_take:
  fixes n :: nat
  defines "k \<equiv> if n mod 64 < 56 then 56 - n mod 64 else 120 - n mod 64"
  shows "take k PADDING = 0x80 # replicate ((119 - n mod 64) mod 64) 0" and "(n + k) mod 64 = 56" and "length (take k PADDING) = k"
proof -
  have lt: "n mod 64 < 64" by simp
  have k: "0 < k" "k \<le> 64" unfolding k_def using lt by (auto simp: not_less) 
  have "k - 1 = (119 - n mod 64) mod 64"
  proof (cases "n mod 64 < 56")
    case True
    then have "119 - n mod 64 = (55 - n mod 64) + 64" by simp
    then have "(119 - n mod 64) mod 64 = (55 - n mod 64) mod 64" by (metis mod_add_self2)
    then show ?thesis using True by (simp add: k_def)
  qed (simp add: k_def)
  then show "take k PADDING = 0x80 # replicate ((119 - n mod 64) mod 64) 0" using k by (cases k) (simp_all add: PADDING_def min_def)
  show "length (take k PADDING) = k" using k by (simp add: PADDING_def)
  have "(n mod 64 + k) mod 64 = 56"
    unfolding k_def using lt by (cases "n mod 64 < 56") simp_all
  then show "(n + k) mod 64 = 56" by (simp add: mod_simps)
qed

lemma md5_final_digest:
  assumes "md5_state ctx msg"
  shows "md_digest (MD5_Final ctx) = md5 msg"
proof -
  let ?init = "(0x67452301, 0xefcdab89, 0x98badcfe, 0x10325476) :: u32 \<times> u32 \<times> u32 \<times> u32"
  define k where "k = (if length msg mod 64 < 56 then 56 - length msg mod 64 else 120 - length msg mod 64)"
  define pad where "pad = take k PADDING"
  note pd = padding_take [of "length msg", folded k_def, folded pad_def]
  have counts: "counts ctx (length msg)" using assms by (simp add: md5_state_def)
  have "length pad < 2 ^ 32" unfolding pad_def PADDING_def by simp
  then have st: "md5_state (MD5_Update ctx pad) (msg @ pad)" using md5_update_state assms by blast
  obtain buf p where fold: "fold (absorb md5_compress) (msg @ pad) (?init, []) = (buf, p)" by (cases "fold (absorb md5_compress) (msg @ pad) (?init, [])")
  have p: "length p = 56" using absorb_open [of "[]" md5_compress "msg @ pad" ?init] fold pd(2,3) by simp
  let ?c = "MD5_Update ctx pad"
  have c: "md_buf ?c = buf" "take 56 (md_in ?c) = p" "length (md_in ?c) = 64"
    using st fold p by (auto simp: md5_state_def ctx_holds_def open_block_def)
  have words: "md5_words 14 (md_in ?c) = md5_words 14 p"
    unfolding md5_words_def c(2) [symmetric] by (rule map_cong) (simp_all add: drop_take min_def)
  have full: "md5_pad msg = (msg @ pad) @ le32_enc (md_i0 ctx) @ le32_enc (md_i1 ctx)"
    using counts pd(1) by (simp add: md5_pad_def counts_def)
  have "hash_blocks md5_compress ?init (md5_pad msg) = fst (fold (absorb md5_compress) (le32_enc (md_i0 ctx) @ le32_enc (md_i1 ctx)) (buf, p))"
    using absorb_blocks [of "[]" md5_compress "md5_pad msg" ?init] unfolding full fold_append comp_apply fold [unfolded fold_append comp_apply] by simp
  also have "\<dots> = hash_blocks md5_compress buf (p @ le32_enc (md_i0 ctx) @ le32_enc (md_i1 ctx))" using p by (intro absorb_blocks) simp
  also have "\<dots> = Transform buf (md5_words 14 p @ [md_i0 ctx, md_i1 ctx])"
    using p by (subst hash_blocks.simps, subst hash_blocks.simps) (simp add: md5_compress_def md5_words_append)
  finally have ref: "md5 msg = md5_digest (Transform buf (md5_words 14 p @ [md_i0 ctx, md_i1 ctx]))" by (simp add: md5_def)
  have "md_digest (MD5_Final ctx) = md5_digest (Transform (md_buf ?c) (md5_words 14 (md_in ?c) @ [md_i0 ctx, md_i1 ctx]))"
    unfolding MD5_Final_def Let_def counts_mdi [OF counts] k_def [symmetric] pad_def by simp
  then show ?thesis unfolding ref words c(1) .
qed

text \<open>
  C22. However a message is split over calls of \<open>MD5_Update\<close>, each of fewer than \<open>2 ^ 32\<close>
  bytes, the digest \<open>MD5_Final\<close> leaves in the context is that of the whole message by the
  specification: padded with a one bit, zeros and its 64-bit length, and compressed block by block.
\<close>

theorem md5_streaming:
  assumes "length (md_in ctx) = 64" and "\<forall>part\<in>set parts. length part < 2 ^ 32"
  shows "md_digest (MD5_Final (foldl MD5_Update (MD5_Init ctx) parts)) = md5 (concat parts)"
  using md5_final_digest [OF md5.feed_all [OF md5_init_state [OF assms(1)] assms(2)]] by simp

theorem md5_streaming_witness:
  "md_digest (MD5_Final (MD5_Update (MD5_Update (MD5_Init
      \<lparr>md_i0 = 7, md_i1 = 9, md_buf = (0, 0, 0, 0), md_in = replicate 64 0, md_digest = []\<rparr>) [97]) [98, 99]))
   = md5 [97, 98, 99]"
  using md5_streaming [of "\<lparr>md_i0 = 7, md_i1 = 9, md_buf = (0, 0, 0, 0), md_in = replicate 64 0, md_digest = []\<rparr>" "[[97], [98, 99]]"]
  by simp

end
