(* ===== verification/Hashkey.thy ===== *)
theory Hashkey
  imports Sha Md5
begin

text \<open>
  The password hash of \<open>utils/hashkey.c\<close>: SHA-1, then MD5 of the SHA-1 digest padded to 32
  bytes, then hexadecimal digits. The digests start in contexts on the stack whose other
  contents do not matter; the model takes them as zero.
\<close>

section \<open>The program\<close>

text \<open>A length that is not positive stands for that of the C string.\<close>

definition key_arg :: "mem \<Rightarrow> int \<Rightarrow> byte list res" where
  "key_arg inbuf inlen = bindR (if inlen \<le> 0 then mem_strlen inbuf else Inr inlen) (mem_read inbuf 0)"

definition gen_sha1_key :: "mem \<Rightarrow> int \<Rightarrow> byte list res" where
  "gen_sha1_key inbuf inlen =
     bindR (key_arg inbuf inlen) (\<lambda>data.
       let ctx = SHA_update (SHA_init \<lparr>sh_count = 0, sh_buf = replicate 64 0, sh_state = (0, 0, 0, 0, 0)\<rparr>) data
       in Inr (take 20 (snd (SHA_final ctx))))"

definition gen_md5_key :: "mem \<Rightarrow> int \<Rightarrow> byte list res" where
  "gen_md5_key inbuf inlen =
     bindR (key_arg inbuf inlen) (\<lambda>data.
       let ctx = MD5_Update (MD5_Init \<lparr>md_i0 = 0, md_i1 = 0, md_buf = (0, 0, 0, 0), md_in = replicate 64 0,
                                        md_digest = replicate 16 0\<rparr>) data
       in Inr (take 16 (md_digest (MD5_Final ctx))))"

text \<open>\<open>sprintf\<close> with \<open>%02X\<close>.\<close>

definition hex_digit :: "byte \<Rightarrow> byte" where
  "hex_digit d = (if d < 10 then 48 + d else 55 + d)"

definition hex_high :: "byte \<Rightarrow> byte" where
  "hex_high c = hex_digit (drop_bit 4 c)"

definition hex_low :: "byte \<Rightarrow> byte" where
  "hex_low c = hex_digit (c AND 0xf)"

text \<open>The loop of \<open>gen_hash_key\<close>: two characters are stored and the pointer moves on by one.\<close>

fun hex_loop :: "nat \<Rightarrow> byte list \<Rightarrow> byte list \<Rightarrow> byte list" where
  "hex_loop i [] md = md"
| "hex_loop i (c # cs) md = hex_loop (i + 1) cs (md[i := hex_high c, i + 1 := hex_low c])"

definition gen_hash_key :: "byte list \<Rightarrow> mem \<Rightarrow> int \<Rightarrow> byte list res" where
  "gen_hash_key md inbuf inlen =
     bindR (gen_sha1_key inbuf inlen) (\<lambda>sha.
       let sha256 = sha @ drop (length sha) (replicate 32 0) in
       bindR (gen_md5_key (map Some sha256) (int (length sha256))) (\<lambda>md5.
         if length md < length md5 + 1 then Inl OutOfBounds else Inr (hex_loop 0 md5 md)))"

text \<open>\<open>gen_random_key\<close> hashes the text of the current time.\<close>

definition gen_random_key :: "byte list \<Rightarrow> byte list \<Rightarrow> byte list res" where
  "gen_random_key curtime key = gen_hash_key key (map Some (curtime @ [0])) (-1)"

section \<open>The digests\<close>

lemma length_md5 [simp]: "length (md5 msg) = 16"
  by (simp add: md5_def md5_digest_def split: prod.splits)

lemma gen_sha1_key_ok: "key_arg inbuf inlen = Inr data \<Longrightarrow> gen_sha1_key inbuf inlen = Inr (sha1 data)"
  using sha_final_digest [OF sha_update_fed [OF sha_init_fed], of _ data]
  by (simp add: gen_sha1_key_def)

lemma gen_md5_key_ok:
  "key_arg inbuf inlen = Inr data \<Longrightarrow> length data < 2 ^ 32 \<Longrightarrow> gen_md5_key inbuf inlen = Inr (md5 data)"
  using md5_final_digest [OF md5_update_state [OF md5_init_state], of _ data]
  by (simp add: gen_md5_key_def)

lemma key_arg_string: "0 \<notin> set s \<Longrightarrow> key_arg (map Some (s @ [0])) (-1) = Inr s"
  using mem_strlen_terminated [of s "[]"] by (auto simp: key_arg_def mem_read_def Let_def comp_def)

section \<open>The digits\<close>

lemma hex_loop_digits:
  assumes "i + length cs < length md" and "cs \<noteq> []"
  shows "hex_loop i cs md = take i md @ map hex_high cs @ hex_low (last cs) # drop (i + length cs + 1) md"
  using assms
proof (induction cs arbitrary: i md)
  case (Cons c cs)
  let ?md = "md[i := hex_high c, i + 1 := hex_low c]"
  show ?case
  proof (cases "cs = []")
    case True
    have lt: "i < length md" "Suc i < length md" using Cons.prems True by simp_all
    have "md[i := hex_high c] = take i md @ hex_high c # md ! Suc i # drop (Suc (Suc i)) md"
      using lt by (simp add: upd_conv_take_nth_drop Cons_nth_drop_Suc)
    then have "?md = take i md @ hex_high c # hex_low c # drop (Suc (Suc i)) md"
      using lt by (simp add: list_update_append)
    then show ?thesis using True by simp
  next
    case False
    have "take (i + 1) ?md = take i md @ [hex_high c]"
      using Cons.prems by (simp add: take_Suc_conv_app_nth)
    then show ?thesis using Cons.IH [of "i + 1" ?md] Cons.prems False by simp
  qed
qed simp

lemma gen_hash_key_spec_core:
  assumes "0 \<notin> set pwd" and "length md = 33"
  shows "gen_hash_key md (map Some (pwd @ [0])) (-1) =
         (let d = md5 (sha1 pwd @ replicate 12 0) in Inr (map hex_high d @ hex_low (last d) # drop 17 md))"
proof -
  let ?s = "sha1 pwd @ replicate 12 (0 :: byte)"
  have pad: "sha1 pwd @ drop (length (sha1 pwd)) (replicate 32 0) = ?s" by simp
  have arg: "key_arg (map Some ?s) (int (length ?s)) = Inr ?s"
    by (simp add: key_arg_def del: map_append length_append)
  have ne: "md5 ?s \<noteq> []" using length_md5 [of ?s] by (metis list.size(3) zero_neq_numeral)
  have "gen_hash_key md (map Some (pwd @ [0])) (-1) = Inr (hex_loop 0 (md5 ?s) md)"
    using gen_sha1_key_ok [OF key_arg_string [OF assms(1)]] gen_md5_key_ok [OF arg] assms(2)
    by (simp add: gen_hash_key_def Let_def pad del: map_append length_append length_replicate) simp
  then show ?thesis using hex_loop_digits [of 0 "md5 ?s" md] assms(2) ne by (simp add: Let_def)
qed

section \<open>Property\<close>

text \<open>
  For a password without NUL of any length, \<open>gen_hash_key\<close> writes seventeen
  characters: the high hexadecimal digit of every byte of MD5(SHA-1(password), padded with zeros to 32
  bytes) and the low digit of its last byte. Whatever the buffer held behind them stays: for a
  caller that terminates it at 32 the hash ends in bytes the function has not written.
\<close>

theorem gen_hash_key_spec:
  assumes "0 \<notin> set pwd" and "length md = 33"
  shows "gen_hash_key md (map Some (pwd @ [0])) (-1) =
         (let d = md5 (sha1 pwd @ replicate 12 0) in Inr (map hex_high d @ hex_low (last d) # drop 17 md))"
  by (rule gen_hash_key_spec_core [OF assms])

theorem gen_hash_key_spec_witness:
  "gen_hash_key (replicate 33 7) (map Some ([49, 50, 51] @ [0])) (-1) =
   (let d = md5 (sha1 [49, 50, 51] @ replicate 12 0) in Inr (map hex_high d @ hex_low (last d) # replicate 16 7))"
  using gen_hash_key_spec [of "[49, 50, 51]" "replicate 33 7"] by simp

end
