(* ===== verification/Db_Account.thy ===== *)
theory Db_Account
  imports Db_Sql Hashkey
begin

text \<open>
  The account database, \<open>service/db/db_account.c\<close>: administrators with a license, child
  accounts that belong to an administrator, and devices. An operation takes the engine and
  the database and returns the new database with its result. Outputs behind pointers that may be null are asked for by
  a flag. \<open>stk\<close> is what the stack holds where a password hash is put: \<open>gen_hash_key\<close>
  fills only the first seventeen of 32 characters. Without \<open>NDEBUG\<close> failing assertions
  would stop the program; here it goes on, as the release build does.
\<close>

section \<open>Data\<close>

record db_account_license =
  li_license_type :: int
  li_licensed_time :: string
  li_expired_time :: string

definition e_license_checking :: int where
  "e_license_checking = 0"

record db_account_device =
  da_basic :: db_device_basic
  da_nickname :: string
  da_comment :: string
  da_is_top_level :: bool
  da_ref_parent_uuid :: string

section \<open>Helpers\<close>

definition char_tolower :: "char \<Rightarrow> char" where
  "char_tolower c = (let n = of_char c :: nat in if 65 \<le> n \<and> n \<le> 90 then char_of (n + 32) else c)"

definition world_tolower :: "string \<Rightarrow> string" where
  "world_tolower s = map char_tolower s"

text \<open>
  The copy of an identifier into an uninitialised array of 17 characters: \<open>strncpy\<close> of at
  most 16 does not terminate one of 16 or more.
\<close>

definition lower_copy :: "string \<Rightarrow> string res" where
  "lower_copy uuid = (if length uuid < 16 then Inr (world_tolower uuid) else Inl UseUninit)"

text \<open>
  The output \<open>ref_admin_uuid\<close> as its callers read it: \<open>strncpy\<close> of at most 16 into an
  array they have not initialised.
\<close>

definition ref_string :: "string \<Rightarrow> string res" where
  "ref_string ref_admin_uuid = (if length ref_admin_uuid < 16 then Inr ref_admin_uuid else Inl UseUninit)"

definition account_gen_hash_key :: "byte list \<Rightarrow> string \<Rightarrow> string res" where
  "account_gen_hash_key stk pwd =
     bindR (gen_hash_key (stk @ [0]) (map Some (bytes_of pwd @ [0])) (-1)) (\<lambda>md.
     Inr (string_of (takeWhile (\<lambda>b. b \<noteq> 0) md)))"

section \<open>The tables\<close>

definition db_run :: "sql_engine \<Rightarrow> sql_stmt list \<Rightarrow> sql_db \<Rightarrow> sql_db" where
  "db_run engine sts db = foldl (\<lambda>db st. fst (db_exec engine st db)) db sts"

definition db_account_ensure_table_exist :: "sql_engine \<Rightarrow> sql_db \<Rightarrow> sql_db" where
  "db_account_ensure_table_exist engine db =
     db_run engine
       [DropTable TLicense, CreateTable TLicense,
        InsertLicense 0 ''this license is now must be checking by service root.'',
        InsertLicense 1 ''this license have expired time limited.'',
        InsertLicense 2 ''this license is for ever for use'',
        CreateTable TBasic, CreateTable TAdmin, CreateTable TChild, CreateTable TPermission, CreateTable TDevice,
        CreateTable TAccountDevice] db"

definition db_account_reset :: "sql_engine \<Rightarrow> sql_db \<Rightarrow> sql_db" where
  "db_account_reset engine db =
     db_run engine
       [DropTable TLicense, DropTable TAdmin, DropTable TAdmin, DropTable TChild, DropTable TPermission, DropTable TDevice,
        DropTable TAccountDevice] db"

section \<open>Licenses and lookups\<close>

definition db_account_license_get :: "sql_engine \<Rightarrow> string \<Rightarrow> sql_db \<Rightarrow> sql_db \<times> db_account_license option" where
  "db_account_license_get engine ref_admin_uuid db =
     (if \<not> sql_create_new db then (db, None)
      else case sql_query engine (SelectAdmin ref_admin_uuid) db of
        (db, query_r, p) \<Rightarrow>
          if query_r \<noteq> e_query_row then (db, None)
          else if pa_fields p \<noteq> 5 then (db, None)
          else (case sql_fetch_row p of
                  (_, Some (AdminRow row)) \<Rightarrow>
                    (db, Some \<lparr>li_license_type = ad_license_type row, li_licensed_time = take 64 (ad_licensed_time row),
                               li_expired_time = take 64 (ad_expired_time row)\<rparr>)
                | _ \<Rightarrow> (db, None)))"

text \<open>
  The result, and the outputs \<open>b_is_admin\<close> and \<open>ref_admin_uuid\<close>, which are only computed when they are asked for.
\<close>

definition db_account_check_user_exist ::
  "sql_engine \<Rightarrow> string \<Rightarrow> bool \<Rightarrow> bool \<Rightarrow> sql_db \<Rightarrow> sql_db \<times> bool \<times> bool \<times> string" where
  "db_account_check_user_exist engine uuid want_admin want_ref db =
     (case db_exec engine (SelectBasic uuid) db of
        (db, query_r) \<Rightarrow>
          if query_r \<noteq> e_query_row then (db, False, False, [])
          else (case (if want_admin then db_account_license_get engine uuid db else (db, None)) of
                  (db, Some _) \<Rightarrow> (db, True, True, [])
                | (db, None) \<Rightarrow>
                    if \<not> want_ref \<or> \<not> sql_create_new db then (db, True, False, [])
                    else (case sql_query engine (SelectChild uuid) db of
                            (db, query_r, p) \<Rightarrow>
                              if query_r \<noteq> e_query_row \<or> pa_fields p \<noteq> 3 then (db, True, False, [])
                              else (case sql_fetch_row p of
                                      (_, Some (ChildRow row)) \<Rightarrow> (db, True, False, take 16 (ch_ref_admin_uuid row))
                                    | _ \<Rightarrow> (db, True, False, [])))))"

definition db_account_check_user_is_ok ::
  "sql_engine \<Rightarrow> byte list \<Rightarrow> string \<Rightarrow> string \<Rightarrow> bool \<Rightarrow> bool \<Rightarrow> sql_db \<Rightarrow> (sql_db \<times> bool \<times> bool \<times> string) res" where
  "db_account_check_user_is_ok engine stk uuid pwd want_admin want_ref db =
     bindR (account_gen_hash_key stk pwd) (\<lambda>hashpwd.
       case db_exec engine (SelectBasicPwd uuid hashpwd) db of
         (db, query_r) \<Rightarrow>
           if query_r \<noteq> e_query_row then Inr (db, False, False, [])
           else Inr (db_account_check_user_exist engine uuid want_admin want_ref db))"

definition db_account_license_del :: "sql_engine \<Rightarrow> string \<Rightarrow> sql_db \<Rightarrow> sql_db \<times> bool" where
  "db_account_license_del engine ref_admin_uuid db =
     (case db_account_check_user_exist engine ref_admin_uuid False False db of
        (db, r, _) \<Rightarrow>
          if \<not> r then (db, False)
          else (case db_exec engine (DeleteAdmin ref_admin_uuid) db of (db, query_r) \<Rightarrow> (db, query_r = e_query_done)))"

definition db_account_license_set :: "sql_engine \<Rightarrow> string \<Rightarrow> db_account_license \<Rightarrow> sql_db \<Rightarrow> sql_db \<times> bool" where
  "db_account_license_set engine ref_admin_uuid license db =
     (case db_account_license_get engine ref_admin_uuid db of
        (db, lic) \<Rightarrow>
          let db = (if lic \<noteq> None then fst (db_account_license_del engine ref_admin_uuid db) else db) in
          case db_exec engine (InsertAdmin ref_admin_uuid (li_license_type license) (li_licensed_time license) (li_expired_time license)) db of
            (db, query_r) \<Rightarrow> (db, query_r = e_query_done))"

definition db_account_permission_set :: "sql_db \<Rightarrow> sql_db \<times> bool" where
  "db_account_permission_set db = (db, False)"

definition db_account_permission_get :: "sql_db \<Rightarrow> sql_db \<times> bool" where
  "db_account_permission_get db = (db, False)"

section \<open>Lists of accounts\<close>

definition copy_basic :: "db_account_basic \<Rightarrow> db_account_basic" where
  "copy_basic r = \<lparr>ab_uuid = take 16 (ab_uuid r), ab_pwd = take 32 (ab_pwd r), ab_nickname = take 64 (ab_nickname r),
                   ab_comment = take 256 (ab_comment r), ab_created_time = take 64 (ab_created_time r)\<rparr>"

fun basic_rows :: "sql_row list \<Rightarrow> db_account_basic list" where
  "basic_rows [] = []"
| "basic_rows (BasicRow r # rows) = copy_basic r # basic_rows rows"
| "basic_rows (_ # rows) = basic_rows rows"

text \<open>
  The common part of the two list functions: the rows are counted in a first query and read
  in a second one. The array has as many entries as the first has rows: more rows the second
  time overrun it, fewer leave null entries for the callers; either is a fault here.
\<close>

definition account_list :: "sql_engine \<Rightarrow> sql_stmt \<Rightarrow> bool \<Rightarrow> sql_db \<Rightarrow> (sql_db \<times> (db_account_basic list \<times> int) option) res" where
  "account_list engine st want db =
     (if \<not> sql_create_new db then Inr (db, None)
      else case sql_query engine st db of
        (db, query_r, p) \<Rightarrow>
          if query_r \<noteq> e_query_row then Inr (db, None)
          else if \<not> want then Inr (db, Some ([], int (length (pa_rows p))))
          else (case sql_query engine st db of
                  (db, _, q) \<Rightarrow>
                    if length (basic_rows (pa_rows q)) \<noteq> length (pa_rows p) then Inl OutOfBounds
                    else Inr (db, Some (basic_rows (pa_rows q), int (length (pa_rows p))))))"

definition db_account_list_admin_get ::
  "sql_engine \<Rightarrow> string option \<Rightarrow> bool \<Rightarrow> sql_db \<Rightarrow> (sql_db \<times> (db_account_basic list \<times> int) option) res" where
  "db_account_list_admin_get engine specified_uuid want db = account_list engine (SelectAdmins specified_uuid) want db"

definition db_account_list_child_get ::
  "sql_engine \<Rightarrow> string \<Rightarrow> string option \<Rightarrow> bool \<Rightarrow> sql_db \<Rightarrow> (sql_db \<times> (db_account_basic list \<times> int) option) res" where
  "db_account_list_child_get engine ref_admin_uuid specified_uuid want db =
     account_list engine (SelectChildren ref_admin_uuid specified_uuid) want db"

section \<open>Changing accounts\<close>

definition db_account_admin_add :: "sql_engine \<Rightarrow> byte list \<Rightarrow> db_account_basic \<Rightarrow> sql_db \<Rightarrow> (sql_db \<times> bool) res" where
  "db_account_admin_add engine stk account db =
     (case db_account_license_get engine (ab_uuid account) db of
        (db, Some _) \<Rightarrow> Inr (db, False)
      | (db, None) \<Rightarrow>
          bindR (account_gen_hash_key stk (ab_pwd account)) (\<lambda>hashpwd.
          bindR (lower_copy (ab_uuid account)) (\<lambda>lower_uuid.
            case db_exec engine (InsertBasic lower_uuid hashpwd (ab_nickname account) (ab_comment account)) db of
              (db, query_r) \<Rightarrow>
                Inr (fst (db_account_license_set engine lower_uuid
                            \<lparr>li_license_type = e_license_checking, li_licensed_time = [], li_expired_time = []\<rparr> db),
                     query_r = e_query_done))))"

definition db_account_child_del :: "sql_engine \<Rightarrow> string \<Rightarrow> string option \<Rightarrow> sql_db \<Rightarrow> sql_db \<times> bool" where
  "db_account_child_del engine ref_admin_uuid specified_uuid db =
     (case specified_uuid of
        Some uuid \<Rightarrow>
          (let db = fst (db_exec engine (DeleteChild ref_admin_uuid uuid) db) in
           case db_exec engine (DeleteBasic uuid) db of (db, query_r) \<Rightarrow> (db, query_r = e_query_done))
      | None \<Rightarrow>
          (let db = fst (db_exec engine (DeleteChildren ref_admin_uuid) db) in
           case db_exec engine (DeleteBasicOfAdmin ref_admin_uuid) db of (db, query_r) \<Rightarrow> (db, query_r = e_query_done)))"

definition db_account_device_del :: "sql_engine \<Rightarrow> string \<Rightarrow> string option \<Rightarrow> sql_db \<Rightarrow> sql_db \<times> bool" where
  "db_account_device_del engine ref_admin_uuid spcified_uuid db =
     (case spcified_uuid of
        Some uuid \<Rightarrow>
          (let db = fst (db_exec engine (DeleteDevice uuid ref_admin_uuid) db) in
           case db_exec engine (DeleteAccountDevice uuid ref_admin_uuid) db of (db, query_r) \<Rightarrow> (db, query_r = e_query_done))
      | None \<Rightarrow>
          (let db = fst (db_exec engine (DeleteDevices ref_admin_uuid) db) in
           case db_exec engine (DeleteAccountDevices ref_admin_uuid) db of (db, query_r) \<Rightarrow> (db, query_r = e_query_done)))"

definition db_account_admin_del :: "sql_engine \<Rightarrow> string \<Rightarrow> sql_db \<Rightarrow> sql_db \<times> bool" where
  "db_account_admin_del engine uuid db =
     (let db = fst (db_exec engine (DeleteBasic uuid) db) in
      case db_exec engine (DeleteAdmin uuid) db of
        (db, query_r) \<Rightarrow>
          if query_r = e_query_done
          then (let db = fst (db_account_license_del engine uuid db);
                    db = fst (db_account_child_del engine uuid None db);
                    db = fst (db_account_device_del engine uuid None db)
                in (db, True))
          else (db, False))"

definition db_account_child_add ::
  "sql_engine \<Rightarrow> byte list \<Rightarrow> string \<Rightarrow> db_account_basic \<Rightarrow> sql_db \<Rightarrow> (sql_db \<times> bool) res" where
  "db_account_child_add engine stk ref_admin_uuid account db =
     bindR (lower_copy ref_admin_uuid) (\<lambda>lower_ref_admin_uuid.
       case db_account_check_user_exist engine lower_ref_admin_uuid False False db of
         (db, r, _) \<Rightarrow>
           if \<not> r then Inr (db, False)
           else
             bindR (lower_copy (ab_uuid account)) (\<lambda>lower_uuid.
             bindR (account_gen_hash_key stk (ab_pwd account)) (\<lambda>hashpwd.
               case db_exec engine (InsertBasic lower_uuid hashpwd (ab_nickname account) (ab_comment account)) db of
                 (db, query_r) \<Rightarrow>
                   if query_r \<noteq> e_query_done then Inr (db, False)
                   else (case db_exec engine (InsertChild lower_uuid lower_ref_admin_uuid) db of
                           (db, query_r) \<Rightarrow> Inr (db, query_r = e_query_done)))))"

text \<open>\<open>db_account_update\<close>: the old account is read for the log only, but when that fails the update is not done.\<close>

definition db_account_update ::
  "sql_engine \<Rightarrow> byte list \<Rightarrow> string \<Rightarrow> db_account_basic \<Rightarrow> bool \<Rightarrow> sql_db \<Rightarrow> (sql_db \<times> bool) res" where
  "db_account_update engine stk uuid new_account has_err db =
     (case db_account_check_user_exist engine uuid True True db of
        (db, r0, b_is_admin, ref_admin_uuid) \<Rightarrow>
          if \<not> r0 then (if has_err then Inr (db, False) else Inl NullDeref)
          else
            bindR (if b_is_admin then db_account_list_admin_get engine (Some uuid) True db
                   else bindR (ref_string ref_admin_uuid) (\<lambda>ref_admin_uuid.
                          db_account_list_child_get engine ref_admin_uuid (Some uuid) True db)) (\<lambda>(db, acc).
              if acc = None \<or> snd (the acc) \<noteq> 1 then Inr (db, False)
              else
                bindR (account_gen_hash_key stk (ab_pwd new_account)) (\<lambda>hashpwd.
                  case db_exec engine (UpdateBasic hashpwd (ab_nickname new_account) (ab_comment new_account) uuid) db of
                    (db, query_r) \<Rightarrow> Inr (db, query_r = e_query_done))))"

section \<open>Devices\<close>

definition db_account_device_check_exist ::
  "sql_engine \<Rightarrow> string \<Rightarrow> string \<Rightarrow> int \<Rightarrow> int \<Rightarrow> sql_db \<Rightarrow> sql_db \<times> bool" where
  "db_account_device_check_exist engine ref_admin_uuid ip port channel db =
     (case db_exec engine (SelectDeviceAt ip port channel ref_admin_uuid) db of (db, query_r) \<Rightarrow> (db, query_r = e_query_row))"

definition db_account_device_workpath_valid :: "sql_engine \<Rightarrow> string \<Rightarrow> sql_db \<Rightarrow> sql_db \<times> bool" where
  "db_account_device_workpath_valid engine workpath db =
     (case db_exec engine (SelectDeviceFolder workpath) db of (db, query_r) \<Rightarrow> (db, query_r = e_query_row))"

definition db_account_device_add :: "sql_engine \<Rightarrow> string \<Rightarrow> db_account_device \<Rightarrow> sql_db \<Rightarrow> sql_db \<times> bool" where
  "db_account_device_add engine ref_admin_uuid device db =
     (case db_account_check_user_exist engine ref_admin_uuid True False db of
        (db, r, b_is_admin, _) \<Rightarrow>
          if \<not> r \<or> \<not> b_is_admin then (db, False)
          else
            (case db_account_device_check_exist engine ref_admin_uuid (dv_ip (da_basic device)) (dv_port (da_basic device))
                    (dv_port (da_basic device)) db of
               (db, b_is_exsit) \<Rightarrow>
                 if b_is_exsit then (db, False)
                 else
                   (case db_exec engine (InsertDevice (da_basic device)) db of
                      (db, query_r) \<Rightarrow>
                        if query_r \<noteq> e_query_done then (db, False)
                        else
                          (case db_exec engine (InsertAccountDevice (dv_uuid (da_basic device)) ref_admin_uuid (da_nickname device)
                                  (da_comment device) (if da_is_top_level device then 1 else 0) (da_ref_parent_uuid device)) db of
                             (db, query_r) \<Rightarrow> (db, query_r = e_query_done)))))"

definition copy_device :: "db_device_basic \<Rightarrow> account_device_row \<Rightarrow> db_account_device" where
  "copy_device d a =
     \<lparr>da_basic = \<lparr>dv_uuid = take 38 (dv_uuid d), dv_plugin_name = take 16 (dv_plugin_name d), dv_ip = take 16 (dv_ip d),
        dv_port = dv_port d, dv_user = take 32 (dv_user d), dv_pwd = take 32 (dv_pwd d), dv_channel = dv_channel d,
        dv_seg_folder = take 32 (dv_seg_folder d), dv_seg_in_count = dv_seg_in_count d, dv_seg_per_sec = dv_seg_per_sec d,
        dv_created_time = take 63 (dv_created_time d)\<rparr>,
      da_nickname = take 64 (av_nickname a), da_comment = take 256 (av_comment a), da_is_top_level = (av_is_top_level a \<noteq> 0),
      da_ref_parent_uuid = take 16 (av_ref_parent_uuid a)\<rparr>"

fun device_rows :: "sql_row list \<Rightarrow> db_account_device list" where
  "device_rows [] = []"
| "device_rows (JoinRow d a # rows) = copy_device d a # device_rows rows"
| "device_rows (_ # rows) = device_rows rows"

text \<open>
  The text of the query, which is put together in an array of 1024 characters: it needs one more
  for its terminator.
\<close>

definition device_query :: "string \<Rightarrow> string option \<Rightarrow> string" where
  "device_query ref_admin_uuid spcified_uuid =
     ''SELECT t_device_basic.uuid,t_device_basic.plugin_name,t_device_basic.ip,t_device_basic.port,'' @
     ''t_device_basic.user,t_device_basic.pwd,t_device_basic.channel,t_device_basic.seg_folder,'' @
     ''t_device_basic.seg_in_count,t_device_basic.seg_per_sec,t_device_basic.create_time,'' @
     ''t_account_device.nickname,t_account_device.comment,t_account_device.is_top_level,t_account_device.ref_parent_uuid'' @
     '' FROM t_device_basic JOIN t_account_device ON t_account_device.uuid==t_device_basic.uuid'' @
     '' WHERE t_account_device.ref_admin_uuid='' @ [CHR 0x27] @ ref_admin_uuid @ [CHR 0x27] @
     (case spcified_uuid of None \<Rightarrow> [] | Some uuid \<Rightarrow> '' AND t_account_device.uuid='' @ [CHR 0x27] @ uuid @ [CHR 0x27])"

definition db_account_device_get ::
  "sql_engine \<Rightarrow> string \<Rightarrow> string option \<Rightarrow> bool \<Rightarrow> sql_db \<Rightarrow> (sql_db \<times> (db_account_device list \<times> int) option) res" where
  "db_account_device_get engine ref_admin_uuid spcified_uuid want db =
     (let st = SelectDevices ref_admin_uuid spcified_uuid in
      if 1024 < length (device_query ref_admin_uuid spcified_uuid) + 1 then Inl OutOfBounds
      else if \<not> sql_create_new db then Inr (db, None)
      else case sql_query engine st db of
        (db, query_r, p) \<Rightarrow>
          if query_r \<noteq> e_query_row then Inr (db, None)
          else if \<not> want then Inr (db, Some ([], int (length (pa_rows p))))
          else (case sql_query engine st db of
                  (db, _, q) \<Rightarrow>
                    if length (device_rows (pa_rows q)) \<noteq> length (pa_rows p) then Inl OutOfBounds
                    else Inr (db, Some (device_rows (pa_rows q), int (length (pa_rows p))))))"

lemma length_device_query:
  "length (device_query ref_admin_uuid spcified_uuid) =
     (case spcified_uuid of None \<Rightarrow> 504 + length ref_admin_uuid | Some uuid \<Rightarrow> 533 + length ref_admin_uuid + length uuid)"
  by (simp add: device_query_def split: option.split)

section \<open>Views of the database\<close>

definition db_ready :: "sql_db \<Rightarrow> bool" where
  "db_ready db \<longleftrightarrow> db_open db \<and> t_account_license db \<noteq> None \<and> t_account_basic db \<noteq> None \<and> t_account_admin db \<noteq> None \<and>
     t_account_child db \<noteq> None \<and> t_account_child_permission db \<noteq> None \<and> t_device_basic db \<noteq> None \<and> t_account_device db \<noteq> None"

definition users :: "sql_db \<Rightarrow> db_account_basic list" where
  "users db = the (t_account_basic db)"

definition admins :: "sql_db \<Rightarrow> admin_row list" where
  "admins db = the (t_account_admin db)"

definition children :: "sql_db \<Rightarrow> child_row list" where
  "children db = the (t_account_child db)"

definition has_user :: "sql_db \<Rightarrow> string \<Rightarrow> bool" where
  "has_user db u \<longleftrightarrow> u \<in> ab_uuid ` set (users db)"

definition has_admin :: "sql_db \<Rightarrow> string \<Rightarrow> bool" where
  "has_admin db u \<longleftrightarrow> u \<in> ad_uuid ` set (admins db)"

definition ref_admin :: "sql_db \<Rightarrow> string \<Rightarrow> string" where
  "ref_admin db u = (case find (\<lambda>c. ch_uuid c = u) (children db) of None \<Rightarrow> [] | Some c \<Rightarrow> take 16 (ch_ref_admin_uuid c))"

lemma db_readyE:
  assumes "db_ready db"
  obtains lic us as cs ps ds avs where "db_open db" and "t_account_license db = Some lic" and "t_account_basic db = Some us"
    and "t_account_admin db = Some as" and "t_account_child db = Some cs" and "t_account_child_permission db = Some ps"
    and "t_device_basic db = Some ds" and "t_account_device db = Some avs"
  using assms by (auto simp: db_ready_def)

lemma filter_Nil_find: "filter P xs = [] \<longleftrightarrow> find P xs = None"
  by (auto simp: find_None_iff filter_empty_conv)

lemma find_ex: "find P xs \<noteq> None \<longleftrightarrow> (\<exists>x\<in>set xs. P x)"
  by (auto simp: find_None_iff)

lemma find_append_last: "\<forall>x\<in>set xs. \<not> P x \<Longrightarrow> P y \<Longrightarrow> find P (xs @ [y]) = Some y"
  by (induction xs) auto

lemma filter_find: "find P xs = Some x \<Longrightarrow> \<exists>ys. filter P xs = x # ys"
  by (induction xs) (auto split: if_splits)

section \<open>The operations on well-behaved values\<close>

context sqlite_engine
begin

lemma exec_plain: "plain_stmt st \<Longrightarrow> db_exec engine st db = db_exec sql_sem st db"
  by (simp add: db_exec_def sql_query_def engine_plain cong: prod.case_cong)

lemma query_plain: "plain_stmt st \<Longrightarrow> sql_query engine st db = sql_query sql_sem st db"
  by (simp add: sql_query_def engine_plain)

lemmas plains = exec_plain query_plain plain_stmt_def

lemma license_get_plain:
  "no_quote u \<Longrightarrow> db_account_license_get engine u db = db_account_license_get sql_sem u db"
  by (simp add: db_account_license_get_def plains cong: if_cong prod.case_cong option.case_cong)

lemma check_user_exist_plain:
  "no_quote u \<Longrightarrow> db_account_check_user_exist engine u wa wr db = db_account_check_user_exist sql_sem u wa wr db"
  by (simp add: db_account_check_user_exist_def plains license_get_plain cong: if_cong prod.case_cong option.case_cong)

lemma check_user_is_ok_plain:
  "no_quote u \<Longrightarrow> (\<And>h. account_gen_hash_key stk pwd = Inr h \<Longrightarrow> no_quote h) \<Longrightarrow>
   db_account_check_user_is_ok engine stk u pwd wa wr db = db_account_check_user_is_ok sql_sem stk u pwd wa wr db"
  by (cases "account_gen_hash_key stk pwd") (simp_all add: db_account_check_user_is_ok_def plains check_user_exist_plain cong: if_cong prod.case_cong option.case_cong)

lemma license_del_plain:
  "no_quote u \<Longrightarrow> db_account_license_del engine u db = db_account_license_del sql_sem u db"
  by (simp add: db_account_license_del_def plains check_user_exist_plain cong: if_cong prod.case_cong option.case_cong)

lemma license_set_plain:
  "no_quote u \<Longrightarrow> no_quote (li_licensed_time l) \<Longrightarrow> no_quote (li_expired_time l) \<Longrightarrow>
   db_account_license_set engine u l db = db_account_license_set sql_sem u l db"
  by (simp add: db_account_license_set_def plains license_get_plain license_del_plain cong: if_cong prod.case_cong option.case_cong)

lemma child_del_plain:
  "no_quote r \<Longrightarrow> pred_option no_quote s \<Longrightarrow> db_account_child_del engine r s db = db_account_child_del sql_sem r s db"
  by (cases s) (simp_all add: db_account_child_del_def plains cong: if_cong prod.case_cong option.case_cong)

lemma device_del_plain:
  "no_quote r \<Longrightarrow> pred_option no_quote s \<Longrightarrow> db_account_device_del engine r s db = db_account_device_del sql_sem r s db"
  by (cases s) (simp_all add: db_account_device_del_def plains cong: if_cong prod.case_cong option.case_cong)

lemma admin_del_plain:
  "no_quote u \<Longrightarrow> db_account_admin_del engine u db = db_account_admin_del sql_sem u db"
  by (simp add: db_account_admin_del_def plains license_del_plain child_del_plain device_del_plain cong: if_cong prod.case_cong option.case_cong)

lemma account_list_plain:
  "plain_stmt st \<Longrightarrow> account_list engine st want db = account_list sql_sem st want db"
  by (simp add: account_list_def query_plain cong: if_cong prod.case_cong)

end

lemma plain_lower: "no_quote s \<Longrightarrow> no_quote (world_tolower s)"
proof -
  have "char_tolower c \<noteq> CHR 0x27" if "c \<noteq> CHR 0x27" for c
  proof -
    have "(of_char c :: nat) \<noteq> of_char (CHR 0x27)" unfolding of_char_eq_iff by (rule that)
    then have ne: "of_char (char_tolower c) \<noteq> (of_char (CHR 0x27) :: nat)"
      by (auto simp: char_tolower_def Let_def)
    show ?thesis
    proof
      assume "char_tolower c = CHR 0x27"
      with ne show False by (simp only:)
    qed
  qed
  then show "no_quote s \<Longrightarrow> no_quote (world_tolower s)" unfolding no_quote_def world_tolower_def set_map by (metis imageE)
qed

text \<open>A statement on a database whose tables are there.\<close>

lemma exec_sem:
  "db_open db \<Longrightarrow> sql_change st db = Some db' \<Longrightarrow> sql_select st db = Some rows \<Longrightarrow>
   db_exec sql_sem st db = (db', if rows = [] then e_query_done else e_query_row)"
  by (auto simp: db_exec_def sql_create_new_def sql_query_def sql_sem_def split: list.splits)

lemma exec_sem_error:
  "db_open db \<Longrightarrow> sql_change st db = None \<Longrightarrow> db_exec sql_sem st db = (db, e_query_error)"
  by (auto simp: db_exec_def sql_create_new_def sql_query_def sql_sem_def)

lemma query_sem:
  "sql_change st db = Some db' \<Longrightarrow> sql_select st db = Some rows \<Longrightarrow>
   sql_query sql_sem st db = (db', if rows = [] then e_query_done else e_query_row,
     \<lparr>pa_rows = rows, pa_fields = (case rows of [] \<Rightarrow> 0 | r # _ \<Rightarrow> row_fields r)\<rparr>)"
  by (auto simp: sql_query_def sql_sem_def split: list.splits)

lemma exec_select_basic:
  "db_ready db \<Longrightarrow> db_exec sql_sem (SelectBasic u) db = (db, if has_user db u then e_query_row else e_query_done)"
  by (erule db_readyE) (auto simp: exec_sem users_def has_user_def filter_empty_conv)

lemma license_get_sem:
  assumes "db_ready db"
  shows "db_account_license_get sql_sem u db = (db, map_option (\<lambda>row.
     \<lparr>li_license_type = ad_license_type row, li_licensed_time = take 64 (ad_licensed_time row), li_expired_time = take 64 (ad_expired_time row)\<rparr>)
     (find (\<lambda>r. ad_uuid r = u) (admins db)))"
proof -
  obtain as where as: "t_account_admin db = Some as" "db_open db" using assms by (auto simp: db_ready_def)
  have q: "sql_query sql_sem (SelectAdmin u) db = (db, if filter (\<lambda>r. ad_uuid r = u) as = [] then e_query_done else e_query_row,
     \<lparr>pa_rows = map AdminRow (filter (\<lambda>r. ad_uuid r = u) as),
      pa_fields = (case map AdminRow (filter (\<lambda>r. ad_uuid r = u) as) of [] \<Rightarrow> 0 | r # _ \<Rightarrow> row_fields r)\<rparr>)"
    using query_sem [of "SelectAdmin u" db db] as by simp
  show ?thesis
  proof (cases "find (\<lambda>r. ad_uuid r = u) as")
    case None
    then show ?thesis
      using as q by (simp add: db_account_license_get_def sql_create_new_def admins_def filter_Nil_find)
  next
    case (Some a)
    then obtain ys where "filter (\<lambda>r. ad_uuid r = u) as = a # ys" using filter_find [OF Some] by blast
    then show ?thesis
      using as q Some by (simp add: db_account_license_get_def sql_create_new_def admins_def sql_fetch_row_def)
  qed
qed

lemma license_get_has: "db_ready db \<Longrightarrow> \<exists>l. db_account_license_get sql_sem u db = (db, l) \<and> (l \<noteq> None \<longleftrightarrow> has_admin db u)"
  using find_ex [of "\<lambda>r. ad_uuid r = u" "admins db"] by (auto simp: license_get_sem has_admin_def)

lemma query_child:
  assumes "db_ready db"
  shows "case sql_query sql_sem (SelectChild u) db of (db', r, p) \<Rightarrow>
     db' = db \<and> (if r \<noteq> e_query_row \<or> pa_fields p \<noteq> 3 then [] else case sql_fetch_row p of (_, Some (ChildRow row)) \<Rightarrow> take 16 (ch_ref_admin_uuid row) | _ \<Rightarrow> []) = ref_admin db u"
proof -
  obtain cs where cs: "t_account_child db = Some cs" using assms by (auto simp: db_ready_def)
  show ?thesis
  proof (cases "find (\<lambda>r. ch_uuid r = u) cs")
    case None
    then show ?thesis
      using query_sem [of "SelectChild u" db db] cs by (simp add: ref_admin_def children_def filter_Nil_find)
  next
    case (Some c)
    then obtain ys where "filter (\<lambda>r. ch_uuid r = u) cs = c # ys" using filter_find [OF Some] by blast
    then show ?thesis
      using query_sem [of "SelectChild u" db db] cs Some by (simp add: ref_admin_def children_def sql_fetch_row_def)
  qed
qed

text \<open>What the existence check answers.\<close>

lemma check_user_exist_sem:
  assumes "db_ready db"
  shows "db_account_check_user_exist sql_sem u wa wr db =
     (db, has_user db u, wa \<and> has_user db u \<and> has_admin db u,
      if has_user db u \<and> \<not> (wa \<and> has_admin db u) \<and> wr then ref_admin db u else [])"
proof (cases "has_user db u")
  case False
  then show ?thesis using exec_select_basic [OF assms] by (simp add: db_account_check_user_exist_def)
next
  case True
  obtain l where l: "db_account_license_get sql_sem u db = (db, l)" "l \<noteq> None \<longleftrightarrow> has_admin db u"
    using license_get_has [OF assms] by blast
  obtain r p where q: "sql_query sql_sem (SelectChild u) db = (db, r, p)"
    "(if r \<noteq> e_query_row \<or> pa_fields p \<noteq> 3 then [] else case sql_fetch_row p of (_, Some (ChildRow row)) \<Rightarrow> take 16 (ch_ref_admin_uuid row) | _ \<Rightarrow> []) = ref_admin db u"
    using query_child [OF assms, of u] by (auto split: prod.splits)
  have open_db: "db_open db" using assms by (simp add: db_ready_def)
  show ?thesis
  proof (cases "wa \<and> has_admin db u")
    case adm: True
    then show ?thesis using exec_select_basic [OF assms] True l
      by (auto simp: db_account_check_user_exist_def)
  next
    case not_adm: False
    then have lic: "(if wa then db_account_license_get sql_sem u db else (db, None)) = (db, None)" using l by auto
    show ?thesis
    proof (cases "r \<noteq> e_query_row \<or> pa_fields p \<noteq> 3")
      case bad: True
      then show ?thesis using exec_select_basic [OF assms] True lic q open_db not_adm
        by (auto simp: db_account_check_user_exist_def sql_create_new_def)
    next
      case good: False
      then show ?thesis using exec_select_basic [OF assms] True lic q open_db not_adm
        by (auto simp: db_account_check_user_exist_def sql_create_new_def split: prod.splits option.splits sql_row.splits)
    qed
  qed
qed

section \<open>Effects of the changes\<close>

definition new_user :: "sql_db \<Rightarrow> string \<Rightarrow> string \<Rightarrow> string \<Rightarrow> string \<Rightarrow> db_account_basic" where
  "new_user db u p n c = \<lparr>ab_uuid = u, ab_pwd = p, ab_nickname = n, ab_comment = c, ab_created_time = db_now db\<rparr>"

lemma exec_insert_basic:
  "db_ready db \<Longrightarrow> db_exec sql_sem (InsertBasic u p n c) db =
     (if has_user db u then (db, e_query_error)
      else (db\<lparr>t_account_basic := Some (users db @ [new_user db u p n c])\<rparr>, e_query_done))"
  by (erule db_readyE) (auto simp: exec_sem exec_sem_error users_def has_user_def insert_row_def new_user_def)

lemma exec_insert_admin:
  "db_ready db \<Longrightarrow> db_exec sql_sem (InsertAdmin u t l e) db =
     (if has_admin db u then (db, e_query_error)
      else (db\<lparr>t_account_admin := Some (admins db @ [\<lparr>ad_uuid = u, ad_license_type = t, ad_licensed_time = l, ad_expired_time = e\<rparr>])\<rparr>, e_query_done))"
  by (erule db_readyE) (auto simp: exec_sem exec_sem_error admins_def has_admin_def insert_row_def)

lemma exec_insert_child:
  "db_ready db \<Longrightarrow> db_exec sql_sem (InsertChild u r) db =
     (if u \<in> ch_uuid ` set (children db) then (db, e_query_error)
      else (db\<lparr>t_account_child := Some (children db @ [\<lparr>ch_uuid = u, ch_ref_admin_uuid = r\<rparr>])\<rparr>, e_query_done))"
  by (erule db_readyE) (auto simp: exec_sem exec_sem_error children_def insert_row_def)

lemma exec_delete_admin:
  "db_ready db \<Longrightarrow> db_exec sql_sem (DeleteAdmin u) db =
     (db\<lparr>t_account_admin := Some (filter (\<lambda>r. ad_uuid r \<noteq> u) (admins db))\<rparr>, e_query_done)"
  by (erule db_readyE) (auto simp: exec_sem admins_def delete_rows_def)

lemma exec_delete_basic:
  "db_ready db \<Longrightarrow> db_exec sql_sem (DeleteBasic u) db =
     (db\<lparr>t_account_basic := Some (filter (\<lambda>r. ab_uuid r \<noteq> u) (users db))\<rparr>, e_query_done)"
  by (erule db_readyE) (auto simp: exec_sem users_def delete_rows_def)

lemma exec_delete_children:
  "db_ready db \<Longrightarrow> db_exec sql_sem (DeleteChildren r) db =
     (db\<lparr>t_account_child := Some (filter (\<lambda>c. ch_ref_admin_uuid c \<noteq> r) (children db))\<rparr>, e_query_done)"
  by (erule db_readyE) (auto simp: exec_sem children_def delete_rows_def)

lemma exec_delete_child:
  "db_ready db \<Longrightarrow> db_exec sql_sem (DeleteChild r u) db =
     (db\<lparr>t_account_child := Some (filter (\<lambda>c. \<not> (ch_ref_admin_uuid c = r \<and> ch_uuid c = u)) (children db))\<rparr>, e_query_done)"
  by (erule db_readyE) (auto simp: exec_sem children_def delete_rows_def)

lemma exec_delete_basic_of_admin:
  "db_ready db \<Longrightarrow> db_exec sql_sem (DeleteBasicOfAdmin u) db =
     (db\<lparr>t_account_basic := Some (filter (\<lambda>r. \<not> (ab_uuid r = u \<and> has_admin db u)) (users db))\<rparr>, e_query_done)"
  by (erule db_readyE) (auto simp: exec_sem users_def has_admin_def admins_def delete_rows_def image_iff intro!: sql_db.unfold_congs filter_cong)

lemma exec_select_pwd:
  "db_ready db \<Longrightarrow> db_exec sql_sem (SelectBasicPwd u p) db =
     (db, if \<exists>r\<in>set (users db). ab_uuid r = u \<and> ab_pwd r = p then e_query_row else e_query_done)"
  by (erule db_readyE) (auto simp: exec_sem users_def filter_empty_conv)

lemma ready_update [simp]:
  "db_ready db \<Longrightarrow> db_ready (db\<lparr>t_account_basic := Some us\<rparr>)"
  "db_ready db \<Longrightarrow> db_ready (db\<lparr>t_account_admin := Some as\<rparr>)"
  "db_ready db \<Longrightarrow> db_ready (db\<lparr>t_account_child := Some cs\<rparr>)"
  by (auto simp: db_ready_def)

lemma view_update [simp]:
  "users (db\<lparr>t_account_basic := Some us\<rparr>) = us" "admins (db\<lparr>t_account_basic := x\<rparr>) = admins db" "children (db\<lparr>t_account_basic := x\<rparr>) = children db"
  "users (db\<lparr>t_account_admin := y\<rparr>) = users db" "admins (db\<lparr>t_account_admin := Some as\<rparr>) = as" "children (db\<lparr>t_account_admin := y\<rparr>) = children db"
  "users (db\<lparr>t_account_child := z\<rparr>) = users db" "admins (db\<lparr>t_account_child := z\<rparr>) = admins db" "children (db\<lparr>t_account_child := Some cs\<rparr>) = cs"
  by (simp_all add: users_def admins_def children_def)

lemma license_set_sem:
  assumes "db_ready db" and "has_user db u"
  shows "db_account_license_set sql_sem u l db =
     (db\<lparr>t_account_admin := Some (filter (\<lambda>r. ad_uuid r \<noteq> u) (admins db) @
        [\<lparr>ad_uuid = u, ad_license_type = li_license_type l, ad_licensed_time = li_licensed_time l, ad_expired_time = li_expired_time l\<rparr>])\<rparr>, True)"
proof -
  obtain lic where lic: "db_account_license_get sql_sem u db = (db, lic)" "lic \<noteq> None \<longleftrightarrow> has_admin db u"
    using license_get_has [OF assms(1)] by blast
  let ?db = "db\<lparr>t_account_admin := Some (filter (\<lambda>r. ad_uuid r \<noteq> u) (admins db))\<rparr>"
  have fresh: "\<not> has_admin ?db u" by (auto simp: has_admin_def)
  show ?thesis
  proof (cases "has_admin db u")
    case True
    have "fst (db_account_license_del sql_sem u db) = ?db"
      using assms by (simp add: db_account_license_del_def check_user_exist_sem exec_delete_admin)
    then show ?thesis
      using lic True fresh assms(1) by (simp add: db_account_license_set_def Let_def exec_insert_admin)
  next
    case False
    then have "filter (\<lambda>r. ad_uuid r \<noteq> u) (admins db) = admins db" by (auto simp: has_admin_def filter_id_conv)
    then show ?thesis
      using lic False assms(1) by (simp add: db_account_license_set_def Let_def exec_insert_admin)
  qed
qed

section \<open>Password hashes\<close>

text \<open>The seventeen digits of a password, and what the stack leaves behind them.\<close>

definition hash_digits :: "string \<Rightarrow> byte list" where
  "hash_digits pwd = (let d = md5 (sha1 (bytes_of pwd) @ replicate 12 0) in map hex_high d @ [hex_low (last d)])"

definition leftover :: "byte list \<Rightarrow> byte list" where
  "leftover stk = takeWhile (\<lambda>b. b \<noteq> 0) (drop 17 stk)"

lemma hex_digit_range: "d < 16 \<Longrightarrow> hex_digit d \<noteq> 0 \<and> hex_digit d \<noteq> 39"
proof -
  assume d: "d < 16"
  then have u: "unat d < 16" by (simp add: word_less_nat_alt)
  have s: "unat (48 + d) = 48 + unat d" "unat (55 + d) = 55 + unat d"
    using u by (simp_all add: unat_add_lem [THEN iffD1])
  have "48 + d \<noteq> 0 \<and> 48 + d \<noteq> 39 \<and> 55 + d \<noteq> 0 \<and> 55 + d \<noteq> 39"
    by (intro conjI notI; drule arg_cong [where f = unat]; simp add: s)
  then show ?thesis by (simp add: hex_digit_def)
qed

lemma hex_range: "hex_high c \<noteq> 0 \<and> hex_high c \<noteq> 39" "hex_low c \<noteq> 0 \<and> hex_low c \<noteq> 39"
proof -
  have "unat c < 256" using unsigned_less [of c] by simp
  then have "drop_bit 4 c < 16" unfolding word_less_nat_alt
    by (simp add: drop_bit_eq_div unat_div less_mult_imp_div_less)
  then show "hex_high c \<noteq> 0 \<and> hex_high c \<noteq> 39" unfolding hex_high_def by (rule hex_digit_range)
  have "c AND 15 = take_bit 4 c" by (simp add: take_bit_eq_mask mask_eq_exp_minus_1)
  then have "unat (c AND 15) = unat c mod 16" by (simp add: take_bit_eq_mod unat_mod)
  then have "c AND 15 < 16" unfolding word_less_nat_alt by simp
  then show "hex_low c \<noteq> 0 \<and> hex_low c \<noteq> 39" unfolding hex_low_def by (rule hex_digit_range)
qed

lemma hash_digits_range: "b \<in> set (hash_digits pwd) \<Longrightarrow> b \<noteq> 0 \<and> b \<noteq> 39"
  using hex_range by (auto simp: hash_digits_def Let_def)

lemma bytes_of_nul: "CHR 0x00 \<notin> set s \<Longrightarrow> 0 \<notin> set (bytes_of s)"
proof -
  have "c = CHR 0x00" if "(of_char c :: byte) = 0" for c
  proof -
    have "char_of (unat (of_char c :: byte)) = c" using string_of_bytes [of "[c]"] by (simp add: string_of_def bytes_of_def)
    then show ?thesis using that by (simp add: char_of_def)
  qed
  then show "CHR 0x00 \<notin> set s \<Longrightarrow> 0 \<notin> set (bytes_of s)" unfolding bytes_of_def set_map by (metis imageE)
qed

lemma takeWhile_end: "\<not> P z \<Longrightarrow> takeWhile P (xs @ [z]) = takeWhile P xs"
  by (induction xs) simp_all

lemma account_hash:
  assumes "CHR 0x00 \<notin> set pwd" and "length stk = 32"
  shows "account_gen_hash_key stk pwd = Inr (string_of (hash_digits pwd @ leftover stk))"
proof -
  let ?d = "md5 (sha1 (bytes_of pwd) @ replicate 12 0)"
  have "gen_hash_key (stk @ [0]) (map Some (bytes_of pwd @ [0])) (-1) = Inr (hash_digits pwd @ drop 17 stk @ [0])"
    using gen_hash_key_spec_core [OF bytes_of_nul [OF assms(1)], of "stk @ [0]"] assms(2) by (simp add: hash_digits_def Let_def)
  moreover have "takeWhile (\<lambda>b. b \<noteq> 0) (hash_digits pwd @ drop 17 stk @ [0]) = hash_digits pwd @ leftover stk"
    using hash_digits_range [of _ pwd] by (simp add: takeWhile_append2 takeWhile_end leftover_def)
  ultimately show ?thesis by (simp add: account_gen_hash_key_def)
qed

lemma plain_bytes: "39 \<notin> set bs \<Longrightarrow> no_quote (string_of bs)"
proof -
  have "b = 39" if "char_of (unat (b :: byte)) = CHR 0x27" for b
  proof -
    have "unat b < 256" using unsigned_less [of b] by simp
    then have "unat b = of_char (char_of (unat b))" by simp
    also have "\<dots> = 39" unfolding that by simp
    finally show ?thesis by (simp add: word_unat_eq_iff)
  qed
  note quote = this
  show "no_quote (string_of bs)" if "39 \<notin> set bs"
    unfolding no_quote_def
  proof
    assume "CHR 0x27 \<in> set (string_of bs)"
    then obtain b where "b \<in> set bs" "char_of (unat b) = CHR 0x27" unfolding string_of_def set_map by (elim imageE) (erule that, rule sym)
    then show False using quote that by blast
  qed
qed

lemma string_of_inj: "string_of xs = string_of ys \<Longrightarrow> xs = ys"
proof -
  have inj: "inj (\<lambda>b :: byte. char_of (unat b))"
  proof (rule injI)
    fix a b :: byte
    assume e: "char_of (unat a) = (char_of (unat b) :: char)"
    have "unat a < 256" "unat b < 256" using unsigned_less [of a] unsigned_less [of b] by simp_all
    then have "unat a = of_char (char_of (unat a))" "unat b = of_char (char_of (unat b))" by simp_all
    then have "unat a = unat b" unfolding e by simp
    then show "a = b" by (simp add: word_unat_eq_iff)
  qed
  assume "string_of xs = string_of ys"
  then show "xs = ys" unfolding string_of_def using inj by (metis inj_map_eq_map)
qed

lemma plain_hash: "39 \<notin> set (leftover stk) \<Longrightarrow> no_quote (string_of (hash_digits pwd @ leftover stk))"
  using hash_digits_range [of 39 pwd] by (intro plain_bytes) auto

text \<open>Whatever the password, its hash contains no quotation mark unless the stack leaves one.\<close>

lemma key_arg_cut: "key_arg (map Some (xs @ [0])) (-1) = Inr (takeWhile (\<lambda>b. b \<noteq> 0) xs)"
proof -
  have len: "mem_strlen (map Some (xs @ [0])) = Inr (int (length (takeWhile (\<lambda>b. b \<noteq> 0) xs)))"
    by (induction xs) auto
  have "takeWhile (\<lambda>b. b \<noteq> 0) xs = take (length (takeWhile (\<lambda>b. b \<noteq> 0) xs)) (xs @ [0])"
    by (induction xs) auto
  then have "take (length (takeWhile (\<lambda>b. b \<noteq> 0) xs)) (map Some (xs @ [0])) = map Some (takeWhile (\<lambda>b. b \<noteq> 0) xs)"
    by (metis take_map)
  then show ?thesis
    using len length_takeWhile_le [of "\<lambda>b. b \<noteq> 0" xs] by (auto simp: key_arg_def mem_read_def Let_def comp_def)
qed

lemma account_hash_any:
  assumes "length stk = 32" and "39 \<notin> set (leftover stk)" and "account_gen_hash_key stk pwd = Inr h"
  shows "no_quote h"
proof -
  let ?cut = "takeWhile (\<lambda>b. b \<noteq> 0) (bytes_of pwd)"
  let ?d = "md5 (sha1 ?cut @ replicate 12 0)"
  have nz: "0 \<notin> set ?cut" using set_takeWhileD by force
  have "gen_hash_key (stk @ [0]) (map Some (bytes_of pwd @ [0])) (-1) = gen_hash_key (stk @ [0]) (map Some (?cut @ [0])) (-1)"
    unfolding gen_hash_key_def gen_sha1_key_def key_arg_cut takeWhile_idem ..
  then have "gen_hash_key (stk @ [0]) (map Some (bytes_of pwd @ [0])) (-1) = Inr (map hex_high ?d @ hex_low (last ?d) # drop 17 stk @ [0])"
    using gen_hash_key_spec_core [OF nz, of "stk @ [0]"] assms(1) by (simp add: Let_def)
  moreover have "takeWhile (\<lambda>b. b \<noteq> 0) (map hex_high ?d @ hex_low (last ?d) # drop 17 stk @ [0]) = map hex_high ?d @ hex_low (last ?d) # leftover stk"
  proof -
    have "\<forall>b\<in>set (map hex_high ?d @ [hex_low (last ?d)]). b \<noteq> 0" using hex_range by auto
    then have "takeWhile (\<lambda>b. b \<noteq> 0) ((map hex_high ?d @ [hex_low (last ?d)]) @ drop 17 stk @ [0]) =
        (map hex_high ?d @ [hex_low (last ?d)]) @ takeWhile (\<lambda>b. b \<noteq> 0) (drop 17 stk @ [0])"
      by (intro takeWhile_append2) auto
    then show ?thesis by (simp add: takeWhile_end leftover_def)
  qed
  ultimately have "h = string_of (map hex_high ?d @ hex_low (last ?d) # leftover stk)"
    using assms(3) by (simp add: account_gen_hash_key_def)
  moreover have "39 \<notin> set (map hex_high ?d @ hex_low (last ?d) # leftover stk)"
  proof -
    have "39 \<noteq> hex_high c" "39 \<noteq> hex_low c" for c using hex_range [of c] by auto
    then show ?thesis using assms(2) by auto
  qed
  ultimately show ?thesis using plain_bytes by simp
qed

section \<open>Adding an administrator\<close>

lemma ready_users: "db_ready db \<Longrightarrow> db\<lparr>t_account_basic := Some (users db)\<rparr> = db"
  by (auto simp: db_ready_def users_def)

lemma admin_add_sem:
  assumes eng: "sqlite_engine engine" and ready: "db_ready db"
    and no_quote: "no_quote (ab_uuid a)" "no_quote (ab_nickname a)" "no_quote (ab_comment a)" "no_quote h"
    and short: "length (ab_uuid a) < 16" and h: "account_gen_hash_key stk (ab_pwd a) = Inr h"
    and fresh: "\<not> has_admin db (ab_uuid a)"
  defines "low \<equiv> world_tolower (ab_uuid a)"
  defines "us \<equiv> users db @ (if has_user db low then [] else [new_user db low h (ab_nickname a) (ab_comment a)])"
  shows "db_account_admin_add engine stk a db =
    Inr (db\<lparr>t_account_basic := Some us,
            t_account_admin := Some (filter (\<lambda>r. ad_uuid r \<noteq> low) (admins db) @
              [\<lparr>ad_uuid = low, ad_license_type = e_license_checking, ad_licensed_time = [], ad_expired_time = []\<rparr>])\<rparr>, \<not> has_user db low)"
proof -
  have pl: "no_quote low" unfolding low_def by (rule plain_lower [OF no_quote(1)])
  have lic: "db_account_license_get engine (ab_uuid a) db = (db, None)"
    using sqlite_engine.license_get_plain [OF eng no_quote(1)] license_get_has [OF ready, of "ab_uuid a"] fresh by auto
  let ?ins = "InsertBasic low h (ab_nickname a) (ab_comment a)"
  have ins: "db_exec engine ?ins db = (db\<lparr>t_account_basic := Some us\<rparr>, if has_user db low then e_query_error else e_query_done)"
    using sqlite_engine.exec_plain [OF eng, of ?ins db] exec_insert_basic [OF ready] no_quote pl ready_users [OF ready]
    by (auto simp: plain_stmt_def us_def)
  have "has_user (db\<lparr>t_account_basic := Some us\<rparr>) low" by (auto simp: has_user_def us_def new_user_def)
  then have set: "fst (db_account_license_set engine low \<lparr>li_license_type = e_license_checking, li_licensed_time = [], li_expired_time = []\<rparr>
        (db\<lparr>t_account_basic := Some us\<rparr>)) =
      db\<lparr>t_account_basic := Some us, t_account_admin := Some (filter (\<lambda>r. ad_uuid r \<noteq> low) (admins db) @
              [\<lparr>ad_uuid = low, ad_license_type = e_license_checking, ad_licensed_time = [], ad_expired_time = []\<rparr>])\<rparr>"
    using sqlite_engine.license_set_plain [OF eng pl] license_set_sem [of "db\<lparr>t_account_basic := Some us\<rparr>" low] ready
    by (simp add: no_quote_def)
  show ?thesis
    using lic h short ins set by (simp add: db_account_admin_add_def lower_copy_def low_def)
qed

text \<open>
  Adding an administrator under a name that has no administrator row succeeds when no
  account has the name (in lower case) and fails otherwise, but in both cases the account of
  that name is an administrator afterwards: adding one under the name of a child account
  is reported to fail and makes the child an administrator.
\<close>

theorem admin_add_promotes:
  assumes "sqlite_engine engine" and "db_ready db"
    and "no_quote (ab_uuid a)" and "no_quote (ab_nickname a)" and "no_quote (ab_comment a)" and "no_quote h"
    and "length (ab_uuid a) < 16" and "account_gen_hash_key stk (ab_pwd a) = Inr h" and "\<not> has_admin db (ab_uuid a)"
  shows "\<exists>db'. db_account_admin_add engine stk a db = Inr (db', \<not> has_user db (world_tolower (ab_uuid a))) \<and>
     db_account_check_user_exist engine (world_tolower (ab_uuid a)) True False db' = (db', True, True, []) \<and>
     (has_user db (world_tolower (ab_uuid a)) \<longrightarrow> users db' = users db)"
proof -
  let ?low = "world_tolower (ab_uuid a)"
  let ?us = "users db @ (if has_user db ?low then [] else [new_user db ?low h (ab_nickname a) (ab_comment a)])"
  let ?as = "filter (\<lambda>r. ad_uuid r \<noteq> ?low) (admins db) @
    [\<lparr>ad_uuid = ?low, ad_license_type = e_license_checking, ad_licensed_time = [], ad_expired_time = []\<rparr>]"
  let ?db = "db\<lparr>t_account_basic := Some ?us, t_account_admin := Some ?as\<rparr>"
  have ready: "db_ready ?db" using assms(2) by simp
  have "has_user ?db ?low" "has_admin ?db ?low" by (auto simp: has_user_def has_admin_def new_user_def)
  then have "db_account_check_user_exist engine ?low True False ?db = (?db, True, True, [])"
    using sqlite_engine.check_user_exist_plain [OF assms(1) plain_lower [OF assms(3)]] check_user_exist_sem [OF ready] by simp
  then show ?thesis using admin_add_sem [OF assms] by (intro exI [of _ ?db]) auto
qed

text \<open>A database with an administrator and a child account.\<close>

definition demo_user :: "string \<Rightarrow> db_account_basic" where
  "demo_user u = \<lparr>ab_uuid = u, ab_pwd = ''pw'', ab_nickname = [], ab_comment = [], ab_created_time = []\<rparr>"

definition demo_db :: sql_db where
  "demo_db = \<lparr>t_account_license = Some [], t_account_basic = Some [demo_user ''boss'', demo_user ''kid''],
     t_account_admin = Some [\<lparr>ad_uuid = ''boss'', ad_license_type = 2, ad_licensed_time = [], ad_expired_time = []\<rparr>],
     t_account_child = Some [\<lparr>ch_uuid = ''kid'', ch_ref_admin_uuid = ''boss''\<rparr>], t_account_child_permission = Some [],
     t_device_basic = Some [], t_account_device = Some [], db_now = [], db_open = True\<rparr>"

lemma demo_ready: "db_ready demo_db"
  by (simp add: db_ready_def demo_db_def)

lemma demo_hash: "account_gen_hash_key (replicate 32 0) ''pw'' = Inr (string_of (hash_digits ''pw''))"
  using account_hash [of "''pw''" "replicate 32 0"] by (simp add: leftover_def)

lemma demo_plain: "no_quote (string_of (hash_digits ''pw''))"
  using plain_hash [of "replicate 32 0" "''pw''"] by (simp add: leftover_def)

theorem admin_add_promotes_witness:
  "\<exists>db'. db_account_admin_add sql_sem (replicate 32 0) (demo_user ''kid'') demo_db = Inr (db', False) \<and>
     db_account_check_user_exist sql_sem ''kid'' True False db' = (db', True, True, [])"
proof -
  have low: "world_tolower ''kid'' = ''kid''" by (simp add: world_tolower_def char_tolower_def)
  have "has_user demo_db ''kid''" "\<not> has_admin demo_db ''kid''"
    by (simp_all add: has_user_def has_admin_def users_def admins_def demo_db_def demo_user_def)
  then show ?thesis
    using admin_add_promotes [OF sem.sqlite_engine_axioms demo_ready, of "demo_user ''kid''"] demo_hash demo_plain low
    by (auto simp: demo_user_def no_quote_def)
qed

section \<open>Adding a child account and logging in\<close>

lemma check_user_is_ok_sem:
  assumes "db_ready db" and "account_gen_hash_key stk pwd = Inr h"
  shows "db_account_check_user_is_ok sql_sem stk u pwd wa wr db =
    Inr (if \<exists>r\<in>set (users db). ab_uuid r = u \<and> ab_pwd r = h
         then (db, True, wa \<and> has_admin db u, if \<not> (wa \<and> has_admin db u) \<and> wr then ref_admin db u else [])
         else (db, False, False, []))"
proof (cases "\<exists>r\<in>set (users db). ab_uuid r = u \<and> ab_pwd r = h")
  case True
  then have "has_user db u" by (auto simp: has_user_def)
  then show ?thesis
    using True exec_select_pwd [OF assms(1), of u h] assms(2) check_user_exist_sem [OF assms(1)]
    by (simp add: db_account_check_user_is_ok_def)
next
  case False
  then show ?thesis
    using exec_select_pwd [OF assms(1), of u h] assms(2) unfolding if_not_P [OF False] by (simp add: db_account_check_user_is_ok_def)
qed

lemma child_add_sem:
  assumes eng: "sqlite_engine engine" and ready: "db_ready db"
    and no_quote: "no_quote r" "no_quote (ab_uuid a)" "no_quote (ab_nickname a)" "no_quote (ab_comment a)" "no_quote h"
    and short: "length (ab_uuid a) < 16" "length r < 16" and h: "account_gen_hash_key stk (ab_pwd a) = Inr h"
    and ref: "has_user db (world_tolower r)"
    and fresh: "\<not> has_user db (world_tolower (ab_uuid a))" "world_tolower (ab_uuid a) \<notin> ch_uuid ` set (children db)"
  shows "db_account_child_add engine stk r a db =
    Inr (db\<lparr>t_account_basic := Some (users db @ [new_user db (world_tolower (ab_uuid a)) h (ab_nickname a) (ab_comment a)]),
            t_account_child := Some (children db @ [\<lparr>ch_uuid = world_tolower (ab_uuid a), ch_ref_admin_uuid = world_tolower r\<rparr>])\<rparr>, True)"
proof -
  define low where "low = world_tolower (ab_uuid a)"
  define lr where "lr = world_tolower r"
  have pl: "no_quote low" "no_quote lr" unfolding low_def lr_def by (rule plain_lower, rule no_quote)+
  have ref': "db_account_check_user_exist engine lr False False db = (db, True, False, [])"
    using sqlite_engine.check_user_exist_plain [OF eng pl(2)] check_user_exist_sem [OF ready] ref by (simp add: lr_def)
  let ?db = "db\<lparr>t_account_basic := Some (users db @ [new_user db low h (ab_nickname a) (ab_comment a)])\<rparr>"
  have ins: "db_exec engine (InsertBasic low h (ab_nickname a) (ab_comment a)) db = (?db, e_query_done)"
    using sqlite_engine.exec_plain [OF eng, of "InsertBasic low h (ab_nickname a) (ab_comment a)" db] exec_insert_basic [OF ready] no_quote pl fresh
    by (simp add: plain_stmt_def low_def)
  have "db_exec engine (InsertChild low lr) ?db =
      (?db\<lparr>t_account_child := Some (children db @ [\<lparr>ch_uuid = low, ch_ref_admin_uuid = lr\<rparr>])\<rparr>, e_query_done)"
    using sqlite_engine.exec_plain [OF eng, of "InsertChild low lr" ?db] exec_insert_child [of ?db] ready pl fresh(2)
    by (simp add: plain_stmt_def low_def)
  then show ?thesis
    using ref' ins h short by (simp add: db_account_child_add_def lower_copy_def low_def lr_def)
qed

text \<open>
  After a child account has been added to an existing account, a login under its name
  succeeds exactly when the hash computed then equals the one stored, and then reports no
  administrator and the account it belongs to. As the hash ends in what the stack held,
  the right password is accepted exactly when the stack leaves the same bytes behind the
  seventeen digits at both times.
\<close>

theorem child_login_round_trip:
  assumes "sqlite_engine engine" and "db_ready db"
    and "no_quote r" and "no_quote (ab_uuid a)" and "no_quote (ab_nickname a)" and "no_quote (ab_comment a)"
    and "length (ab_uuid a) < 16" and "length r < 16" and "CHR 0x00 \<notin> set (ab_pwd a)"
    and "length stk = 32" and "length stk' = 32" and "39 \<notin> set (leftover stk)" and "39 \<notin> set (leftover stk')"
    and "has_user db (world_tolower r)" and "\<not> has_admin db (world_tolower (ab_uuid a))"
    and "\<not> has_user db (world_tolower (ab_uuid a))" and "world_tolower (ab_uuid a) \<notin> ch_uuid ` set (children db)"
  shows "\<exists>db'. db_account_child_add engine stk r a db = Inr (db', True) \<and>
     db_account_check_user_is_ok engine stk' (world_tolower (ab_uuid a)) (ab_pwd a) True True db' =
       Inr (if leftover stk' = leftover stk then (db', True, False, world_tolower r) else (db', False, False, []))"
proof -
  define low where "low = world_tolower (ab_uuid a)"
  define h where "h s = string_of (hash_digits (ab_pwd a) @ leftover s)" for s
  have h: "account_gen_hash_key stk (ab_pwd a) = Inr (h stk)" "account_gen_hash_key stk' (ab_pwd a) = Inr (h stk')"
    unfolding h_def by (rule account_hash [OF assms(9)], rule assms)+
  have ph: "no_quote (h stk)" "no_quote (h stk')" unfolding h_def by (rule plain_hash, rule assms)+
  let ?db = "db\<lparr>t_account_basic := Some (users db @ [new_user db low (h stk) (ab_nickname a) (ab_comment a)]),
            t_account_child := Some (children db @ [\<lparr>ch_uuid = low, ch_ref_admin_uuid = world_tolower r\<rparr>])\<rparr>"
  have add: "db_account_child_add engine stk r a db = Inr (?db, True)"
    using child_add_sem [OF assms(1-6) ph(1) assms(7,8) h(1) assms(14,16,17)] by (simp add: low_def)
  have ready: "db_ready ?db" using assms(2) by simp
  have "(\<exists>x\<in>set (users ?db). ab_uuid x = low \<and> ab_pwd x = h stk') \<longleftrightarrow> h stk = h stk'"
    using assms(16) by (auto simp: has_user_def new_user_def low_def image_iff)
  moreover have "h stk = h stk' \<longleftrightarrow> leftover stk' = leftover stk"
    unfolding h_def by (auto dest!: string_of_inj)
  moreover have "\<not> has_admin ?db low" using assms(15) by (simp add: has_admin_def low_def)
  moreover have "find (\<lambda>c. ch_uuid c = low) (children ?db) = Some \<lparr>ch_uuid = low, ch_ref_admin_uuid = world_tolower r\<rparr>"
    unfolding view_update by (rule find_append_last) (use assms(17) in \<open>auto simp: low_def image_iff\<close>)
  then have "ref_admin ?db low = world_tolower r"
    using assms(8) by (simp add: ref_admin_def world_tolower_def)
  ultimately have "db_account_check_user_is_ok sql_sem stk' low (ab_pwd a) True True ?db =
      Inr (if leftover stk' = leftover stk then (?db, True, False, world_tolower r) else (?db, False, False, []))"
    using check_user_is_ok_sem [OF ready h(2), of low True True] by simp
  then show ?thesis
    using add sqlite_engine.check_user_is_ok_plain [OF assms(1), of low stk' "ab_pwd a" True True ?db] h(2) ph(2) plain_lower [OF assms(4)]
    by (auto simp: low_def)
qed

theorem child_login_round_trip_witness:
  "\<exists>db'. db_account_child_add sql_sem (replicate 32 0) ''boss'' (demo_user ''Tom'') demo_db = Inr (db', True) \<and>
     db_account_check_user_is_ok sql_sem (replicate 32 0) ''tom'' ''pw'' True True db' = Inr (db', True, False, ''boss'') \<and>
     db_account_check_user_is_ok sql_sem (replicate 32 1) ''tom'' ''pw'' True True db' = Inr (db', False, False, [])"
proof -
  have low: "world_tolower ''Tom'' = ''tom''" "world_tolower ''boss'' = ''boss''"
    by code_simp+
  have views: "has_user demo_db ''boss''" "\<not> has_user demo_db ''tom''" "\<not> has_admin demo_db ''tom''" "''tom'' \<notin> ch_uuid ` set (children demo_db)"
    by (simp_all add: has_user_def has_admin_def users_def admins_def children_def demo_db_def demo_user_def)
  have left: "leftover (replicate 32 0) = []" "leftover (replicate 32 1) = replicate 15 1"
    by (simp_all add: leftover_def)
  note round_trip = child_login_round_trip [OF sem.sqlite_engine_axioms demo_ready, of "''boss''" "demo_user ''Tom''" "replicate 32 0"]
  have "\<exists>db'. db_account_child_add sql_sem (replicate 32 0) ''boss'' (demo_user ''Tom'') demo_db = Inr (db', True) \<and>
     db_account_check_user_is_ok sql_sem (replicate 32 0) ''tom'' ''pw'' True True db' = Inr (db', True, False, ''boss'')"
    using round_trip [of "replicate 32 0"] low views left by (simp add: demo_user_def no_quote_def)
  moreover have "\<exists>db'. db_account_child_add sql_sem (replicate 32 0) ''boss'' (demo_user ''Tom'') demo_db = Inr (db', True) \<and>
     db_account_check_user_is_ok sql_sem (replicate 32 1) ''tom'' ''pw'' True True db' = Inr (db', False, False, [])"
    using round_trip [of "replicate 32 1"] low views left by (simp add: demo_user_def no_quote_def)
  ultimately show ?thesis by force
qed

section \<open>Deleting an administrator\<close>

lemma device_del_views:
  assumes "db_ready db"
  shows "case db_account_device_del sql_sem r None db of (db', res) \<Rightarrow>
    db_ready db' \<and> users db' = users db \<and> admins db' = admins db \<and> children db' = children db"
  using assms
  by (elim db_readyE) (simp add: db_account_device_del_def exec_sem delete_rows_def db_ready_def users_def admins_def children_def)

lemma admin_del_views:
  assumes "db_ready db"
  shows "\<exists>db'. db_account_admin_del sql_sem a db = (db', True) \<and> db_ready db' \<and>
    users db' = filter (\<lambda>r. ab_uuid r \<noteq> a) (users db) \<and> admins db' = filter (\<lambda>r. ad_uuid r \<noteq> a) (admins db) \<and>
    children db' = filter (\<lambda>c. ch_ref_admin_uuid c \<noteq> a) (children db)"
proof -
  let ?d1 = "db\<lparr>t_account_basic := Some (filter (\<lambda>r. ab_uuid r \<noteq> a) (users db))\<rparr>"
  let ?d2 = "?d1\<lparr>t_account_admin := Some (filter (\<lambda>r. ad_uuid r \<noteq> a) (admins db))\<rparr>"
  let ?d3 = "?d2\<lparr>t_account_child := Some (filter (\<lambda>c. ch_ref_admin_uuid c \<noteq> a) (children db))\<rparr>"
  have ready: "db_ready ?d1" "db_ready ?d2" "db_ready ?d3" using assms by simp_all
  have gone: "\<not> has_user ?d2 a" "\<not> has_admin ?d3 a" by (auto simp: has_user_def has_admin_def)
  have "db_account_license_del sql_sem a ?d2 = (?d2, False)"
    using check_user_exist_sem [OF ready(2)] gone by (simp add: db_account_license_del_def)
  moreover have "fst (db_account_child_del sql_sem a None ?d2) = ?d3"
    using exec_delete_children [OF ready(2)] exec_delete_basic_of_admin [OF ready(3)] gone
    by (simp add: db_account_child_del_def Let_def)
  ultimately have "db_account_admin_del sql_sem a db = (fst (db_account_device_del sql_sem a None ?d3), True)"
    using exec_delete_basic [OF assms] exec_delete_admin [OF ready(1)] by (simp add: db_account_admin_del_def Let_def)
  then show ?thesis using device_del_views [OF ready(3), of a] by (auto split: prod.splits)
qed

text \<open>
  Deleting an administrator, documented to delete all child accounts that belong to it,
  removes their link to it but not the accounts: a child still logs in with its password
  and is then an account that is no administrator and belongs to none.
\<close>

theorem admin_del_leaves_children:
  assumes "sqlite_engine engine" and "db_ready db" and "no_quote a" and "no_quote (ab_uuid c)"
    and "c \<in> set (users db)" and "ab_uuid c \<noteq> a" and "\<not> has_admin db (ab_uuid c)"
    and "\<forall>x\<in>set (children db). ch_uuid x = ab_uuid c \<longrightarrow> ch_ref_admin_uuid x = a"
    and "account_gen_hash_key stk pwd = Inr (ab_pwd c)" and "no_quote (ab_pwd c)"
  shows "\<exists>db'. db_account_admin_del engine a db = (db', True) \<and>
     db_account_check_user_is_ok engine stk (ab_uuid c) pwd True True db' = Inr (db', True, False, [])"
proof -
  obtain db' where del: "db_account_admin_del sql_sem a db = (db', True)" and ready: "db_ready db'"
    and views: "users db' = filter (\<lambda>r. ab_uuid r \<noteq> a) (users db)" "admins db' = filter (\<lambda>r. ad_uuid r \<noteq> a) (admins db)"
      "children db' = filter (\<lambda>c. ch_ref_admin_uuid c \<noteq> a) (children db)"
    using admin_del_views [OF assms(2)] by blast
  have ex: "\<exists>r\<in>set (users db'). ab_uuid r = ab_uuid c \<and> ab_pwd r = ab_pwd c" using assms(5,6) by (auto simp: views)
  have "\<not> has_admin db' (ab_uuid c)" using assms(7) by (auto simp: has_admin_def views)
  moreover have "find (\<lambda>x. ch_uuid x = ab_uuid c) (children db') = None"
    using assms(8) by (auto simp: views find_None_iff)
  then have "ref_admin db' (ab_uuid c) = []" by (simp add: ref_admin_def)
  ultimately have "db_account_check_user_is_ok sql_sem stk (ab_uuid c) pwd True True db' = Inr (db', True, False, [])"
    using check_user_is_ok_sem [OF ready assms(9), of "ab_uuid c" True True] ex by simp
  then show ?thesis
    using del sqlite_engine.admin_del_plain [OF assms(1,3)] sqlite_engine.check_user_is_ok_plain [OF assms(1,4), of stk pwd True True db'] assms(9,10)
    by simp
qed

theorem admin_del_leaves_children_witness:
  "\<exists>db'. db_account_admin_del sql_sem ''boss'' (demo_db\<lparr>t_account_basic := Some [demo_user ''boss'', (demo_user ''kid'')\<lparr>ab_pwd := string_of (hash_digits ''pw'')\<rparr>]\<rparr>)
       = (db', True) \<and>
     db_account_check_user_is_ok sql_sem (replicate 32 0) ''kid'' ''pw'' True True db' = Inr (db', True, False, [])"
proof -
  let ?kid = "(demo_user ''kid'')\<lparr>ab_pwd := string_of (hash_digits ''pw'')\<rparr>"
  let ?db = "demo_db\<lparr>t_account_basic := Some [demo_user ''boss'', ?kid]\<rparr>"
  have "db_ready ?db" using demo_ready by simp
  moreover have "?kid \<in> set (users ?db)" "\<not> has_admin ?db ''kid''"
    "\<forall>x\<in>set (children ?db). ch_uuid x = ''kid'' \<longrightarrow> ch_ref_admin_uuid x = ''boss''"
    by (simp_all add: has_admin_def users_def admins_def children_def demo_db_def)
  ultimately show ?thesis
    using admin_del_leaves_children [OF sem.sqlite_engine_axioms, of ?db "''boss''" ?kid "replicate 32 0" "''pw''"] demo_hash demo_plain
    by (simp add: demo_user_def no_quote_def)
qed

end
