(* ===== verification/Service_Device.thy ===== *)
theory Service_Device
  imports Db_Account
begin

text \<open>
  Working devices, \<open>service/service_device.c\<close>: a device is in the list while somebody
  works with it, with a reference counter. The linked list is represented by the sequence of
  its entries. Only \<open>session_device_touch\<close> looks into the account database.
\<close>

section \<open>Operations\<close>

record device_entry =
  de_uuid :: string     \<comment> \<open>at most 38 characters\<close>
  de_ref :: pref

record device_state =
  device_list :: "device_entry list"
  device_list_inited :: bool

definition session_device_init :: "device_state \<Rightarrow> device_state" where
  "session_device_init s =
     (if device_list_inited s then s else s\<lparr>device_list := [], device_list_inited := True\<rparr>)"

text \<open>\<open>session_device_destroy\<close>: \<open>None\<close> while it waits for a reference to be put back.\<close>

definition session_device_destroy :: "device_state \<Rightarrow> device_state option" where
  "session_device_destroy s =
     (if \<not> device_list_inited s then Some s
      else if \<exists>e\<in>set (device_list s). refcount (de_ref e) \<noteq> 0 then None
      else Some (s\<lparr>device_list := [], device_list_inited := False\<rparr>))"

text \<open>The host callback is stored; nothing calls it.\<close>

record device_hook =
  device_host :: nat
  device_opaque :: nat

definition session_device_host :: "nat \<Rightarrow> nat \<Rightarrow> device_hook \<Rightarrow> device_hook" where
  "session_device_host host opaque s = s\<lparr>device_host := host, device_opaque := opaque\<rparr>"

fun ref_work_loop :: "string \<Rightarrow> device_entry list \<Rightarrow> (device_entry list \<times> int) option" where
  "ref_work_loop uuid [] = None"
| "ref_work_loop uuid (tmp # rest) =
     (if de_uuid tmp = uuid
      then (let r = fst (pref_get (de_ref tmp)) in Some (tmp\<lparr>de_ref := r\<rparr> # rest, pref_count r))
      else map_option (apfst ((#) tmp)) (ref_work_loop uuid rest))"

definition session_device_ref_work :: "string \<Rightarrow> device_state \<Rightarrow> device_state \<times> int" where
  "session_device_ref_work uuid s =
     (case ref_work_loop uuid (device_list s) of
        Some (l, c) \<Rightarrow> (s\<lparr>device_list := l\<rparr>, c)
      | None \<Rightarrow>
          (s\<lparr>device_list := device_list s @ [\<lparr>de_uuid = take 38 uuid, de_ref = fst (pref_get pref_init)\<rparr>]\<rparr>, 1))"

fun device_dref_loop :: "string \<Rightarrow> device_entry list \<Rightarrow> device_entry list \<times> int" where
  "device_dref_loop uuid [] = ([], -1)"
| "device_dref_loop uuid (tmp # rest) =
     (if de_uuid tmp = uuid
      then (let (r, c_ref) = pref_put (de_ref tmp) in
            (if c_ref = 0 then rest else tmp\<lparr>de_ref := r\<rparr> # rest, c_ref))
      else apfst ((#) tmp) (device_dref_loop uuid rest))"

definition session_device_dref :: "string \<Rightarrow> device_state \<Rightarrow> device_state \<times> int" where
  "session_device_dref uuid s = (let (l, r) = device_dref_loop uuid (device_list s) in (s\<lparr>device_list := l\<rparr>, r))"

text \<open>
  \<open>session_device_touch\<close>: the database part goes through the administrators; the inner
  loop over the devices of one compares the first device in every round.
\<close>

fun touch_db :: "sql_engine \<Rightarrow> string \<Rightarrow> db_account_basic list \<Rightarrow> sql_db \<Rightarrow> (sql_db \<times> int) res" where
  "touch_db engine uuid [] db = Inr (db, -1)"
| "touch_db engine uuid (admin # rest) db =
     bindR (db_account_device_get engine (ab_uuid admin) None True db) (\<lambda>(db, got).
       case got of
         Some (device # _, _) \<Rightarrow> if dv_uuid (da_basic device) = uuid then Inr (db, 0) else touch_db engine uuid rest db
       | _ \<Rightarrow> touch_db engine uuid rest db)"

definition session_device_touch :: "sql_engine \<Rightarrow> string \<Rightarrow> device_state \<Rightarrow> sql_db \<Rightarrow> (sql_db \<times> int) res" where
  "session_device_touch engine uuid s db =
     (case find (\<lambda>tmp. de_uuid tmp = uuid) (device_list s) of
        Some tmp \<Rightarrow> Inr (db, pref_count (de_ref tmp))
      | None \<Rightarrow>
          bindR (db_account_list_admin_get engine None True db) (\<lambda>(db, admin).
            touch_db engine uuid (case admin of None \<Rightarrow> [] | Some (l, _) \<Rightarrow> l) db))"

definition session_device_count :: "device_state \<Rightarrow> int" where
  "session_device_count s = int (length (device_list s))"

section \<open>The abstract view: references per device\<close>

definition dev_refs :: "device_state \<Rightarrow> string \<Rightarrow> int" where
  "dev_refs s uuid = (case find (\<lambda>tmp. de_uuid tmp = uuid) (device_list s) of None \<Rightarrow> 0 | Some e \<Rightarrow> refcount (de_ref e))"

definition dev_ok :: "device_state \<Rightarrow> bool" where
  "dev_ok s \<longleftrightarrow> distinct (map de_uuid (device_list s)) \<and> (\<forall>e\<in>set (device_list s). 0 < refcount (de_ref e))"

lemma ref_work_loop_None: "ref_work_loop uuid l = None \<longleftrightarrow> uuid \<notin> set (map de_uuid l)"
  by (induction l) (auto simp: Let_def)

lemma find_uuid_None: "find (\<lambda>tmp. de_uuid tmp = uuid) l = None \<longleftrightarrow> uuid \<notin> set (map de_uuid l)"
  by (auto simp: find_None_iff)

lemma find_uuid_append:
  "find (\<lambda>tmp. de_uuid tmp = uuid) (l @ [e]) =
     (if uuid \<in> set (map de_uuid l) then find (\<lambda>tmp. de_uuid tmp = uuid) l else if de_uuid e = uuid then Some e else None)"
  by (induction l) auto

lemma ref_work_loop_Some:
  "ref_work_loop uuid l = Some (l', c) \<Longrightarrow>
   map de_uuid l' = map de_uuid l \<and>
   find (\<lambda>tmp. de_uuid tmp = u) l' =
     (if u = uuid then map_option (\<lambda>e. e\<lparr>de_ref := fst (pref_get (de_ref e))\<rparr>) (find (\<lambda>tmp. de_uuid tmp = uuid) l)
      else find (\<lambda>tmp. de_uuid tmp = u) l) \<and>
   (\<forall>e. find (\<lambda>tmp. de_uuid tmp = uuid) l = Some e \<longrightarrow> c = refcount (de_ref e) + 1) \<and>
   ((\<forall>e\<in>set l. 0 < refcount (de_ref e)) \<longrightarrow> (\<forall>e\<in>set l'. 0 < refcount (de_ref e)))"
  by (induction l arbitrary: l') (auto simp: Let_def pref_get_def pref_count_def split: if_splits)

lemma device_dref_present:
  assumes "distinct (map de_uuid l)" and "find (\<lambda>tmp. de_uuid tmp = uuid) l = Some e"
    and "\<forall>e\<in>set l. 0 < refcount (de_ref e)"
  shows "snd (device_dref_loop uuid l) = refcount (de_ref e) - 1 \<and>
    set (map de_uuid (fst (device_dref_loop uuid l))) \<subseteq> set (map de_uuid l) \<and> distinct (map de_uuid (fst (device_dref_loop uuid l))) \<and>
    (\<forall>e\<in>set (fst (device_dref_loop uuid l)). 0 < refcount (de_ref e)) \<and>
    find (\<lambda>tmp. de_uuid tmp = u) (fst (device_dref_loop uuid l)) =
      (if u \<noteq> uuid then find (\<lambda>tmp. de_uuid tmp = u) l
       else if refcount (de_ref e) = 1 then None else Some (e\<lparr>de_ref := fst (pref_put (de_ref e))\<rparr>))"
  using assms
proof (induction l)
  case (Cons tmp rest)
  show ?case
  proof (cases "de_uuid tmp = uuid")
    case True
    then have "find (\<lambda>tmp. de_uuid tmp = uuid) rest = None"
      using Cons.prems(1) by (simp add: find_uuid_None)
    then show ?thesis using True Cons.prems by (auto simp: pref_put_def Let_def)
  next
    case False
    then have "find (\<lambda>tmp. de_uuid tmp = uuid) rest = Some e" using Cons.prems(2) by simp
    then show ?thesis using False Cons by auto
  qed
qed simp

lemma device_dref_absent: "uuid \<notin> set (map de_uuid l) \<Longrightarrow> device_dref_loop uuid l = (l, -1)"
  by (induction l) auto

section \<open>Properties\<close>

text \<open>
  C16. For identifiers of at most 38 characters the device list is a counter per device:
  taking a reference adds one and returns the new count, putting it back subtracts one and
  returns the rest, a device is in the list exactly while its count is positive, no other
  device changes, and putting back a reference that nobody has is an error without effect.
\<close>

theorem device_reference_counting:
  assumes ok: "dev_ok s" and len: "length uuid \<le> 38"
  shows "dev_ok (fst (session_device_ref_work uuid s)) \<and>
    dev_refs (fst (session_device_ref_work uuid s)) = (dev_refs s)(uuid := dev_refs s uuid + 1) \<and>
    snd (session_device_ref_work uuid s) = dev_refs s uuid + 1 \<and>
    dev_ok (fst (session_device_dref uuid s)) \<and>
    (if dev_refs s uuid = 0 then session_device_dref uuid s = (s, -1)
     else dev_refs (fst (session_device_dref uuid s)) = (dev_refs s)(uuid := dev_refs s uuid - 1) \<and>
          snd (session_device_dref uuid s) = dev_refs s uuid - 1)"
proof (cases "find (\<lambda>tmp. de_uuid tmp = uuid) (device_list s)")
  case None
  then have absent: "uuid \<notin> set (map de_uuid (device_list s))" by (simp add: find_uuid_None)
  let ?e = "\<lparr>de_uuid = uuid, de_ref = fst (pref_get pref_init)\<rparr>"
  have ref: "session_device_ref_work uuid s = (s\<lparr>device_list := device_list s @ [?e]\<rparr>, 1)"
    using absent len by (simp add: session_device_ref_work_def ref_work_loop_None [THEN iffD2])
  have dref: "session_device_dref uuid s = (s, -1)"
    using device_dref_absent [OF absent] by (simp add: session_device_dref_def)
  have "dev_refs (s\<lparr>device_list := device_list s @ [?e]\<rparr>) = (dev_refs s)(uuid := dev_refs s uuid + 1)"
    using absent None pref.first_get by (auto simp: dev_refs_def find_uuid_append fun_eq_iff find_uuid_None [THEN iffD2] split: option.splits)
  then show ?thesis
    using ok absent None ref dref pref.first_get by (auto simp: dev_ok_def dev_refs_def)
next
  case (Some e)
  have pos: "0 < refcount (de_ref e)"
    using ok Some by (auto simp: dev_ok_def find_Some_iff)
  have "uuid \<in> set (map de_uuid (device_list s))" using Some find_uuid_None [of uuid "device_list s"] by auto
  then obtain l c where lc: "ref_work_loop uuid (device_list s) = Some (l, c)"
    using ref_work_loop_None [of uuid "device_list s"] by fastforce
  note r = ref_work_loop_Some [OF lc]
  have "dev_refs (s\<lparr>device_list := l\<rparr>) = (dev_refs s)(uuid := dev_refs s uuid + 1)"
    using r Some by (auto simp: dev_refs_def fun_eq_iff pref_get_def)
  moreover have "c = refcount (de_ref e) + 1" using r Some by blast
  moreover have "dev_ok (s\<lparr>device_list := l\<rparr>)" using r ok by (auto simp: dev_ok_def)
  moreover note d = device_dref_present [OF _ Some] ok
  have "dev_refs (fst (session_device_dref uuid s)) = (dev_refs s)(uuid := dev_refs s uuid - 1)"
    using d Some by (auto simp: dev_ok_def dev_refs_def session_device_dref_def fun_eq_iff pref_put_def Let_def split_beta)
  moreover have "dev_ok (fst (session_device_dref uuid s))" "snd (session_device_dref uuid s) = refcount (de_ref e) - 1"
    using d by (auto simp: dev_ok_def session_device_dref_def Let_def split_beta)
  moreover have "dev_refs s uuid = refcount (de_ref e)" using Some by (simp add: dev_refs_def)
  ultimately show ?thesis using lc pos by (simp add: session_device_ref_work_def)
qed

theorem device_reference_counting_witness:
  "dev_refs (fst (session_device_ref_work ''cam'' \<lparr>device_list = [], device_list_inited = True\<rparr>)) ''cam'' = 1"
  using device_reference_counting [of "\<lparr>device_list = [], device_list_inited = True\<rparr>" "''cam''"]
  by (simp add: dev_ok_def dev_refs_def)

text \<open>Only the first device of an administrator can be found in the database.\<close>

lemma touch_first_only:
  assumes "\<forall>a\<in>set accounts. db_account_device_get engine (ab_uuid a) None True db = Inr (db, devices a)"
  shows "touch_db engine uuid accounts db =
    Inr (db, if \<exists>a\<in>set accounts. \<exists>d rest n. devices a = Some (d # rest, n) \<and> dv_uuid (da_basic d) = uuid then 0 else -1)"
  using assms
proof (induction accounts)
  case (Cons a as)
  then show ?case by (auto split: option.splits list.splits)
qed simp

end
