(* ===== verification/Service_Req.thy ===== *)
theory Service_Req
  imports Service_Device Rpc_Dispatch
begin

text \<open>
  The request handlers of the service, \<open>service/service_req_account.c\<close>,
  \<open>service_req_device.c\<close>, \<open>service_req_play.c\<close>, \<open>service_req_platform.c\<close>, the stubs
  \<open>service_req_record.c\<close> and \<open>service_req_storage.c\<close>, and their registration in
  \<open>service_api.c\<close>. A handler takes the descriptor of the connection and the parsed
  request, changes the session table, the device list and the account database, and gives the
  pairs of its reply; no reply (\<open>None\<close>) means that it is still waiting in
  \<open>online_session_add\<close>. A handler runs without another one in between. The
  outside world is the record \<open>req_env\<close>.
\<close>

section \<open>State and environment\<close>

record service =
  sv_sessions :: session_state
  sv_devices :: device_state
  sv_db :: sql_db

text \<open>
  The database engine; what the stack holds where the \<open>n\<close>-th password hash of the request is put; the
  address a new session entry gets; and the peer of a descriptor as \<open>getpeername\<close> and
  \<open>inet_ntoa\<close> report it.
\<close>

record req_env =
  en_engine :: sql_engine
  en_stack :: "nat \<Rightarrow> byte list"
  en_addr :: nat
  en_peer :: "int \<Rightarrow> (string \<times> int) option"

type_synonym reply = "(string \<times> string) list"
type_synonym req_result = "(service \<times> reply option) res"

section \<open>Values of a request and of a reply\<close>

text \<open>A value of a request as a C string.\<close>

definition req_get :: "rpc_req option \<Rightarrow> string \<Rightarrow> string option" where
  "req_get req key =
     map_option (\<lambda>v. string_of (takeWhile (\<lambda>b. b \<noteq> 0) v)) (rpc_parser_get req (Some (bytes_of key)))"

text \<open>\<open>atoi\<close>, which gives the nearest bound when the number does not fit an \<open>int\<close>.\<close>

definition digit_value :: "char \<Rightarrow> int" where
  "digit_value c = int (of_char c) - 48"

definition is_digit :: "char \<Rightarrow> bool" where
  "is_digit c \<longleftrightarrow> 0 \<le> digit_value c \<and> digit_value c \<le> 9"

definition is_blank :: "char \<Rightarrow> bool" where
  "is_blank c \<longleftrightarrow> (let n = of_char c :: nat in n = 32 \<or> (9 \<le> n \<and> n \<le> 13))"

definition digits_value :: "string \<Rightarrow> int" where
  "digits_value s = foldl (\<lambda>n c. 10 * n + digit_value c) 0 (takeWhile is_digit s)"

definition c_atoi :: "string \<Rightarrow> int" where
  "c_atoi s =
     (let n = (case dropWhile is_blank s of
                 [] \<Rightarrow> 0
               | c # cs \<Rightarrow> if c = CHR ''-'' then - digits_value cs
                          else if c = CHR ''+'' then digits_value cs else digits_value (c # cs))
      in max (- (2 ^ 31)) (min (2 ^ 31 - 1) n))"

text \<open>The text of \<open>"%d"\<close>.\<close>

fun nat_text :: "nat \<Rightarrow> string" where
  "nat_text n = (if n < 10 then [char_of (48 + n)] else nat_text (n div 10) @ [char_of (48 + n mod 10)])"

declare nat_text.simps [simp del]

definition int_text :: "int \<Rightarrow> string" where
  "int_text n = (if n < 0 then CHR ''-'' # nat_text (nat (- n)) else nat_text (nat n))"

definition rid :: "int \<Rightarrow> string \<times> string" where
  "rid n = (''rid'', int_text n)"

definition bool_text :: "bool \<Rightarrow> string" where
  "bool_text b = (if b then ''1'' else ''0'')"

definition valid_platform :: "int \<Rightarrow> bool" where
  "valid_platform pid \<longleftrightarrow> pid = 100 \<or> pid = 200 \<or> pid = 201 \<or> pid = 300 \<or> pid = 301"

definition valid_uuid :: "string option \<Rightarrow> bool" where
  "valid_uuid uuid \<longleftrightarrow> (case uuid of None \<Rightarrow> False | Some s \<Rightarrow> length s \<le> 16)"

definition valid_pwd :: "string option \<Rightarrow> bool" where
  "valid_pwd pwd \<longleftrightarrow> (case pwd of None \<Rightarrow> False | Some s \<Rightarrow> length s \<le> 16)"

definition valid_nickname :: "string option \<Rightarrow> bool" where
  "valid_nickname nickname \<longleftrightarrow> (case nickname of None \<Rightarrow> True | Some s \<Rightarrow> length s \<le> 64)"

definition valid_comment :: "string option \<Rightarrow> bool" where
  "valid_comment c \<longleftrightarrow> (case c of None \<Rightarrow> True | Some s \<Rightarrow> length s \<le> 256)"

definition or_empty :: "string option \<Rightarrow> string" where
  "or_empty s = (case s of None \<Rightarrow> [] | Some t \<Rightarrow> t)"

definition rpc_util_ip :: "(int \<Rightarrow> (string \<times> int) option) \<Rightarrow> int \<Rightarrow> bool \<times> string \<times> int" where
  "rpc_util_ip peer fd = (case peer fd of None \<Rightarrow> (False, [], 0) | Some (ip, port) \<Rightarrow> (True, take 16 ip, port))"

definition answer :: "service \<Rightarrow> reply \<Rightarrow> req_result" where
  "answer sv r = Inr (sv, Some r)"

text \<open>The session a pointer of \<open>online_session_ref\<close> points to.\<close>

definition session_at :: "nat \<Rightarrow> service \<Rightarrow> online_session res" where
  "session_at p sv =
     (case find (\<lambda>e. se_addr e = p) (session_list (sv_sessions sv)) of
        Some e \<Rightarrow> Inr (se_session e) | None \<Rightarrow> Inl UseAfterFree)"

definition dref :: "nat \<Rightarrow> service \<Rightarrow> service" where
  "dref p sv = sv\<lparr>sv_sessions := online_session_dref p (sv_sessions sv)\<rparr>"

text \<open>What every handler does first: refer to the session of the connection, or report that it has expired.\<close>

definition with_session :: "int \<Rightarrow> service \<Rightarrow> (nat \<Rightarrow> online_session \<Rightarrow> service \<Rightarrow> req_result) \<Rightarrow> req_result" where
  "with_session fd sv body =
     (case online_session_ref fd (sv_sessions sv) of
        (s, None) \<Rightarrow> answer (sv\<lparr>sv_sessions := s\<rparr>) [rid (-300)]
      | (s, Some p) \<Rightarrow>
          (let sv = sv\<lparr>sv_sessions := s\<rparr> in bindR (session_at p sv) (\<lambda>session. body p session sv)))"

section \<open>Platform requests\<close>

definition req_version_check :: "rpc_req option \<Rightarrow> service \<Rightarrow> req_result" where
  "req_version_check req sv =
     (let pid = req_get req ''pid''; ver = req_get req ''ver'' in
      if ver = None then answer sv [rid (-255)]
      else case pid of
        None \<Rightarrow> Inl NullDeref
      | Some pid \<Rightarrow>
          if \<not> valid_platform (c_atoi pid) then answer sv [rid (-255)]
          else answer sv [rid 0, (''new_ver'', ''1.0.0.0''), (''update_log'', ''no need update current.''), (''force_update'', ''0'')])"

text \<open>The handlers of the two stub files have the same body.\<close>

definition ff :: "rpc_req option \<Rightarrow> service \<Rightarrow> req_result" where
  "ff req sv =
     (let pid = req_get req ''pid''; ver = req_get req ''ver'' in
      if ver = None then answer sv [rid (-255)]
      else case pid of
        None \<Rightarrow> Inl NullDeref
      | Some pid \<Rightarrow>
          if \<not> valid_platform (c_atoi pid) then answer sv [rid (-255)]
          else answer sv [rid 0, (''new_ver'', ''1.0.0.0''), (''update_log'', ''no need update current.''), (''force_update'', ''0'')])"

definition req_version_checkxx :: "rpc_req option \<Rightarrow> service \<Rightarrow> req_result" where
  "req_version_checkxx req sv =
     (let pid = req_get req ''pid''; ver = req_get req ''ver'' in
      if ver = None then answer sv [rid (-255)]
      else case pid of
        None \<Rightarrow> Inl NullDeref
      | Some pid \<Rightarrow>
          if \<not> valid_platform (c_atoi pid) then answer sv [rid (-255)]
          else answer sv [rid 0, (''new_ver'', ''1.0.0.0''), (''update_log'', ''no need update current.''), (''force_update'', ''0'')])"

fun beat_loop :: "nat \<Rightarrow> session_entry list \<Rightarrow> session_entry list" where
  "beat_loop p [] = []"
| "beat_loop p (e # es) =
     (if se_addr e = p then e\<lparr>se_session := (se_session e)\<lparr>os_is_heartbeated := True\<rparr>\<rparr> # es else e # beat_loop p es)"

definition req_heartbeat :: "int \<Rightarrow> service \<Rightarrow> req_result" where
  "req_heartbeat fd sv =
     with_session fd sv (\<lambda>p session sv.
       let sv = dref p sv;
           s = sv_sessions sv
       in answer (sv\<lparr>sv_sessions := s\<lparr>session_list := beat_loop p (session_list s)\<rparr>\<rparr>) [rid 0])"

section \<open>Account requests\<close>

text \<open>The first element of the array of accounts, which is null when the query failed.\<close>

definition first_account :: "(db_account_basic list \<times> int) option \<Rightarrow> db_account_basic res" where
  "first_account acc =
     (case acc of None \<Rightarrow> Inl NullDeref | Some ([], _) \<Rightarrow> Inl OutOfBounds | Some (b # _, _) \<Rightarrow> Inr b)"

text \<open>The end of a login: the new session is added to the table.\<close>

definition login_enter :: "req_env \<Rightarrow> int \<Rightarrow> bool \<Rightarrow> string \<Rightarrow> db_account_basic \<Rightarrow> service \<Rightarrow> req_result" where
  "login_enter env fd b_is_admin ref_admin_uuid basic sv =
     (let (_, ip, port) = rpc_util_ip (en_peer env) fd;
          new_session = \<lparr>os_basic = basic, os_ref_admin_uuid = ref_admin_uuid, os_is_admin = b_is_admin, os_is_online = True,
                         os_fd = fd, os_ip = ip, os_port = port, os_is_heartbeated = True\<rparr>;
          (s, added) = online_session_add (en_addr env) new_session (sv_sessions sv)
      in Inr (sv\<lparr>sv_sessions := s\<rparr>,
              if added = None then None
              else Some ([rid 0, (''is_admin'', bool_text b_is_admin)] @
                         (if b_is_admin then [] else [(''ref_admin_uuid'', ref_admin_uuid)]))))"

definition req_account_login :: "req_env \<Rightarrow> int \<Rightarrow> rpc_req option \<Rightarrow> service \<Rightarrow> req_result" where
  "req_account_login env fd req sv =
     (let pid = req_get req ''pid''; uuid = req_get req ''uuid''; pwd = req_get req ''pwd'' in
      if pid = None \<or> \<not> valid_platform (c_atoi (the pid)) \<or> \<not> valid_uuid uuid \<or> \<not> valid_pwd pwd
      then answer sv [rid (-255)]
      else
        bindR (db_account_check_user_is_ok (en_engine env) (en_stack env 0) (the uuid) (the pwd) True True (sv_db sv))
          (\<lambda>(db, r, b_is_admin, ref_admin_uuid).
          if \<not> r then answer (sv\<lparr>sv_db := db\<rparr>) [rid (-1)]
          else
            bindR (if b_is_admin then Inr [] else ref_string ref_admin_uuid) (\<lambda>ref_admin_uuid.
            bindR (if b_is_admin then db_account_list_admin_get (en_engine env) (Some (the uuid)) True db
                   else db_account_list_child_get (en_engine env) ref_admin_uuid (Some (the uuid)) True db) (\<lambda>(db, acc).
            bindR (first_account acc) (\<lambda>basic.
              login_enter env fd b_is_admin ref_admin_uuid basic (sv\<lparr>sv_db := db\<rparr>))))))"

definition req_account_logout :: "int \<Rightarrow> service \<Rightarrow> req_result" where
  "req_account_logout fd sv =
     with_session fd sv (\<lambda>p session sv.
       let sv = dref p sv in
       answer (sv\<lparr>sv_sessions := fst (online_session_del fd (sv_sessions sv))\<rparr>) [rid 0])"

definition req_account_create :: "req_env \<Rightarrow> int \<Rightarrow> rpc_req option \<Rightarrow> service \<Rightarrow> req_result" where
  "req_account_create env fd req sv =
     (let uuid = req_get req ''uuid''; pwd = req_get req ''pwd'';
          nickname = req_get req ''nickname''; comment = req_get req ''comment'' in
      if \<not> valid_uuid uuid \<or> \<not> valid_pwd pwd \<or> \<not> valid_nickname nickname \<or> \<not> valid_comment comment
      then answer sv [rid (-255)]
      else
        (case db_account_check_user_exist (en_engine env) (the uuid) False False (sv_db sv) of
           (db, r, _) \<Rightarrow>
             if r then answer (sv\<lparr>sv_db := db\<rparr>) [rid (-2)]
             else
               with_session fd (sv\<lparr>sv_db := db\<rparr>) (\<lambda>p session sv.
                 if \<not> os_is_admin session then answer (dref p sv) [rid (-1)]
                 else
                   bindR (db_account_child_add (en_engine env) (en_stack env 0) (ab_uuid (os_basic session))
                            \<lparr>ab_uuid = the uuid, ab_pwd = the pwd, ab_nickname = or_empty nickname, ab_comment = or_empty comment,
                             ab_created_time = []\<rparr> (sv_db sv)) (\<lambda>(db, r).
                     let sv = dref p (sv\<lparr>sv_db := db\<rparr>) in
                     if \<not> r then answer sv [rid (-256)] else answer sv [rid 0]))))"

definition req_account_modify :: "req_env \<Rightarrow> int \<Rightarrow> rpc_req option \<Rightarrow> service \<Rightarrow> req_result" where
  "req_account_modify env fd req sv =
     (let old_pwd = req_get req ''old_pwd''; new_pwd = req_get req ''new_pwd'';
          nickname = req_get req ''nickname''; comment = req_get req ''comment'' in
      if \<not> valid_pwd old_pwd \<or> \<not> valid_pwd new_pwd \<or> \<not> valid_nickname nickname \<or> \<not> valid_comment comment
      then answer sv [rid (-255)]
      else
        with_session fd sv (\<lambda>p session sv.
          bindR (db_account_check_user_is_ok (en_engine env) (en_stack env 0) (ab_uuid (os_basic session)) (the old_pwd) False False (sv_db sv))
            (\<lambda>(db, r, _).
            if \<not> r then answer (dref p (sv\<lparr>sv_db := db\<rparr>)) [rid (-1)]
            else
              bindR (db_account_update (en_engine env) (en_stack env 1) (ab_uuid (os_basic session))
                       ((os_basic session)\<lparr>ab_pwd := the new_pwd\<rparr>) False db) (\<lambda>(db, r).
                let sv = dref p (sv\<lparr>sv_db := db\<rparr>) in
                if \<not> r then answer sv [rid (-256)] else answer sv [rid 0]))))"

definition req_account_delete :: "req_env \<Rightarrow> int \<Rightarrow> rpc_req option \<Rightarrow> service \<Rightarrow> req_result" where
  "req_account_delete env fd req sv =
     (let check_pwd = req_get req ''check_pwd''; del_uuid = req_get req ''del_uuid'' in
      if \<not> valid_uuid del_uuid \<or> \<not> valid_pwd check_pwd then answer sv [rid (-255)]
      else
        with_session fd sv (\<lambda>p session sv.
          let own = ab_uuid (os_basic session) in
          bindR (db_account_check_user_is_ok (en_engine env) (en_stack env 0) own (the check_pwd) True False (sv_db sv))
            (\<lambda>(db, r, b_is_admin, _).
            let sv = sv\<lparr>sv_db := db\<rparr> in
            if \<not> r then answer (dref p sv) [rid (-2)]
            else if \<not> b_is_admin then answer (dref p sv) [rid (-1)]
            else if world_tolower (the del_uuid) = world_tolower own then answer (dref p sv) [rid (-3)]
            else
              bindR (db_account_list_child_get (en_engine env) own (Some (the del_uuid)) False db) (\<lambda>(db, got).
                let sv = sv\<lparr>sv_db := db\<rparr> in
                if got = None \<or> snd (the got) \<noteq> 1 then answer (dref p sv) [rid (-4)]
                else
                  (case db_account_check_user_exist (en_engine env) (the del_uuid) True False db of
                     (db, r, b_is_admin, _) \<Rightarrow>
                       if r \<and> b_is_admin then answer (dref p (sv\<lparr>sv_db := db\<rparr>)) [rid (-256)]
                       else
                         (case db_account_child_del (en_engine env) own (Some (the del_uuid)) db of
                            (db, r) \<Rightarrow>
                              let sv = dref p (sv\<lparr>sv_db := db\<rparr>) in
                              if \<not> r then answer sv [rid (-256)] else answer sv [rid 0]))))))"

text \<open>
  The session of a child in the list: the database is asked only when the child is not logged in.
\<close>

definition child_session :: "req_env \<Rightarrow> string \<Rightarrow> string \<Rightarrow> service \<Rightarrow> (service \<times> online_session option) res" where
  "child_session env ref_admin_uuid uuid sv =
     bindR (if find_child_session ref_admin_uuid uuid (sv_sessions sv) \<noteq> None then Inr (sv_db sv, None)
            else db_account_list_child_get (en_engine env) ref_admin_uuid (Some uuid) True (sv_db sv)) (\<lambda>(db, acc).
     bindR (online_session_try_get_child (\<lambda>_ _. map_option fst acc) ref_admin_uuid uuid (sv_sessions sv)) (\<lambda>online.
     Inr (sv\<lparr>sv_db := db\<rparr>, online)))"

definition session_pairs :: "online_session \<Rightarrow> reply" where
  "session_pairs online =
     [(''uuid'', ab_uuid (os_basic online)), (''nickname'', ab_nickname (os_basic online)), (''comment'', ab_comment (os_basic online)),
      (''created_time'', ab_created_time (os_basic online)), (''is_online'', bool_text (os_is_online online)),
      (''ip'', if os_ip online = [] then ''0.0.0.0'' else os_ip online), (''port'', int_text (os_port online))]"

fun account_list_loop :: "req_env \<Rightarrow> string \<Rightarrow> db_account_basic list \<Rightarrow> service \<Rightarrow> reply \<Rightarrow> (service \<times> reply) res" where
  "account_list_loop env own [] sv out = Inr (sv, out)"
| "account_list_loop env own (b # bs) sv out =
     bindR (child_session env own (ab_uuid b) sv) (\<lambda>(sv, online).
       account_list_loop env own bs sv (out @ (case online of None \<Rightarrow> [] | Some o' \<Rightarrow> session_pairs o')))"

definition req_account_list :: "req_env \<Rightarrow> int \<Rightarrow> service \<Rightarrow> req_result" where
  "req_account_list env fd sv =
     with_session fd sv (\<lambda>p session sv.
       let own = ab_uuid (os_basic session) in
       case db_account_check_user_exist (en_engine env) own True False (sv_db sv) of
         (db, r, b_is_admin, _) \<Rightarrow>
           let sv = sv\<lparr>sv_db := db\<rparr> in
           if \<not> r then answer (dref p sv) [rid (-256)]
           else if \<not> b_is_admin then answer (dref p sv) [rid (-1)]
           else
             bindR (db_account_list_child_get (en_engine env) own None True db) (\<lambda>(db, got).
               let sv = sv\<lparr>sv_db := db\<rparr> in
               case got of
                 None \<Rightarrow> answer (dref p sv) [rid (-256)]
               | Some (basic, count) \<Rightarrow>
                   bindR (account_list_loop env own basic sv [rid 0, (''count'', int_text count)]) (\<lambda>(sv, out).
                   answer (dref p sv) out)))"

section \<open>Device requests\<close>

text \<open>The macros \<open>req_device_basic_copy\<close> and \<open>req_device_basic_set\<close>: without the key the reply is a syntax error.\<close>

definition req_need :: "rpc_req option \<Rightarrow> string \<Rightarrow> service \<Rightarrow> (string \<Rightarrow> req_result) \<Rightarrow> req_result" where
  "req_need req key sv k = (case req_get req key of None \<Rightarrow> answer sv [rid (-255)] | Some v \<Rightarrow> k v)"

text \<open>The check that the session is one of an administrator, which gives its account.\<close>

definition with_admin :: "req_env \<Rightarrow> int \<Rightarrow> service \<Rightarrow> (string \<Rightarrow> service \<Rightarrow> req_result) \<Rightarrow> req_result" where
  "with_admin env fd sv body =
     with_session fd sv (\<lambda>p session sv.
       case db_account_check_user_exist (en_engine env) (ab_uuid (os_basic session)) True False (sv_db sv) of
         (db, _, b_is_admin, _) \<Rightarrow>
           let sv = dref p (sv\<lparr>sv_db := db\<rparr>) in
           if \<not> b_is_admin then answer sv [rid (-1)] else body (ab_uuid (os_basic session)) sv)"

definition req_device_create :: "req_env \<Rightarrow> int \<Rightarrow> rpc_req option \<Rightarrow> service \<Rightarrow> req_result" where
  "req_device_create env fd req sv =
     with_admin env fd sv (\<lambda>cur_uuid sv.
       req_need req ''uuid'' sv (\<lambda>uuid.
       req_need req ''plugin_name'' sv (\<lambda>plugin_name.
       req_need req ''ip'' sv (\<lambda>ip.
       req_need req ''port'' sv (\<lambda>port.
       req_need req ''user'' sv (\<lambda>user.
       req_need req ''pwd'' sv (\<lambda>pwd.
       req_need req ''channel'' sv (\<lambda>channel.
         case db_account_device_check_exist (en_engine env) cur_uuid (take 16 ip) (c_atoi port) (c_atoi channel) (sv_db sv) of
           (db, r) \<Rightarrow>
             let sv = sv\<lparr>sv_db := db\<rparr> in
             if r then answer sv [rid (-2)]
             else
               bindR (db_account_device_get (en_engine env) cur_uuid (Some (take 38 uuid)) False db) (\<lambda>(db, got).
                 let sv = sv\<lparr>sv_db := db\<rparr> in
                 if got \<noteq> None then answer sv [rid (-2)]
                 else
                   req_need req ''seg_folder'' sv (\<lambda>seg_folder.
                   req_need req ''seg_in_count'' sv (\<lambda>seg_in_count.
                   req_need req ''seg_per_sec'' sv (\<lambda>seg_per_sec.
                     case db_account_device_workpath_valid (en_engine env) (take 32 seg_folder) db of
                       (db, r) \<Rightarrow>
                         let sv = sv\<lparr>sv_db := db\<rparr> in
                         if r then answer sv [rid (-3)]
                         else
                           req_need req ''is_top_level'' sv (\<lambda>is_top_level.
                             let top = c_atoi is_top_level \<noteq> 0 in
                             (\<lambda>add. if \<not> top then req_need req ''ref_parent_uuid'' sv add else add [])
                               (\<lambda>ref_parent_uuid.
                                  case db_account_device_add (en_engine env) cur_uuid
                                    \<lparr>da_basic = \<lparr>dv_uuid = take 38 uuid, dv_plugin_name = take 16 plugin_name, dv_ip = take 16 ip,
                                       dv_port = c_atoi port, dv_user = take 32 user, dv_pwd = take 32 pwd, dv_channel = c_atoi channel,
                                       dv_seg_folder = take 32 seg_folder, dv_seg_in_count = c_atoi seg_in_count,
                                       dv_seg_per_sec = c_atoi seg_per_sec, dv_created_time = []\<rparr>,
                                     da_nickname = take 64 (or_empty (req_get req ''nickname'')),
                                     da_comment = take 256 (or_empty (req_get req ''comment'')),
                                     da_is_top_level = top, da_ref_parent_uuid = take 16 ref_parent_uuid\<rparr> db of
                                    (db, r) \<Rightarrow>
                                      let sv = sv\<lparr>sv_db := db\<rparr> in
                                      if \<not> r then answer sv [rid (-256)] else answer sv [rid 0]))))))))))))))"

definition req_device_delete :: "req_env \<Rightarrow> int \<Rightarrow> rpc_req option \<Rightarrow> service \<Rightarrow> req_result" where
  "req_device_delete env fd req sv =
     req_need req ''uuid'' sv (\<lambda>del_uuid.
       with_admin env fd sv (\<lambda>cur_uuid sv.
         bindR (db_account_device_get (en_engine env) cur_uuid (Some del_uuid) False (sv_db sv)) (\<lambda>(db, got).
           let sv = sv\<lparr>sv_db := db\<rparr> in
           if got = None then answer sv [rid (-2)]
           else
             (case db_account_device_del (en_engine env) cur_uuid (Some del_uuid) db of
                (db, r) \<Rightarrow>
                  let sv = sv\<lparr>sv_db := db\<rparr> in
                  if \<not> r then answer sv [rid (-256)] else answer sv [rid 0]))))"

text \<open>The port of a device is reported as its address.\<close>

definition device_pairs :: "db_account_device \<Rightarrow> reply" where
  "device_pairs d =
     (let b = da_basic d in
      [(''uuid'', dv_uuid b), (''plugin_name'', dv_plugin_name b), (''ip'', dv_ip b), (''port'', dv_ip b), (''user'', dv_user b),
       (''pwd'', dv_pwd b), (''channel'', int_text (dv_channel b)), (''seg_folder'', dv_seg_folder b),
       (''seg_in_count'', int_text (dv_seg_in_count b)), (''seg_per_sec'', int_text (dv_seg_per_sec b)),
       (''created_time'', dv_created_time b), (''nickname'', da_nickname d), (''comment'', da_comment d),
       (''is_top_level'', bool_text (da_is_top_level d)), (''ref_parent_uuid'', da_ref_parent_uuid d)])"

definition req_device_list :: "req_env \<Rightarrow> int \<Rightarrow> service \<Rightarrow> req_result" where
  "req_device_list env fd sv =
     with_session fd sv (\<lambda>p session sv.
       case db_account_check_user_exist (en_engine env) (ab_uuid (os_basic session)) True False (sv_db sv) of
         (db, r, b_is_admin, _) \<Rightarrow>
           let sv = sv\<lparr>sv_db := db\<rparr> in
           if \<not> r then answer (dref p sv) [rid (-256)]
           else if \<not> b_is_admin then answer (dref p sv) [rid (-1)]
           else
             bindR (db_account_device_get (en_engine env) (ab_uuid (os_basic session)) None True db) (\<lambda>(db, got).
               let sv = dref p (sv\<lparr>sv_db := db\<rparr>) in
               case got of
                 None \<Rightarrow> answer sv [rid 0, (''count'', ''0'')]
               | Some (device, count) \<Rightarrow> answer sv ([rid 0, (''count'', int_text count)] @ concat (map device_pairs device))))"

section \<open>Play requests\<close>

text \<open>
  The part the three handlers share: the device has to belong to the administrator of the
  session. None of them returns the reference to the session.
\<close>

definition with_device :: "req_env \<Rightarrow> int \<Rightarrow> rpc_req option \<Rightarrow> service \<Rightarrow> (string \<Rightarrow> service \<Rightarrow> req_result) \<Rightarrow> req_result" where
  "with_device env fd req sv body =
     req_need req ''uuid'' sv (\<lambda>uuid.
       with_session fd sv (\<lambda>p session sv.
         let admin_uuid = (if os_is_admin session then ab_uuid (os_basic session) else os_ref_admin_uuid session) in
         bindR (db_account_device_get (en_engine env) admin_uuid (Some uuid) False (sv_db sv)) (\<lambda>(db, got).
           let sv = sv\<lparr>sv_db := db\<rparr> in
           if got = None then answer sv [rid (-1)] else body uuid sv)))"

text \<open>The test for a failure looks at the truth value of the query, which is never negative.\<close>

definition req_play_device :: "req_env \<Rightarrow> int \<Rightarrow> rpc_req option \<Rightarrow> service \<Rightarrow> req_result" where
  "req_play_device env fd req sv =
     with_device env fd req sv (\<lambda>uuid sv.
       let (d, work_r) = session_device_ref_work uuid (sv_devices sv) in
       answer (sv\<lparr>sv_devices := d\<rparr>) [rid work_r])"

text \<open>The reply is the truth value of the query less one.\<close>

definition req_play_stop :: "req_env \<Rightarrow> int \<Rightarrow> rpc_req option \<Rightarrow> service \<Rightarrow> req_result" where
  "req_play_stop env fd req sv =
     with_device env fd req sv (\<lambda>uuid sv.
       let (d, work_r) = session_device_dref uuid (sv_devices sv) in
       answer (sv\<lparr>sv_devices := d\<rparr>) [rid (of_bool True - 1)])"

text \<open>The status is zeroed and never filled.\<close>

definition req_play_touch :: "req_env \<Rightarrow> int \<Rightarrow> rpc_req option \<Rightarrow> service \<Rightarrow> req_result" where
  "req_play_touch env fd req sv =
     with_device env fd req sv (\<lambda>uuid sv.
       bindR (session_device_touch (en_engine env) uuid (sv_devices sv) (sv_db sv)) (\<lambda>(db, work_r).
       answer (sv\<lparr>sv_db := db\<rparr>) ([rid work_r] @ (if 0 < work_r then [(''path'', []), (''elapsed'', int_text 0)] else []))))"

section \<open>Registration\<close>

text \<open>The handlers, by the function pointers that are registered.\<close>

datatype req_handler =
    VersionCheck | Heartbeat
  | AccountLogin | AccountLogout | AccountCreate | AccountModify | AccountDelete | AccountList
  | DeviceCreate | DeviceDelete | DeviceList
  | PlayDevice | PlayStop | PlayTouch

fun handle :: "req_handler \<Rightarrow> req_env \<Rightarrow> int \<Rightarrow> rpc_req option \<Rightarrow> service \<Rightarrow> req_result" where
  "handle VersionCheck env fd req sv = req_version_check req sv"
| "handle Heartbeat env fd req sv = req_heartbeat fd sv"
| "handle AccountLogin env fd req sv = req_account_login env fd req sv"
| "handle AccountLogout env fd req sv = req_account_logout fd sv"
| "handle AccountCreate env fd req sv = req_account_create env fd req sv"
| "handle AccountModify env fd req sv = req_account_modify env fd req sv"
| "handle AccountDelete env fd req sv = req_account_delete env fd req sv"
| "handle AccountList env fd req sv = req_account_list env fd sv"
| "handle DeviceCreate env fd req sv = req_device_create env fd req sv"
| "handle DeviceDelete env fd req sv = req_device_delete env fd req sv"
| "handle DeviceList env fd req sv = req_device_list env fd sv"
| "handle PlayDevice env fd req sv = req_play_device env fd req sv"
| "handle PlayStop env fd req sv = req_play_stop env fd req sv"
| "handle PlayTouch env fd req sv = req_play_touch env fd req sv"

text \<open>The address of a handler in the dispatch table; category and sub-category are those of \<open>public/rpc_declare.h\<close>.\<close>

definition request_handlers :: "(int \<times> int \<times> req_handler) list" where
  "request_handlers =
     [(0, 0, VersionCheck), (0, 1, Heartbeat),
      (2, 0, AccountLogin), (2, 1, AccountLogout), (2, 2, AccountCreate), (2, 3, AccountModify), (2, 4, AccountDelete), (2, 5, AccountList),
      (3, 0, DeviceCreate), (3, 2, DeviceDelete), (3, 3, DeviceList),
      (5, 0, PlayDevice), (5, 1, PlayStop), (5, 2, PlayTouch)]"

definition register_all_reqeust_handler :: "(req_handler \<Rightarrow> nat) \<Rightarrow> dispatch_state \<Rightarrow> dispatch_state" where
  "register_all_reqeust_handler ptr s =
     foldl (\<lambda>s (category, sub, h). rpc_dispatch_add_cb category sub (ptr h) 0 s) s request_handlers"

section \<open>Numbers as text\<close>

lemma digit_char: "d < 10 \<Longrightarrow> digit_value (char_of (48 + d)) = int d \<and> is_digit (char_of (48 + d))"
  by (simp add: is_digit_def digit_value_def)

lemma nat_text_digits: "list_all is_digit (nat_text n)"
proof (induction n rule: nat_text.induct)
  case (1 n)
  then show ?case using digit_char [of n] digit_char [of "n mod 10"] by (subst nat_text.simps) simp
qed

lemma nat_text_value: "foldl (\<lambda>n c. 10 * n + digit_value c) 0 (nat_text n) = int n"
proof (induction n rule: nat_text.induct)
  case (1 n)
  show ?case
  proof (cases "n < 10")
    case True
    then show ?thesis using digit_char [of n] by (subst nat_text.simps) simp
  next
    case False
    then show ?thesis using 1 digit_char [of "n mod 10"] by (subst nat_text.simps) (simp add: zdiv_int zmod_int)
  qed
qed

lemma digits_value_text: "digits_value (nat_text n) = int n"
  using nat_text_digits [of n] nat_text_value [of n] by (simp add: digits_value_def list_all_iff takeWhile_eq_all_conv [THEN iffD2])

lemma digit_not_special: "is_digit c \<Longrightarrow> \<not> is_blank c \<and> c \<noteq> CHR ''-'' \<and> c \<noteq> CHR ''+''"
  by (auto simp: is_digit_def digit_value_def is_blank_def Let_def)

lemma nat_text_start: "\<exists>c cs. nat_text n = c # cs \<and> is_digit c"
proof -
  have "nat_text n \<noteq> []" by (subst nat_text.simps) simp
  then show ?thesis using nat_text_digits [of n] by (cases "nat_text n") auto
qed

lemma atoi_text:
  assumes "- (2 ^ 31) \<le> n" and "n < 2 ^ 31"
  shows "c_atoi (int_text n) = n"
proof -
  obtain c cs where c: "nat_text (nat \<bar>n\<bar>) = c # cs" "is_digit c" using nat_text_start by blast
  have val: "digits_value (c # cs) = \<bar>n\<bar>" using digits_value_text [of "nat \<bar>n\<bar>"] c(1) by simp
  have "\<not> is_blank (CHR ''-'')" by (simp add: is_blank_def)
  then show ?thesis
    using assms c val digit_not_special [OF c(2)] by (auto simp: c_atoi_def int_text_def Let_def min_def max_def)
qed

text \<open>
  A number sent as text comes back: \<open>atoi\<close> of what \<open>"%d"\<close> prints is the number, for
  every \<open>int\<close>.
\<close>

theorem atoi_int_text:
  assumes "- (2 ^ 31) \<le> n" and "n < 2 ^ 31"
  shows "c_atoi (int_text n) = n"
  by (rule atoi_text [OF assms])

theorem atoi_int_text_witness: "c_atoi (int_text (-4000)) = -4000"
  using atoi_int_text [of "-4000"] by simp

end
