(* ===== verification/Service_Props.thy ===== *)
theory Service_Props
  imports Service_Req
begin

text \<open>
  Properties of the request handlers: references to sessions, rights, and what a client sees
  over several requests. Reasoning about handlers is compositional: \<open>res_all\<close> says that
  whatever state a handler ends in satisfies a predicate, with one rule for each way the handlers
  are put together.
\<close>

section \<open>Rules for handlers\<close>

named_theorems res_all_rules \<open>rules for what holds of the state a handler ends in\<close>

definition res_all :: "(service \<Rightarrow> bool) \<Rightarrow> req_result \<Rightarrow> bool" where
  "res_all P r = (case r of Inl _ \<Rightarrow> True | Inr (sv, _) \<Rightarrow> P sv)"

lemma res_allD: "res_all P r \<Longrightarrow> r = Inr (sv, out) \<Longrightarrow> P sv"
  by (simp add: res_all_def)

lemma res_all_answer [res_all_rules]: "P sv \<Longrightarrow> res_all P (answer sv r)"
  by (simp add: res_all_def answer_def)

lemma res_all_Inr [res_all_rules]: "P sv \<Longrightarrow> res_all P (Inr (sv, r))"
  by (simp add: res_all_def)

lemma res_all_Inl [res_all_rules]: "res_all P (Inl e)"
  by (simp add: res_all_def)

lemma res_all_bindR [res_all_rules]: "(\<And>x. m = Inr x \<Longrightarrow> res_all P (k x)) \<Longrightarrow> res_all P (bindR m k)"
  by (cases m) (auto simp: res_all_def)

lemma res_all_if [res_all_rules]: "(c \<Longrightarrow> res_all P x) \<Longrightarrow> (\<not> c \<Longrightarrow> res_all P y) \<Longrightarrow> res_all P (if c then x else y)"
  by simp

lemma res_all_prod [res_all_rules]: "(\<And>a b. p = (a, b) \<Longrightarrow> res_all P (f a b)) \<Longrightarrow> res_all P (case p of (a, b) \<Rightarrow> f a b)"
  by (cases p) simp

lemma res_all_option [res_all_rules]:
  "(x = None \<Longrightarrow> res_all P a) \<Longrightarrow> (\<And>y. x = Some y \<Longrightarrow> res_all P (f y)) \<Longrightarrow> res_all P (case x of None \<Rightarrow> a | Some y \<Rightarrow> f y)"
  by (cases x) simp_all

lemma res_all_Let [res_all_rules]: "res_all P (f x) \<Longrightarrow> res_all P (Let x f)"
  by simp

lemma res_all_need [res_all_rules]:
  "P sv \<Longrightarrow> (\<And>v. req_get req key = Some v \<Longrightarrow> res_all P (k v)) \<Longrightarrow> res_all P (req_need req key sv k)"
  by (auto simp: req_need_def intro: res_all_rules)

section \<open>References to sessions\<close>

definition session_for :: "int \<Rightarrow> service \<Rightarrow> session_entry option" where
  "session_for fd sv = find (\<lambda>e. os_fd (se_session e) = fd) (session_list (sv_sessions sv))"

definition addrs_ok :: "service \<Rightarrow> bool" where
  "addrs_ok sv \<longleftrightarrow> distinct (map se_addr (session_list (sv_sessions sv)))"

definition held :: "int \<Rightarrow> service \<Rightarrow> service" where
  "held fd sv = sv\<lparr>sv_sessions := fst (online_session_ref fd (sv_sessions sv))\<rparr>"

lemma ref_loop_result: "snd (ref_loop fd l) = map_option se_addr (find (\<lambda>e. os_fd (se_session e) = fd) l)"
  by (induction l) auto

lemma ref_loop_None: "find (\<lambda>e. os_fd (se_session e) = fd) l = None \<Longrightarrow> fst (ref_loop fd l) = l"
  by (induction l) (auto split: if_splits)

lemma ref_loop_addrs [simp]: "map se_addr (fst (ref_loop fd l)) = map se_addr l"
  by (induction l) auto

lemma find_in: "find P l = Some e \<Longrightarrow> e \<in> set l \<and> P e"
  by (induction l) (auto split: if_splits)

lemma ref_loop_found:
  "find (\<lambda>e. os_fd (se_session e) = fd) l = Some e \<Longrightarrow> distinct (map se_addr l) \<Longrightarrow>
   find (\<lambda>x. se_addr x = se_addr e) (fst (ref_loop fd l)) = Some (e\<lparr>se_ref := fst (pref_get (se_ref e))\<rparr>)"
  by (induction l) (auto dest: find_in split: if_splits)

lemma dref_ref_loop:
  "find (\<lambda>e. os_fd (se_session e) = fd) l = Some e \<Longrightarrow> distinct (map se_addr l) \<Longrightarrow>
   session_dref_loop (se_addr e) (fst (ref_loop fd l)) = l"
  by (induction l) (auto dest: find_in simp: pref_get_def pref_put_def split: if_splits)

lemma online_session_ref_eq:
  "online_session_ref fd s = (s\<lparr>session_list := fst (ref_loop fd (session_list s))\<rparr>,
     map_option se_addr (find (\<lambda>e. os_fd (se_session e) = fd) (session_list s)))"
  by (simp add: online_session_ref_def ref_loop_result [symmetric] split_beta Let_def)

lemma held_sessions [simp]:
  "sv_db (held fd sv) = sv_db sv" "sv_devices (held fd sv) = sv_devices sv"
  "session_list (sv_sessions (held fd sv)) = fst (ref_loop fd (session_list (sv_sessions sv)))"
  by (simp_all add: held_def online_session_ref_eq)

lemma session_for_db [simp]: "session_for fd (sv\<lparr>sv_db := db\<rparr>) = session_for fd sv"
  by (simp add: session_for_def)

lemma dref_db [simp]: "sv_db (dref p sv) = sv_db sv" "sv_devices (dref p sv) = sv_devices sv"
  by (simp_all add: dref_def)

text \<open>What referring to a session does, and that returning it undoes that.\<close>

lemma with_session_eq:
  assumes "addrs_ok sv"
  shows "with_session fd sv body =
    (case session_for fd sv of None \<Rightarrow> answer sv [rid (-300)] | Some e \<Rightarrow> body (se_addr e) (se_session e) (held fd sv))"
proof (cases "session_for fd sv")
  case None
  then have "find (\<lambda>e. os_fd (se_session e) = fd) (session_list (sv_sessions sv)) = None" by (simp add: session_for_def)
  then show ?thesis
    using None ref_loop_None by (simp add: with_session_def online_session_ref_eq)
next
  case (Some e)
  then have e: "find (\<lambda>e. os_fd (se_session e) = fd) (session_list (sv_sessions sv)) = Some e" by (simp add: session_for_def)
  have "session_at (se_addr e) (held fd sv) = Inr (se_session e)"
    using ref_loop_found [OF e] assms by (simp add: session_at_def addrs_ok_def)
  then show ?thesis
    using Some e by (simp add: with_session_def held_def online_session_ref_eq)
qed

lemma dref_held:
  assumes "addrs_ok sv" and "session_for fd sv = Some e"
  shows "dref (se_addr e) (held fd sv) = sv" and "dref (se_addr e) (held fd sv\<lparr>sv_db := db\<rparr>) = sv\<lparr>sv_db := db\<rparr>"
proof -
  have "session_dref_loop (se_addr e) (fst (ref_loop fd (session_list (sv_sessions sv)))) = session_list (sv_sessions sv)"
    using assms dref_ref_loop by (simp add: session_for_def addrs_ok_def)
  then show "dref (se_addr e) (held fd sv) = sv" "dref (se_addr e) (held fd sv\<lparr>sv_db := db\<rparr>) = sv\<lparr>sv_db := db\<rparr>"
    by (simp_all add: dref_def held_def online_session_ref_eq online_session_dref_def)
qed

lemma res_all_session:
  assumes "addrs_ok sv" and "session_for fd sv = None \<Longrightarrow> P sv"
    and "\<And>e. session_for fd sv = Some e \<Longrightarrow> res_all P (body (se_addr e) (se_session e) (held fd sv))"
  shows "res_all P (with_session fd sv body)"
  using assms(2,3) by (auto simp: with_session_eq [OF assms(1)] intro: res_all_rules split: option.splits)

lemma res_all_admin:
  assumes "addrs_ok sv" and "session_for fd sv = None \<Longrightarrow> P sv"
    and "\<And>e db r. session_for fd sv = Some e \<Longrightarrow>
       db_account_check_user_exist (en_engine env) (ab_uuid (os_basic (se_session e))) True False (sv_db sv) = (db, r, False, []) \<Longrightarrow> P (sv\<lparr>sv_db := db\<rparr>)"
    and "\<And>e db r ref. session_for fd sv = Some e \<Longrightarrow>
       db_account_check_user_exist (en_engine env) (ab_uuid (os_basic (se_session e))) True False (sv_db sv) = (db, r, True, ref) \<Longrightarrow>
       res_all P (body (ab_uuid (os_basic (se_session e))) (sv\<lparr>sv_db := db\<rparr>))"
  shows "res_all P (with_admin env fd sv body)"
  unfolding with_admin_def
proof (rule res_all_session [OF assms(1)])
  show "session_for fd sv = None \<Longrightarrow> P sv" by (rule assms(2))
next
  fix e assume e: "session_for fd sv = Some e"
  obtain db r b ref where c: "db_account_check_user_exist (en_engine env) (ab_uuid (os_basic (se_session e))) True False (sv_db sv) = (db, r, b, ref)"
    by (cases "db_account_check_user_exist (en_engine env) (ab_uuid (os_basic (se_session e))) True False (sv_db sv)") auto
  have "\<not> b \<Longrightarrow> ref = []"
    using c by (auto simp: db_account_check_user_exist_def split: prod.splits if_splits option.splits sql_row.splits)
  then show "res_all P (case db_account_check_user_exist (en_engine env) (ab_uuid (os_basic (se_session e))) True False (sv_db (held fd sv)) of
      (db, uu, b_is_admin, uua) \<Rightarrow> let sv = dref (se_addr e) (held fd sv\<lparr>sv_db := db\<rparr>) in
        if \<not> b_is_admin then answer sv [rid (- 1)] else body (ab_uuid (os_basic (se_session e))) sv)"
    using assms(3) [OF e] assms(4) [OF e] c dref_held [OF assms(1) e] by (cases b) (auto intro: res_all_rules)
qed

text \<open>Addresses, identities and reference counts of the sessions, and which requests keep them.\<close>

definition ref_view :: "service \<Rightarrow> (nat \<times> session_key \<times> int) list" where
  "ref_view sv = map (\<lambda>e. (se_addr e, skey (se_session e), refcount (se_ref e))) (session_list (sv_sessions sv))"

definition is_play :: "req_handler \<Rightarrow> bool" where
  "is_play h \<longleftrightarrow> h \<in> {PlayDevice, PlayStop, PlayTouch}"

lemma ref_view_db [simp]: "ref_view (sv\<lparr>sv_db := db\<rparr>) = ref_view sv" "ref_view (sv\<lparr>sv_devices := d\<rparr>) = ref_view sv"
  by (simp_all add: ref_view_def)

lemma ref_view_beat: "ref_view (sv\<lparr>sv_sessions := sv_sessions sv\<lparr>session_list := beat_loop p (session_list (sv_sessions sv))\<rparr>\<rparr>) = ref_view sv"
proof -
  have "map (\<lambda>e. (se_addr e, skey (se_session e), refcount (se_ref e))) (beat_loop p l) = map (\<lambda>e. (se_addr e, skey (se_session e), refcount (se_ref e))) l" for l
    by (induction l) auto
  then show ?thesis by (simp add: ref_view_def)
qed

lemma ref_view_mark: "ref_view (sv\<lparr>sv_sessions := fst (online_session_del fd (sv_sessions sv))\<rparr>) = ref_view sv"
proof -
  have "map (\<lambda>e. (se_addr e, skey (se_session e), refcount (se_ref e))) (fst (mark_loop fd l)) = map (\<lambda>e. (se_addr e, skey (se_session e), refcount (se_ref e))) l" for l
    by (induction l) auto
  then show ?thesis by (simp add: ref_view_def online_session_del_def split_beta Let_def)
qed

lemma held_view:
  assumes "addrs_ok sv"
  shows "ref_view (held fd sv) = map (\<lambda>e. (se_addr e, skey (se_session e), refcount (se_ref e) + of_bool (session_for fd sv = Some e))) (session_list (sv_sessions sv))"
proof -
  have "distinct (map se_addr l) \<Longrightarrow> map (\<lambda>e. (se_addr e, skey (se_session e), refcount (se_ref e))) (fst (ref_loop fd l)) =
      map (\<lambda>e. (se_addr e, skey (se_session e), refcount (se_ref e) + of_bool (find (\<lambda>e. os_fd (se_session e) = fd) l = Some e))) l" for l
  proof (induction l)
    case (Cons a l)
    have "a \<notin> set l" using Cons.prems by auto
    then show ?case using Cons by (auto simp: pref_get_def dest: find_in)
  qed simp
  then show ?thesis using assms by (simp add: ref_view_def session_for_def addrs_ok_def)
qed

lemmas handler_defs = req_version_check_def req_heartbeat_def req_account_logout_def req_account_create_def
  req_account_modify_def req_account_delete_def req_device_create_def req_device_delete_def req_device_list_def

lemma child_session_sessions: "child_session env r u sv = Inr (sv', x) \<Longrightarrow> \<exists>db. sv' = sv\<lparr>sv_db := db\<rparr>"
  by (auto simp: child_session_def bindR_eq_Inr)

lemma account_list_loop_sessions: "account_list_loop env own bs sv out = Inr (sv', x) \<Longrightarrow> \<exists>db. sv' = sv\<lparr>sv_db := db\<rparr>"
proof (induction bs arbitrary: sv out)
  case Nil
  then show ?case by (auto intro: exI [of _ "sv_db sv"])
next
  case (Cons b bs)
  then obtain sv1 online where "child_session env own (ab_uuid b) sv = Inr (sv1, online)" and l: "\<exists>out'. account_list_loop env own bs sv1 out' = Inr (sv', x)"
    by (auto simp: bindR_eq_Inr)
  then obtain db where "sv1 = sv\<lparr>sv_db := db\<rparr>" using child_session_sessions by blast
  then show ?case using Cons.IH l by fastforce
qed

lemma play_keeps:
  assumes "addrs_ok sv" and "\<And>uuid sv'. ref_view sv' = ref_view (held fd sv) \<Longrightarrow> res_all (\<lambda>sv''. ref_view sv'' = ref_view (held fd sv)) (body uuid sv')"
  shows "res_all (\<lambda>sv'. ref_view sv' = (if req_get req ''uuid'' \<noteq> None then ref_view (held fd sv) else ref_view sv)) (with_device env fd req sv body)"
proof (cases "req_get req ''uuid''")
  case None
  then show ?thesis by (simp add: with_device_def req_need_def res_all_answer)
next
  case (Some u)
  have "session_for fd sv = None \<Longrightarrow> ref_view (held fd sv) = ref_view sv"
    using assms(1) by (simp add: held_view) (simp add: ref_view_def)
  then show ?thesis
    using assms(2) Some unfolding with_device_def
    by (auto simp: req_need_def Let_def intro!: res_all_session [OF assms(1)] res_all_rules)
qed

lemma balanced_handlers:
  assumes "addrs_ok sv" and "h \<noteq> AccountLogin" and "\<not> is_play h"
  shows "res_all (\<lambda>sv'. ref_view sv' = ref_view sv) (handle h env fd req sv)"
proof -
  note rules = res_all_session [OF assms(1)] res_all_admin [OF assms(1)] res_all_rules
  show ?thesis
  proof (cases h)
    case VersionCheck
    show ?thesis unfolding VersionCheck handle.simps handler_defs by (intro rules refl)
  next
    case Heartbeat
    show ?thesis unfolding Heartbeat handle.simps handler_defs
      by (intro rules) (simp_all add: dref_held [OF assms(1)] ref_view_beat)
  next
    case AccountLogout
    show ?thesis unfolding AccountLogout handle.simps handler_defs
      by (intro rules) (simp_all add: dref_held [OF assms(1)] ref_view_mark)
  next
    case AccountCreate
    have ok: "addrs_ok (sv\<lparr>sv_db := db\<rparr>)" for db using assms(1) by (simp add: addrs_ok_def)
    show ?thesis unfolding AccountCreate handle.simps handler_defs
      by (intro rules res_all_session [OF ok]) (simp_all add: dref_held [OF ok])
  next
    case AccountModify
    show ?thesis unfolding AccountModify handle.simps handler_defs
      by (intro rules) (simp_all add: dref_held [OF assms(1)])
  next
    case AccountDelete
    show ?thesis unfolding AccountDelete handle.simps handler_defs
      by (intro rules) (simp_all add: dref_held [OF assms(1)])
  next
    case AccountList
    show ?thesis unfolding AccountList handle.simps req_account_list_def
      by (intro rules) (auto simp: dref_held [OF assms(1)] dest!: account_list_loop_sessions)
  next
    case DeviceCreate
    show ?thesis unfolding DeviceCreate handle.simps handler_defs
      by (intro rules) simp_all
  next
    case DeviceDelete
    show ?thesis unfolding DeviceDelete handle.simps handler_defs
      by (intro rules) simp_all
  next
    case DeviceList
    show ?thesis unfolding DeviceList handle.simps handler_defs
      by (intro rules) (simp_all add: dref_held [OF assms(1)])
  qed (use assms in \<open>auto simp: is_play_def\<close>)
qed

lemma play_handlers:
  assumes "addrs_ok sv" and "is_play h"
  shows "res_all (\<lambda>sv'. ref_view sv' = (if req_get req ''uuid'' \<noteq> None then ref_view (held fd sv) else ref_view sv)) (handle h env fd req sv)"
proof -
  consider "h = PlayDevice" | "h = PlayStop" | "h = PlayTouch" using assms(2) by (auto simp: is_play_def)
  then show ?thesis
  proof cases
    case 1
    show ?thesis unfolding 1 handle.simps req_play_device_def
      by (rule play_keeps [OF assms(1)]) (intro res_all_rules, simp)
  next
    case 2
    show ?thesis unfolding 2 handle.simps req_play_stop_def
      by (rule play_keeps [OF assms(1)]) (intro res_all_rules, simp)
  next
    case 3
    show ?thesis unfolding 3 handle.simps req_play_touch_def
      by (rule play_keeps [OF assms(1)]) (intro res_all_rules, simp)
  qed
qed

section \<open>Queries that change nothing\<close>

fun is_select :: "sql_stmt \<Rightarrow> bool" where
  "is_select (SelectBasic _) = True"
| "is_select (SelectBasicPwd _ _) = True"
| "is_select (SelectAdmin _) = True"
| "is_select (SelectChild _) = True"
| "is_select (SelectAdmins _) = True"
| "is_select (SelectChildren _ _) = True"
| "is_select (SelectDeviceAt _ _ _ _) = True"
| "is_select (SelectDeviceFolder _) = True"
| "is_select (SelectDevices _ _) = True"
| "is_select _ = False"

context sqlite_engine
begin

lemma engine_select: "plain_stmt st \<Longrightarrow> is_select st \<Longrightarrow> fst (engine st db) = db"
  by (cases st) (auto simp: engine_plain sql_sem_def)

lemma query_same: "plain_stmt st \<Longrightarrow> is_select st \<Longrightarrow> sql_query engine st db = (db', r, p) \<Longrightarrow> db' = db"
  using engine_select [of st db] by (auto simp: sql_query_def split: prod.splits option.splits list.splits)

lemma exec_same: "plain_stmt st \<Longrightarrow> is_select st \<Longrightarrow> db_exec engine st db = (db', r) \<Longrightarrow> db' = db"
  using query_same by (fastforce simp: db_exec_def split: prod.splits if_splits)

lemma account_list_same: "plain_stmt st \<Longrightarrow> is_select st \<Longrightarrow> account_list engine st w db = Inr (db', x) \<Longrightarrow> db' = db"
  by (auto simp: account_list_def dest: query_same split: prod.splits if_splits)

lemma list_admin_same: "pred_option no_quote s \<Longrightarrow> db_account_list_admin_get engine s w db = Inr (db', x) \<Longrightarrow> db' = db"
  by (cases s) (auto simp: db_account_list_admin_get_def plain_stmt_def dest!: account_list_same [rotated 2])

lemma list_child_same: "no_quote r \<Longrightarrow> pred_option no_quote s \<Longrightarrow> db_account_list_child_get engine r s w db = Inr (db', x) \<Longrightarrow> db' = db"
  by (cases s) (auto simp: db_account_list_child_get_def plain_stmt_def dest!: account_list_same [rotated 2])

lemma device_get_same: "no_quote r \<Longrightarrow> pred_option no_quote s \<Longrightarrow> db_account_device_get engine r s w db = Inr (db', x) \<Longrightarrow> db' = db"
  by (cases s) (auto simp: db_account_device_get_def plain_stmt_def Let_def dest!: query_same [rotated 2] split: prod.splits if_splits)

lemma license_get_same: "no_quote u \<Longrightarrow> db_account_license_get engine u db = (db', x) \<Longrightarrow> db' = db"
  by (auto simp: db_account_license_get_def plain_stmt_def dest!: query_same [rotated 2]
      split: prod.splits if_splits option.splits sql_row.splits)

lemma check_user_exist_same:
  assumes "no_quote u" and "db_account_check_user_exist engine u wa wr db = (db', x)"
  shows "db' = db"
proof -
  have sel: "db_exec engine (SelectBasic u) db = (d, r) \<Longrightarrow> d = db" for d r
    using exec_same [of "SelectBasic u"] assms(1) by (simp add: plain_stmt_def)
  have lic: "(if wa then db_account_license_get engine u db else (db, None)) = (d, l) \<Longrightarrow> d = db" for d l
    using license_get_same [OF assms(1)] by (auto split: if_splits)
  have chi: "sql_query engine (SelectChild u) db = (d, r, p) \<Longrightarrow> d = db" for d r p
    using query_same [of "SelectChild u"] assms(1) by (simp add: plain_stmt_def)
  obtain d r where 1: "db_exec engine (SelectBasic u) db = (d, r)" by fastforce
  obtain d' l where 2: "(if wa then db_account_license_get engine u db else (db, None)) = (d', l)" by fastforce
  obtain d'' r' p where 3: "sql_query engine (SelectChild u) db = (d'', r', p)" by (cases "sql_query engine (SelectChild u) db") auto
  show ?thesis
    using assms(2) 1 2 3 sel [OF 1] lic [OF 2] chi [OF 3]
    by (auto simp: db_account_check_user_exist_def split: if_splits option.splits prod.splits sql_row.splits)
qed

lemma check_user_is_ok_same:
  assumes "no_quote u" and "\<And>h. account_gen_hash_key stk pwd = Inr h \<Longrightarrow> no_quote h"
    and "db_account_check_user_is_ok engine stk u pwd wa wr db = Inr (db', x)"
  shows "db' = db"
proof -
  obtain h where h: "account_gen_hash_key stk pwd = Inr h" using assms(3) by (auto simp: db_account_check_user_is_ok_def bindR_eq_Inr)
  then have pl: "plain_stmt (SelectBasicPwd u h)" using assms(1,2) by (simp add: plain_stmt_def)
  obtain d r where "db_exec engine (SelectBasicPwd u h) db = (d, r)" by fastforce
  moreover from this have "d = db" using exec_same [OF pl] by simp
  ultimately show ?thesis
    using assms(3) h check_user_exist_same [OF assms(1)] by (auto simp: db_account_check_user_is_ok_def split: if_splits)
qed

lemma touch_db_same: "\<forall>a\<in>set accounts. no_quote (ab_uuid a) \<Longrightarrow> touch_db engine uuid accounts db = Inr (db', x) \<Longrightarrow> db' = db"
proof (induction accounts arbitrary: db)
  case (Cons a as)
  then obtain d got where get: "db_account_device_get engine (ab_uuid a) None True db = Inr (d, got)" by (auto simp: bindR_eq_Inr)
  then have "d = db" using Cons.prems(1) device_get_same [of "ab_uuid a" None] by simp
  with Cons get show ?case by (auto split: option.splits list.splits if_splits)
qed simp

end

section \<open>Rights\<close>

text \<open>
  No value that gets into a query ends its literal: the values of the request, the hashes of
  passwords, the names in the sessions, and those in the tables.
\<close>

definition quiet :: "req_env \<Rightarrow> rpc_req option \<Rightarrow> service \<Rightarrow> bool" where
  "quiet env req sv \<longleftrightarrow> sqlite_engine (en_engine env) \<and>
     (\<forall>k v. req_get req k = Some v \<longrightarrow> no_quote v) \<and>
     (\<forall>n pwd h. account_gen_hash_key (en_stack env n) pwd = Inr h \<longrightarrow> no_quote h) \<and>
     (\<forall>e\<in>set (session_list (sv_sessions sv)). no_quote (ab_uuid (os_basic (se_session e))) \<and> no_quote (os_ref_admin_uuid (se_session e))) \<and>
     (\<forall>u\<in>set (users (sv_db sv)). no_quote (ab_uuid u)) \<and> (\<forall>c\<in>set (children (sv_db sv)). no_quote (ch_ref_admin_uuid c))"

definition may_administer :: "int \<Rightarrow> service \<Rightarrow> bool" where
  "may_administer fd sv \<longleftrightarrow> (\<exists>e. session_for fd sv = Some e \<and>
     (os_is_admin (se_session e) \<or> has_admin (sv_db sv) (ab_uuid (os_basic (se_session e)))))"

lemma session_for_in: "session_for fd sv = Some e \<Longrightarrow> e \<in> set (session_list (sv_sessions sv))"
  by (auto simp: session_for_def dest: find_in)

lemma quiet_session:
  "quiet env req sv \<Longrightarrow> session_for fd sv = Some e \<Longrightarrow>
   no_quote (ab_uuid (os_basic (se_session e))) \<and> no_quote (os_ref_admin_uuid (se_session e))"
  using session_for_in by (fastforce simp: quiet_def)

lemma no_quote_take: "no_quote s \<Longrightarrow> no_quote (take n s)"
  unfolding no_quote_def using in_set_takeD by fast

lemma quiet_ref_admin:
  assumes "quiet env req sv" shows "no_quote (ref_admin (sv_db sv) u)"
proof (cases "find (\<lambda>c. ch_uuid c = u) (children (sv_db sv))")
  case (Some c)
  then have "c \<in> set (children (sv_db sv))" using find_in by fast
  then show ?thesis using assms Some by (auto simp: ref_admin_def quiet_def intro: no_quote_take)
qed (simp add: ref_admin_def no_quote_def)

text \<open>What the queries of a handler answer when all values are quiet.\<close>

lemma quiet_exist:
  assumes "quiet env req sv" and "db_ready (sv_db sv)" and "no_quote u"
  shows "db_account_check_user_exist (en_engine env) u wa wr (sv_db sv) =
     (sv_db sv, has_user (sv_db sv) u, wa \<and> has_user (sv_db sv) u \<and> has_admin (sv_db sv) u,
      if has_user (sv_db sv) u \<and> \<not> (wa \<and> has_admin (sv_db sv) u) \<and> wr then ref_admin (sv_db sv) u else [])"
  using sqlite_engine.check_user_exist_plain [of "en_engine env" u wa wr "sv_db sv"] check_user_exist_sem [OF assms(2)] assms(1,3)
  by (simp add: quiet_def)

lemma quiet_is_ok:
  assumes "quiet env req sv" and "db_ready (sv_db sv)" and "no_quote u"
    and "db_account_check_user_is_ok (en_engine env) (en_stack env n) u pwd wa wr (sv_db sv) = Inr (db, r, adm, ref)"
  shows "db = sv_db sv \<and> (adm \<longrightarrow> has_admin (sv_db sv) u) \<and> no_quote ref"
proof -
  have eng: "sqlite_engine (en_engine env)" and hash: "\<And>h. account_gen_hash_key (en_stack env n) pwd = Inr h \<Longrightarrow> no_quote h"
    using assms(1) by (auto simp: quiet_def)
  obtain h where h: "account_gen_hash_key (en_stack env n) pwd = Inr h"
    using assms(4) by (auto simp: db_account_check_user_is_ok_def bindR_eq_Inr)
  have "db_account_check_user_is_ok sql_sem (en_stack env n) u pwd wa wr (sv_db sv) = Inr (db, r, adm, ref)"
    using sqlite_engine.check_user_is_ok_plain [OF eng assms(3) hash] assms(4) by simp
  moreover have "no_quote []" by (simp add: no_quote_def)
  ultimately show ?thesis
    unfolding check_user_is_ok_sem [OF assms(2) h]
    using quiet_ref_admin [OF assms(1), of u] by (auto split: if_splits)
qed

text \<open>A handler leaves the database alone unless the session has the rights.\<close>

abbreviation db_kept :: "service \<Rightarrow> service \<Rightarrow> bool" where
  "db_kept sv sv' \<equiv> sv_db sv' = sv_db sv"

lemma quiet_engine: "quiet env req sv \<Longrightarrow> sqlite_engine (en_engine env)"
  by (simp add: quiet_def)

lemma quiet_get: "quiet env req sv \<Longrightarrow> req_get req k = Some v \<Longrightarrow> no_quote v"
  by (simp add: quiet_def)

lemma quiet_uuid: "quiet env req sv \<Longrightarrow> valid_uuid (req_get req k) \<Longrightarrow> no_quote (the (req_get req k))"
  by (auto simp: valid_uuid_def quiet_def split: option.splits)

text \<open>The accounts a list gives are copies of rows.\<close>

lemma basic_rows_map: "basic_rows (map BasicRow rows) = map copy_basic rows"
  by (induction rows) auto

lemma account_list_sem:
  assumes "db_open db" and "sql_change st db = Some db" and "sql_select st db = Some (map BasicRow rows)"
  shows "account_list sql_sem st want db =
    Inr (db, if rows = [] then None else Some (if want then map copy_basic rows else [], int (length rows)))"
  using query_sem [OF assms(2,3)] assms(1)
  by (cases rows) (simp_all add: account_list_def sql_create_new_def basic_rows_map)

lemma list_admin_sem:
  assumes "db_ready db"
  shows "\<exists>rows. set rows \<subseteq> set (users db) \<and> (\<forall>x\<in>set rows. chosen s (ab_uuid x) \<and> has_admin db (ab_uuid x)) \<and>
    rows = filter (\<lambda>b. chosen s (ab_uuid b) \<and> has_admin db (ab_uuid b)) (users db) \<and>
    db_account_list_admin_get sql_sem s want db =
      Inr (db, if rows = [] then None else Some (if want then map copy_basic rows else [], int (length rows)))"
proof -
  let ?rows = "filter (\<lambda>b. chosen s (ab_uuid b) \<and> has_admin db (ab_uuid b)) (users db)"
  have "sql_select (SelectAdmins s) db = Some (map BasicRow ?rows)"
    using assms by (elim db_readyE) (auto simp: users_def has_admin_def admins_def intro!: arg_cong [of _ _ "map BasicRow"] filter_cong)
  then have "db_account_list_admin_get sql_sem s want db =
      Inr (db, if ?rows = [] then None else Some (if want then map copy_basic ?rows else [], int (length ?rows)))"
    using account_list_sem [of db "SelectAdmins s" ?rows want] assms by (simp add: db_account_list_admin_get_def db_ready_def)
  then show ?thesis by (intro exI [of _ ?rows]) auto
qed

lemma listed_users:
  assumes "sqlite_engine engine" and "db_ready db" and "db_account_list_admin_get engine None True db = Inr (d, Some (l, n))"
  shows "\<forall>b\<in>set l. \<exists>u\<in>set (users db). ab_uuid b = take 16 (ab_uuid u)"
proof -
  have "db_account_list_admin_get engine None True db = db_account_list_admin_get sql_sem None True db"
    using sqlite_engine.account_list_plain [OF assms(1), of "SelectAdmins None"] by (simp add: db_account_list_admin_get_def plain_stmt_def)
  then show ?thesis using list_admin_sem [OF assms(2), of None True] assms(3) by (auto simp: copy_basic_def split: if_splits)
qed

lemma login_enter_db: "res_all (\<lambda>sv'. sv_db sv' = sv_db sv) (login_enter env fd adm ref b sv)"
  unfolding login_enter_def Let_def by (intro res_all_rules) simp

lemma login_db_kept:
  assumes q: "quiet env req sv" and r: "db_ready (sv_db sv)"
  shows "res_all (db_kept sv) (req_account_login env fd req sv)"
proof -
  note eng = quiet_engine [OF q]
  have lst: "d = sv_db sv" if "no_quote u" "no_quote ref" "ref_string ref = Inr ref' \<or> b"
      "(if b then db_account_list_admin_get (en_engine env) (Some u) True (sv_db sv)
        else db_account_list_child_get (en_engine env) ref' (Some u) True (sv_db sv)) = Inr (d, acc)" for u ref ref' b d acc
    using that sqlite_engine.list_admin_same [OF eng, of "Some u"] sqlite_engine.list_child_same [OF eng, of ref' "Some u"]
    by (auto simp: ref_string_def split: if_splits)
  show ?thesis
    unfolding req_account_login_def Let_def
  proof (intro res_all_rules, goal_cases)
    case (2 x db b r' ba adm ref)
    then show ?case using quiet_is_ok [OF q r quiet_uuid [OF q]] by auto
  next
    case (3 x db b r' ba adm ref ref' xb db' acc basic)
    then have "db = sv_db sv \<and> no_quote ref" using quiet_is_ok [OF q r quiet_uuid [OF q]] by auto
    then have "db' = sv_db sv" using 3 lst [OF quiet_uuid [OF q], of "''uuid''" ref ref' adm db' acc] by (auto split: if_splits)
    then show ?case using login_enter_db [of "sv\<lparr>sv_db := db'\<rparr>"] by simp
  qed simp
qed

lemma rights_db_kept:
  assumes q: "quiet env req sv" and r: "db_ready (sv_db sv)" and a: "addrs_ok sv"
    and no: "\<not> may_administer fd sv" and h: "h \<noteq> AccountModify" "h \<noteq> AccountLogin" "\<not> is_play h"
  shows "res_all (db_kept sv) (handle h env fd req sv)"
proof -
  note rules = res_all_session [OF a] res_all_admin [OF a] res_all_rules
  have s: "\<not> os_is_admin (se_session e)" "\<not> has_admin (sv_db sv) (ab_uuid (os_basic (se_session e)))"
    "no_quote (ab_uuid (os_basic (se_session e)))" if "session_for fd sv = Some e" for e
    using no that quiet_session [OF q that] by (auto simp: may_administer_def)
  note exist = quiet_exist [OF q r s(3)]
  show ?thesis
  proof (cases h)
    case VersionCheck
    show ?thesis unfolding VersionCheck handle.simps handler_defs by (intro rules refl)
  next
    case Heartbeat
    show ?thesis unfolding Heartbeat handle.simps handler_defs
      by (intro rules) (simp_all add: dref_held [OF a])
  next
    case AccountLogout
    show ?thesis unfolding AccountLogout handle.simps handler_defs
      by (intro rules) (simp_all add: dref_held [OF a])
  next
    case AccountCreate
    have ok: "addrs_ok (sv\<lparr>sv_db := db\<rparr>)" for db using a by (simp add: addrs_ok_def)
    have "valid_uuid (req_get req ''uuid'') \<Longrightarrow>
        fst (db_account_check_user_exist (en_engine env) (the (req_get req ''uuid'')) False False (sv_db sv)) = sv_db sv"
      using quiet_exist [OF q r quiet_uuid [OF q]] by simp
    then show ?thesis unfolding AccountCreate handle.simps handler_defs
      by (intro rules res_all_session [OF ok]) (auto dest: s)
  next
    case AccountDelete
    show ?thesis unfolding AccountDelete handle.simps handler_defs
      by (intro rules) (auto simp: dref_held [OF a] dest: s quiet_is_ok [OF q r s(3)])
  next
    case AccountList
    show ?thesis unfolding AccountList handle.simps req_account_list_def
      by (intro rules) (auto simp: dref_held [OF a] exist s)
  next
    case DeviceCreate
    show ?thesis unfolding DeviceCreate handle.simps handler_defs
      by (rule res_all_admin [OF a]) (auto simp: exist s)
  next
    case DeviceDelete
    show ?thesis unfolding DeviceDelete handle.simps handler_defs
      by (rule res_all_need, simp, rule res_all_admin [OF a]) (auto simp: exist s)
  next
    case DeviceList
    show ?thesis unfolding DeviceList handle.simps handler_defs
      by (intro rules) (auto simp: dref_held [OF a] exist s)
  qed (use h in \<open>auto simp: is_play_def\<close>)
qed

lemma play_db_kept:
  assumes q: "quiet env req sv" and r: "db_ready (sv_db sv)" and a: "addrs_ok sv" and h: "is_play h"
  shows "res_all (db_kept sv) (handle h env fd req sv)"
proof -
  note eng = quiet_engine [OF q]
  have dev: "res_all (db_kept sv) (with_device env fd req sv body)"
    if body: "\<And>u sv'. db_kept sv sv' \<Longrightarrow> res_all (db_kept sv) (body u sv')" for body
  proof -
    have "d = sv_db sv" if "session_for fd sv = Some e" "req_get req ''uuid'' = Some u"
        "db_account_device_get (en_engine env) (if os_is_admin (se_session e) then ab_uuid (os_basic (se_session e)) else os_ref_admin_uuid (se_session e))
           (Some u) False (sv_db sv) = Inr (d, x)" for e u d x
      using quiet_session [OF q that(1)] quiet_get [OF q that(2)]
        sqlite_engine.device_get_same [OF eng, of "if os_is_admin (se_session e) then ab_uuid (os_basic (se_session e)) else os_ref_admin_uuid (se_session e)" "Some u", OF _ _ that(3)]
      by auto
    then show ?thesis
      unfolding with_device_def Let_def by (intro res_all_session [OF a] res_all_rules body) auto
  qed
  have touch: "d = sv_db sv" if tch: "session_device_touch (en_engine env) u s (sv_db sv) = Inr (d, x)" for u s d x
  proof (cases "find (\<lambda>tmp. de_uuid tmp = u) (device_list s)")
    case None
    then obtain d' acc where l: "db_account_list_admin_get (en_engine env) None True (sv_db sv) = Inr (d', acc)"
      and t: "touch_db (en_engine env) u (case acc of None \<Rightarrow> [] | Some (l, _) \<Rightarrow> l) d' = Inr (d, x)"
      using tch by (auto simp: session_device_touch_def bindR_eq_Inr)
    have "d' = sv_db sv" using sqlite_engine.list_admin_same [OF eng _ l] by simp
    moreover have "\<forall>b\<in>set (case acc of None \<Rightarrow> [] | Some (l, _) \<Rightarrow> l). no_quote (ab_uuid b)"
      using l listed_users [OF eng r] q no_quote_take by (fastforce simp: quiet_def split: option.splits)
    ultimately show ?thesis using sqlite_engine.touch_db_same [OF eng _ t] by simp
  next
    case (Some e)
    then show ?thesis using tch by (simp add: session_device_touch_def)
  qed
  consider "h = PlayDevice" | "h = PlayStop" | "h = PlayTouch" using h by (auto simp: is_play_def)
  then show ?thesis
  proof cases
    case 1
    show ?thesis unfolding 1 handle.simps req_play_device_def by (rule dev) (intro res_all_rules, simp)
  next
    case 2
    show ?thesis unfolding 2 handle.simps req_play_stop_def by (rule dev) (intro res_all_rules, simp)
  next
    case 3
    show ?thesis unfolding 3 handle.simps req_play_touch_def by (rule dev) (intro res_all_rules, auto dest: touch)
  qed
qed

section \<open>Creating an account\<close>

text \<open>A request to create an account whose fields have the right form.\<close>

definition create_request :: "rpc_req option \<Rightarrow> string \<Rightarrow> string \<Rightarrow> bool" where
  "create_request req a w \<longleftrightarrow> req_get req ''uuid'' = Some a \<and> req_get req ''pwd'' = Some w \<and> length a < 16 \<and> length w \<le> 16 \<and>
     valid_nickname (req_get req ''nickname'') \<and> valid_comment (req_get req ''comment'')"

text \<open>The name is free in the tables, in the spelling given and in lower case.\<close>

definition name_free :: "sql_db \<Rightarrow> string \<Rightarrow> bool" where
  "name_free db a \<longleftrightarrow> \<not> has_user db a \<and> \<not> has_user db (world_tolower a) \<and> \<not> has_admin db (world_tolower a) \<and>
     world_tolower a \<notin> ch_uuid ` set (children db)"

lemma create_spec:
  assumes q: "quiet env req sv" and ready: "db_ready (sv_db sv)" and addrs: "addrs_ok sv"
    and e: "session_for fd sv = Some e" "os_is_admin (se_session e)"
    and own: "own = ab_uuid (os_basic (se_session e))" "length own < 16" "has_user (sv_db sv) (world_tolower own)"
    and req: "create_request req a w" and h: "account_gen_hash_key (en_stack env 0) w = Inr h" and free: "name_free (sv_db sv) a"
  shows "req_account_create env fd req sv =
    answer (sv\<lparr>sv_db := sv_db sv\<lparr>
        t_account_basic := Some (users (sv_db sv) @ [new_user (sv_db sv) (world_tolower a) h (or_empty (req_get req ''nickname'')) (or_empty (req_get req ''comment''))]),
        t_account_child := Some (children (sv_db sv) @ [\<lparr>ch_uuid = world_tolower a, ch_ref_admin_uuid = world_tolower own\<rparr>])\<rparr>\<rparr>) [rid 0]"
proof -
  have r: "req_get req ''uuid'' = Some a" "req_get req ''pwd'' = Some w" "length a < 16" "length w \<le> 16"
    "valid_nickname (req_get req ''nickname'')" "valid_comment (req_get req ''comment'')"
    using req by (simp_all add: create_request_def)
  have nq: "no_quote a" "no_quote (or_empty (req_get req ''nickname''))" "no_quote (or_empty (req_get req ''comment''))" "no_quote h" "no_quote own"
    using quiet_get [OF q] r(1) q h quiet_session [OF q e(1)] own(1)
    by (auto simp: quiet_def or_empty_def no_quote_def split: option.splits)
  have exist: "db_account_check_user_exist (en_engine env) a False False (sv_db sv) = (sv_db sv, False, False, [])"
    using quiet_exist [OF q ready nq(1)] free by (simp add: name_free_def)
  note add = child_add_sem [OF quiet_engine [OF q] ready nq(5), of "\<lparr>ab_uuid = a, ab_pwd = w, ab_nickname = or_empty (req_get req ''nickname''),
      ab_comment = or_empty (req_get req ''comment''), ab_created_time = []\<rparr>" h "en_stack env 0"]
  show ?thesis
    using e own add nq r h free
    by (simp add: req_account_create_def valid_uuid_def valid_pwd_def exist with_session_eq [OF addrs] dref_held [OF addrs] name_free_def)
qed

section \<open>An example service\<close>

text \<open>A request with the pairs given, and what its values are.\<close>

definition make_req :: "(string \<times> string) list \<Rightarrow> rpc_req option" where
  "make_req kvs = Some (map (\<lambda>(k, v). \<lparr>req_key = bytes_of k, req_value = Some (bytes_of v)\<rparr>) kvs)"

lemma bytes_of_inj: "bytes_of xs = bytes_of ys \<longleftrightarrow> xs = ys"
  by (metis string_of_bytes)

lemma value_string:
  assumes "CHR 0x00 \<notin> set v" shows "string_of (takeWhile (\<lambda>b. b \<noteq> 0) (bytes_of v)) = v"
proof -
  have "takeWhile (\<lambda>b. b \<noteq> 0) (bytes_of v) = bytes_of v"
    by (rule takeWhile_eq_all_conv [THEN iffD2]) (use bytes_of_nul [OF assms] in auto)
  then show ?thesis by (simp only: string_of_bytes)
qed

lemma req_get_make:
  assumes "\<forall>kv\<in>set kvs. CHR 0x00 \<notin> set (snd kv)"
  shows "req_get (make_req kvs) k = map_option snd (find (\<lambda>kv. take (length k) (fst kv @ [CHR 0x00]) = k) kvs)"
  using assms
proof (induction kvs)
  case Nil
  then show ?case by (simp add: req_get_def make_req_def rpc_parser_get_def)
next
  case (Cons kv kvs)
  have "take (length (bytes_of k)) (bytes_of (fst kv) @ [0]) = bytes_of (take (length k) (fst kv @ [CHR 0x00]))"
    using take_map [of "length k" "of_char :: char \<Rightarrow> byte" "fst kv @ [CHR 0x00]"] by (simp add: bytes_of_def del: take_append)
  then have "take (length (bytes_of k)) (bytes_of (fst kv) @ [0]) = bytes_of k \<longleftrightarrow> take (length k) (fst kv @ [CHR 0x00]) = k"
    by (simp add: bytes_of_inj)
  then show ?case
    using Cons value_string [of "snd kv"] by (auto simp: req_get_def make_req_def rpc_parser_get_def split: prod.splits)
qed

definition demo_env :: req_env where
  "demo_env = \<lparr>en_engine = sql_sem, en_stack = (\<lambda>n. replicate 32 0), en_addr = 9, en_peer = (\<lambda>fd. Some (''10.0.0.7'', 4000))\<rparr>"

definition demo_service :: service where
  "demo_service = \<lparr>
     sv_sessions = \<lparr>session_list = [\<lparr>se_addr = 1, se_session = demo_session ''boss'' 5, se_ref = \<lparr>refcount = 0\<rparr>, se_mark_deleted = False\<rparr>],
                    session_list_inited = True, session_stop_sign = False, session_releasing = []\<rparr>,
     sv_devices = \<lparr>device_list = [], device_list_inited = True\<rparr>,
     sv_db = demo_db\<lparr>t_account_basic := Some [(demo_user ''boss'')\<lparr>ab_pwd := string_of (hash_digits ''pw'')\<rparr>,
                                              (demo_user ''kid'')\<lparr>ab_pwd := string_of (hash_digits ''pw'')\<rparr>]\<rparr>\<rparr>"

definition demo_login :: "string \<Rightarrow> rpc_req option" where
  "demo_login u = make_req [(''pid'', ''100''), (''uuid'', u), (''pwd'', ''pw'')]"

lemma demo_service_views:
  "users (sv_db demo_service) = [(demo_user ''boss'')\<lparr>ab_pwd := string_of (hash_digits ''pw'')\<rparr>, (demo_user ''kid'')\<lparr>ab_pwd := string_of (hash_digits ''pw'')\<rparr>]"
  "children (sv_db demo_service) = [\<lparr>ch_uuid = ''kid'', ch_ref_admin_uuid = ''boss''\<rparr>]"
  "admins (sv_db demo_service) = [\<lparr>ad_uuid = ''boss'', ad_license_type = 2, ad_licensed_time = [], ad_expired_time = []\<rparr>]"
  by (simp_all add: demo_service_def demo_db_def users_def children_def admins_def)

lemma demo_service_ok: "db_ready (sv_db demo_service)" "addrs_ok demo_service"
  using demo_ready by (simp_all add: demo_service_def addrs_ok_def)

lemma demo_service_session:
  "session_for 5 demo_service = Some \<lparr>se_addr = 1, se_session = demo_session ''boss'' 5, se_ref = \<lparr>refcount = 0\<rparr>, se_mark_deleted = False\<rparr>"
  by (simp add: session_for_def demo_service_def demo_session_def)

lemma demo_env_hash: "account_gen_hash_key (en_stack demo_env n) ''pw'' = Inr (string_of (hash_digits ''pw''))"
  using demo_hash by (simp add: demo_env_def)

lemma demo_quiet:
  assumes "\<forall>kv\<in>set kvs. CHR 0x00 \<notin> set (snd kv) \<and> no_quote (snd kv)"
  shows "quiet demo_env (make_req kvs) demo_service"
proof -
  have "no_quote v" if "req_get (make_req kvs) k = Some v" for k v
    using that assms req_get_make [of kvs k] by (auto dest!: find_in)
  moreover have "no_quote h" if "account_gen_hash_key (replicate 32 0) pwd = Inr h" for pwd h
    using account_hash_any [of "replicate 32 0" pwd h] that by (simp add: leftover_def)
  ultimately show ?thesis
    using sem.sqlite_engine_axioms
    by (simp add: quiet_def demo_service_views demo_env_def demo_user_def) (simp add: demo_service_def demo_session_def no_quote_def)
qed

lemma demo_create:
  assumes "req = make_req [(''uuid'', ''tom''), (''pwd'', ''pw'')]"
  shows "create_request req ''tom'' ''pw''" and "name_free (sv_db demo_service) ''tom''" and "quiet demo_env req demo_service"
    and "has_user (sv_db demo_service) (world_tolower ''boss'')" and "world_tolower ''tom'' = ''tom''" and "world_tolower ''boss'' = ''boss''"
proof -
  show low: "world_tolower ''tom'' = ''tom''" "world_tolower ''boss'' = ''boss''" by code_simp+
  show "create_request req ''tom'' ''pw''"
    by (simp add: assms create_request_def req_get_make valid_nickname_def valid_comment_def)
  show "name_free (sv_db demo_service) ''tom''" "has_user (sv_db demo_service) (world_tolower ''boss'')"
    by (simp_all add: name_free_def low has_user_def has_admin_def demo_service_views demo_user_def)
  show "quiet demo_env req demo_service" unfolding assms by (rule demo_quiet) (simp add: no_quote_def)
qed

section \<open>Properties\<close>

text \<open>The account whose devices a session may play.\<close>

definition device_owner :: "session_entry \<Rightarrow> string" where
  "device_owner e = (if os_is_admin (se_session e) then ab_uuid (os_basic (se_session e)) else os_ref_admin_uuid (se_session e))"

lemma play_overruns:
  assumes "addrs_ok sv" and "is_play h" and "session_for fd sv = Some e" and "req_get req ''uuid'' = Some u"
    and "491 \<le> length (device_owner e) + length u"
  shows "handle h env fd req sv = Inl OutOfBounds"
proof -
  have "with_device env fd req sv body = Inl OutOfBounds" for body
    using assms(3-5)
    by (simp add: with_device_def req_need_def with_session_eq [OF assms(1)] db_account_device_get_def length_device_query device_owner_def Let_def)
  then show ?thesis
    using assms(2) by (cases h) (simp_all add: is_play_def req_play_device_def req_play_stop_def req_play_touch_def)
qed

text \<open>
  C26. Every request but a login, when the service handles it without a fault, keeps the sessions
  and their identities, and gives back the references to them that it takes, whatever the reply,
  except the play requests: each of these that names a device leaves the counter of the session it
  came over one higher, for ever. A play request whose device name is too long for the 1024 characters
  of the query (491 and more with the name of the account) writes behind that array.
\<close>

theorem references_returned_except_play:
  assumes "addrs_ok sv" and "h \<noteq> AccountLogin"
  shows "(handle h env fd req sv = Inr (sv', out) \<longrightarrow>
      map (\<lambda>e. (se_addr e, skey (se_session e), refcount (se_ref e))) (session_list (sv_sessions sv')) =
      map (\<lambda>e. (se_addr e, skey (se_session e), refcount (se_ref e) + of_bool (is_play h \<and> req_get req ''uuid'' \<noteq> None \<and> session_for fd sv = Some e)))
        (session_list (sv_sessions sv))) \<and>
    (is_play h \<and> session_for fd sv = Some e \<and> req_get req ''uuid'' = Some u \<and> 491 \<le> length (device_owner e) + length u \<longrightarrow>
      handle h env fd req sv = Inl OutOfBounds)"
proof (intro conjI impI)
  assume h: "handle h env fd req sv = Inr (sv', out)"
  show "map (\<lambda>e. (se_addr e, skey (se_session e), refcount (se_ref e))) (session_list (sv_sessions sv')) =
      map (\<lambda>e. (se_addr e, skey (se_session e), refcount (se_ref e) + of_bool (is_play h \<and> req_get req ''uuid'' \<noteq> None \<and> session_for fd sv = Some e)))
        (session_list (sv_sessions sv))"
  proof (cases "is_play h")
    case False
    then show ?thesis
      using res_allD [OF balanced_handlers [OF assms] h] by (simp add: ref_view_def)
  next
    case True
    from res_allD [OF play_handlers [OF assms(1) True] h] show ?thesis
      using True held_view [OF assms(1)] by (auto simp: ref_view_def split: if_splits)
  qed
qed (use play_overruns [OF assms(1)] in blast)

theorem references_returned_except_play_witness:
  "\<exists>sv' out. handle PlayStop demo_env 5 (make_req [(''uuid'', ''cam'')]) demo_service = Inr (sv', out) \<and>
     map (\<lambda>e. (se_addr e, refcount (se_ref e))) (session_list (sv_sessions sv')) = [(1, 1)]"
proof -
  have get: "req_get (make_req [(''uuid'', ''cam'')]) ''uuid'' = Some ''cam''" by (simp add: req_get_make)
  have "\<exists>sv' out. handle PlayStop demo_env 5 (make_req [(''uuid'', ''cam'')]) demo_service = Inr (sv', out)"
    by (simp add: req_play_stop_def with_device_def req_need_def get with_session_eq [OF demo_service_ok(2)] demo_service_session
        demo_session_def demo_env_def db_account_device_get_def length_device_query sql_query_def sql_sem_def Let_def)
       (simp add: demo_service_def demo_db_def sql_create_new_def answer_def)
  then obtain sv' out where h: "handle PlayStop demo_env 5 (make_req [(''uuid'', ''cam'')]) demo_service = Inr (sv', out)" by blast
  have "map (\<lambda>e. (se_addr e, skey (se_session e), refcount (se_ref e))) (session_list (sv_sessions sv')) = [(1, skey (demo_session ''boss'' 5), 1)]"
    using references_returned_except_play [OF demo_service_ok(2), of PlayStop demo_env 5 "make_req [(''uuid'', ''cam'')]" sv' out] h get demo_service_session
    by (simp add: is_play_def) (simp add: demo_service_def)
  from arg_cong [OF this, of "map (\<lambda>(a, k, r). (a, r))"] show ?thesis using h by (simp add: comp_def)
qed

text \<open>
  C25. As long as no value contains a quotation mark, the only requests that change the
  account database, among those the service handles without a fault (a fault is for instance a device
  name that overruns the array of the query, \<open>play_overruns\<close>), are those over a connection whose session is an administrator's, by its
  own flag or by the database, and the request of a session to change its own password.
\<close>

theorem db_change_needs_rights:
  assumes "quiet env req sv" and "db_ready (sv_db sv)" and "addrs_ok sv"
    and "handle h env fd req sv = Inr (sv', out)" and "sv_db sv' \<noteq> sv_db sv"
  shows "may_administer fd sv \<or> (h = AccountModify \<and> session_for fd sv \<noteq> None)"
proof (rule ccontr)
  assume no: "\<not> ?thesis"
  have "res_all (db_kept sv) (handle h env fd req sv)"
  proof (cases "h = AccountModify")
    case True
    then have "session_for fd sv = None" using no by simp
    then show ?thesis
      using True with_session_eq [OF assms(3)] by (simp add: req_account_modify_def Let_def res_all_answer)
  next
    case False
    then show ?thesis
      using no rights_db_kept [OF assms(1-3), of fd h] login_db_kept [OF assms(1,2)] play_db_kept [OF assms(1-3), of h]
      by (cases "h = AccountLogin"; cases "is_play h") auto
  qed
  then show False using res_allD assms(4,5) by blast
qed

theorem db_change_needs_rights_witness:
  "\<exists>sv' out. handle AccountCreate demo_env 5 (make_req [(''uuid'', ''tom''), (''pwd'', ''pw'')]) demo_service = Inr (sv', out) \<and>
     sv_db sv' \<noteq> sv_db demo_service \<and> may_administer 5 demo_service"
proof -
  let ?req = "make_req [(''uuid'', ''tom''), (''pwd'', ''pw'')]"
  note d = demo_create [OF refl]
  from create_spec [OF d(3) demo_service_ok demo_service_session _ refl _ _ d(1) demo_env_hash d(2)] d(4)
  obtain us cs where h: "handle AccountCreate demo_env 5 ?req demo_service =
      Inr (demo_service\<lparr>sv_db := sv_db demo_service\<lparr>t_account_basic := Some (users (sv_db demo_service) @ us), t_account_child := Some cs\<rparr>\<rparr>, Some [rid 0])" and "us \<noteq> []"
    by (simp add: demo_session_def answer_def)
  moreover from this have "sv_db demo_service\<lparr>t_account_basic := Some (users (sv_db demo_service) @ us), t_account_child := Some cs\<rparr> \<noteq> sv_db demo_service"
    by (auto dest!: arg_cong [of _ _ users])
  ultimately show ?thesis using db_change_needs_rights [OF d(3) demo_service_ok h] by auto
qed

end
