(* ===== verification/Service_Login.thy ===== *)
theory Service_Login
  imports Service_Props
begin

text \<open>
  What a client sees over logins: the result of a login request in terms of the
  tables, logging in to an account just created, and what a play request does to later
  logins.
\<close>

section \<open>The session a login makes\<close>

definition login_session :: "req_env \<Rightarrow> int \<Rightarrow> db_account_basic \<Rightarrow> string \<Rightarrow> bool \<Rightarrow> online_session" where
  "login_session env fd b ref adm =
     (case rpc_util_ip (en_peer env) fd of (_, ip, port) \<Rightarrow>
       \<lparr>os_basic = copy_basic b, os_ref_admin_uuid = ref, os_is_admin = adm, os_is_online = True,
        os_fd = fd, os_ip = ip, os_port = port, os_is_heartbeated = True\<rparr>)"

text \<open>Some session that has to give way is in use.\<close>

definition conflict_busy :: "online_session \<Rightarrow> service \<Rightarrow> bool" where
  "conflict_busy new sv \<longleftrightarrow> (\<exists>e\<in>set (session_list (sv_sessions sv)). session_conflict new (se_session e) \<and> refcount (se_ref e) \<noteq> 0)"

definition login_reply :: "string \<Rightarrow> bool \<Rightarrow> reply" where
  "login_reply ref adm = [rid 0, (''is_admin'', bool_text adm)] @ (if adm then [] else [(''ref_admin_uuid'', ref)])"

text \<open>A login that is let in: it replaces the sessions in conflict with it, or waits.\<close>

definition let_in :: "req_env \<Rightarrow> int \<Rightarrow> db_account_basic \<Rightarrow> string \<Rightarrow> bool \<Rightarrow> service \<Rightarrow> req_result \<Rightarrow> bool" where
  "let_in env fd b ref adm sv r \<longleftrightarrow>
     (let new = login_session env fd b ref adm in
      \<exists>s. (if conflict_busy new sv then r = Inr (sv\<lparr>sv_sessions := s\<rparr>, None)
          else r = Inr (sv\<lparr>sv_sessions := s\<rparr>, Some (login_reply ref adm)) \<and>
            session_list s = filter (\<lambda>e. \<not> session_conflict new (se_session e)) (session_list (sv_sessions sv)) @
              [\<lparr>se_addr = en_addr env, se_session = new, se_ref = pref_init, se_mark_deleted = False\<rparr>]))"

lemma add_loop_free:
  "\<forall>e\<in>set l. session_conflict new (se_session e) \<longrightarrow> refcount (se_ref e) = 0 \<Longrightarrow>
   add_loop new l = (filter (\<lambda>e. \<not> session_conflict new (se_session e)) l, None)"
  by (induction l) (auto simp: entry_free_def)

lemma add_loop_busy:
  "e \<in> set l \<Longrightarrow> session_conflict new (se_session e) \<Longrightarrow> refcount (se_ref e) \<noteq> 0 \<Longrightarrow> \<exists>w. snd (add_loop new l) = Some w"
  by (induction l) (auto simp: entry_free_def split: prod.splits)

lemma add_busy:
  assumes "conflict_busy new sv" shows "snd (online_session_add addr new (sv_sessions sv)) = None"
proof -
  obtain w where "snd (add_loop new (session_list (sv_sessions sv))) = Some w"
    using assms add_loop_busy unfolding conflict_busy_def by blast
  then obtain l where "add_loop new (session_list (sv_sessions sv)) = (l, Some w)" by (metis prod.collapse)
  then show ?thesis by (simp add: online_session_add_def)
qed

lemma login_enter_let_in: "let_in env fd b ref adm sv (login_enter env fd adm ref (copy_basic b) sv)"
proof -
  obtain s added where add: "online_session_add (en_addr env) (login_session env fd b ref adm) (sv_sessions sv) = (s, added)" by fastforce
  then have enter: "login_enter env fd adm ref (copy_basic b) sv =
      Inr (sv\<lparr>sv_sessions := s\<rparr>, if added = None then None else Some (login_reply ref adm))"
    by (auto simp: login_enter_def login_session_def login_reply_def Let_def split: prod.splits)
  show ?thesis
  proof (cases "conflict_busy (login_session env fd b ref adm) sv")
    case True
    then have "added = None" using add_busy [OF True, of "en_addr env"] add by simp
    then show ?thesis using True enter by (auto simp: let_in_def Let_def)
  next
    case False
    then have "\<forall>e\<in>set (session_list (sv_sessions sv)). session_conflict (login_session env fd b ref adm) (se_session e) \<longrightarrow> refcount (se_ref e) = 0"
      by (auto simp: conflict_busy_def)
    from add_loop_free [OF this] have "added = Some True" and
        "session_list s = filter (\<lambda>e. \<not> session_conflict (login_session env fd b ref adm) (se_session e)) (session_list (sv_sessions sv)) @
          [\<lparr>se_addr = en_addr env, se_session = login_session env fd b ref adm, se_ref = pref_init, se_mark_deleted = False\<rparr>]"
      using add by (auto simp: online_session_add_def)
    then show ?thesis using False enter by (auto simp: let_in_def Let_def)
  qed
qed

section \<open>What the lists answer\<close>

lemma list_child_sem:
  fixes r :: string and s :: "string option"
  assumes "db_ready db"
  defines "rows \<equiv> filter (\<lambda>b. \<exists>c\<in>set (children db). ch_ref_admin_uuid c = r \<and> chosen s (ch_uuid c) \<and> ch_uuid c = ab_uuid b) (users db)"
  shows "db_account_list_child_get sql_sem r s want db =
    Inr (db, if rows = [] then None else Some (if want then map copy_basic rows else [], int (length rows)))"
proof -
  have "sql_select (SelectChildren r s) db = Some (map BasicRow rows)"
    using assms(1) unfolding rows_def
    by (elim db_readyE) (auto simp: users_def children_def image_iff intro!: arg_cong [of _ _ "map BasicRow"] filter_cong)
  then show ?thesis
    using account_list_sem [of db "SelectChildren r s" rows want] assms(1) by (simp add: db_account_list_child_get_def db_ready_def)
qed

lemma unique_row:
  assumes "distinct (map f l)" and "b \<in> set l" and "\<And>x. P x \<Longrightarrow> f x = f b"
  shows "filter P l = (if P b then [b] else [])"
  using assms
proof (induction l)
  case (Cons a l)
  show ?case
  proof (cases "a = b")
    case True
    then have "\<not> P x" if "x \<in> set l" for x using Cons.prems(1,3) that by (metis distinct.simps(2) image_eqI list.set_map list.simps(9))
    then show ?thesis using True by (auto simp: filter_empty_conv)
  next
    case False
    then have b: "b \<in> set l" using Cons.prems(2) by simp
    then have "f a \<noteq> f b" using Cons.prems(1) by (metis distinct.simps(2) image_eqI list.set_map list.simps(9))
    then have "\<not> P a" using Cons.prems(3) by auto
    then show ?thesis using Cons b by simp
  qed
qed simp

lemma list_admin_one:
  assumes "db_ready db" and "distinct (map ab_uuid (users db))" and "b \<in> set (users db)" and "has_admin db (ab_uuid b)"
  shows "db_account_list_admin_get sql_sem (Some (ab_uuid b)) True db = Inr (db, Some ([copy_basic b], 1))"
proof -
  have "filter (\<lambda>x. chosen (Some (ab_uuid b)) (ab_uuid x) \<and> has_admin db (ab_uuid x)) (users db) = [b]"
    using unique_row [OF assms(2,3), of "\<lambda>x. chosen (Some (ab_uuid b)) (ab_uuid x) \<and> has_admin db (ab_uuid x)"] assms(4)
    by (simp add: chosen_def)
  then show ?thesis using list_admin_sem [OF assms(1), of "Some (ab_uuid b)" True] by auto
qed

lemma list_child_one:
  assumes "db_ready db" and "distinct (map ab_uuid (users db))" and "b \<in> set (users db)"
  shows "db_account_list_child_get sql_sem r (Some (ab_uuid b)) True db =
    Inr (db, if \<exists>c\<in>set (children db). ch_uuid c = ab_uuid b \<and> ch_ref_admin_uuid c = r then Some ([copy_basic b], 1) else None)"
proof -
  let ?P = "\<lambda>x. \<exists>c\<in>set (children db). ch_ref_admin_uuid c = r \<and> chosen (Some (ab_uuid b)) (ch_uuid c) \<and> ch_uuid c = ab_uuid x"
  have "?P b \<longleftrightarrow> (\<exists>c\<in>set (children db). ch_uuid c = ab_uuid b \<and> ch_ref_admin_uuid c = r)"
    by (auto simp: chosen_def)
  moreover have "filter ?P (users db) = (if ?P b then [b] else [])"
    by (rule unique_row [OF assms(2,3)]) (auto simp: chosen_def)
  ultimately show ?thesis using list_child_sem [OF assms(1), of r "Some (ab_uuid b)" True] by auto
qed

section \<open>Logging in\<close>

text \<open>A login request whose fields have the right form.\<close>

definition login_request :: "rpc_req option \<Rightarrow> string \<Rightarrow> string \<Rightarrow> bool" where
  "login_request req u w \<longleftrightarrow> req_get req ''uuid'' = Some u \<and> req_get req ''pwd'' = Some w \<and> length u \<le> 16 \<and> length w \<le> 16 \<and>
     (\<exists>p. req_get req ''pid'' = Some p \<and> valid_platform (c_atoi p))"

text \<open>The keys of the tables are unique.\<close>

definition keys_ok :: "sql_db \<Rightarrow> bool" where
  "keys_ok db \<longleftrightarrow> distinct (map ab_uuid (users db)) \<and> distinct (map ch_uuid (children db))"

lemma quiet_lists:
  assumes "quiet env req sv" and "no_quote u"
  shows "db_account_list_admin_get (en_engine env) (Some u) w db = db_account_list_admin_get sql_sem (Some u) w db"
    and "no_quote r \<Longrightarrow> db_account_list_child_get (en_engine env) r (Some u) w db = db_account_list_child_get sql_sem r (Some u) w db"
  using sqlite_engine.account_list_plain [OF quiet_engine [OF assms(1)]] assms(2)
  by (simp_all add: db_account_list_admin_get_def db_account_list_child_get_def plain_stmt_def)

lemma quiet_password:
  assumes "quiet env req sv" and "db_ready (sv_db sv)" and "no_quote u" and "account_gen_hash_key (en_stack env n) w = Inr h"
  shows "db_account_check_user_is_ok (en_engine env) (en_stack env n) u w wa wr (sv_db sv) =
    Inr (if \<exists>r\<in>set (users (sv_db sv)). ab_uuid r = u \<and> ab_pwd r = h
         then (sv_db sv, True, wa \<and> has_admin (sv_db sv) u, if \<not> (wa \<and> has_admin (sv_db sv) u) \<and> wr then ref_admin (sv_db sv) u else [])
         else (sv_db sv, False, False, []))"
proof -
  have "\<And>h. account_gen_hash_key (en_stack env n) w = Inr h \<Longrightarrow> no_quote h" using assms(1) by (simp add: quiet_def)
  then show ?thesis
    using sqlite_engine.check_user_is_ok_plain [OF quiet_engine [OF assms(1)] assms(3)] check_user_is_ok_sem [OF assms(2,4)] by simp
qed

lemma login_spec_core:
  assumes q: "quiet env req sv" and ready: "db_ready (sv_db sv)" and keys: "keys_ok (sv_db sv)"
    and req: "login_request req u w" and h: "account_gen_hash_key (en_stack env 0) w = Inr h"
    and b: "b \<in> set (users (sv_db sv))" "ab_uuid b = u"
  shows "if ab_pwd b \<noteq> h then req_account_login env fd req sv = answer sv [rid (-1)]
    else if has_admin (sv_db sv) u then let_in env fd b [] True sv (req_account_login env fd req sv)
    else case find (\<lambda>c. ch_uuid c = u) (children (sv_db sv)) of
        None \<Rightarrow> req_account_login env fd req sv = Inl NullDeref
      | Some c \<Rightarrow> if length (ch_ref_admin_uuid c) < 16 then let_in env fd b (ch_ref_admin_uuid c) False sv (req_account_login env fd req sv)
                  else req_account_login env fd req sv = Inl UseUninit"
proof -
  let ?db = "sv_db sv"
  have u: "no_quote u" using req quiet_get [OF q] by (auto simp: login_request_def)
  have dist: "distinct (map ab_uuid (users ?db))" "distinct (map ch_uuid (children ?db))" using keys by (simp_all add: keys_ok_def)
  have row: "(\<exists>r\<in>set (users ?db). ab_uuid r = u \<and> ab_pwd r = h) \<longleftrightarrow> ab_pwd b = h"
    using b dist(1) by (auto dest: eq_key_imp_eq_value simp: distinct_map inj_on_def)
  note chk = quiet_password [OF q ready u h, of True True, unfolded row]
  obtain p where p: "req_get req ''uuid'' = Some u" "req_get req ''pwd'' = Some w" "length u \<le> 16" "length w \<le> 16"
      "req_get req ''pid'' = Some p" "valid_platform (c_atoi p)"
    using req by (auto simp: login_request_def)
  have start: "req_account_login env fd req sv =
    bindR (db_account_check_user_is_ok (en_engine env) (en_stack env 0) u w True True ?db) (\<lambda>(db, r, b_is_admin, ref_admin_uuid).
      if \<not> r then answer (sv\<lparr>sv_db := db\<rparr>) [rid (-1)]
      else bindR (if b_is_admin then Inr [] else ref_string ref_admin_uuid) (\<lambda>ref_admin_uuid.
        bindR (if b_is_admin then db_account_list_admin_get (en_engine env) (Some u) True db
               else db_account_list_child_get (en_engine env) ref_admin_uuid (Some u) True db) (\<lambda>(db, acc).
        bindR (first_account acc) (\<lambda>basic.
          login_enter env fd b_is_admin ref_admin_uuid basic (sv\<lparr>sv_db := db\<rparr>)))))"
    by (simp add: req_account_login_def p valid_uuid_def valid_pwd_def Let_def cong: if_cong)
  show ?thesis
  proof (cases "ab_pwd b = h")
    case False
    then show ?thesis using start chk by (simp add: answer_def)
  next
    case pwd: True
    show ?thesis
    proof (cases "has_admin ?db u")
      case True
      then have "req_account_login env fd req sv = login_enter env fd True [] (copy_basic b) sv"
        using pwd start chk quiet_lists(1) [OF q u] list_admin_one [OF ready dist(1) b(1)] b(2) by (simp add: first_account_def)
      then show ?thesis using True pwd login_enter_let_in by simp
    next
      case False
      have ref: "ref_admin ?db u = (case find (\<lambda>c. ch_uuid c = u) (children ?db) of None \<Rightarrow> [] | Some c \<Rightarrow> take 16 (ch_ref_admin_uuid c))"
        by (simp add: ref_admin_def)
      note lst = quiet_lists(2) [OF q u] list_child_one [OF ready dist(1) b(1)] b(2)
      show ?thesis
      proof (cases "find (\<lambda>c. ch_uuid c = u) (children ?db)")
        case None
        then have "\<not> (\<exists>c\<in>set (children ?db). ch_uuid c = u \<and> ch_ref_admin_uuid c = [])" by (auto simp: find_None_iff)
        then show ?thesis
          using None False pwd start chk ref lst by (auto simp: first_account_def ref_string_def no_quote_def)
      next
        case (Some c)
        then have c: "c \<in> set (children ?db)" "ch_uuid c = u" using find_in by fast+
        show ?thesis
        proof (cases "length (ch_ref_admin_uuid c) < 16")
          case True
          have "no_quote (ch_ref_admin_uuid c)" using q c(1) by (simp add: quiet_def)
          moreover have "\<exists>x\<in>set (children ?db). ch_uuid x = u \<and> ch_ref_admin_uuid x = ch_ref_admin_uuid c" using c by auto
          ultimately have "req_account_login env fd req sv = login_enter env fd False (ch_ref_admin_uuid c) (copy_basic b) sv"
            using Some False pwd start chk ref lst True by (simp add: first_account_def ref_string_def)
          then show ?thesis using Some False pwd True login_enter_let_in by simp
        next
          case long: False
          then show ?thesis
            using Some False pwd start chk ref by (simp add: ref_string_def)
        qed
      qed
    qed
  qed
qed

text \<open>
  C24. The result of a login, for an account in the table: with a wrong password the reply
  is -1 and nothing changes; an administrator is let in, as is a child account of somebody,
  with the sessions in conflict replaced by the new one; and the service dereferences null for an
  account that is neither.
\<close>

theorem login_spec:
  assumes "quiet env req sv" and "db_ready (sv_db sv)" and "keys_ok (sv_db sv)"
    and "login_request req u w" and "account_gen_hash_key (en_stack env 0) w = Inr h"
    and "b \<in> set (users (sv_db sv))" and "ab_uuid b = u"
  shows "if ab_pwd b \<noteq> h then handle AccountLogin env fd req sv = answer sv [rid (-1)]
    else if has_admin (sv_db sv) u then let_in env fd b [] True sv (handle AccountLogin env fd req sv)
    else case find (\<lambda>c. ch_uuid c = u) (children (sv_db sv)) of
        None \<Rightarrow> handle AccountLogin env fd req sv = Inl NullDeref
      | Some c \<Rightarrow> if length (ch_ref_admin_uuid c) < 16 then let_in env fd b (ch_ref_admin_uuid c) False sv (handle AccountLogin env fd req sv)
                  else handle AccountLogin env fd req sv = Inl UseUninit"
  unfolding handle.simps by (rule login_spec_core [OF assms])

lemma demo_keys: "keys_ok (sv_db demo_service)"
  by (simp add: keys_ok_def demo_service_views demo_user_def)

lemma demo_login_request:
  assumes "length u \<le> 16" and "CHR 0x00 \<notin> set u"
  shows "login_request (demo_login u) u ''pw''"
proof -
  have "c_atoi ''100'' = 100" by code_simp
  then show ?thesis
    using assms by (auto simp: login_request_def demo_login_def req_get_make valid_platform_def)
qed

lemma demo_login_quiet:
  assumes "CHR 0x00 \<notin> set u" and "no_quote u" shows "quiet demo_env (demo_login u) demo_service"
  unfolding demo_login_def by (rule demo_quiet) (use assms in \<open>simp add: no_quote_def\<close>)

theorem login_spec_witness:
  "let_in demo_env 6 ((demo_user ''kid'')\<lparr>ab_pwd := string_of (hash_digits ''pw'')\<rparr>) ''boss'' False demo_service
     (handle AccountLogin demo_env 6 (demo_login ''kid'') demo_service)"
  using login_spec [OF demo_login_quiet demo_service_ok(1) demo_keys demo_login_request demo_env_hash,
      of "''kid''" "(demo_user ''kid'')\<lparr>ab_pwd := string_of (hash_digits ''pw'')\<rparr>" 6]
  by (simp add: demo_service_views demo_user_def has_admin_def no_quote_def)

section \<open>A play request blocks the next login\<close>

lemma play_holds:
  assumes "addrs_ok sv" and "is_play h" and "req_get req ''uuid'' \<noteq> None" and "session_for fd sv = Some e" and "0 \<le> refcount (se_ref e)"
    and "handle h env fd req sv = Inr (sv', out)"
  shows "\<exists>x\<in>set (session_list (sv_sessions sv')). skey (se_session x) = skey (se_session e) \<and> refcount (se_ref x) \<noteq> 0"
proof -
  have view: "ref_view sv' = ref_view (held fd sv)"
    using res_allD [OF play_handlers [OF assms(1,2)] assms(6)] assms(3) by (auto split: if_splits)
  have "(se_addr e, skey (se_session e), refcount (se_ref e) + 1) \<in> set (ref_view sv')"
    using session_for_in [OF assms(4)] assms(4) unfolding view held_view [OF assms(1)] by force
  then show ?thesis using assms(5) by (force simp: ref_view_def)
qed

text \<open>
  C27. Once the service has handled a play request of an administrator that names a device, whatever
  it replied, a login under the same account with the right password, over whatever connection, that is the next
  request is never answered.
\<close>

theorem play_blocks_next_login:
  assumes "addrs_ok sv" and "is_play h" and "req_get req ''uuid'' \<noteq> None" and "session_for fd sv = Some e" and "0 \<le> refcount (se_ref e)"
    and "handle h env fd req sv = Inr (sv', out)"
    and "quiet env' req' sv'" and "db_ready (sv_db sv')" and "keys_ok (sv_db sv')"
    and "login_request req' (ab_uuid (os_basic (se_session e))) w" and "account_gen_hash_key (en_stack env' 0) w = Inr (ab_pwd b)"
    and "b \<in> set (users (sv_db sv'))" and "ab_uuid b = ab_uuid (os_basic (se_session e))" and "has_admin (sv_db sv') (ab_uuid b)"
  shows "\<exists>s. handle AccountLogin env' fd' req' sv' = Inr (sv'\<lparr>sv_sessions := s\<rparr>, None)"
proof -
  obtain x where x: "x \<in> set (session_list (sv_sessions sv'))" "skey (se_session x) = skey (se_session e)" "refcount (se_ref x) \<noteq> 0"
    using play_holds [OF assms(1-6)] by blast
  have "length (ab_uuid b) \<le> 16" using assms(10,13) by (simp add: login_request_def)
  then have "session_conflict (login_session env' fd' b [] True) (se_session x)"
    using x(2) assms(13) by (auto simp: session_conflict_key key_conflict_def skey_def login_session_def copy_basic_def split: prod.splits)
  then have "conflict_busy (login_session env' fd' b [] True) sv'"
    using x(1,3) by (auto simp: conflict_busy_def)
  moreover have "let_in env' fd' b [] True sv' (req_account_login env' fd' req' sv')"
    using login_spec_core [OF assms(7-12,13), of fd'] assms(13,14) by simp
  ultimately show ?thesis by (auto simp: let_in_def Let_def)
qed

lemma demo_play:
  "\<exists>sv'. handle PlayStop demo_env 5 (make_req [(''uuid'', ''cam'')]) demo_service = Inr (sv', Some [rid (-1)]) \<and>
     sv' = held 5 demo_service"
proof -
  have get: "req_get (make_req [(''uuid'', ''cam'')]) ''uuid'' = Some ''cam''" by (simp add: req_get_make)
  show ?thesis
    by (simp add: req_play_stop_def with_device_def req_need_def get with_session_eq [OF demo_service_ok(2)] demo_service_session
        demo_session_def demo_env_def db_account_device_get_def length_device_query sql_query_def sql_sem_def Let_def)
       (simp add: demo_service_def demo_db_def sql_create_new_def answer_def held_def)
qed

theorem play_blocks_next_login_witness:
  "\<exists>sv' s. handle PlayStop demo_env 5 (make_req [(''uuid'', ''cam'')]) demo_service = Inr (sv', Some [rid (-1)]) \<and>
     handle AccountLogin demo_env 7 (demo_login ''boss'') sv' = Inr (sv'\<lparr>sv_sessions := s\<rparr>, None)"
proof -
  let ?sv = "held 5 demo_service" and ?b = "(demo_user ''boss'')\<lparr>ab_pwd := string_of (hash_digits ''pw'')\<rparr>"
  have play: "handle PlayStop demo_env 5 (make_req [(''uuid'', ''cam'')]) demo_service = Inr (?sv, Some [rid (-1)])"
    using demo_play by simp
  have "quiet demo_env (demo_login ''boss'') ?sv"
  proof -
    have "os_basic ` se_session ` set (session_list (sv_sessions ?sv)) = os_basic ` se_session ` set (session_list (sv_sessions demo_service))"
      "os_ref_admin_uuid ` se_session ` set (session_list (sv_sessions ?sv)) = os_ref_admin_uuid ` se_session ` set (session_list (sv_sessions demo_service))"
      by (simp_all add: demo_service_def)
    then show ?thesis
      using demo_login_quiet [of "''boss''"] by (simp add: quiet_def no_quote_def demo_service_def demo_session_def)
  qed
  then have "\<exists>s. handle AccountLogin demo_env 7 (demo_login ''boss'') ?sv = Inr (?sv\<lparr>sv_sessions := s\<rparr>, None)"
    using play_blocks_next_login [OF demo_service_ok(2) _ _ demo_service_session _ play, of demo_env "demo_login ''boss''" "''pw''" ?b 7]
      demo_service_ok(1) demo_keys demo_login_request [of "''boss''"] demo_env_hash [of 0]
    by (simp add: is_play_def req_get_make demo_session_def demo_service_views demo_user_def has_admin_def)
  then show ?thesis using play by blast
qed

section \<open>Creating an account and logging in to it\<close>

lemma quiet_create:
  assumes "quiet env req sv" and "no_quote a" and "no_quote r"
  shows "quiet env req (sv\<lparr>sv_db := sv_db sv\<lparr>t_account_basic := Some (users (sv_db sv) @ [new_user (sv_db sv) a p n c]),
      t_account_child := Some (children (sv_db sv) @ [\<lparr>ch_uuid = a, ch_ref_admin_uuid = r\<rparr>])\<rparr>\<rparr>)"
  using assms by (auto simp: quiet_def new_user_def)

text \<open>
  C23. An administrator's request to create an account with a free name is answered with
  success, and then a login over any connection under the name in lower case and with the
  same password is let in as a child of that administrator, provided that the stack leaves the
  same bytes behind the digits of the hash.
\<close>

theorem create_then_login:
  assumes "quiet env req sv" and "db_ready (sv_db sv)" and "keys_ok (sv_db sv)" and "addrs_ok sv"
    and "session_for fd sv = Some e" and "os_is_admin (se_session e)"
    and "length (ab_uuid (os_basic (se_session e))) < 16" and "has_user (sv_db sv) (world_tolower (ab_uuid (os_basic (se_session e))))"
    and "create_request req a w" and "name_free (sv_db sv) a"
    and "quiet env' req' sv" and "login_request req' (world_tolower a) w"
    and "account_gen_hash_key (en_stack env 0) w = Inr h" and "account_gen_hash_key (en_stack env' 0) w = Inr h"
  shows "\<exists>sv' b. handle AccountCreate env fd req sv = Inr (sv', Some [rid 0]) \<and> ab_uuid b = world_tolower a \<and>
    let_in env' fd' b (world_tolower (ab_uuid (os_basic (se_session e)))) False sv' (handle AccountLogin env' fd' req' sv')"
proof -
  let ?own = "world_tolower (ab_uuid (os_basic (se_session e)))"
  let ?b = "new_user (sv_db sv) (world_tolower a) h (or_empty (req_get req ''nickname'')) (or_empty (req_get req ''comment''))"
  let ?sv = "sv\<lparr>sv_db := sv_db sv\<lparr>t_account_basic := Some (users (sv_db sv) @ [?b]),
      t_account_child := Some (children (sv_db sv) @ [\<lparr>ch_uuid = world_tolower a, ch_ref_admin_uuid = ?own\<rparr>])\<rparr>\<rparr>"
  have create: "handle AccountCreate env fd req sv = Inr (?sv, Some [rid 0])"
    using create_spec [OF assms(1,2,4,5,6) refl assms(7,8,9,13,10)] by (simp add: answer_def)
  have nq: "no_quote (world_tolower a)" "no_quote ?own"
    using quiet_get [OF assms(1)] assms(9) quiet_session [OF assms(1,5)] by (auto simp: create_request_def intro: plain_lower)
  have keys: "keys_ok (sv_db ?sv)" and adm: "\<not> has_admin (sv_db ?sv) (world_tolower a)"
    using assms(3,10) by (auto simp: keys_ok_def name_free_def has_user_def has_admin_def new_user_def)
  have "find (\<lambda>c. ch_uuid c = world_tolower a) (children (sv_db ?sv)) = Some \<lparr>ch_uuid = world_tolower a, ch_ref_admin_uuid = ?own\<rparr>"
    using assms(10) by (auto simp: name_free_def image_iff intro!: find_append_last)
  moreover have "length ?own < 16" using assms(7) by (simp add: world_tolower_def)
  ultimately have "let_in env' fd' ?b ?own False ?sv (req_account_login env' fd' req' ?sv)"
    using login_spec_core [OF quiet_create [OF assms(11) nq, of h "or_empty (req_get req ''nickname'')" "or_empty (req_get req ''comment'')"] _ keys assms(12,14), of ?b fd']
      assms(2) adm by (auto simp: new_user_def)
  then show ?thesis using create by (intro exI [of _ ?sv] exI [of _ ?b]) (simp add: new_user_def)
qed

theorem create_then_login_witness:
  "\<exists>sv' b. handle AccountCreate demo_env 5 (make_req [(''uuid'', ''tom''), (''pwd'', ''pw'')]) demo_service = Inr (sv', Some [rid 0]) \<and>
     ab_uuid b = ''tom'' \<and> let_in demo_env 6 b ''boss'' False sv' (handle AccountLogin demo_env 6 (demo_login ''tom'') sv')"
  using create_then_login [OF demo_create(3) [OF refl] demo_service_ok(1) demo_keys demo_service_ok(2) demo_service_session _ _ _
      demo_create(1) [OF refl] demo_create(2) [OF refl] demo_login_quiet [of "''tom''"] _ demo_env_hash demo_env_hash, of 6]
    demo_create(4-6) [OF refl] demo_login_request [of "''tom''"]
  by (simp add: demo_session_def no_quote_def)

section \<open>Children of a deleted administrator\<close>

text \<open>
  Once an administrator has been deleted, a login with the right password under an
  account that belonged to it stops the whole service at a null pointer.
\<close>

theorem orphan_login_crashes:
  assumes "quiet env req sv" and "db_ready (sv_db sv)" and "keys_ok (sv_db sv)" and "no_quote a"
    and "b \<in> set (users (sv_db sv))" and "ab_uuid b \<noteq> a" and "\<not> has_admin (sv_db sv) (ab_uuid b)"
    and "\<lparr>ch_uuid = ab_uuid b, ch_ref_admin_uuid = a\<rparr> \<in> set (children (sv_db sv))"
    and "login_request req (ab_uuid b) w" and "account_gen_hash_key (en_stack env 0) w = Inr (ab_pwd b)"
  shows "\<exists>db'. db_account_admin_del (en_engine env) a (sv_db sv) = (db', True) \<and>
    handle AccountLogin env fd req (sv\<lparr>sv_db := db'\<rparr>) = Inl NullDeref"
proof -
  obtain db' where del: "db_account_admin_del sql_sem a (sv_db sv) = (db', True)" and ready: "db_ready db'"
    and views: "users db' = filter (\<lambda>r. ab_uuid r \<noteq> a) (users (sv_db sv))" "admins db' = filter (\<lambda>r. ad_uuid r \<noteq> a) (admins (sv_db sv))"
      "children db' = filter (\<lambda>c. ch_ref_admin_uuid c \<noteq> a) (children (sv_db sv))"
    using admin_del_views [OF assms(2)] by blast
  have "ch_ref_admin_uuid c = a" if "c \<in> set (children (sv_db sv))" "ch_uuid c = ab_uuid b" for c
  proof -
    have "inj_on ch_uuid (set (children (sv_db sv)))" using assms(3) by (simp add: keys_ok_def distinct_map)
    then have "c = \<lparr>ch_uuid = ab_uuid b, ch_ref_admin_uuid = a\<rparr>" by (rule inj_onD) (use that assms(8) in simp_all)
    then show ?thesis by simp
  qed
  then have none: "find (\<lambda>c. ch_uuid c = ab_uuid b) (children db') = None"
    by (auto simp: views find_None_iff)
  have "quiet env req (sv\<lparr>sv_db := db'\<rparr>)" using assms(1) by (auto simp: quiet_def views)
  moreover have "keys_ok db'" using assms(3) by (auto simp: keys_ok_def views distinct_map_filter)
  moreover have "b \<in> set (users db')" "\<not> has_admin db' (ab_uuid b)"
    using assms(5-7) by (auto simp: views has_admin_def)
  ultimately have "req_account_login env fd req (sv\<lparr>sv_db := db'\<rparr>) = Inl NullDeref"
    using login_spec_core [of env req "sv\<lparr>sv_db := db'\<rparr>" "ab_uuid b" w "ab_pwd b" b fd] ready none assms(9,10) by simp
  then show ?thesis using del sqlite_engine.admin_del_plain [OF quiet_engine [OF assms(1)] assms(4)] by simp
qed

theorem orphan_login_crashes_witness:
  "\<exists>db'. db_account_admin_del sql_sem ''boss'' (sv_db demo_service) = (db', True) \<and>
     handle AccountLogin demo_env 6 (demo_login ''kid'') (demo_service\<lparr>sv_db := db'\<rparr>) = Inl NullDeref"
proof -
  have "no_quote ''boss''" "no_quote ''kid''" by (simp_all add: no_quote_def)
  then show ?thesis
    using orphan_login_crashes [OF demo_login_quiet [of "''kid''"] demo_service_ok(1) demo_keys, of "''boss''"
        "(demo_user ''kid'')\<lparr>ab_pwd := string_of (hash_digits ''pw'')\<rparr>" "''pw''" 6]
      demo_login_request [of "''kid''"] demo_env_hash [of 0]
    by (simp add: demo_service_views demo_user_def has_admin_def demo_env_def)
qed

end
