(* ===== verification/Timer.thy ===== *)
theory Timer
  imports Rpc_Queue
begin

text \<open>
  The timer service, \<open>common/timer.c\<close>: a thread that sleeps a tick at a time, counts the
  registered timers down by the time elapsed and calls those that have run out. Times are
  pairs of seconds and microseconds; the two readings of the clock in a step are its
  inputs. Calling a timer back is the parameter \<open>cb\<close>, which tells whether the callback set
  its abort flag; callbacks do not touch the list. A timer is known by its address.
\<close>

section \<open>State and operations\<close>

record st_timer =
  tm_addr :: nat
  tm_milliseconds :: int
  tm_remaining :: int
  tm_auto_delete :: bool
  tm_sign_as_deleted :: bool

record timer_state =
  timer_list :: "st_timer list"
  timer_list_inited :: bool
  timer_stop_sign :: bool
  timer_tickfps :: int

text \<open>\<open>timer_tick\<close>: the deadline it sleeps until and the time it returns, that of its start.\<close>

definition timer_tick :: "int \<times> int \<Rightarrow> int \<Rightarrow> (int \<times> int) \<times> (int \<times> int)" where
  "timer_tick now millisecond = (wait_deadline now millisecond, now)"

text \<open>\<open>my_timer_sub\<close>: the elapsed milliseconds.\<close>

definition my_timer_sub :: "int \<times> int \<Rightarrow> int \<times> int \<Rightarrow> int" where
  "my_timer_sub now prev =
     (let usec = snd now - snd prev;
          (sec, usec) = (if usec < 0 then (fst now - 1, usec + 1000000) else (fst now, usec))
      in (sec - fst prev) * 1000 + c_div usec 1000)"

text \<open>The loop of \<open>timer_synchronize\<close>.\<close>

fun sync_loop :: "bool \<Rightarrow> int \<Rightarrow> st_timer list \<Rightarrow> st_timer list" where
  "sync_loop stop elapsed [] = []"
| "sync_loop stop elapsed (tmp # rest) =
     (if tm_sign_as_deleted tmp \<or> stop then sync_loop stop elapsed rest
      else (if tm_remaining tmp \<noteq> 0
            then (let r = tm_remaining tmp - elapsed in tmp\<lparr>tm_remaining := (if r < 0 then 0 else r)\<rparr>)
            else tmp) # sync_loop stop elapsed rest)"

definition timer_synchronize :: "int \<times> int \<Rightarrow> int \<times> int \<Rightarrow> timer_state \<Rightarrow> timer_state \<times> int" where
  "timer_synchronize prev now s =
     (let s' = s\<lparr>timer_list := sync_loop (timer_stop_sign s) (my_timer_sub now prev) (timer_list s)\<rparr>
      in (s', if timer_stop_sign s then -1 else 0))"

text \<open>The loop of \<open>timer_step\<close>: the list and the addresses called back.\<close>

fun fire_loop :: "(nat \<Rightarrow> bool) \<Rightarrow> st_timer list \<Rightarrow> st_timer list \<times> nat list" where
  "fire_loop cb [] = ([], [])"
| "fire_loop cb (tmp # rest) =
     (let (l, fired) = fire_loop cb rest in
      if tm_remaining tmp = 0
      then ((if cb (tm_addr tmp) then tmp\<lparr>tm_sign_as_deleted := True\<rparr> else tmp\<lparr>tm_remaining := tm_milliseconds tmp\<rparr>) # l,
            tm_addr tmp # fired)
      else (tmp # l, fired))"

definition timer_step :: "(nat \<Rightarrow> bool) \<Rightarrow> int \<times> int \<Rightarrow> int \<times> int \<Rightarrow> timer_state \<Rightarrow> timer_state \<times> nat list \<times> int" where
  "timer_step cb prev now s =
     (case timer_synchronize prev now s of
        (s, ret) \<Rightarrow>
          if ret = -1 then (s, [], ret)
          else (let (l, fired) = fire_loop cb (timer_list s) in (s\<lparr>timer_list := l\<rparr>, fired, 0)))"

text \<open>\<open>timer_clock_proc\<close> over a finite sequence of ticks: what each step called back.\<close>

fun timer_clock_proc :: "(nat \<Rightarrow> bool) \<Rightarrow> ((int \<times> int) \<times> (int \<times> int)) list \<Rightarrow> timer_state \<Rightarrow> timer_state \<times> nat list list" where
  "timer_clock_proc cb [] s = (s, [])"
| "timer_clock_proc cb ((prev, now) # ticks) s =
     (case timer_step cb prev now s of
        (s, fired, ret) \<Rightarrow>
          if ret = -1 then (s, [fired])
          else (let (s', rest) = timer_clock_proc cb ticks s in (s', fired # rest)))"

definition timer_init :: "int \<Rightarrow> timer_state \<Rightarrow> timer_state" where
  "timer_init tickfps s =
     (if timer_list_inited s then s
      else s\<lparr>timer_list := [], timer_stop_sign := False, timer_tickfps := tickfps, timer_list_inited := True\<rparr>)"

definition timer_create :: "nat \<Rightarrow> int \<Rightarrow> bool \<Rightarrow> timer_state \<Rightarrow> timer_state" where
  "timer_create addr milliseconds b_auto_delete s =
     s\<lparr>timer_list := timer_list s @
        [\<lparr>tm_addr = addr, tm_milliseconds = milliseconds, tm_remaining = milliseconds, tm_auto_delete = b_auto_delete,
          tm_sign_as_deleted = False\<rparr>]\<rparr>"

fun timer_mark :: "nat \<Rightarrow> st_timer list \<Rightarrow> st_timer list \<times> int" where
  "timer_mark addr [] = ([], -1)"
| "timer_mark addr (tmp # rest) =
     (if tm_addr tmp = addr then (tmp\<lparr>tm_sign_as_deleted := True\<rparr> # rest, 0) else apfst ((#) tmp) (timer_mark addr rest))"

definition timer_del :: "nat option \<Rightarrow> timer_state \<Rightarrow> timer_state \<times> int" where
  "timer_del tm s =
     (case tm of
        None \<Rightarrow> (s, -1)
      | Some addr \<Rightarrow>
          if \<not> timer_list_inited s then (s, -1)
          else (let (l, r) = timer_mark addr (timer_list s) in (s\<lparr>timer_list := l\<rparr>, r)))"

text \<open>\<open>timer_destroy\<close> joins the thread, whose last step removes every timer.\<close>

definition timer_destroy :: "int \<times> int \<Rightarrow> int \<times> int \<Rightarrow> timer_state \<Rightarrow> timer_state" where
  "timer_destroy prev now s =
     (if \<not> timer_list_inited s then s
      else (fst (timer_step (\<lambda>_. False) prev now (s\<lparr>timer_stop_sign := True\<rparr>)))\<lparr>timer_list_inited := False\<rparr>)"

section \<open>One timer\<close>

lemma my_timer_sub_elapsed:
  assumes "fst prev * 1000000 + snd prev \<le> fst now * 1000000 + snd now" and "0 \<le> snd prev" and "snd prev < 1000000"
    and "0 \<le> snd now" and "snd now < 1000000"
  shows "my_timer_sub now prev = ((fst now * 1000000 + snd now) - (fst prev * 1000000 + snd prev)) div 1000"
proof -
  have e: "((fst now * 1000000 + snd now) - (fst prev * 1000000 + snd prev)) div 1000
        = (fst now - fst prev) * 1000 + (snd now - snd prev) div 1000"
  proof -
    have "(fst now * 1000000 + snd now) - (fst prev * 1000000 + snd prev) = (snd now - snd prev) + ((fst now - fst prev) * 1000) * 1000"
      by (simp add: algebra_simps)
    then show ?thesis by (simp only: div_mult_self1)
  qed
  show ?thesis
  proof (cases "snd now < snd prev")
    case True
    have "(snd now - snd prev + 1000000) div 1000 = (snd now - snd prev) div 1000 + 1000" by simp
    then show ?thesis using True assms unfolding e by (simp add: my_timer_sub_def Let_def)
  next
    case False
    then show ?thesis unfolding e by (simp add: my_timer_sub_def Let_def)
  qed
qed

text \<open>A step as seen by one timer: what it becomes (\<open>None\<close> when removed) and whether it is called back.\<close>

definition timer_tick1 :: "(nat \<Rightarrow> bool) \<Rightarrow> int \<Rightarrow> st_timer \<Rightarrow> (st_timer \<times> bool) option" where
  "timer_tick1 cb elapsed t =
     (if tm_sign_as_deleted t then None
      else (let r = (if tm_remaining t = 0 then 0 else max 0 (tm_remaining t - elapsed)) in
            Some (if r = 0
                  then (if cb (tm_addr t) then (t\<lparr>tm_remaining := 0, tm_sign_as_deleted := True\<rparr>, True)
                        else (t\<lparr>tm_remaining := tm_milliseconds t\<rparr>, True))
                  else (t\<lparr>tm_remaining := r\<rparr>, False))))"

lemma step_one:
  assumes "\<not> timer_stop_sign s"
  shows "timer_step cb prev now s =
     (let rs = List.map_filter (timer_tick1 cb (my_timer_sub now prev)) (timer_list s) in
      (s\<lparr>timer_list := map fst rs\<rparr>, map (tm_addr \<circ> fst) (filter snd rs), 0))"
proof -
  let ?e = "my_timer_sub now prev"
  have "fire_loop cb (sync_loop False ?e l) =
      (map fst (List.map_filter (timer_tick1 cb ?e) l), map (tm_addr \<circ> fst) (filter snd (List.map_filter (timer_tick1 cb ?e) l)))" for l
    by (induction l) (auto simp: timer_tick1_def Let_def max_def split: prod.splits)
  then show ?thesis
    using assms by (simp add: timer_step_def timer_synchronize_def Let_def)
qed

lemma tick1_addr: "timer_tick1 cb e t = Some (t', f) \<Longrightarrow> tm_addr t' = tm_addr t"
  by (auto simp: timer_tick1_def Let_def split: if_splits)

lemma tick1_live:
  assumes "\<not> tm_sign_as_deleted t" and "0 < tm_remaining t"
  obtains t' f where "timer_tick1 cb e t = Some (t', f)" and "f \<longleftrightarrow> tm_remaining t \<le> e"
    and "\<not> f \<Longrightarrow> t' = t\<lparr>tm_remaining := tm_remaining t - e\<rparr>"
proof (cases "tm_remaining t \<le> e")
  case True
  then have "max 0 (tm_remaining t - e) = 0" by simp
  then show ?thesis using assms True that by (cases "cb (tm_addr t)") (simp_all add: timer_tick1_def Let_def)
next
  case False
  then have "max 0 (tm_remaining t - e) = tm_remaining t - e" by simp
  then show ?thesis using assms False that by (simp add: timer_tick1_def Let_def)
qed

lemma map_filter_set: "y \<in> set (List.map_filter f l) \<longleftrightarrow> (\<exists>x\<in>set l. f x = Some y)"
  by (induction l) (auto split: option.splits)

lemma step_addrs:
  "distinct (map tm_addr l) \<Longrightarrow> distinct (map tm_addr (map fst (List.map_filter (timer_tick1 cb e) l)))"
proof (induction l)
  case (Cons t l)
  then show ?case
    by (auto simp: map_filter_set image_iff dest: tick1_addr split: option.splits)
      (metis tick1_addr)
qed simp

text \<open>How long a timer has been waiting when the ticks take the times \<open>es\<close>.\<close>

definition waits :: "int list \<Rightarrow> nat \<Rightarrow> int" where
  "waits es k = sum_list (take (Suc k) es)"

text \<open>With distinct addresses a step calls back the timers whose own tick says so.\<close>

lemma step_fired:
  assumes d: "distinct (map tm_addr l)" and t: "t \<in> set l" and some: "timer_tick1 cb e t = Some (t', f)"
  shows "tm_addr t \<in> set (map (tm_addr \<circ> fst) (filter snd (List.map_filter (timer_tick1 cb e) l))) \<longleftrightarrow> f"
proof
  assume f
  then show "tm_addr t \<in> set (map (tm_addr \<circ> fst) (filter snd (List.map_filter (timer_tick1 cb e) l)))"
    using t some tick1_addr [OF some] by (auto simp: map_filter_set image_iff intro!: exI [of _ t'])
next
  assume "tm_addr t \<in> set (map (tm_addr \<circ> fst) (filter snd (List.map_filter (timer_tick1 cb e) l)))"
  then obtain x where x: "x \<in> set (List.map_filter (timer_tick1 cb e) l)" "snd x" "tm_addr (fst x) = tm_addr t" by auto
  then obtain u where u: "u \<in> set l" "timer_tick1 cb e u = Some x" by (auto simp: map_filter_set)
  then have "tm_addr u = tm_addr t" using x(3) by (cases x) (auto dest: tick1_addr)
  then have "u = t" using d t u(1) by (auto simp: distinct_map dest: inj_onD)
  then show f using u(2) some x(2) by auto
qed

lemma clock_first_fire:
  assumes "distinct (map tm_addr (timer_list s))" and "\<not> timer_stop_sign s" and "t \<in> set (timer_list s)"
    and "\<not> tm_sign_as_deleted t" and "0 < tm_remaining t" and "k < length ticks"
    and "\<forall>j<k. waits (map (\<lambda>(prev, now). my_timer_sub now prev) ticks) j < tm_remaining t"
  shows "tm_addr t \<in> set (snd (timer_clock_proc cb ticks s) ! k) \<longleftrightarrow>
         tm_remaining t \<le> waits (map (\<lambda>(prev, now). my_timer_sub now prev) ticks) k"
  using assms
proof (induction ticks arbitrary: s t k)
  case (Cons pn ticks)
  obtain prev now where pn: "pn = (prev, now)" by (cases pn)
  define e where "e = my_timer_sub now prev"
  define rs where "rs = List.map_filter (timer_tick1 cb e) (timer_list s)"
  let ?s = "s\<lparr>timer_list := map fst rs\<rparr>"
  have run: "snd (timer_clock_proc cb (pn # ticks) s) =
      map (tm_addr \<circ> fst) (filter snd rs) # snd (timer_clock_proc cb ticks ?s)"
    using step_one [OF Cons.prems(2), of cb prev now]
    by (simp add: pn rs_def e_def Let_def split: prod.splits)
  obtain t' f where t': "timer_tick1 cb e t = Some (t', f)" and f: "f \<longleftrightarrow> tm_remaining t \<le> e"
    and keep: "\<not> f \<Longrightarrow> t' = t\<lparr>tm_remaining := tm_remaining t - e\<rparr>"
    using tick1_live [OF Cons.prems(4,5)] by blast
  show ?case
  proof (cases k)
    case 0
    then show ?thesis
      using step_fired [OF Cons.prems(1,3) t'] f unfolding run by (simp add: rs_def waits_def pn e_def)
  next
    case (Suc k')
    have "e < tm_remaining t" using Cons.prems(7) Suc by (auto simp: waits_def pn e_def dest!: spec [of _ 0])
    then have t'_eq: "t' = t\<lparr>tm_remaining := tm_remaining t - e\<rparr>" and pos: "0 < tm_remaining t'"
      using f keep by auto
    have mem: "t' \<in> set (timer_list ?s)" using Cons.prems(3) t' by (force simp: rs_def map_filter_set)
    have before: "\<forall>j<k'. waits (map (\<lambda>(prev, now). my_timer_sub now prev) ticks) j < tm_remaining t'"
    proof (intro allI impI)
      fix j assume "j < k'"
      then show "waits (map (\<lambda>(prev, now). my_timer_sub now prev) ticks) j < tm_remaining t'"
        using Cons.prems(7) Suc by (auto simp: waits_def pn e_def t'_eq dest!: spec [of _ "Suc j"])
    qed
    have "distinct (map tm_addr (timer_list ?s))"
      using step_addrs [OF Cons.prems(1)] by (simp add: rs_def del: map_map)
    then have "tm_addr t' \<in> set (snd (timer_clock_proc cb ticks ?s) ! k') \<longleftrightarrow>
        tm_remaining t' \<le> waits (map (\<lambda>(prev, now). my_timer_sub now prev) ticks) k'"
      using Cons.IH [of ?s t' k'] Cons.prems mem pos before Suc t'_eq by simp
    then show ?thesis unfolding run by (simp add: Suc waits_def pn e_def t'_eq algebra_simps)
  qed
qed simp

section \<open>A created timer fires on time\<close>

text \<open>
  C18. A timer registered with a positive interval while the clock thread runs is first called
  back in the tick in which the milliseconds measured since its registration reach the
  interval: in any tick k before which they had not, it is called if and only if they have
  by that tick. This holds whatever other timers are registered, fire or abort themselves.
\<close>

theorem timer_fires_on_time:
  assumes "distinct (map tm_addr (timer_list s))" and "addr \<notin> tm_addr ` set (timer_list s)" and "\<not> timer_stop_sign s"
    and "0 < milliseconds" and "k < length ticks"
    and "\<forall>j<k. waits (map (\<lambda>(prev, now). my_timer_sub now prev) ticks) j < milliseconds"
  shows "addr \<in> set (snd (timer_clock_proc cb ticks (timer_create addr milliseconds auto s)) ! k) \<longleftrightarrow>
         milliseconds \<le> waits (map (\<lambda>(prev, now). my_timer_sub now prev) ticks) k"
  using clock_first_fire [of "timer_create addr milliseconds auto s"
      "\<lparr>tm_addr = addr, tm_milliseconds = milliseconds, tm_remaining = milliseconds, tm_auto_delete = auto,
        tm_sign_as_deleted = False\<rparr>" k ticks cb] assms
  by (simp add: timer_create_def image_iff)

theorem timer_fires_on_time_witness:
  "7 \<in> set (snd (timer_clock_proc (\<lambda>_. False) [((0, 0), (0, 40000)), ((0, 40000), (0, 95000)), ((0, 95000), (1, 5000))]
      (timer_create 7 100 False (timer_init 50 \<lparr>timer_list = [], timer_list_inited = False, timer_stop_sign = False, timer_tickfps = 0\<rparr>))) ! 2)"
proof -
  let ?ts = "[((0, 0), (0, 40000)), ((0, 40000), (0, 95000)), ((0, 95000), (1, 5000))] :: ((int \<times> int) \<times> (int \<times> int)) list"
  have m: "map (\<lambda>(prev, now). my_timer_sub now prev) ?ts = [40, 55, 910]"
    by (simp add: my_timer_sub_def c_div_def)
  have "\<forall>j<2. waits [40, 55, 910] j < 100"
    by (auto simp: waits_def less_Suc_eq numeral_2_eq_2)
  then show ?thesis
    using timer_fires_on_time [of "timer_init 50 \<lparr>timer_list = [], timer_list_inited = False, timer_stop_sign = False, timer_tickfps = 0\<rparr>" 7 100 2 ?ts "\<lambda>_. False" False]
    by (simp only: m) (simp add: timer_init_def waits_def numeral_3_eq_3)
qed

end
