(* ===== verification/Service_Api.thy ===== *)
theory Service_Api
  imports Service_Login Timer
begin

text \<open>
  Starting and stopping the service, \<open>service/service_api.c\<close>: which modules are initialised
  and in which order, and the table of handlers. The RPC engine below is not part of this state:
  \<open>rpc_service_start\<close> is known by the code it returns.
\<close>

record service_sys =
  sy_service :: service
  sy_dispatch :: dispatch_state
  sy_timers :: timer_state
  sy_session_timer :: "nat option"
  service_started :: bool

text \<open>\<open>online_session_init\<close> also creates the timer of the heartbeat sweep, every 30 seconds.\<close>

definition sessions_start :: "nat \<Rightarrow> service_sys \<Rightarrow> service_sys" where
  "sessions_start addr sy =
     (let s = sv_sessions (sy_service sy) in
      if session_list_inited s then sy
      else sy\<lparr>sy_service := (sy_service sy)\<lparr>sv_sessions := online_session_init s\<rparr>,
              sy_timers := timer_create addr (30 * 1000) False (sy_timers sy),
              sy_session_timer := Some addr\<rparr>)"

definition service_bootstrap :: "sql_engine \<Rightarrow> (req_handler \<Rightarrow> nat) \<Rightarrow> nat \<Rightarrow> service_sys \<Rightarrow> service_sys" where
  "service_bootstrap engine ptr addr sy =
     (let sy = sy\<lparr>sy_timers := timer_init 100 (sy_timers sy)\<rparr>;
          sy = sessions_start addr sy;
          sy = sy\<lparr>sy_service := (sy_service sy)\<lparr>sv_devices := session_device_init (sv_devices (sy_service sy))\<rparr>\<rparr>;
          sy = sy\<lparr>sy_dispatch := register_all_reqeust_handler ptr (sy_dispatch sy)\<rparr>
      in sy\<lparr>sy_service := (sy_service sy)\<lparr>sv_db := db_account_ensure_table_exist engine (sv_db (sy_service sy))\<rparr>\<rparr>)"

text \<open>
  \<open>service_clean\<close>: \<open>None\<close> while it waits for a session or a device that is still referred
  to. The two times are the last readings of the timer thread's clock.
\<close>

definition service_clean :: "int \<times> int \<Rightarrow> int \<times> int \<Rightarrow> service_sys \<Rightarrow> service_sys option" where
  "service_clean prev now sy =
     (let s = sv_sessions (sy_service sy);
          tms = (if session_list_inited s then fst (timer_del (sy_session_timer sy) (sy_timers sy)) else sy_timers sy);
          s' = online_session_destroy s
      in if session_list_inited s \<and> list_ex (\<lambda>e. \<not> entry_free e) (session_list s) then None
         else map_option (\<lambda>d. sy\<lparr>sy_service := (sy_service sy)\<lparr>sv_sessions := s', sv_devices := d\<rparr>, sy_timers := timer_destroy prev now tms\<rparr>)
                (session_device_destroy (sv_devices (sy_service sy))))"

definition service_start_async :: "sql_engine \<Rightarrow> (req_handler \<Rightarrow> nat) \<Rightarrow> nat \<Rightarrow> int \<Rightarrow> service_sys \<Rightarrow> service_sys \<times> int" where
  "service_start_async engine ptr addr start_r sy =
     (if \<not> service_started sy
      then (if start_r = 0 then (service_bootstrap engine ptr addr sy)\<lparr>service_started := True\<rparr> else sy, start_r)
      else (sy, 0))"

definition service_stop :: "int \<times> int \<Rightarrow> int \<times> int \<Rightarrow> service_sys \<Rightarrow> (service_sys \<times> int) option" where
  "service_stop prev now sy =
     (if service_started sy
      then map_option (\<lambda>sy. (sy\<lparr>service_started := False\<rparr>, 0)) (service_clean prev now sy)
      else Some (sy, 0))"

section \<open>Properties\<close>

context sqlite_engine
begin

lemma db_run_plain: "list_all plain_stmt sts \<Longrightarrow> db_run engine sts db = db_run sql_sem sts db"
  by (induction sts arbitrary: db) (simp_all add: db_run_def exec_plain)

end

lemma ensure_ready:
  assumes "db_open db" shows "db_ready (db_account_ensure_table_exist sql_sem db)"
    and "t_account_basic db = Some us \<Longrightarrow> users (db_account_ensure_table_exist sql_sem db) = us"
  using assms
  by (auto simp: db_account_ensure_table_exist_def db_run_def exec_sem insert_row_def db_ready_def users_def)

lemma dispatch_registered:
  "dispatch_list s = [] \<Longrightarrow>
   dispatch_list (register_all_reqeust_handler ptr s) =
     map (\<lambda>(c, sc, h). \<lparr>d_cb = ptr h, d_opaque = 0, d_category = c, d_sub_category = sc\<rparr>) request_handlers"
  by (simp add: register_all_reqeust_handler_def request_handlers_def rpc_dispatch_add_cb_def)

text \<open>
  A first successful start leaves the service ready: every request of the protocol that
  has a handler is dispatched to it and no other, all tables exist and the accounts already stored are
  kept, nobody is logged in and no device works, and the sweep of sessions is scheduled in 30 seconds.
\<close>

theorem service_start_ready:
  assumes "sqlite_engine engine" and "db_open (sv_db (sy_service sy))" and "t_account_basic (sv_db (sy_service sy)) = Some us"
    and "\<not> service_started sy" and "dispatch_list (sy_dispatch sy) = []" and "\<not> session_list_inited (sv_sessions (sy_service sy))"
    and "\<not> device_list_inited (sv_devices (sy_service sy))" and "\<not> timer_list_inited (sy_timers sy)"
    and "service_start_async engine ptr addr 0 sy = (sy', r)"
  shows "r = 0 \<and> service_started sy' \<and>
    (\<forall>c sc. map_option d_cb (dispatch_lookup c sc (dispatch_list (sy_dispatch sy'))) =
            map_option ptr (map_of (map (\<lambda>(c, sc, h). ((c, sc), h)) request_handlers) (c, sc))) \<and>
    db_ready (sv_db (sy_service sy')) \<and> users (sv_db (sy_service sy')) = us \<and>
    session_list (sv_sessions (sy_service sy')) = [] \<and> device_list (sv_devices (sy_service sy')) = [] \<and>
    map (\<lambda>t. (tm_addr t, tm_remaining t)) (timer_list (sy_timers sy')) = [(addr, 30000)]"
proof -
  have "list_all plain_stmt [DropTable TLicense, CreateTable TLicense,
        InsertLicense 0 ''this license is now must be checking by service root.'',
        InsertLicense 1 ''this license have expired time limited.'',
        InsertLicense 2 ''this license is for ever for use'',
        CreateTable TBasic, CreateTable TAdmin, CreateTable TChild, CreateTable TPermission, CreateTable TDevice, CreateTable TAccountDevice]"
    by (simp add: plain_stmt_def)
  then have "db_account_ensure_table_exist engine db = db_account_ensure_table_exist sql_sem db" for db
    unfolding db_account_ensure_table_exist_def by (rule sqlite_engine.db_run_plain [OF assms(1)])
  then have db: "db_ready (db_account_ensure_table_exist engine (sv_db (sy_service sy)))"
      "users (db_account_ensure_table_exist engine (sv_db (sy_service sy))) = us"
    using ensure_ready [OF assms(2)] assms(3) by simp_all
  have "map_option d_cb (dispatch_lookup c sc (map (\<lambda>(c, sc, h). \<lparr>d_cb = ptr h, d_opaque = 0, d_category = c, d_sub_category = sc\<rparr>) hs)) =
      map_option ptr (map_of (map (\<lambda>(c, sc, h). ((c, sc), h)) hs) (c, sc))" for c sc hs
    by (induction hs) auto
  then show ?thesis
    using assms(4-9) db dispatch_registered [OF assms(5), of ptr]
    by (auto simp: service_start_async_def service_bootstrap_def sessions_start_def online_session_init_def session_device_init_def
        timer_init_def timer_create_def Let_def)
qed

definition cold_sys :: service_sys where
  "cold_sys = \<lparr>
     sy_service = \<lparr>sv_sessions = \<lparr>session_list = [], session_list_inited = False, session_stop_sign = False, session_releasing = []\<rparr>,
        sv_devices = \<lparr>device_list = [], device_list_inited = False\<rparr>, sv_db = demo_db\<rparr>,
     sy_dispatch = \<lparr>dispatch_list = [], dispatch_list_inited = True\<rparr>,
     sy_timers = \<lparr>timer_list = [], timer_list_inited = False, timer_stop_sign = False, timer_tickfps = 0\<rparr>,
     sy_session_timer = None, service_started = False\<rparr>"

theorem service_start_ready_witness:
  "\<exists>sy' r. service_start_async sql_sem (\<lambda>h. if h = PlayStop then 7 else 8) 3 0 cold_sys = (sy', r) \<and>
     map_option d_cb (dispatch_lookup 5 1 (dispatch_list (sy_dispatch sy'))) = Some 7 \<and> dispatch_lookup 3 1 (dispatch_list (sy_dispatch sy')) = None \<and>
     users (sv_db (sy_service sy')) = [demo_user ''boss'', demo_user ''kid'']"
proof -
  obtain sy' r where st: "service_start_async sql_sem (\<lambda>h. if h = PlayStop then 7 else 8) 3 0 cold_sys = (sy', r)" by fastforce
  have "map_option d_cb (dispatch_lookup c sc (dispatch_list (sy_dispatch sy'))) =
      map_option (\<lambda>h. if h = PlayStop then 7 else 8) (map_of (map (\<lambda>(c, sc, h). ((c, sc), h)) request_handlers) (c, sc))"
    "users (sv_db (sy_service sy')) = [demo_user ''boss'', demo_user ''kid'']" for c sc
    using service_start_ready [OF sem.sqlite_engine_axioms _ _ _ _ _ _ _ st, of "[demo_user ''boss'', demo_user ''kid'']"]
    by (simp_all add: cold_sys_def demo_db_def)
  from this(1) [of 5 1] this(1) [of 3 1] this(2) show ?thesis using st by (simp add: request_handlers_def)
qed

text \<open>The reference a play request leaves also keeps the service from stopping.\<close>

lemma play_blocks_stop:
  assumes "addrs_ok (sy_service sy)" and "is_play h" and "req_get req ''uuid'' \<noteq> None" and "session_for fd (sy_service sy) = Some e"
    and "0 \<le> refcount (se_ref e)" and "handle h env fd req (sy_service sy) = Inr (sv', out)"
    and "service_started sy" and "session_list_inited (sv_sessions sv')"
  shows "service_stop prev now (sy\<lparr>sy_service := sv'\<rparr>) = None"
proof -
  have "list_ex (\<lambda>e. \<not> entry_free e) (session_list (sv_sessions sv'))"
    using play_holds [OF assms(1-6)] by (auto simp: list_ex_iff entry_free_def)
  then show ?thesis using assms(7,8) by (simp add: service_stop_def service_clean_def)
qed

end
