(* ===== verification/Rpc_Engine.thy ===== *)
theory Rpc_Engine
  imports Rpc_Request
begin

text \<open>
  The two engines over the connection layer: the service's, \<open>rpcprovider/rpc_service.c\<close>, driven
  by the callbacks of libuv, and the client's, \<open>rpcprovider/rpc_client.c\<close>, a thread that
  receives from one socket; the allocator switch \<open>rpc_alloctor.c\<close> and the socket
  loops of \<open>utils/sock.c\<close>. What libuv and the socket calls report are arguments of the
  operations. When libuv calls back is the step relation \<open>uv_step\<close>.
\<close>

section \<open>Allocator\<close>

text \<open>An allocator function is known by a number, \<open>None\<close> is a null pointer.\<close>

record rpc_alloctor =
  al_alloc :: "nat option"
  al_free :: "nat option"
  rpc_malloc_inited :: bool

definition internal_malloc :: nat where
  "internal_malloc = 0"

definition internal_free :: nat where
  "internal_free = 1"

definition rpc_buffer_allocator :: "nat option \<Rightarrow> nat option \<Rightarrow> rpc_alloctor \<Rightarrow> rpc_alloctor" where
  "rpc_buffer_allocator alloc free a = a\<lparr>al_alloc := alloc, al_free := free, rpc_malloc_inited := True\<rparr>"

definition rpc_alloctor_init :: "rpc_alloctor \<Rightarrow> rpc_alloctor" where
  "rpc_alloctor_init a =
     (if rpc_malloc_inited a then a
      else a\<lparr>al_alloc := (if al_alloc a = None then Some internal_malloc else al_alloc a),
             al_free := (if al_free a = None then Some internal_free else al_free a), rpc_malloc_inited := True\<rparr>)"

definition rpc_alloctor_destroy :: "rpc_alloctor \<Rightarrow> rpc_alloctor" where
  "rpc_alloctor_destroy a = (if rpc_malloc_inited a then a\<lparr>rpc_malloc_inited := False\<rparr> else a)"

section \<open>The engine of the service\<close>

datatype rpc_event_type = event_fd_accept | event_fd_close | event_fd_timeout

datatype uv_err = UV_EOF | UV_ETIMEDOUT | UV_ECANCELED | UV_EPIPE | UV_other

text \<open>A connection of libuv: read from, read from with a shutdown requested, closing.\<close>

datatype uv_state = Reading | Shutting | Closing

record rs_state =
  rs_env_inited :: bool
  rs_listening :: bool
  rs_event_cb :: bool
  rs_keepalive :: int
  rs_check_stop_sign :: bool
  rs_alloctor :: rpc_alloctor
  rs_io :: io_state
  rs_disp :: dispatch_state
  rs_streams :: "(int \<times> uv_state) list"       \<comment> \<open>by socket, in the order of acceptance\<close>
  rs_events :: "(rpc_event_type \<times> int) list"   \<comment> \<open>calls of the event callback\<close>
  rs_kept_alive :: "int list"                 \<comment> \<open>connections with keepalive set\<close>

definition notify_event :: "rpc_event_type \<Rightarrow> int \<Rightarrow> rs_state \<Rightarrow> rs_state" where
  "notify_event type fd s = (if rs_event_cb s then s\<lparr>rs_events := rs_events s @ [(type, fd)]\<rparr> else s)"

fun set_stream :: "int \<Rightarrow> uv_state \<Rightarrow> (int \<times> uv_state) list \<Rightarrow> (int \<times> uv_state) list" where
  "set_stream fd st [] = []"
| "set_stream fd st ((f, x) # rest) = (if f = fd then (f, st) # rest else (f, x) # set_stream fd st rest)"

text \<open>The request of a shutdown at \<open>ret_shuwdown\<close>; libuv refuses it for a connection that is already shutting down.\<close>

definition request_shutdown :: "int \<Rightarrow> rs_state \<Rightarrow> rs_state" where
  "request_shutdown fd s = (if map_of (rs_streams s) fd = Some Reading then s\<lparr>rs_streams := set_stream fd Shutting (rs_streams s)\<rparr> else s)"

definition connection_cb :: "int \<Rightarrow> int \<Rightarrow> nat \<Rightarrow> rs_state \<Rightarrow> rs_state" where
  "connection_cb status fd stream s =
     (if status \<noteq> 0 then s
      else let s = s\<lparr>rs_io := fst (rpc_io_add fd stream (rs_io s))\<rparr>;
               s = (if rs_keepalive s > 0 then s\<lparr>rs_kept_alive := rs_kept_alive s @ [fd]\<rparr> else s);
               s = notify_event event_fd_accept fd s
           in s\<lparr>rs_streams := rs_streams s @ [(fd, Reading)]\<rparr>)"

text \<open>\<open>alloc_cb\<close> lends one static buffer of 65536 bytes to all connections.\<close>

definition alloc_cb :: nat where
  "alloc_cb = 65536"

text \<open>\<open>read_cb\<close>: data (\<open>nread >= 0\<close>) or the last error of the loop.\<close>

definition read_cb :: "nat \<Rightarrow> crypt_env \<Rightarrow> int \<Rightarrow> uv_err + byte list \<Rightarrow> rs_state \<Rightarrow> rs_state res option" where
  "read_cb fuel env fd got s =
     (case got of
        Inr buf \<Rightarrow>
          (case rpc_io_enqueue fuel env fd buf (rs_io s) of
             None \<Rightarrow> None
           | Some (Inl e) \<Rightarrow> Some (Inl e)
           | Some (Inr (io, ret)) \<Rightarrow>
               Some (Inr (if ret = -1 then request_shutdown fd (s\<lparr>rs_io := io\<rparr>) else s\<lparr>rs_io := io\<rparr>)))
      | Inl err \<Rightarrow>
          Some (Inr (request_shutdown fd (notify_event (if err = UV_ETIMEDOUT then event_fd_timeout else event_fd_close) fd s))))"

definition shutdown_cb :: "int \<Rightarrow> rs_state \<Rightarrow> rs_state" where
  "shutdown_cb fd s = s\<lparr>rs_io := rpc_io_del fd (rs_io s), rs_streams := set_stream fd Closing (rs_streams s)\<rparr>"

definition close_cb :: "int \<Rightarrow> rs_state \<Rightarrow> rs_state" where
  "close_cb fd s = s\<lparr>rs_streams := filter (\<lambda>x. fst x \<noteq> fd) (rs_streams s)\<rparr>"

text \<open>
  \<open>write_cb\<close> frees the request and then, after an error other than a cancellation, reads
  the handle out of it.
\<close>

definition write_cb :: "int \<Rightarrow> uv_err \<Rightarrow> rs_state \<Rightarrow> rs_state res" where
  "write_cb status err s = (if status = 0 \<or> err = UV_ECANCELED then Inr s else Inl UseAfterFree)"

definition rpc_ensure_uv_loop_inited :: "rs_state \<Rightarrow> rs_state" where
  "rpc_ensure_uv_loop_inited s = (if rs_env_inited s then s else s\<lparr>rs_env_inited := True\<rparr>)"

text \<open>The end of the thread that runs the loop.\<close>

definition rpc_core_uvloop_env :: "rs_state \<Rightarrow> rs_state" where
  "rpc_core_uvloop_env s = s\<lparr>rs_env_inited := False\<rparr>"

definition appInfo :: string where
  "appInfo = ''rpc network interaction engine, powered by livezure.com.''"

definition rpc_service_start :: "int \<Rightarrow> int \<Rightarrow> int \<Rightarrow> rs_state \<Rightarrow> rs_state \<times> int" where
  "rpc_service_start bind_r listen_r keepalive s =
     (if length appInfo \<noteq> 56 then (s, -1)
      else let s = rpc_ensure_uv_loop_inited s;
               s = s\<lparr>rs_alloctor := rpc_alloctor_init (rs_alloctor s)\<rparr>;
               s = s\<lparr>rs_io := rpc_io_init (rs_io s)\<rparr>;
               s = s\<lparr>rs_disp := rpc_dispatch_init (rs_disp s), rs_check_stop_sign := False\<rparr>
           in if bind_r < 0 then (s, -2)
              else if listen_r < 0 then (s, -3)
              else (s\<lparr>rs_listening := True\<rparr>, 0))"

definition rpc_service_event :: "bool \<Rightarrow> rs_state \<Rightarrow> rs_state" where
  "rpc_service_event event_cb s = s\<lparr>rs_event_cb := event_cb\<rparr>"

definition rpc_service_register :: "int \<Rightarrow> int \<Rightarrow> nat \<Rightarrow> nat \<Rightarrow> rs_state \<Rightarrow> rs_state" where
  "rpc_service_register category sub_category rpc_cb opaque s =
     (let s = s\<lparr>rs_alloctor := rpc_alloctor_init (rs_alloctor s)\<rparr>
      in s\<lparr>rs_disp := rpc_dispatch_add_cb category sub_category rpc_cb opaque (rs_disp s)\<rparr>)"

definition rpc_service_stop :: "rs_state \<Rightarrow> rs_state res" where
  "rpc_service_stop s =
     (if rs_check_stop_sign s then Inr s
      else let s = s\<lparr>rs_check_stop_sign := True, rs_listening := False, rs_disp := rpc_dispatch_destroy (rs_disp s)\<rparr> in
        bindR (rpc_io_destroy (rs_io s)) (\<lambda>io.
        Inr (s\<lparr>rs_io := io, rs_alloctor := rpc_alloctor_destroy (rs_alloctor s), rs_check_stop_sign := False\<rparr>)))"

section \<open>The engine of the client\<close>

text \<open>\<open>rc_list_ready\<close>: the list of connections has been set up once; before that its links are null.\<close>

record rc_state =
  rc_stop_sign :: bool
  rc_fd :: int
  rc_keepalive :: "int option"                \<comment> \<open>set on the socket\<close>
  rc_disconn_cb :: bool
  rc_disconn_calls :: nat
  rc_alloctor :: rpc_alloctor
  rc_list_ready :: bool
  rc_io :: io_state
  rc_disp :: dispatch_state

definition rpc_client_event :: "bool \<Rightarrow> rc_state \<Rightarrow> rc_state" where
  "rpc_client_event discon_cb s = s\<lparr>rc_disconn_cb := discon_cb\<rparr>"

definition rpc_client_register :: "int \<Rightarrow> int \<Rightarrow> nat \<Rightarrow> nat \<Rightarrow> rc_state \<Rightarrow> rc_state" where
  "rpc_client_register category sub_category rpc_cb opaque s =
     s\<lparr>rc_alloctor := rpc_alloctor_init (rc_alloctor s), rc_disp := rpc_dispatch_add_cb category sub_category rpc_cb opaque (rc_disp s)\<rparr>"

text \<open>\<open>fd\<close> is the new socket, \<open>ret\<close> the result of \<open>connect\<close>.\<close>

definition rpc_client_start :: "int \<Rightarrow> int \<Rightarrow> int \<Rightarrow> rc_state \<Rightarrow> rc_state \<times> int" where
  "rpc_client_start fd ret keepalive s =
     (let s = s\<lparr>rc_alloctor := rpc_alloctor_init (rc_alloctor s), rc_stop_sign := False, rc_fd := fd, rc_keepalive := None\<rparr> in
      if ret \<noteq> 0 then (s, -1)
      else let s = s\<lparr>rc_io := rpc_io_init (rc_io s), rc_list_ready := True\<rparr>;
               s = s\<lparr>rc_disp := rpc_dispatch_init (rc_disp s)\<rparr>
           in (s\<lparr>rc_io := fst (rpc_io_add fd 0 (rc_io s)), rc_keepalive := (if keepalive > 0 then Some keepalive else None)\<rparr>, 0))"

text \<open>
  The receive thread over the data \<open>recv\<close> returns call by call; the list ends when it
  reports an error or the end of the connection, or the stop sign is set.
\<close>

fun client_recv_loop :: "nat \<Rightarrow> crypt_env \<Rightarrow> byte list list \<Rightarrow> rc_state \<Rightarrow> rc_state res option" where
  "client_recv_loop fuel env [] s = Some (Inr s)"
| "client_recv_loop fuel env (line # lines) s =
     (case rpc_io_enqueue fuel env (rc_fd s) line (rc_io s) of
        None \<Rightarrow> None
      | Some (Inl e) \<Rightarrow> Some (Inl e)
      | Some (Inr (io, process_ret)) \<Rightarrow>
          if process_ret = -1 then Some (Inr (s\<lparr>rc_io := rpc_io_del (rc_fd s) io\<rparr>))
          else client_recv_loop fuel env lines (s\<lparr>rc_io := io\<rparr>))"

definition rpc_client_routine :: "nat \<Rightarrow> crypt_env \<Rightarrow> byte list list \<Rightarrow> rc_state \<Rightarrow> rc_state res option" where
  "rpc_client_routine fuel env lines s =
     (case client_recv_loop fuel env lines s of
        Some (Inr s) \<Rightarrow> Some (Inr (if rc_disconn_cb s then s\<lparr>rc_disconn_calls := rc_disconn_calls s + 1\<rparr> else s))
      | r \<Rightarrow> r)"

text \<open>\<open>rpc_io_stop\<close> walks the list of connections.\<close>

definition rpc_client_stop :: "rc_state \<Rightarrow> rc_state res" where
  "rpc_client_stop s =
     (if rc_stop_sign s then Inr s
      else let s = s\<lparr>rc_stop_sign := True\<rparr> in
        if \<not> rc_list_ready s then Inl NullDeref
        else bindR (rpc_io_destroy (rpc_io_stop (rc_fd s) (rc_io s))) (\<lambda>io.
          Inr (s\<lparr>rc_io := io, rc_disp := rpc_dispatch_destroy (rc_disp s), rc_alloctor := rpc_alloctor_destroy (rc_alloctor s)\<rparr>)))"

section \<open>Sending and receiving on a socket\<close>

text \<open>
  \<open>send k n\<close> is what the \<open>k\<close>-th call of \<open>send\<close> returns when asked to send \<open>n\<close> bytes; the
  loop collects the counts.
\<close>

fun socket_send_loop :: "nat \<Rightarrow> (nat \<Rightarrow> int \<Rightarrow> int) \<Rightarrow> nat \<Rightarrow> int \<Rightarrow> int \<Rightarrow> int option" where
  "socket_send_loop 0 send k sended len = None"
| "socket_send_loop (Suc fuel) send k sended len =
     (if sended < len then
        (let tmpsend = send k (len - sended) in
         if tmpsend \<le> 0 then Some sended else socket_send_loop fuel send (Suc k) (sended + tmpsend) len)
      else Some sended)"

definition socket_send :: "nat \<Rightarrow> (nat \<Rightarrow> int \<Rightarrow> int) \<Rightarrow> int \<Rightarrow> int option" where
  "socket_send fuel send len = socket_send_loop fuel send 0 0 len"

text \<open>
  \<open>recv k\<close> is the data of the \<open>k\<close>-th call, at most 4096 bytes, \<open>None\<close> an error; the
  data are written behind each other into an object of \<open>maxsize\<close> bytes.
\<close>

fun socket_recv_loop :: "nat \<Rightarrow> (nat \<Rightarrow> byte list option) \<Rightarrow> nat \<Rightarrow> nat \<Rightarrow> nat \<Rightarrow> nat res option" where
  "socket_recv_loop 0 recv k recved maxsize = None"
| "socket_recv_loop (Suc fuel) recv k recved maxsize =
     (if recved = maxsize then Some (Inr recved)
      else case recv k of
        None \<Rightarrow> Some (Inr recved)
      | Some d \<Rightarrow>
          if maxsize < recved + length d then Some (Inl OutOfBounds)
          else socket_recv_loop fuel recv (Suc k) (recved + length d) maxsize)"

definition socket_recv :: "nat \<Rightarrow> (nat \<Rightarrow> byte list option) \<Rightarrow> nat \<Rightarrow> nat res option" where
  "socket_recv fuel recv maxsize = socket_recv_loop fuel recv 0 0 maxsize"

section \<open>Steps\<close>

text \<open>
  When the engine moves: libuv accepts a connection under a socket that is not open, reports data
  or an error for one it reads from, completes a shutdown, frees a closed connection; a
  worker finishes a task, the send thread a round, the service pushes a message.
\<close>

inductive uv_step :: "rs_state \<Rightarrow> rs_state \<Rightarrow> bool" where
  accept: "rs_listening s \<Longrightarrow> fd \<notin> fst ` set (rs_streams s) \<Longrightarrow> uv_step s (connection_cb status fd stream s)"
| read: "map_of (rs_streams s) fd \<in> {Some Reading, Some Shutting} \<Longrightarrow> read_cb fuel env fd got s = Some (Inr s') \<Longrightarrow> uv_step s s'"
| shut: "map_of (rs_streams s) fd = Some Shutting \<Longrightarrow> uv_step s (shutdown_cb fd s)"
| closed: "map_of (rs_streams s) fd = Some Closing \<Longrightarrow> uv_step s (close_cb fd s)"
| written: "write_cb status err s = Inr s' \<Longrightarrow> uv_step s s'"
| worker: "rpc_io_processor fuel env call disp task (rs_io s) = Some (Inr io) \<Longrightarrow> uv_step s (s\<lparr>rs_io := io\<rparr>)"
| sender: "io_routine_round (rs_io s) = Inr (io, sent) \<Longrightarrow> uv_step s (s\<lparr>rs_io := io\<rparr>)"
| push: "rpc_service_push env fd type c sc enc inp (rs_io s) = Inr (io, cnt) \<Longrightarrow> uv_step s (s\<lparr>rs_io := io\<rparr>)"

inductive_cases uv_stepE: "uv_step s s'"

text \<open>The connections the service knows are the streams of libuv that are not closing, in the same order.\<close>

definition live :: "(int \<times> uv_state) list \<Rightarrow> int list" where
  "live streams = map fst (filter (\<lambda>x. snd x \<noteq> Closing) streams)"

definition engine_ok :: "rs_state \<Rightarrow> bool" where
  "engine_ok s \<longleftrightarrow> distinct (map fst (rs_streams s)) \<and> map io_fd (io_list (rs_io s)) = live (rs_streams s)"


section \<open>Lemmas\<close>

lemma set_stream_fds [simp]: "map fst (set_stream fd st l) = map fst l"
  by (induction l) auto

lemma live_set_same: "map_of l fd = Some x \<Longrightarrow> (x = Closing) = (st = Closing) \<Longrightarrow> live (set_stream fd st l) = live l"
  by (induction l) (auto simp: live_def split: if_splits)

lemma live_set_closing: "distinct (map fst l) \<Longrightarrow> map_of l fd = Some x \<Longrightarrow> x \<noteq> Closing \<Longrightarrow> live (set_stream fd Closing l) = remove1 fd (live l)"
  by (induction l) (auto simp: live_def split: if_splits)

lemma live_freed: "distinct (map fst l) \<Longrightarrow> map_of l fd = Some Closing \<Longrightarrow> live (filter (\<lambda>x. fst x \<noteq> fd) l) = live l"
proof -
  assume "distinct (map fst l)" "map_of l fd = Some Closing"
  then have "snd x = Closing" if "x \<in> set l" "fst x = fd" for x
    using that by (metis map_of_eq_Some_iff option.inject prod.collapse)
  then show ?thesis unfolding live_def by (auto intro!: arg_cong [of _ _ "map fst"] filter_cong simp: conj_commute)
qed

lemma enqueue_fds: "rpc_io_enqueue fuel env fd inbuf s = Some (Inr (s', r)) \<Longrightarrow> map io_fd (io_list s') = map io_fd (io_list s)"
  by (auto simp: rpc_io_enqueue_def split: option.splits sum.splits)

lemma routine_fds: "io_routine_round s = Inr (s', sent) \<Longrightarrow> map io_fd (io_list s') = map io_fd (io_list s)"
  by (auto simp: io_routine_round_def bindR_eq_Inr split: option.splits prod.splits)

lemma push_fds: "rpc_service_push env fd ty c sc enc inp s = Inr (s', cnt) \<Longrightarrow> map io_fd (io_list s') = map io_fd (io_list s)"
  using notify_loop_fds by (fastforce simp: rpc_service_push_def rpc_io_nodify_fd_def bindR_eq_Inr split: option.splits)

lemma event_simps [simp]: "rs_streams (notify_event t fd s) = rs_streams s" "rs_io (notify_event t fd s) = rs_io s"
  by (simp_all add: notify_event_def)

lemma shutdown_ok: "engine_ok s \<Longrightarrow> engine_ok (request_shutdown fd s)"
  by (auto simp: request_shutdown_def engine_ok_def live_set_same)

lemma engine_ok_io: "map io_fd (io_list io) = map io_fd (io_list (rs_io s)) \<Longrightarrow> engine_ok (s\<lparr>rs_io := io\<rparr>) = engine_ok s"
  by (simp add: engine_ok_def)

lemma engine_ok_event [simp]: "engine_ok (notify_event t fd s) = engine_ok s"
  by (simp add: engine_ok_def)

lemma step_ok: "uv_step s s' \<Longrightarrow> engine_ok s \<Longrightarrow> engine_ok s'"
proof (induction rule: uv_step.induct)
  case (accept s fd status stream)
  then have "fd \<notin> set (live (rs_streams s))" by (auto simp: live_def)
  then have "fd \<notin> io_fd ` set (io_list (rs_io s))" using accept(3) by (metis engine_ok_def set_map)
  then have "rpc_io_find fd (rs_io s) = None" by (simp add: find_fd_None)
  then show ?case
    using accept by (auto simp: connection_cb_def engine_ok_def rpc_io_add_def io_new_def live_def Let_def)
next
  case (read s fd fuel env got s')
  then show ?case
    by (auto simp: read_cb_def engine_ok_io dest!: enqueue_fds split: sum.splits option.splits if_splits intro!: shutdown_ok)
next
  case (shut s fd)
  then show ?case by (simp add: shutdown_cb_def engine_ok_def rpc_io_del_def io_drop_fds live_set_closing)
next
  case (closed s fd)
  then show ?case by (simp add: close_cb_def engine_ok_def live_freed distinct_map_filter)
qed (auto simp: engine_ok_def write_cb_def dest: processor_fds routine_fds push_fds split: if_splits)

lemma step_keepalive: "uv_step s s' \<Longrightarrow> rs_keepalive s' = rs_keepalive s \<and> (rs_keepalive s \<le> 0 \<longrightarrow> rs_kept_alive s' = rs_kept_alive s)"
  by (induction rule: uv_step.induct)
     (auto simp: connection_cb_def read_cb_def shutdown_cb_def close_cb_def write_cb_def request_shutdown_def notify_event_def Let_def
       split: sum.splits option.splits if_splits)

lemma live_find: "engine_ok s \<Longrightarrow> rpc_io_find fd (rs_io s) \<noteq> None \<longleftrightarrow> map_of (rs_streams s) fd \<in> {Some Reading, Some Shutting}"
proof -
  assume ok: "engine_ok s"
  then have "rpc_io_find fd (rs_io s) \<noteq> None \<longleftrightarrow> fd \<in> set (live (rs_streams s))"
    unfolding find_fd_None engine_ok_def by (metis set_map)
  also have "\<dots> \<longleftrightarrow> (\<exists>st. (fd, st) \<in> set (rs_streams s) \<and> st \<noteq> Closing)" by (force simp: live_def)
  also have "\<dots> \<longleftrightarrow> (\<exists>st. map_of (rs_streams s) fd = Some st \<and> st \<noteq> Closing)"
    using ok by (simp add: engine_ok_def)
  also have "\<dots> \<longleftrightarrow> map_of (rs_streams s) fd \<in> {Some Reading, Some Shutting}"
    by (cases "map_of (rs_streams s) fd"; cases "the (map_of (rs_streams s) fd)") auto
  finally show ?thesis .
qed

section \<open>Properties\<close>

text \<open>
  C33. From the start of the engine on, whatever libuv, the workers, the send thread
  and pushes do: the connections of \<open>rpc_io\<close> are exactly the connections libuv has accepted
  and not begun to close, each once, so a read callback always finds its connection;
  and no accepted connection ever gets the keepalive the engine was started with.
\<close>

theorem engine_connections:
  assumes "rpc_service_start bind_r listen_r keepalive s0 = (s1, 0)" and "rs_streams s0 = []" and "\<not> io_inited (rs_io s0)"
    and "rs_keepalive s0 = 0" and "rs_kept_alive s0 = []" and "uv_step\<^sup>*\<^sup>* s1 s"
  shows "io_wf (rs_io s) \<and>
    (\<forall>fd. rpc_io_find fd (rs_io s) \<noteq> None \<longleftrightarrow> map_of (rs_streams s) fd \<in> {Some Reading, Some Shutting}) \<and> rs_kept_alive s = []"
proof -
  have "engine_ok s1 \<and> rs_keepalive s1 = 0 \<and> rs_kept_alive s1 = []"
    using assms(1-5)
    by (auto simp: rpc_service_start_def rpc_ensure_uv_loop_inited_def rpc_io_init_def engine_ok_def live_def Let_def split: if_splits)
  with assms(6) have "engine_ok s \<and> rs_keepalive s = 0 \<and> rs_kept_alive s = []"
    by (induction rule: rtranclp_induct) (use step_ok step_keepalive in force)+
  moreover have "io_wf (rs_io s)" if "engine_ok s"
    using that by (auto simp: engine_ok_def io_wf_def live_def intro: distinct_map_filter)
  ultimately show ?thesis using live_find by blast
qed

definition cold_engine :: rs_state where
  "cold_engine = \<lparr>rs_env_inited = False, rs_listening = False, rs_event_cb = True, rs_keepalive = 0, rs_check_stop_sign = False,
     rs_alloctor = \<lparr>al_alloc = None, al_free = None, rpc_malloc_inited = False\<rparr>,
     rs_io = \<lparr>io_list = [], io_inited = False, io_signal_queue = rpc_queue_new, io_abort = False, io_tasks = []\<rparr>,
     rs_disp = \<lparr>dispatch_list = [], dispatch_list_inited = False\<rparr>, rs_streams = [], rs_events = [], rs_kept_alive = []\<rparr>"

theorem engine_connections_witness:
  "rpc_io_find 7 (rs_io (connection_cb 0 7 3 (fst (rpc_service_start 0 0 60 cold_engine)))) \<noteq> None \<and>
   rs_kept_alive (connection_cb 0 7 3 (fst (rpc_service_start 0 0 60 cold_engine))) = []"
proof -
  let ?s1 = "fst (rpc_service_start 0 0 60 cold_engine)" and ?s = "connection_cb 0 7 3 (fst (rpc_service_start 0 0 60 cold_engine))"
  have start: "rpc_service_start 0 0 60 cold_engine = (?s1, 0)" and up: "rs_listening ?s1" "rs_streams ?s1 = []"
    by (simp_all add: rpc_service_start_def rpc_ensure_uv_loop_inited_def cold_engine_def appInfo_def Let_def)
  have "uv_step\<^sup>*\<^sup>* ?s1 ?s" using up by (intro r_into_rtranclp uv_step.accept) simp_all
  from engine_connections [OF start _ _ _ _ this] have
    "rpc_io_find 7 (rs_io ?s) \<noteq> None \<longleftrightarrow> map_of (rs_streams ?s) 7 \<in> {Some Reading, Some Shutting}" "rs_kept_alive ?s = []"
    by (simp_all add: cold_engine_def)
  moreover have "map_of (rs_streams ?s) 7 = Some Reading" using up(2) by (simp add: connection_cb_def Let_def)
  ultimately show ?thesis by simp
qed

lemma bad_magic_rejected:
  assumes "sh_magic sh \<noteq> RPC_MAGIC_NUMBER" and "int32_range (sh_body_size sh)" and "int32_range (sh_reserved sh)"
    and "rpc_io_find fd s = Some (io_new fd extra)"
  shows "\<exists>s'. rpc_io_enqueue (Suc fuel) env fd (shell_enc sh @ d) s = Some (Inr (s', -1))"
proof -
  obtain recv where recv: "rb_ok recv" "rb_head recv = 0" "rb_content recv = map Some (shell_enc sh @ d)"
    and enq: "rpc_io_enqueue (Suc fuel) env fd (shell_enc sh @ d) s =
             (case io_enqueue_loop (Suc fuel) env (io_new fd extra\<lparr>io_recv := recv\<rparr>) (io_tasks s) of
                  None \<Rightarrow> None
                | Some (Inl e) \<Rightarrow> Some (Inl e)
                | Some (Inr (child, tasks, ret)) \<Rightarrow>
                    Some (Inr (s\<lparr>io_list := io_put child (io_list s), io_tasks := tasks\<rparr>, ret)))"
    using enqueue_first [OF assms(4), of "shell_enc sh @ d" "Suc fuel" env] by auto
  have ne: "shell_enc sh \<noteq> []" using length_shell_enc [of sh] by force
  have lin: "rb_head recv \<le> rb_tail recv" using recv by (simp add: rb_ok_def)
  note f = rb_read_front [OF recv(1) lin recv(3) ne, unfolded recv(2), simplified]
  have rd: "mem_read (rb_mem (recv\<lparr>rb_head := 20\<rparr>) (RbRing 0)) 0 shell_size = Inr (shell_enc sh)"
    by (rule shell_read [of "rb_buffer recv"]) (use f(5) recv(2) in simp_all)
  have can: "rpc_rb_can_read recv = int (20 + length d)" using can_read_linear [OF recv(1,3)] by simp
  show ?thesis
    using enq f(1) rd can assms shell_dec_enc [OF assms(2,3), of "[]"]
    by (simp add: shell_size_def io_new_def)
qed

text \<open>
  A connection whose first packet has a wrong magic number is shut down and forgotten, but
  the service is never told: after the shutdown and the close callback there is no further event,
  and the next connection under the same socket is announced as accepted without the first
  having been announced as closed.
\<close>

theorem bad_request_unnoticed:
  assumes "engine_ok s" and "map_of (rs_streams s) fd = Some Reading" and "rpc_io_find fd (rs_io s) = Some (io_new fd extra)"
    and "sh_magic sh \<noteq> RPC_MAGIC_NUMBER" and "int32_range (sh_body_size sh)" and "int32_range (sh_reserved sh)" and "rs_event_cb s"
  shows "\<exists>s1. read_cb (Suc fuel) env fd (Inr (shell_enc sh @ d)) s = Some (Inr s1) \<and> map_of (rs_streams s1) fd = Some Shutting \<and>
    (let s3 = close_cb fd (shutdown_cb fd s1) in
       rpc_io_find fd (rs_io s3) = None \<and> fd \<notin> fst ` set (rs_streams s3) \<and> rs_events s3 = rs_events s \<and>
       rs_events (connection_cb 0 fd stream s3) = rs_events s @ [(event_fd_accept, fd)])"
proof -
  obtain io where enq: "rpc_io_enqueue (Suc fuel) env fd (shell_enc sh @ d) (rs_io s) = Some (Inr (io, -1))"
    using bad_magic_rejected [OF assms(4-6,3)] by blast
  let ?s1 = "s\<lparr>rs_io := io, rs_streams := set_stream fd Shutting (rs_streams s)\<rparr>"
  have s1: "read_cb (Suc fuel) env fd (Inr (shell_enc sh @ d)) s = Some (Inr ?s1)"
    using enq assms(2) by (simp add: read_cb_def request_shutdown_def)
  have "map_of (set_stream fd Shutting l) fd = Some Shutting" if "map_of l fd \<noteq> None" for l
    using that by (induction l) auto
  then have shut: "map_of (rs_streams ?s1) fd = Some Shutting" using assms(2) by simp
  have "io_wf io" using enqueue_fds [OF enq] assms(1) by (auto simp: engine_ok_def io_wf_def live_def intro: distinct_map_filter)
  then have "rpc_io_find fd (rpc_io_del fd io) = None"
    by (simp add: find_fd_None rpc_io_del_def io_drop_fds io_wf_def flip: set_map)
  then show ?thesis
    using s1 shut assms(7) by (intro exI [of _ ?s1]) (auto simp: Let_def close_cb_def shutdown_cb_def connection_cb_def notify_event_def)
qed

theorem bad_request_unnoticed_witness:
  "\<exists>s1. read_cb 1 demo_env 7 (Inr (shell_enc (demo_shell\<lparr>sh_magic := 0\<rparr>))) (cold_engine\<lparr>rs_io := demo_io, rs_streams := [(7, Reading), (8, Reading)]\<rparr>) = Some (Inr s1) \<and>
    rs_events (close_cb 7 (shutdown_cb 7 s1)) = []"
  using bad_request_unnoticed [of "cold_engine\<lparr>rs_io := demo_io, rs_streams := [(7, Reading), (8, Reading)]\<rparr>" 7 0 "demo_shell\<lparr>sh_magic := 0\<rparr>" 0 demo_env "[]"]
    find_demo
  by (auto simp: engine_ok_def live_def cold_engine_def demo_io_def io_new_def demo_shell_def int32_range_def RPC_MAGIC_NUMBER_def Let_def)

section \<open>Sockets\<close>

lemma socket_send_loop_ends:
  assumes "\<And>k n. 0 < n \<Longrightarrow> send k n \<le> n" and "0 \<le> sended" and "sended \<le> max 0 len" and "nat (len - sended) < fuel"
  shows "\<exists>r. socket_send_loop fuel send k sended len = Some r \<and> sended \<le> r \<and> r \<le> max 0 len \<and>
    ((\<forall>k n. 0 < n \<longrightarrow> 0 < send k n) \<longrightarrow> len \<le> r)"
  using assms(2-4)
proof (induction fuel arbitrary: k sended)
  case (Suc fuel)
  let ?t = "send k (len - sended)"
  show ?case
  proof (cases "sended < len \<and> 0 < ?t")
    case True
    moreover have "?t \<le> len - sended" using assms(1) [of "len - sended" k] True by simp
    moreover have "nat (len - (sended + ?t)) < fuel" using Suc.prems True by linarith
    ultimately show ?thesis using Suc.IH [of "sended + ?t" "Suc k"] Suc.prems by auto
  next
    case False
    then have "\<not> (\<forall>k n. 0 < n \<longrightarrow> 0 < send k n)" if "sended < len" using that by (metis diff_gt_0_iff_gt)
    then show ?thesis using False Suc.prems by (cases "sended < len") (simp_all add: Let_def)
  qed
qed simp

text \<open>
  C34. \<open>socket_send\<close> always returns, after at most one call of \<open>send\<close> per byte, never
  reports more than it was given, and reports everything when no call fails.
\<close>

theorem socket_send_returns:
  assumes "\<And>k n. 0 < n \<Longrightarrow> send k n \<le> n"
  shows "\<exists>r. socket_send (nat len + 1) send len = Some r \<and> 0 \<le> r \<and> r \<le> max 0 len \<and>
    ((\<forall>k n. 0 < n \<longrightarrow> 0 < send k n) \<longrightarrow> r = max 0 len)"
  using socket_send_loop_ends [of send 0 len "nat len + 1" 0, OF assms] unfolding socket_send_def by force

theorem socket_send_returns_witness:
  "\<exists>r. socket_send 11 (\<lambda>k n. min 4 n) 10 = Some r \<and> r = 10"
  using socket_send_returns [of "\<lambda>k n. min 4 n" 10] by auto

text \<open>
  \<open>socket_recv\<close> never returns once the peer has closed the connection before sending
  everything: \<open>recv\<close> then returns nothing for ever.
\<close>

lemma socket_recv_hangs:
  assumes "\<And>k. recv k = Some []" and "0 < maxsize" shows "socket_recv fuel recv maxsize = None"
proof -
  have "socket_recv_loop fuel recv k 0 maxsize = None" for k
    by (induction fuel arbitrary: k) (use assms in simp_all)
  then show ?thesis by (simp add: socket_recv_def)
qed

text \<open>Every call asks for 4096 bytes, however little room is left.\<close>

lemma socket_recv_overflow: "recv 0 = Some d \<Longrightarrow> maxsize < length d \<Longrightarrow> 0 < maxsize \<Longrightarrow> socket_recv (Suc fuel) recv maxsize = Some (Inl OutOfBounds)"
  by (simp add: socket_recv_def)

end
