(* ===== verification/Media_Api.thy ===== *)
theory Media_Api
  imports Service_Req Timer Rpc_Engine
begin

text \<open>
  The client library, \<open>client/media_api_account.c\<close>, \<open>media_api_device.c\<close>,
  \<open>media_api_play.c\<close>, \<open>media_api_platform.c\<close>, \<open>media_api.c\<close> and
  \<open>media_bootstrap.c\<close>. Sending a request and waiting for the
  answer is the parameter \<open>call\<close>, from the category, the sub-category and the pairs of the request
  to the answer, \<open>None\<close> when the request cannot be sent or is not answered in
  time. Pointers that may be null are options, or flags where only that matters.
\<close>

section \<open>Data\<close>

datatype mc_status =
    mc_ok | mc_server_not_response | mc_syntax_error | mc_internal_error | mc_no_permission | mc_session_expired
  | mc_invalid_uuid_or_pwd | mc_old_pwd_not_correct | mc_uuid_exist | mc_delete_cannot_be_owner | mc_uuid_not_exist
  | mc_workfolder_exist

record mc_session =
  ms_uuid :: string
  ms_b_is_admin :: bool
  ms_ref_admin_uuid :: string
  ms_auto_heartbeat :: "nat option"

type_synonym mc_call = "int \<Rightarrow> int \<Rightarrow> (string \<times> string) list \<Rightarrow> rpc_req option"

text \<open>The macro \<open>check_rid\<close>.\<close>

definition check_rid :: "rpc_req \<Rightarrow> string \<Rightarrow> int" where
  "check_rid req k = (case req_get (Some req) k of Some s \<Rightarrow> c_atoi s | None \<Rightarrow> c_atoi ''-256'')"

section \<open>Accounts\<close>

definition mc_heartbeat :: "mc_call \<Rightarrow> mc_status" where
  "mc_heartbeat call =
     (case call 0 1 [] of
        None \<Rightarrow> mc_server_not_response
      | Some req \<Rightarrow> if check_rid req ''rid'' = 0 then mc_ok else mc_session_expired)"

text \<open>Logging out frees the session and deletes its timer, whatever the server answers.\<close>

definition mc_account_logout :: "mc_call \<Rightarrow> mc_session option \<Rightarrow> timer_state \<Rightarrow> timer_state \<times> mc_status" where
  "mc_account_logout call session tms =
     (case session of
        None \<Rightarrow> (tms, mc_session_expired)
      | Some s \<Rightarrow>
          (if ms_auto_heartbeat s \<noteq> None then fst (timer_del (ms_auto_heartbeat s) tms) else tms,
           case call 2 1 [] of
             None \<Rightarrow> mc_server_not_response
           | Some req \<Rightarrow> if check_rid req ''rid'' = 0 then mc_ok else mc_session_expired))"

text \<open>The timer callback of a session, and whether it stops the timer.\<close>

definition heartbeart_timer_clock :: "mc_call \<Rightarrow> mc_session \<Rightarrow> timer_state \<Rightarrow> timer_state \<times> bool" where
  "heartbeart_timer_clock call session tms =
     (if mc_heartbeat call = mc_ok then (tms, False)
      else (fst (mc_account_logout call (Some session) tms), True))"

text \<open>The number of the platform is printed into an array of 8 characters.\<close>

definition mc_account_login ::
  "mc_call \<Rightarrow> nat \<Rightarrow> string option \<Rightarrow> string option \<Rightarrow> int \<Rightarrow> bool \<Rightarrow> timer_state \<Rightarrow> (timer_state \<times> mc_status \<times> mc_session option) res" where
  "mc_account_login call addr uuid pwd pid has_session tms =
     (case (uuid, pwd) of
        (Some uuid, Some pwd) \<Rightarrow>
          if \<not> has_session then Inr (tms, mc_syntax_error, None)
          else if 8 \<le> length (int_text pid) then Inl OutOfBounds
          else (case call 2 0 [(''uuid'', uuid), (''pwd'', pwd), (''pid'', int_text pid)] of
                  None \<Rightarrow> Inr (tms, mc_server_not_response, None)
                | Some req \<Rightarrow>
                    let rid = check_rid req ''rid'' in
                    if rid = 0 then
                      (case req_get (Some req) ''is_admin'' of
                         None \<Rightarrow> Inr (tms, mc_internal_error, None)
                       | Some c_is_admin \<Rightarrow>
                           let b_is_admin = c_atoi c_is_admin \<noteq> 0;
                               ref_admin_uuid = req_get (Some req) ''ref_admin_uuid''
                           in if \<not> b_is_admin \<and> ref_admin_uuid = None then Inr (tms, mc_internal_error, None)
                              else Inr (timer_create addr 5000 False tms, mc_ok,
                                        Some \<lparr>ms_uuid = take 17 uuid, ms_b_is_admin = b_is_admin,
                                              ms_ref_admin_uuid = (if b_is_admin then [] else take 17 (the ref_admin_uuid)),
                                              ms_auto_heartbeat = Some addr\<rparr>))
                    else Inr (tms, if rid = -1 then mc_invalid_uuid_or_pwd else if rid = -255 then mc_syntax_error
                                   else if rid = -300 then mc_session_expired else mc_internal_error, None))
      | _ \<Rightarrow> Inr (tms, mc_syntax_error, None))"

definition mc_login_check_power :: "mc_session option \<Rightarrow> bool \<Rightarrow> mc_status \<times> bool option" where
  "mc_login_check_power session has_out =
     (case session of
        Some s \<Rightarrow> if has_out then (mc_ok, Some (ms_b_is_admin s)) else (mc_syntax_error, None)
      | None \<Rightarrow> (mc_syntax_error, None))"

text \<open>The arrays of a structure are never null, so the nickname and the comment are always sent.\<close>

definition mc_account_create :: "mc_call \<Rightarrow> mc_session option \<Rightarrow> db_account_basic option \<Rightarrow> mc_status" where
  "mc_account_create call session child =
     (case (session, child) of
        (Some s, Some c) \<Rightarrow>
          if \<not> valid_uuid (Some (ab_uuid c)) \<or> \<not> valid_pwd (Some (ab_pwd c)) \<or> \<not> valid_nickname (Some (ab_nickname c)) \<or>
             \<not> valid_comment (Some (ab_comment c)) then mc_syntax_error
          else (case call 2 2 [(''uuid'', ab_uuid c), (''pwd'', ab_pwd c), (''nickname'', ab_nickname c), (''comment'', ab_comment c)] of
                  None \<Rightarrow> mc_server_not_response
                | Some req \<Rightarrow>
                    let rid = check_rid req ''rid'' in
                    if rid = 0 then mc_ok else if rid = -1 then mc_no_permission else if rid = -2 then mc_uuid_exist
                    else if rid = -255 then mc_syntax_error else if rid = -300 then mc_session_expired else mc_internal_error)
      | _ \<Rightarrow> mc_syntax_error)"

definition mc_account_modify :: "mc_call \<Rightarrow> mc_session option \<Rightarrow> string option \<Rightarrow> db_account_basic option \<Rightarrow> mc_status" where
  "mc_account_modify call session old_pwd basic =
     (case (session, old_pwd, basic) of
        (Some s, Some old_pwd, Some b) \<Rightarrow>
          if world_tolower (ms_uuid s) \<noteq> world_tolower (ab_uuid b) then mc_syntax_error
          else (case call 2 3 [(''old_pwd'', old_pwd), (''new_pwd'', ab_pwd b), (''nickname'', ab_nickname b), (''comment'', ab_comment b)] of
                  None \<Rightarrow> mc_server_not_response
                | Some req \<Rightarrow>
                    let rid = check_rid req ''rid'' in
                    if rid = 0 then mc_ok else if rid = -1 then mc_old_pwd_not_correct else if rid = -255 then mc_syntax_error
                    else if rid = -300 then mc_session_expired else mc_internal_error)
      | _ \<Rightarrow> mc_syntax_error)"

definition mc_account_delete :: "mc_call \<Rightarrow> mc_session option \<Rightarrow> string option \<Rightarrow> string option \<Rightarrow> mc_status" where
  "mc_account_delete call session old_pwd del_uuid =
     (case (session, old_pwd, del_uuid) of
        (Some s, Some old_pwd, Some del_uuid) \<Rightarrow>
          if \<not> ms_b_is_admin s then mc_no_permission
          else (case call 2 4 [(''check_pwd'', old_pwd), (''del_uuid'', del_uuid)] of
                  None \<Rightarrow> mc_server_not_response
                | Some req \<Rightarrow>
                    let rid = check_rid req ''rid'' in
                    if rid = 0 then mc_ok else if rid = -1 then mc_no_permission else if rid = -2 then mc_old_pwd_not_correct
                    else if rid = -3 then mc_delete_cannot_be_owner else if rid = -4 then mc_uuid_not_exist
                    else if rid = -255 then mc_syntax_error else if rid = -300 then mc_session_expired else mc_internal_error)
      | _ \<Rightarrow> mc_syntax_error)"

section \<open>Lists\<close>

text \<open>
  The arrays the list functions fill: \<open>xcalloc\<close> makes all entries null; a key starts a new
  entry and the others set a field of the last one, that of index -1 before the first.
\<close>

type_synonym 'a slots = "'a option list \<times> nat"

definition slot_new :: "'a \<Rightarrow> 'a slots \<Rightarrow> 'a slots res" where
  "slot_new x s = (case s of (xs, i) \<Rightarrow> if i < length xs then Inr (xs[i := Some x], i + 1) else Inl OutOfBounds)"

definition slot_set :: "('a \<Rightarrow> 'a) \<Rightarrow> 'a slots \<Rightarrow> 'a slots res" where
  "slot_set f s =
     (case s of (xs, i) \<Rightarrow>
       if i = 0 then Inl OutOfBounds
       else (case xs ! (i - 1) of None \<Rightarrow> Inl NullDeref | Some x \<Rightarrow> Inr (xs[i - 1 := Some (f x)], i)))"

text \<open>A value as a C string; \<open>strncpy\<close> and \<open>atoi\<close> dereference it.\<close>

definition item_text :: "byte list option \<Rightarrow> string res" where
  "item_text v = (case v of None \<Rightarrow> Inl NullDeref | Some bs \<Rightarrow> Inr (string_of (takeWhile (\<lambda>b. b \<noteq> 0) bs)))"

definition with_text :: "byte list option \<Rightarrow> (string \<Rightarrow> 'a \<Rightarrow> 'a) \<Rightarrow> 'a slots \<Rightarrow> 'a slots res" where
  "with_text v f s = bindR (item_text v) (\<lambda>t. slot_set (f t) s)"

definition empty_basic :: db_account_basic where
  "empty_basic = \<lparr>ab_uuid = [], ab_pwd = [], ab_nickname = [], ab_comment = [], ab_created_time = []\<rparr>"

definition account_item :: "string \<Rightarrow> req_item \<Rightarrow> online_session slots \<Rightarrow> online_session slots res" where
  "account_item own it s =
     (let key = string_of (req_key it); v = req_value it;
          basic = (\<lambda>f x. x\<lparr>os_basic := f (os_basic x)\<rparr>) in
      if key = ''rid'' \<or> key = ''count'' then Inr s
      else if key = ''uuid'' then
        bindR (slot_new \<lparr>os_basic = empty_basic, os_ref_admin_uuid = [], os_is_admin = False, os_is_online = False, os_fd = 0, os_ip = [],
                         os_port = 0, os_is_heartbeated = False\<rparr> s) (\<lambda>s.
        with_text v (\<lambda>t x. x\<lparr>os_basic := (os_basic x)\<lparr>ab_uuid := take 16 t\<rparr>, os_ref_admin_uuid := take 16 own\<rparr>) s)
      else if key = ''nickname'' then with_text v (\<lambda>t. basic (\<lambda>b. b\<lparr>ab_nickname := take 64 t\<rparr>)) s
      else if key = ''comment'' then with_text v (\<lambda>t. basic (\<lambda>b. b\<lparr>ab_comment := take 256 t\<rparr>)) s
      else if key = ''created_time'' then with_text v (\<lambda>t. basic (\<lambda>b. b\<lparr>ab_created_time := take 64 t\<rparr>)) s
      else if key = ''is_online'' then with_text v (\<lambda>t x. x\<lparr>os_is_online := (c_atoi t \<noteq> 0)\<rparr>) s
      else if key = ''ip'' then with_text v (\<lambda>t x. x\<lparr>os_ip := take 16 t\<rparr>) s
      else if key = ''port'' then with_text v (\<lambda>t x. x\<lparr>os_port := c_atoi t\<rparr>) s
      else Inr s)"

fun item_loop :: "(req_item \<Rightarrow> 'a slots \<Rightarrow> 'a slots res) \<Rightarrow> req_item list \<Rightarrow> 'a slots \<Rightarrow> 'a slots res" where
  "item_loop f [] s = Inr s"
| "item_loop f (it # its) s = bindR (f it s) (item_loop f its)"

text \<open>
  The answer to a list request: the count, and the array when it is not zero. The size of the array
  is computed in 32 bits, so it wraps around for counts from \<open>2 ^ 30\<close> on and for negative ones; a block of \<open>2 ^ 31\<close>
  bytes and more is not to be had in the 32-bit address space of a process, the pointer is null then.
\<close>

definition list_answer :: "(req_item \<Rightarrow> 'a slots \<Rightarrow> 'a slots res) \<Rightarrow> rpc_req option \<Rightarrow> (mc_status \<times> 'a option list option \<times> int) res" where
  "list_answer f got =
     (case got of
        None \<Rightarrow> Inr (mc_server_not_response, None, 0)
      | Some req \<Rightarrow>
          let rid = check_rid req ''rid'' in
          if rid = 0 then
            (let n = check_rid req ''count'' in
             if n = 0 then Inr (mc_ok, None, 0)
             else
               let room = n * 4 mod 2 ^ 32; got_room = room < 2 ^ 31 in
               bindR (item_loop f req (replicate (if got_room then nat (room div 4) else 0) None, 0)) (\<lambda>(xs, _).
               Inr (mc_ok, if got_room then Some xs else None, n)))
          else Inr (if rid = -1 then mc_no_permission else if rid = -255 then mc_syntax_error
                    else if rid = -300 then mc_session_expired else mc_internal_error, None, 0))"

definition mc_account_list :: "mc_call \<Rightarrow> mc_session option \<Rightarrow> bool \<Rightarrow> (mc_status \<times> online_session option list option \<times> int) res" where
  "mc_account_list call session has_out =
     (case session of
        Some s \<Rightarrow> if has_out then list_answer (account_item (ms_uuid s)) (call 2 5 []) else Inr (mc_syntax_error, None, 0)
      | None \<Rightarrow> Inr (mc_syntax_error, None, 0))"

section \<open>Devices\<close>

definition bad_device :: "db_account_device \<Rightarrow> bool" where
  "bad_device d \<longleftrightarrow>
     (let b = da_basic d in
      dv_plugin_name b = [] \<or> dv_ip b = [] \<or> dv_port b \<le> 0 \<or> dv_user b = [] \<or> dv_pwd b = [] \<or> dv_channel b < 0 \<or>
      dv_seg_folder b = [] \<or> dv_seg_in_count b < 0 \<or> dv_seg_per_sec b < 0)"

text \<open>A device is sent with a new identifier, the parameter \<open>guid\<close>; the result is the identifier when it was accepted.\<close>

definition mc_device_add :: "mc_call \<Rightarrow> string \<Rightarrow> mc_session option \<Rightarrow> db_account_device option \<Rightarrow> bool \<Rightarrow> mc_status \<times> string option" where
  "mc_device_add call guid session device has_uuid =
     (case (session, device) of
        (Some s, Some d) \<Rightarrow>
          let b = da_basic d in
          if \<not> has_uuid \<or> bad_device d then (mc_syntax_error, None)
          else if \<not> da_is_top_level d \<and> da_ref_parent_uuid d = [] then (mc_syntax_error, None)
          else (case call 3 0
                  ([(''uuid'', guid), (''plugin_name'', dv_plugin_name b), (''ip'', dv_ip b), (''port'', int_text (dv_port b)),
                    (''user'', dv_user b), (''pwd'', dv_pwd b), (''channel'', int_text (dv_channel b)), (''seg_folder'', dv_seg_folder b),
                    (''seg_in_count'', int_text (dv_seg_in_count b)), (''seg_per_sec'', int_text (dv_seg_per_sec b))] @
                   (if da_nickname d \<noteq> [] then [(''nickname'', da_nickname d)] else []) @
                   (if da_comment d \<noteq> [] then [(''comment'', da_comment d)] else []) @
                   [(''is_top_level'', bool_text (da_is_top_level d))] @
                   (if \<not> da_is_top_level d then [(''ref_parent_uuid'', da_ref_parent_uuid d)] else [])) of
                  None \<Rightarrow> (mc_server_not_response, None)
                | Some req \<Rightarrow>
                    let rid = check_rid req ''rid'' in
                    if rid = 0 then (mc_ok, Some guid)
                    else (if rid = -1 then mc_no_permission else if rid = -2 then mc_uuid_exist else if rid = -3 then mc_workfolder_exist
                          else if rid = -300 then mc_session_expired else mc_internal_error, None))
      | _ \<Rightarrow> (mc_syntax_error, None))"

definition mc_device_del :: "mc_call \<Rightarrow> mc_session option \<Rightarrow> string option \<Rightarrow> mc_status" where
  "mc_device_del call session uuid =
     (case (session, uuid) of
        (Some s, Some uuid) \<Rightarrow>
          if uuid = [] then mc_syntax_error
          else (case call 3 2 [(''uuid'', uuid)] of
                  None \<Rightarrow> mc_server_not_response
                | Some req \<Rightarrow>
                    let rid = check_rid req ''rid'' in
                    if rid = 0 then mc_ok else if rid = -1 then mc_no_permission else if rid = -2 then mc_uuid_not_exist
                    else if rid = -300 then mc_session_expired else mc_internal_error)
      | _ \<Rightarrow> mc_syntax_error)"

definition empty_device :: db_account_device where
  "empty_device = \<lparr>da_basic = \<lparr>dv_uuid = [], dv_plugin_name = [], dv_ip = [], dv_port = 0, dv_user = [], dv_pwd = [], dv_channel = 0,
     dv_seg_folder = [], dv_seg_in_count = 0, dv_seg_per_sec = 0, dv_created_time = []\<rparr>, da_nickname = [], da_comment = [],
     da_is_top_level = False, da_ref_parent_uuid = []\<rparr>"

text \<open>The assignment of \<open>is_top_level\<close> has a comma for the sign and does nothing but call \<open>atoi\<close>.\<close>

definition device_item :: "req_item \<Rightarrow> db_account_device slots \<Rightarrow> db_account_device slots res" where
  "device_item it s =
     (let key = string_of (req_key it); v = req_value it;
          basic = (\<lambda>f x. x\<lparr>da_basic := f (da_basic x)\<rparr>) in
      if key = ''rid'' \<or> key = ''count'' then Inr s
      else if key = ''uuid'' then
        bindR (slot_new empty_device s) (\<lambda>s. with_text v (\<lambda>t. basic (\<lambda>b. b\<lparr>dv_uuid := take 38 t\<rparr>)) s)
      else if key = ''plugin_name'' then with_text v (\<lambda>t. basic (\<lambda>b. b\<lparr>dv_plugin_name := take 16 t\<rparr>)) s
      else if key = ''ip'' then with_text v (\<lambda>t. basic (\<lambda>b. b\<lparr>dv_ip := take 16 t\<rparr>)) s
      else if key = ''port'' then with_text v (\<lambda>t. basic (\<lambda>b. b\<lparr>dv_port := c_atoi t\<rparr>)) s
      else if key = ''user'' then with_text v (\<lambda>t. basic (\<lambda>b. b\<lparr>dv_user := take 32 t\<rparr>)) s
      else if key = ''pwd'' then with_text v (\<lambda>t. basic (\<lambda>b. b\<lparr>dv_pwd := take 32 t\<rparr>)) s
      else if key = ''channel'' then with_text v (\<lambda>t. basic (\<lambda>b. b\<lparr>dv_channel := c_atoi t\<rparr>)) s
      else if key = ''seg_folder'' then with_text v (\<lambda>t. basic (\<lambda>b. b\<lparr>dv_seg_folder := take 32 t\<rparr>)) s
      else if key = ''seg_in_count'' then with_text v (\<lambda>t. basic (\<lambda>b. b\<lparr>dv_seg_in_count := c_atoi t\<rparr>)) s
      else if key = ''seg_per_sec'' then with_text v (\<lambda>t. basic (\<lambda>b. b\<lparr>dv_seg_per_sec := c_atoi t\<rparr>)) s
      else if key = ''created_time'' then with_text v (\<lambda>t. basic (\<lambda>b. b\<lparr>dv_created_time := take 63 t\<rparr>)) s
      else if key = ''nickname'' then with_text v (\<lambda>t x. x\<lparr>da_nickname := take 64 t\<rparr>) s
      else if key = ''comment'' then with_text v (\<lambda>t x. x\<lparr>da_comment := take 256 t\<rparr>) s
      else if key = ''is_top_level'' then with_text v (\<lambda>t x. x) s
      else if key = ''ref_parent_uuid'' then
        (case v of None \<Rightarrow> slot_set (\<lambda>x. x\<lparr>da_ref_parent_uuid := []\<rparr>) s
         | Some _ \<Rightarrow> with_text v (\<lambda>t x. x\<lparr>da_ref_parent_uuid := take 16 t\<rparr>) s)
      else Inr s)"

definition mc_device_list :: "mc_call \<Rightarrow> mc_session option \<Rightarrow> bool \<Rightarrow> (mc_status \<times> db_account_device option list option \<times> int) res" where
  "mc_device_list call session has_out =
     (case session of
        Some s \<Rightarrow> if has_out then list_answer device_item (call 3 3 []) else Inr (mc_syntax_error, None, 0)
      | None \<Rightarrow> Inr (mc_syntax_error, None, 0))"

text \<open>The list is only freed when its first entry is not null.\<close>

definition mc_account_list_free :: "online_session option list option \<Rightarrow> int \<Rightarrow> mc_status res" where
  "mc_account_list_free basic count =
     (case basic of
        None \<Rightarrow> Inr mc_syntax_error
      | Some [] \<Rightarrow> Inl OutOfBounds
      | Some (b # bs) \<Rightarrow>
          if b = None \<or> count \<le> 0 then Inr mc_syntax_error
          else if length (b # bs) < nat count then Inl OutOfBounds else Inr mc_ok)"

definition mc_device_list_free :: "db_account_device option list option \<Rightarrow> int \<Rightarrow> mc_status res" where
  "mc_device_list_free device count =
     (case device of
        None \<Rightarrow> Inr mc_syntax_error
      | Some [] \<Rightarrow> Inl OutOfBounds
      | Some (d # ds) \<Rightarrow>
          if d = None \<or> count \<le> 0 then Inr mc_syntax_error
          else if length (d # ds) < nat count then Inl OutOfBounds else Inr mc_ok)"

section \<open>Playing and the platform\<close>

text \<open>The three play functions report the number of the answer, -5 without one.\<close>

definition play_call :: "mc_call \<Rightarrow> int \<Rightarrow> mc_session option \<Rightarrow> string option \<Rightarrow> bool \<Rightarrow> mc_status \<times> int option \<times> rpc_req option" where
  "play_call call sub session uuid has_rid =
     (case (session, uuid) of
        (Some s, Some uuid) \<Rightarrow>
          if \<not> has_rid then (mc_syntax_error, None, None)
          else (case call 5 sub [(''uuid'', uuid)] of
                  None \<Rightarrow> (mc_server_not_response, Some (-5), None)
                | Some req \<Rightarrow> (mc_ok, Some (check_rid req ''rid''), Some req))
      | _ \<Rightarrow> (mc_syntax_error, None, None))"

definition mc_play_device :: "mc_call \<Rightarrow> mc_session option \<Rightarrow> string option \<Rightarrow> bool \<Rightarrow> mc_status \<times> int option" where
  "mc_play_device call session uuid has_rid = (case play_call call 0 session uuid has_rid of (st, n, _) \<Rightarrow> (st, n))"

definition mc_play_stop :: "mc_call \<Rightarrow> mc_session option \<Rightarrow> string option \<Rightarrow> bool \<Rightarrow> mc_status \<times> int option" where
  "mc_play_stop call session uuid has_rid = (case play_call call 1 session uuid has_rid of (st, n, _) \<Rightarrow> (st, n))"

record device_status =
  ds_elapsed :: int
  ds_fullpath :: string

text \<open>\<open>device\<close> is not tested for null before it is cleared.\<close>

definition mc_play_touch :: "mc_call \<Rightarrow> mc_session option \<Rightarrow> string option \<Rightarrow> bool \<Rightarrow> bool \<Rightarrow> (mc_status \<times> int option \<times> device_status option) res" where
  "mc_play_touch call session uuid has_rid has_device =
     (case play_call call 2 session uuid has_rid of
        (mc_syntax_error, _) \<Rightarrow> Inr (mc_syntax_error, None, None)
      | (st, n, got) \<Rightarrow>
          if \<not> has_device then Inl NullDeref
          else Inr (st, n, Some
            (case got of
               Some req \<Rightarrow>
                 if 0 < the n
                 then \<lparr>ds_elapsed = (case req_get (Some req) ''elapse'' of Some t \<Rightarrow> c_atoi t | None \<Rightarrow> c_atoi ''0''),
                       ds_fullpath = take 259 (or_empty (req_get (Some req) ''path''))\<rparr>
                 else \<lparr>ds_elapsed = 0, ds_fullpath = []\<rparr>
             | None \<Rightarrow> \<lparr>ds_elapsed = 0, ds_fullpath = []\<rparr>)))"

definition mc_current_version :: string where
  "mc_current_version = ''1.0.0.0''"

record version_status =
  vs_cur_ver :: string
  vs_new_ver :: string
  vs_b_force_update :: bool
  vs_update_logs :: string

definition empty_version :: version_status where
  "empty_version = \<lparr>vs_cur_ver = [], vs_new_ver = [], vs_b_force_update = False, vs_update_logs = []\<rparr>"

definition mc_check_version :: "mc_call \<Rightarrow> int \<Rightarrow> (mc_status \<times> version_status) res" where
  "mc_check_version call pid =
     (if 8 \<le> length (int_text pid) then Inl OutOfBounds
      else case call 0 0 [(''pid'', int_text pid), (''ver'', mc_current_version)] of
        None \<Rightarrow> Inr (mc_server_not_response, empty_version)
      | Some req \<Rightarrow>
          (case (req_get (Some req) ''rid'', req_get (Some req) ''new_ver'', req_get (Some req) ''update_log'', req_get (Some req) ''force_update'') of
             (Some _, Some new_ver, Some update_logs, Some force_update) \<Rightarrow>
               Inr (mc_ok, \<lparr>vs_cur_ver = mc_current_version, vs_new_ver = take 63 new_ver, vs_b_force_update = (c_atoi force_update \<noteq> 0),
                            vs_update_logs = take 4095 update_logs\<rparr>)
           | _ \<Rightarrow> Inr (mc_internal_error, empty_version)))"

section \<open>The environment\<close>

record mc_env =
  mc_env_inited :: bool
  mc_timers :: timer_state
  mc_client :: rc_state

definition media_bootstrap_start :: "mc_env \<Rightarrow> mc_env" where
  "media_bootstrap_start e = e\<lparr>mc_timers := timer_init 100 (mc_timers e)\<rparr>"

text \<open>\<open>prev\<close> and \<open>now\<close> are the times of the last round of the timer thread.\<close>

definition media_bootstrap_clean :: "int \<times> int \<Rightarrow> int \<times> int \<Rightarrow> mc_env \<Rightarrow> mc_env res" where
  "media_bootstrap_clean prev now e =
     bindR (rpc_client_stop (mc_client e)) (\<lambda>c. Inr (e\<lparr>mc_client := c, mc_timers := timer_destroy prev now (mc_timers e)\<rparr>))"

definition mc_env_init :: "mc_env \<Rightarrow> mc_env" where
  "mc_env_init e = (if mc_env_inited e then e else (media_bootstrap_start e)\<lparr>mc_env_inited := True\<rparr>)"

definition mc_env_destroy :: "int \<times> int \<Rightarrow> int \<times> int \<Rightarrow> mc_env \<Rightarrow> mc_env res" where
  "mc_env_destroy prev now e =
     (if mc_env_inited e then bindR (media_bootstrap_clean prev now e) (\<lambda>e. Inr (e\<lparr>mc_env_inited := False\<rparr>)) else Inr e)"

text \<open>\<open>fd\<close> is the new socket and \<open>ret\<close> what \<open>connect\<close> returns.\<close>

definition mc_connect_to_server :: "int \<Rightarrow> int \<Rightarrow> int \<Rightarrow> mc_env \<Rightarrow> mc_env \<times> mc_status" where
  "mc_connect_to_server fd ret keepalive e =
     (let e = mc_env_init e;
          keepalive = (if keepalive \<le> 0 then 60 else keepalive)
      in case rpc_client_start fd ret keepalive (mc_client e) of
           (c, r) \<Rightarrow> (e\<lparr>mc_client := c\<rparr>, if r = 0 then mc_ok else mc_server_not_response))"

definition mc_disconnect :: "int \<times> int \<Rightarrow> int \<times> int \<Rightarrow> mc_env \<Rightarrow> mc_env res" where
  "mc_disconnect prev now e =
     bindR (mc_env_destroy prev now e) (\<lambda>e. bindR (rpc_client_stop (mc_client e)) (\<lambda>c. Inr (e\<lparr>mc_client := c\<rparr>)))"

definition mc_close_cb :: "bool \<Rightarrow> mc_env \<Rightarrow> mc_env" where
  "mc_close_cb cb e = e\<lparr>mc_client := rpc_client_event cb (mc_client e)\<rparr>"

section \<open>Connecting and disconnecting\<close>

definition cold_client :: mc_env where
  "cold_client = \<lparr>mc_env_inited = False, mc_timers = \<lparr>timer_list = [], timer_list_inited = False, timer_stop_sign = False, timer_tickfps = 0\<rparr>,
     mc_client = \<lparr>rc_stop_sign = False, rc_fd = 0, rc_keepalive = None, rc_disconn_cb = False, rc_disconn_calls = 0,
       rc_alloctor = \<lparr>al_alloc = None, al_free = None, rpc_malloc_inited = False\<rparr>, rc_list_ready = False,
       rc_io = \<lparr>io_list = [], io_inited = False, io_signal_queue = rpc_queue_new, io_abort = False, io_tasks = []\<rparr>,
       rc_disp = \<lparr>dispatch_list = [], dispatch_list_inited = False\<rparr>\<rparr>\<rparr>"

text \<open>
  C30. The life of a client from a cold start. If \<open>connect\<close> succeeds the client has exactly one
  connection, the new socket, kept alive for the given time or 60 seconds, and disconnecting
  leaves no connection and an environment that can be set up again. If \<open>connect\<close> fails, or
  none was tried, tearing the environment down dereferences a null pointer: the list of connections
  was never set up.
\<close>

theorem client_life:
  "\<exists>e st. mc_connect_to_server fd ret keepalive cold_client = (e, st) \<and>
     (if ret = 0
      then st = mc_ok \<and> map io_fd (io_list (rc_io (mc_client e))) = [fd] \<and> rc_keepalive (mc_client e) = Some (if keepalive \<le> 0 then 60 else keepalive) \<and>
        (\<exists>e'. mc_disconnect prev now e = Inr e' \<and> \<not> mc_env_inited e' \<and> io_list (rc_io (mc_client e')) = [] \<and> \<not> io_inited (rc_io (mc_client e')) \<and>
              rc_stop_sign (mc_client e') \<and> timer_list (mc_timers e') = [])
      else st = mc_server_not_response \<and> mc_disconnect prev now e = Inl NullDeref) \<and>
   mc_env_destroy prev now (mc_env_init cold_client) = Inl NullDeref"
proof -
  note defs = mc_connect_to_server_def rpc_client_start_def mc_env_init_def media_bootstrap_start_def mc_disconnect_def mc_env_destroy_def
    media_bootstrap_clean_def rpc_client_stop_def cold_client_def Let_def
  have io: "rpc_io_init (rc_io (mc_client cold_client)) = \<lparr>io_list = [], io_inited = True, io_signal_queue = rpc_queue_new, io_abort = False, io_tasks = []\<rparr>"
    by (simp add: cold_client_def rpc_io_init_def)
  have tms: "timer_list (timer_destroy prev now (timer_init 100 (mc_timers cold_client))) = []"
    by (simp add: cold_client_def timer_destroy_def timer_init_def timer_step_def timer_synchronize_def Let_def)
  show ?thesis
  proof (cases "ret = 0")
    case True
    then show ?thesis
      using io tms by (simp add: defs rpc_io_add_def rpc_io_find_def io_new_def rpc_io_stop_def rpc_io_destroy_def)
  next
    case False
    then show ?thesis by (simp add: defs)
  qed
qed

end
