(* ===== verification/Client_Server.thy ===== *)
theory Client_Server
  imports Service_Api Media_Api
begin

text \<open>
  The client library against the service: the pairs of a request are packed into a buffer,
  parsed by the service, handled, and the pairs of the reply come back the same way.
\<close>

section \<open>What arrives\<close>

definition byte_pairs :: "(string \<times> string) list \<Rightarrow> (byte list \<times> byte list) list" where
  "byte_pairs kvs = map (\<lambda>(k, v). (bytes_of k, bytes_of v)) kvs"

text \<open>The buffer of a packet with these pairs, terminated as the receiver does; no pairs are no buffer.\<close>

definition packed :: "(string \<times> string) list \<Rightarrow> rpc_buffer option" where
  "packed kvs =
     (if kvs = [] then None
      else let p = concat (map kv_frame (byte_pairs kvs)) in
        Some \<lparr>chunk = map Some (p @ [0]), chunk_size = int (length p) + 1, chunk_used = int (length p), parse_position = 0\<rparr>)"

definition received :: "(string \<times> string) list \<Rightarrow> rpc_req option" where
  "received kvs = (case rpc_parser_new (Suc (length kvs)) (packed kvs) of Some (Inr r) \<Rightarrow> r | _ \<Rightarrow> None)"

text \<open>Pairs that can be sent: no colon or NUL in the key, no NUL in the value.\<close>

definition sent_pair :: "string \<times> string \<Rightarrow> bool" where
  "sent_pair kv \<longleftrightarrow> CHR 0x00 \<notin> set (fst kv) \<and> CHR 0x3A \<notin> set (fst kv) \<and> CHR 0x00 \<notin> set (snd kv) \<and>
     length (fst kv) + length (snd kv) + 2 < 2 ^ 31"

text \<open>Pairs that arrive as they were sent: the value is not empty, an empty one arrives as NULL.\<close>

definition text_pair :: "string \<times> string \<Rightarrow> bool" where
  "text_pair kv \<longleftrightarrow> CHR 0x00 \<notin> set (fst kv) \<and> CHR 0x3A \<notin> set (fst kv) \<and> CHR 0x00 \<notin> set (snd kv) \<and> snd kv \<noteq> [] \<and>
     length (fst kv) + length (snd kv) + 2 < 2 ^ 31"

lemma char_bytes:
  assumes "of_char c = (of_char d :: byte)" shows "c = d"
proof -
  have "bytes_of [c] = bytes_of [d]" unfolding bytes_of_def list.map assms ..
  then have "[c] = [d]" unfolding bytes_of_inj .
  then show ?thesis unfolding list.inject by (rule conjunct1)
qed

lemma bytes_colon:
  assumes "CHR 0x3A \<notin> set s" shows "58 \<notin> set (bytes_of s)"
proof
  assume "58 \<in> set (bytes_of s)"
  then obtain c where c: "c \<in> set s" "58 = (of_char c :: byte)" unfolding bytes_of_def set_map by (elim imageE)
  have "of_char c = (of_char (CHR 0x3A) :: byte)" unfolding c(2) [symmetric] by simp
  from char_bytes [OF this] c(1) assms show False by blast
qed

lemma text_pair_ok: "text_pair kv \<Longrightarrow> ok_pair (bytes_of (fst kv), bytes_of (snd kv))"
  using bytes_of_nul [of "fst kv"] bytes_colon [of "fst kv"] by (auto simp: text_pair_def ok_pair_def ok_key_def bytes_of_def)

lemma sent_pair_fits: "list_all sent_pair kvs \<Longrightarrow> list_all pair_fits (byte_pairs kvs)"
  using bytes_of_nul bytes_colon by (fastforce simp: list_all_iff sent_pair_def pair_fits_def ok_key_def bytes_of_def byte_pairs_def)

lemma text_pair_sent: "list_all text_pair kvs \<Longrightarrow> list_all sent_pair kvs"
  by (auto simp: list_all_iff text_pair_def sent_pair_def)

lemma received_stored:
  assumes "list_all sent_pair kvs" and "kvs \<noteq> []"
  shows "received kvs = Some (stored_items (byte_pairs kvs))"
proof -
  let ?p = "concat (map kv_frame (byte_pairs kvs))"
  obtain b where b: "packed kvs = Some b" and "b = \<lparr>chunk = map Some (?p @ [0]), chunk_size = int (length ?p) + 1, chunk_used = int (length ?p), parse_position = 0\<rparr>"
    using assms(2) by (simp add: packed_def Let_def)
  have ok: "list_all pair_fits (byte_pairs kvs)"
    by (rule sent_pair_fits [OF assms(1)])
  have "parser_loop (Suc (length kvs)) (rpc_buffer_rewind b) [] = Some (Inr ([] @ stored_items (byte_pairs kvs)))"
    by (rule parser_loop_ok [of _ "[]"])
       (use ok in \<open>simp_all add: \<open>b = _\<close> rpc_buffer_rewind_def buf_has_def mem_has_def byte_pairs_def\<close>)
  then show ?thesis by (simp add: received_def b rpc_parser_new_def)
qed

lemma req_get_received:
  assumes kvs: "list_all text_pair kvs" and k: "CHR 0x00 \<notin> set k" "CHR 0x3A \<notin> set k"
  shows "req_get (received kvs) k = map_option snd (find (\<lambda>kv. prefix k (fst kv)) kvs)"
proof (cases "kvs = []")
  case True
  then show ?thesis by (simp add: received_def packed_def rpc_parser_new_def req_get_def rpc_parser_get_def)
next
  case False
  have pre: "prefix (bytes_of k) (bytes_of x) \<longleftrightarrow> prefix k x" for x
  proof
    assume "prefix (bytes_of k) (bytes_of x)"
    then have "take (length k) (bytes_of x) = bytes_of k" by (auto simp: prefix_def bytes_of_def)
    then have "bytes_of (take (length k) x) = bytes_of k" by (simp add: bytes_of_def take_map)
    then show "prefix k x" unfolding bytes_of_inj by (metis take_is_prefix)
  qed (auto simp: prefix_def bytes_of_def)
  have "find (\<lambda>kv. prefix (bytes_of k) (fst kv)) (byte_pairs kvs) = map_option (\<lambda>(k, v). (bytes_of k, bytes_of v)) (find (\<lambda>kv. prefix k (fst kv)) kvs)"
    using pre by (induction kvs) (auto simp: byte_pairs_def)
  moreover have "ok_key (bytes_of k)" using bytes_of_nul [OF k(1)] bytes_colon [OF k(2)] by (simp add: ok_key_def)
  moreover have "list_all ok_pair (byte_pairs kvs)"
    using kvs text_pair_ok by (fastforce simp: byte_pairs_def list_all_iff)
  ultimately have "rpc_parser_get (received kvs) (Some (bytes_of k)) = map_option (bytes_of \<circ> snd) (find (\<lambda>kv. prefix k (fst kv)) kvs)"
    using parser_get_stored received_stored [OF text_pair_sent [OF kvs] False] by (auto simp: rpc_parser_get_def option.map_comp comp_def split_beta intro!: option.map_cong0)
  moreover have "string_of (takeWhile (\<lambda>b. b \<noteq> 0) (bytes_of (snd kv))) = snd kv" if "find (\<lambda>kv. prefix k (fst kv)) kvs = Some kv" for kv
    using value_string find_in [OF that] kvs by (auto simp: list_all_iff text_pair_def)
  ultimately show ?thesis by (cases "find (\<lambda>kv. prefix k (fst kv)) kvs") (simp_all add: req_get_def)
qed

section \<open>The service as the client's server\<close>

text \<open>The answer to a request over connection \<open>fd\<close> when the service is in state \<open>sv\<close>.\<close>

definition serve :: "req_env \<Rightarrow> int \<Rightarrow> service \<Rightarrow> mc_call" where
  "serve env fd sv c sc kvs =
     (case map_of (map (\<lambda>(c, sc, h). ((c, sc), h)) request_handlers) (c, sc) of
        None \<Rightarrow> None
      | Some h \<Rightarrow> (case handle h env fd (received kvs) sv of Inr (_, Some out) \<Rightarrow> received out | _ \<Rightarrow> None))"

lemma answer_get:
  assumes "list_all text_pair out" and "out \<noteq> []"
  obtains req where "received out = Some req"
    and "\<And>k. CHR 0x00 \<notin> set k \<Longrightarrow> CHR 0x3A \<notin> set k \<Longrightarrow> req_get (Some req) k = map_option snd (find (\<lambda>kv. prefix k (fst kv)) out)"
  using received_stored [OF text_pair_sent [OF assms(1)] assms(2)] req_get_received [OF assms(1)] by simp

lemma small_texts: "int_text 0 = ''0''" "int_text (-1) = ''-1''" "int_text 100 = ''100''" "int_text 200 = ''200''" "int_text 201 = ''201''"
    "int_text 300 = ''300''" "int_text 301 = ''301''" "c_atoi ''0'' = 0" "c_atoi ''1'' = 1" "c_atoi ''-1'' = -1"
  by code_simp+

lemma platform_text:
  assumes "valid_platform pid" shows "text_pair (''pid'', int_text pid)" and "length (int_text pid) < 8" and "c_atoi (int_text pid) = pid"
  using assms atoi_text [of pid] by (auto simp: valid_platform_def small_texts text_pair_def)

definition login_pairs :: "string \<Rightarrow> string \<Rightarrow> int \<Rightarrow> (string \<times> string) list" where
  "login_pairs u w pid = [(''uuid'', u), (''pwd'', w), (''pid'', int_text pid)]"

lemma login_pairs_request:
  assumes "valid_platform pid" and "text_pair (''uuid'', u)" and "text_pair (''pwd'', w)" and "length u \<le> 16" and "length w \<le> 16"
  shows "login_request (received (login_pairs u w pid)) u w"
proof -
  have "list_all text_pair (login_pairs u w pid)" using assms platform_text by (simp add: login_pairs_def)
  from req_get_received [OF this] show ?thesis
    using assms platform_text(3) [OF assms(1)] by (auto simp: login_request_def login_pairs_def)
qed

text \<open>
  C28. The client's login against the service, through packing and parsing: a wrong password
  gives \<open>mc_invalid_uuid_or_pwd\<close> and no session; with the right one, unless a conflicting session is
  in use, an administrator and a child account get a session with their role, the child with its
  administrator, and a heartbeat timer of 5 seconds.
\<close>

theorem client_login_end_to_end:
  assumes "quiet env (received (login_pairs u w pid)) sv" and "db_ready (sv_db sv)" and "keys_ok (sv_db sv)"
    and "valid_platform pid" and "text_pair (''uuid'', u)" and "text_pair (''pwd'', w)" and "length u \<le> 16" and "length w \<le> 16"
    and "account_gen_hash_key (en_stack env 0) w = Inr h" and "b \<in> set (users (sv_db sv))" and "ab_uuid b = u"
    and "has_admin (sv_db sv) u \<or> (find (\<lambda>c. ch_uuid c = u) (children (sv_db sv)) = Some c \<and> text_pair (''ref_admin_uuid'', ch_ref_admin_uuid c) \<and>
       length (ch_ref_admin_uuid c) < 16)"
    and "ref = (if has_admin (sv_db sv) u then [] else ch_ref_admin_uuid c)" and "\<not> conflict_busy (login_session env fd b ref (has_admin (sv_db sv) u)) sv"
  shows "mc_account_login (serve env fd sv) addr (Some u) (Some w) pid True tms =
    Inr (if ab_pwd b \<noteq> h then (tms, mc_invalid_uuid_or_pwd, None)
         else (timer_create addr 5000 False tms, mc_ok,
               Some \<lparr>ms_uuid = u, ms_b_is_admin = has_admin (sv_db sv) u, ms_ref_admin_uuid = ref, ms_auto_heartbeat = Some addr\<rparr>))"
proof -
  let ?req = "received (login_pairs u w pid)"
  have start: "mc_account_login (serve env fd sv) addr (Some u) (Some w) pid True tms =
      (case (case req_account_login env fd ?req sv of Inr (_, Some out) \<Rightarrow> received out | _ \<Rightarrow> None) of
         None \<Rightarrow> Inr (tms, mc_server_not_response, None)
       | Some req \<Rightarrow> mc_account_login (\<lambda>_ _ _. Some req) addr (Some u) (Some w) pid True tms)"
    using platform_text(2) [OF assms(4)]
    by (simp add: mc_account_login_def serve_def request_handlers_def login_pairs_def Let_def split: option.splits)
  note spec = login_spec_core [OF assms(1-3) login_pairs_request [OF assms(4-8)] assms(9-11), of fd]
  show ?thesis
  proof (cases "ab_pwd b = h")
    case False
    have "list_all text_pair [rid (-1)]" by (simp add: text_pair_def rid_def small_texts)
    from answer_get [OF this] obtain req where req: "received [rid (-1)] = Some req"
      and get: "\<And>k. CHR 0x00 \<notin> set k \<Longrightarrow> CHR 0x3A \<notin> set k \<Longrightarrow> req_get (Some req) k = map_option snd (find (\<lambda>kv. prefix k (fst kv)) [rid (-1)])"
      by blast
    have "req_get (Some req) ''rid'' = Some ''-1''" by (simp add: get rid_def small_texts)
    with req show ?thesis
      using start spec False platform_text(2) [OF assms(4)]
      by (simp add: answer_def mc_account_login_def check_rid_def small_texts)
  next
    case True
    let ?adm = "has_admin (sv_db sv) u"
    have "let_in env fd b ref ?adm sv (req_account_login env fd ?req sv)"
      using spec True assms(12,13) by (auto split: if_splits)
    then obtain s where out: "req_account_login env fd ?req sv = Inr (sv\<lparr>sv_sessions := s\<rparr>, Some (login_reply ref ?adm))"
      using assms(14) by (auto simp: let_in_def Let_def)
    have "list_all text_pair (login_reply ref ?adm)" and ne: "login_reply ref ?adm \<noteq> []"
      using assms(12,13) by (auto simp: login_reply_def rid_def small_texts bool_text_def text_pair_def)
    from answer_get [OF this] obtain req where req: "received (login_reply ref ?adm) = Some req"
      and get: "\<And>k. CHR 0x00 \<notin> set k \<Longrightarrow> CHR 0x3A \<notin> set k \<Longrightarrow> req_get (Some req) k = map_option snd (find (\<lambda>kv. prefix k (fst kv)) (login_reply ref ?adm))"
      by blast
    have "req_get (Some req) ''rid'' = Some ''0''" "req_get (Some req) ''is_admin'' = Some (bool_text ?adm)"
      "\<not> ?adm \<Longrightarrow> req_get (Some req) ''ref_admin_uuid'' = Some ref"
      by (simp_all add: get login_reply_def rid_def small_texts)
    then show ?thesis
      using start out req True platform_text(2) [OF assms(4)] assms(7,12,13)
      by (auto simp: mc_account_login_def check_rid_def small_texts bool_text_def Let_def)
  qed
qed

lemma login_quiet_demo: "quiet demo_env (received (login_pairs ''kid'' ''pw'' 100)) demo_service"
proof -
  let ?kvs = "login_pairs ''kid'' ''pw'' 100"
  have ok: "list_all text_pair ?kvs" and vals: "\<forall>kv\<in>set ?kvs. no_quote (snd kv)"
    by (simp_all add: login_pairs_def text_pair_def small_texts no_quote_def)
  have "no_quote v" if v: "req_get (received ?kvs) k = Some v" for k v
  proof -
    obtain items where r: "received ?kvs = Some items" and items: "items = stored_items (byte_pairs ?kvs)"
      using received_stored [OF text_pair_sent [OF ok]] by (simp add: login_pairs_def)
    have "parser_get_loop its q = Some bs \<Longrightarrow> \<exists>it\<in>set its. req_value it = Some bs" for its q bs
      by (induction its) (auto split: if_splits)
    then obtain it bs where it: "it \<in> set items" "req_value it = Some bs" and v': "v = string_of (takeWhile (\<lambda>b. b \<noteq> 0) bs)"
      using v unfolding r req_get_def rpc_parser_get_def by force
    have "it \<in> set (stored_items kvs) \<Longrightarrow> req_value it = Some bs \<Longrightarrow> bs \<in> snd ` set kvs" for kvs
      by (induction kvs) (auto split: if_splits)
    from this [OF it(1) [unfolded items] it(2)] obtain kv where "kv \<in> set ?kvs" "bs = bytes_of (snd kv)"
      unfolding byte_pairs_def by (auto simp only: set_map image_iff split_beta snd_conv)
    then have "v = snd kv" using v' value_string ok by (auto simp: list_all_iff text_pair_def)
    then show ?thesis using vals \<open>kv \<in> _\<close> by simp
  qed
  then show ?thesis using demo_quiet [of "[]"] by (simp add: quiet_def)
qed

theorem client_login_end_to_end_witness:
  "mc_account_login (serve demo_env 6 demo_service) 3 (Some ''kid'') (Some ''pw'') 100 True
       \<lparr>timer_list = [], timer_list_inited = True, timer_stop_sign = False, timer_tickfps = 100\<rparr> =
     Inr (timer_create 3 5000 False \<lparr>timer_list = [], timer_list_inited = True, timer_stop_sign = False, timer_tickfps = 100\<rparr>, mc_ok,
          Some \<lparr>ms_uuid = ''kid'', ms_b_is_admin = False, ms_ref_admin_uuid = ''boss'', ms_auto_heartbeat = Some 3\<rparr>)"
proof -
  let ?b = "(demo_user ''kid'')\<lparr>ab_pwd := string_of (hash_digits ''pw'')\<rparr>"
  have adm: "\<not> has_admin (sv_db demo_service) ''kid''" by (simp add: has_admin_def demo_service_views)
  have free: "\<not> conflict_busy (login_session demo_env 6 ?b ''boss'' False) demo_service"
    by (simp add: conflict_busy_def demo_service_def)
  show ?thesis
    using client_login_end_to_end [OF login_quiet_demo demo_service_ok(1) demo_keys _ _ _ _ _ demo_env_hash [of 0], of ?b "\<lparr>ch_uuid = ''kid'', ch_ref_admin_uuid = ''boss''\<rparr>" "''boss''" 6 3 "\<lparr>timer_list = [], timer_list_inited = True, timer_stop_sign = False, timer_tickfps = 100\<rparr>"]
      adm free
    by (simp add: valid_platform_def text_pair_def demo_service_views demo_user_def)
qed

section \<open>The lists of the client\<close>

lemma stored_key_colon:
  assumes "list_all pair_fits kvs" and "it \<in> set (stored_items kvs)"
  shows "CHR 0x3A \<in> set (string_of (req_key it))"
proof -
  have "58 \<in> set (req_key it)"
    using assms
  proof (induction kvs)
    case (Cons kv kvs)
    have "takeWhile (\<lambda>b. b \<noteq> 0) (fst kv @ divide @ x) = fst kv @ takeWhile (\<lambda>b. b \<noteq> 0) (divide @ x)" for x
      using Cons.prems(1) by (intro takeWhile_append2) (auto simp: pair_fits_def ok_key_def)
    then show ?case using Cons by (auto simp: divide_def)
  qed simp
  then have "char_of (unat (58 :: byte)) \<in> set (string_of (req_key it))" unfolding string_of_def set_map by (rule imageI)
  moreover have "char_of (unat (58 :: byte)) = CHR 0x3A" by code_simp
  ultimately show ?thesis by (simp only:)
qed

lemma item_loop_skip: "\<forall>it\<in>set its. \<forall>s. f it s = Inr s \<Longrightarrow> item_loop f its s = Inr s"
  by (induction its) (auto simp del: split_paired_All)

lemma account_item_colon:
  assumes "CHR 0x3A \<in> set (string_of (req_key it))" shows "account_item own it s = Inr s"
proof -
  have "string_of (req_key it) \<noteq> k" if "CHR 0x3A \<notin> set k" for k using assms that by auto
  then show ?thesis by (simp add: account_item_def Let_def)
qed

lemma device_item_colon:
  assumes "CHR 0x3A \<in> set (string_of (req_key it))" shows "device_item it s = Inr s"
proof -
  have "string_of (req_key it) \<noteq> k" if "CHR 0x3A \<notin> set k" for k using assms that by auto
  then show ?thesis by (simp add: device_item_def Let_def)
qed

text \<open>
  C29. The client never gets a list: the keys of a parsed answer run on behind the colon and
  equal none of the names they are compared with, so for every answer that reports success and a positive
  count (below \<open>2 ^ 29\<close>, so that there is memory for the array), with whatever other pairs, empty values
  included, both list functions return success with an array of null pointers, which the function that
  should free it refuses.
\<close>

theorem client_lists_are_null:
  assumes "list_all sent_pair out" and "received out = Some req"
    and "check_rid req ''rid'' = 0" and "check_rid req ''count'' = n" and "0 < n" and "n < 2 ^ 29"
  shows "mc_account_list (\<lambda>_ _ _. received out) (Some s) True = Inr (mc_ok, Some (replicate (nat n) None), n) \<and>
    mc_device_list (\<lambda>_ _ _. received out) (Some s) True = Inr (mc_ok, Some (replicate (nat n) None), n) \<and>
    mc_account_list_free (Some (replicate (nat n) None)) n = Inr mc_syntax_error \<and>
    mc_device_list_free (Some (replicate (nat n) None)) n = Inr mc_syntax_error"
proof -
  have "out \<noteq> []" using assms(2) by (auto simp: received_def packed_def rpc_parser_new_def)
  then have req: "req = stored_items (byte_pairs out)" using received_stored [OF assms(1)] assms(2) by simp
  have "list_all pair_fits (byte_pairs out)" by (rule sent_pair_fits [OF assms(1)])
  then have colon: "\<forall>it\<in>set req. CHR 0x3A \<in> set (string_of (req_key it))" using stored_key_colon unfolding req by blast
  have "item_loop (account_item own) req x = Inr x" "item_loop device_item req y = Inr y" for own x y
    using colon account_item_colon device_item_colon by (simp_all add: item_loop_skip)
  moreover obtain m where "nat n = Suc m" using assms(5) by (metis gr0_implies_Suc zero_less_nat_eq)
  moreover have "n * 4 mod 2 ^ 32 = n * 4" using assms(5,6) by simp
  ultimately show ?thesis
    using assms(2-6) by (simp add: mc_account_list_def mc_device_list_def list_answer_def mc_account_list_free_def mc_device_list_free_def)
qed

theorem client_lists_are_null_witness:
  "mc_account_list (\<lambda>_ _ _. received [(''rid'', ''0''), (''count'', ''1''), (''uuid'', ''kid''), (''nickname'', []), (''port'', ''4000'')])
     (Some \<lparr>ms_uuid = ''boss'', ms_b_is_admin = True, ms_ref_admin_uuid = [], ms_auto_heartbeat = None\<rparr>) True = Inr (mc_ok, Some [None], 1)"
proof -
  let ?out = "[(''rid'', ''0''), (''count'', ''1''), (''uuid'', ''kid''), (''nickname'', []), (''port'', ''4000'')]"
  have ok: "list_all sent_pair ?out" by (simp add: sent_pair_def)
  obtain req where req: "received ?out = Some req" "req = stored_items (byte_pairs ?out)"
    using received_stored [OF ok] by simp
  have "req_get (Some req) ''rid'' = Some ''0''" "req_get (Some req) ''count'' = Some ''1''"
    unfolding req(2) by code_simp+
  then have "check_rid req ''rid'' = 0" "check_rid req ''count'' = 1" by (simp_all add: check_rid_def small_texts)
  from client_lists_are_null [OF ok req(1) this] show ?thesis by simp
qed

end
