(* ===== verification/Rsa.thy ===== *)
theory Rsa
  imports Prelude
begin

unbundle bit_operations_syntax

text \<open>
  \<open>utils/rsa.c\<close>: verification of a 2048 bit RSA signature with exponent 3 by
  Montgomery multiplication on arrays of 64 words of 32 bits. An array is a list of
  words, least significant first; a C loop over an array is a fold over its indices
  with the machine arithmetic of the source: 64 bit sums, conversions that cut to 32
  bits, and the signed borrow of \<open>subM\<close>. \<open>bn\<close> gives the number an array stands
  for; the lemmas carry it through every routine, and the theorem says which
  signatures \<open>RSA_verify\<close> accepts.
\<close>

section \<open>The routines\<close>

record RSAPublicKey =
  rsa_len :: int
  n0inv :: u32
  rsa_n :: "u32 list"
  rsa_rr :: "u32 list"

definition RSANUMBYTES :: int where
  "RSANUMBYTES = 256"

definition RSANUMWORDS :: int where
  "RSANUMWORDS = RSANUMBYTES div 4"

text \<open>The borrow \<open>A\<close> is an \<open>int64_t\<close>: its shift keeps the sign.\<close>

fun subM_step :: "u32 list \<Rightarrow> nat \<Rightarrow> u64 \<times> u32 list \<Rightarrow> u64 \<times> u32 list" where
  "subM_step n i (A, a) =
     (let A = A + (ucast (a ! i) - ucast (n ! i))
      in (signed_drop_bit 32 A, a[i := ucast A]))"

definition subM :: "RSAPublicKey \<Rightarrow> u32 list \<Rightarrow> u32 list" where
  "subM key a = snd (fold (subM_step (rsa_n key)) [0..<nat (rsa_len key)] (0, a))"

primrec geM_loop :: "u32 list \<Rightarrow> u32 list \<Rightarrow> nat \<Rightarrow> bool" where
  "geM_loop n a 0 = True"
| "geM_loop n a (Suc i) =
     (if a ! i < n ! i then False else if n ! i < a ! i then True else geM_loop n a i)"

definition geM :: "RSAPublicKey \<Rightarrow> u32 list \<Rightarrow> bool" where
  "geM key a = geM_loop (rsa_n key) a (nat (rsa_len key))"

fun mont_step :: "u32 list \<Rightarrow> u32 \<Rightarrow> u32 \<Rightarrow> u32 list \<Rightarrow> nat \<Rightarrow> u64 \<times> u64 \<times> u32 list \<Rightarrow> u64 \<times> u64 \<times> u32 list" where
  "mont_step n a d0 b i (A, B, c) =
     (let A = drop_bit 32 A + ucast a * ucast (b ! i) + ucast (c ! i);
          B = drop_bit 32 B + ucast d0 * ucast (n ! i) + ucast (ucast A :: u32)
      in (A, B, c[i - 1 := ucast B]))"

definition montMulAdd :: "RSAPublicKey \<Rightarrow> u32 list \<Rightarrow> u32 \<Rightarrow> u32 list \<Rightarrow> u32 list" where
  "montMulAdd key c a b =
     (let A = ucast a * ucast (b ! 0) + ucast (c ! 0) :: u64;
          d0 = ucast A * n0inv key :: u32;
          B = ucast d0 * ucast (rsa_n key ! 0) + ucast (ucast A :: u32) :: u64;
          (A, B, c) = fold (mont_step (rsa_n key) a d0 b) [1..<nat (rsa_len key)] (A, B, c);
          A = drop_bit 32 A + drop_bit 32 B;
          c = c[nat (rsa_len key) - 1 := ucast A]
      in if drop_bit 32 A \<noteq> 0 then subM key c else c)"

definition montMul :: "RSAPublicKey \<Rightarrow> u32 list \<Rightarrow> u32 list \<Rightarrow> u32 list" where
  "montMul key a b =
     fold (\<lambda>i c. montMulAdd key c (a ! i) b) [0..<nat (rsa_len key)] (replicate (nat (rsa_len key)) 0)"

definition modpow3 :: "RSAPublicKey \<Rightarrow> byte list \<Rightarrow> byte list" where
  "modpow3 key inout =
     (let l = nat (rsa_len key);
          a = map (\<lambda>i. be32_dec (take 4 (drop ((l - 1 - i) * 4) inout))) [0..<l];
          aR = montMul key a (rsa_rr key);
          aaR = montMul key aR aR;
          aaa = montMul key aaR a;
          aaa = (if geM key aaa then subM key aaa else aaa)
      in concat (map (\<lambda>i. be32_enc (aaa ! i)) (rev [0..<l])))"

definition rsa_padding :: "byte list" where
  "rsa_padding = [0x00, 0x01] @ replicate 218 0xff @
     [0x00, 0x30, 0x21, 0x30, 0x09, 0x06, 0x05, 0x2b, 0x0e, 0x03, 0x02, 0x1a, 0x05, 0x00, 0x04, 0x14]"

fun digest_matches :: "byte list \<Rightarrow> byte list \<Rightarrow> int res" where
  "digest_matches [] sha = Inr 1"
| "digest_matches (b # buf) [] = Inl OutOfBounds"
| "digest_matches (b # buf) (s # sha) = (if b \<noteq> s then Inr 0 else digest_matches buf sha)"

definition RSA_verify :: "RSAPublicKey \<Rightarrow> byte list \<Rightarrow> int \<Rightarrow> byte list \<Rightarrow> int res" where
  "RSA_verify key signature len sha =
     (if rsa_len key \<noteq> RSANUMWORDS then Inr 0
      else if len \<noteq> RSANUMBYTES then Inr 0
      else if int (length signature) < len then Inl OutOfBounds
      else let buf = modpow3 key (take (nat len) signature)
           in if take (length rsa_padding) buf \<noteq> rsa_padding then Inr 0
              else digest_matches (drop (length rsa_padding) buf) sha)"

section \<open>Numbers\<close>

text \<open>The value of an array of words, least significant first, and of bytes, most significant first.\<close>

primrec bn :: "u32 list \<Rightarrow> int" where
  "bn [] = 0"
| "bn (w # ws) = uint w + 2 ^ 32 * bn ws"

definition be_val :: "byte list \<Rightarrow> int" where
  "be_val bs = foldl (\<lambda>v b. 2 ^ 8 * v + uint b) 0 bs"

text \<open>
  What \<open>rsa.h\<close> says of a key: \<open>n0inv\<close> is \<open>-1 / n[0]\<close> modulo \<open>2\<^sup>3\<^sup>2\<close> and
  \<open>rr\<close> is \<open>R\<^sup>2\<close> modulo \<open>n\<close>, for \<open>R = 2\<^sup>2\<^sup>0\<^sup>4\<^sup>8\<close>.
\<close>

definition rsa_key_ok :: "RSAPublicKey \<Rightarrow> bool" where
  "rsa_key_ok key \<longleftrightarrow> rsa_len key = 64 \<and> length (rsa_n key) = 64 \<and> length (rsa_rr key) = 64 \<and>
     n0inv key * rsa_n key ! 0 = - 1 \<and>
     bn (rsa_rr key) mod bn (rsa_n key) = (2 ^ 2048) ^ 2 mod bn (rsa_n key)"

lemma bn_append: "bn (xs @ ys) = bn xs + 2 ^ (32 * length xs) * bn ys"
  by (induction xs) (simp_all add: algebra_simps power_add)

lemma bn_bounds: "0 \<le> bn xs \<and> bn xs < 2 ^ (32 * length xs)"
proof (induction xs)
  case (Cons w ws)
  have w: "uint w \<le> 2 ^ 32 - 1" "0 \<le> uint w"
    using uint_bounded [of w] by simp_all
  have "2 ^ 32 * bn ws \<le> 2 ^ 32 * (2 ^ (32 * length ws) - 1)"
    using Cons by (intro mult_left_mono) simp_all
  then show ?case
    using w Cons by (simp add: power_add algebra_simps)
qed simp

lemma bn_take_Suc:
  "i < length xs \<Longrightarrow> bn (take (Suc i) xs) = bn (take i xs) + 2 ^ (32 * i) * uint (xs ! i)"
  by (simp add: take_Suc_conv_app_nth bn_append min_def)

lemma bn_replicate [simp]: "bn (replicate k 0) = 0"
  by (induction k) simp_all

lemma uint_u32: "uint (w :: u32) < 4294967296" "0 \<le> uint w"
  using uint_bounded [of w] by simp_all

lemma uint_low: "uint (ucast (A :: u64) :: u32) = uint A mod 2 ^ 32"
  by (simp add: unsigned_ucast_eq take_bit_eq_mod)

lemma uint_high: "uint (drop_bit 32 (A :: u64)) = uint A div 2 ^ 32"
proof -
  have "uint (drop_bit 32 A) = drop_bit 32 (uint A)"
    using uint_bounded [of A] by (simp add: unsigned_drop_bit_eq take_bit_int_eq_self)
  then show ?thesis by (simp only: drop_bit_eq_div)
qed

lemma uint_wide: "uint (ucast (w :: u32) :: u64) = uint w"
proof -
  have "uint w < 2 ^ 64"
    by (rule order.strict_trans [OF uint_u32(1)]) simp
  then show ?thesis by (simp add: unsigned_ucast_eq take_bit_int_eq_self)
qed

text \<open>A multiply and add with carry never leaves 64 bits.\<close>

lemma mac_bound:
  assumes "0 \<le> x" "x \<le> 2 ^ 32 - 1" "0 \<le> y" "y \<le> 2 ^ 32 - 1" "0 \<le> h" "h \<le> 2 ^ 32 - 1" "0 \<le> z" "z \<le> (2 :: int) ^ 32 - 1"
  shows "0 \<le> h + x * y + z" and "h + x * y + z < 2 ^ 64"
proof -
  have "0 \<le> x * y" "x * y \<le> (2 ^ 32 - 1) * (2 ^ 32 - 1)"
    using assms(1-4) mult_mono [of x "2 ^ 32 - 1" y "2 ^ 32 - 1"] by simp_all
  then show "0 \<le> h + x * y + z" and "h + x * y + z < 2 ^ 64"
    using assms(5-8) by simp_all
qed

lemma uint_mac:
  "uint (drop_bit 32 H + ucast x * ucast y + ucast (z :: u32) :: u64) =
     uint H div 2 ^ 32 + uint (x :: u32) * uint (y :: u32) + uint z"
proof -
  let ?v = "uint H div 2 ^ 32 + uint x * uint y + uint z"
  have "0 \<le> uint H" "uint H < 2 ^ 64"
    using uint_bounded [of H] by simp_all
  then have "0 \<le> uint H div 2 ^ 32" "uint H div 2 ^ 32 \<le> 2 ^ 32 - 1"
    by (simp_all add: pos_imp_zdiv_nonneg_iff)
  then have b: "0 \<le> ?v" "?v < 2 ^ 64"
    using mac_bound [of "uint x" "uint y" "uint H div 2 ^ 32" "uint z"] uint_u32 [of x] uint_u32 [of y] uint_u32 [of z]
    by simp_all
  have "uint (drop_bit 32 H + ucast x * ucast y + ucast z :: u64) = ?v mod 2 ^ 64"
    by (simp add: uint_word_ariths uint_high uint_wide mod_simps)
  then show ?thesis
    using b by simp
qed

lemma uint_mac0: "uint (ucast x * ucast y + ucast (z :: u32) :: u64) = uint (x :: u32) * uint (y :: u32) + uint z"
  using uint_mac [of 0 x y z] by simp

text \<open>A number at limb \<open>k\<close>, split into its low word and the carry into the next limb.\<close>

lemma limb_split: "2 ^ (32 * k) * x = 2 ^ (32 * Suc k) * (x div 2 ^ 32) + 2 ^ (32 * k) * (x mod (2 :: int) ^ 32)"
proof -
  have "2 ^ (32 * k) * x = 2 ^ (32 * k) * (2 ^ 32 * (x div 2 ^ 32) + x mod 2 ^ 32)"
    by (simp only: mult_div_mod_eq)
  then show ?thesis
    by (simp only: distrib_left mult_Suc_right power_add mult.assoc mult.left_commute)
qed

text \<open>\<open>subM\<close> subtracts the modulus; what does not fit is a borrow out of the array.\<close>

lemma borrow_range:
  fixes b x y :: int
  assumes "0 \<le> x" "x < 2 ^ 32" "0 \<le> y" "y < 2 ^ 32" "b = - 1 \<or> b = 0"
  shows "- (2 ^ 63) \<le> b + x - y" "b + x - y < 2 ^ 63"
    and "(b + x - y) div 2 ^ 32 = - 1 \<or> (b + x - y) div 2 ^ 32 = 0"
proof -
  have r: "- (2 ^ 32) \<le> b + x - y" "b + x - y < 2 ^ 32"
    using assms by auto
  then show "- (2 ^ 63) \<le> b + x - y" "b + x - y < 2 ^ 63"
    by simp_all
  show "(b + x - y) div 2 ^ 32 = - 1 \<or> (b + x - y) div 2 ^ 32 = 0"
  proof (cases "b + x - y < 0")
    case True
    then have "(b + x - y + 2 ^ 32) div 2 ^ 32 = 0"
      using r by (intro div_pos_pos_trivial) simp_all
    moreover have "(b + x - y + 2 ^ 32) div 2 ^ 32 = (b + x - y) div 2 ^ 32 + 1"
      by (rule div_add_self2) simp
    ultimately show ?thesis by simp
  next
    case False
    then show ?thesis using r by simp
  qed
qed

lemma borrow_step:
  fixes A :: u64 and x y :: u32
  assumes "sint A = - 1 \<or> sint A = 0"
  defines "S \<equiv> sint A + uint x - uint y"
  shows "uint (ucast (A + (ucast x - ucast y)) :: u32) = S mod 2 ^ 32"
    and "sint (signed_drop_bit 32 (A + (ucast x - ucast y))) = S div 2 ^ 32"
proof -
  let ?A = "A + (ucast x - ucast y)"
  have r: "- (2 ^ 63) \<le> S" "S < 2 ^ 63"
    using borrow_range(1,2) [of "uint x" "uint y"] uint_bounded [of x] uint_bounded [of y] assms(1)
    unfolding S_def by simp_all
  have "?A = word_of_int S"
    by (simp add: S_def)
  then have s: "sint ?A = S"
    using r by (simp add: sint_sbintrunc' signed_take_bit_int_eq_self)
  then show "sint (signed_drop_bit 32 ?A) = S div 2 ^ 32"
    by (simp only: sint_signed_drop_bit_eq drop_bit_eq_div)
  have "uint ?A = S mod 2 ^ 64"
    using \<open>?A = word_of_int S\<close> by (simp add: uint_word_of_int)
  then show "uint (ucast ?A :: u32) = S mod 2 ^ 32"
    by (simp add: uint_low mod_mod_cancel)
qed

lemma subM_loop:
  assumes "k \<le> length a" and "length n = length a"
  shows "\<exists>A a'. fold (subM_step n) [0..<k] (0, a) = (A, a') \<and> (sint A = - 1 \<or> sint A = 0) \<and>
    length a' = length a \<and> drop k a' = drop k a \<and>
    bn (take k a') + 2 ^ (32 * k) * sint A = bn (take k a) - bn (take k n)"
  using assms(1)
proof (induction k)
  case (Suc k)
  then obtain A a' where st: "fold (subM_step n) [0..<k] (0, a) = (A, a')"
    and A: "sint A = - 1 \<or> sint A = 0" and len: "length a' = length a"
    and same: "drop k a' = drop k a"
    and val: "bn (take k a') + 2 ^ (32 * k) * sint A = bn (take k a) - bn (take k n)"
    by auto
  let ?A = "A + (ucast (a' ! k) - ucast (n ! k))"
  define S where "S = sint A + uint (a' ! k) - uint (n ! k)"
  have k: "a' ! k = a ! k"
    using same Suc.prems len by (metis Cons_nth_drop_Suc Suc_le_lessD list.inject)
  have "S div 2 ^ 32 = - 1 \<or> S div 2 ^ 32 = 0"
    using borrow_range(3) [of "uint (a' ! k)" "uint (n ! k)"] uint_bounded [of "a' ! k"] uint_bounded [of "n ! k"] A
    unfolding S_def by simp
  moreover have "drop (Suc k) (a'[k := ucast ?A]) = drop (Suc k) a"
    using same by (metis Suc_eq_plus1_left drop_drop drop_update_cancel lessI)
  moreover have "bn (take (Suc k) (a'[k := ucast ?A])) = bn (take k a') + 2 ^ (32 * k) * (S mod 2 ^ 32)"
    using Suc.prems len borrow_step(1) [OF A] by (simp add: bn_take_Suc S_def)
  moreover have "2 ^ (32 * k) * S = 2 ^ (32 * Suc k) * (S div 2 ^ 32) + 2 ^ (32 * k) * (S mod 2 ^ 32)"
    by (rule limb_split)
  ultimately show ?case
    using st A len val Suc.prems assms(2) borrow_step(2) [OF A, of "a' ! k" "n ! k"]
    by (simp add: Let_def bn_take_Suc k S_def algebra_simps)
qed simp

lemma subM_value:
  assumes "length a = nat (rsa_len key)" and "length (rsa_n key) = nat (rsa_len key)"
  shows "length (subM key a) = length a"
    and "bn (subM key a) = (bn a - bn (rsa_n key)) mod 2 ^ (32 * length a)"
proof -
  obtain A a' where st: "fold (subM_step (rsa_n key)) [0..<length a] (0, a) = (A, a')"
    and len: "length a' = length a"
    and val: "bn a' + 2 ^ (32 * length a) * sint A = bn a - bn (rsa_n key)"
    using subM_loop [of "length a" a "rsa_n key"] assms by auto
  have s: "subM key a = a'"
    using st assms(1) by (simp add: subM_def)
  show "length (subM key a) = length a"
    using s len by simp
  have "(bn a' + 2 ^ (32 * length a) * sint A) mod 2 ^ (32 * length a) = bn a'"
    using bn_bounds [of a'] len by simp
  then show "bn (subM key a) = (bn a - bn (rsa_n key)) mod 2 ^ (32 * length a)"
    using s val by simp
qed

lemma geM_loop_value:
  "k \<le> length a \<Longrightarrow> length n = length a \<Longrightarrow> geM_loop n a k \<longleftrightarrow> bn (take k n) \<le> bn (take k a)"
proof (induction k)
  case (Suc k)
  let ?P = "(2 :: int) ^ (32 * k)"
  have lo: "0 \<le> bn (take k a)" "bn (take k a) < ?P" "0 \<le> bn (take k n)" "bn (take k n) < ?P"
    using bn_bounds [of "take k a"] bn_bounds [of "take k n"] Suc.prems by (simp_all add: min_def)
  have hi: "?P * uint v + ?P \<le> ?P * uint w" if "v < w" for v w :: u32
  proof -
    have "?P * (uint v + 1) \<le> ?P * uint w"
      using that by (intro mult_left_mono) (simp_all add: word_less_def)
    then show ?thesis by (simp add: algebra_simps)
  qed
  show ?case
    using Suc lo hi [of "a ! k" "n ! k"] hi [of "n ! k" "a ! k"]
    by (auto simp: bn_take_Suc dest: antisym_conv3)
qed simp

lemma geM_value:
  "length a = nat (rsa_len key) \<Longrightarrow> length (rsa_n key) = length a \<Longrightarrow> geM key a \<longleftrightarrow> bn (rsa_n key) \<le> bn a"
  using geM_loop_value [of "length a" a "rsa_n key"] by (simp add: geM_def)

section \<open>Montgomery multiplication\<close>

text \<open>
  After \<open>k + 1\<close> limbs the sum of the three rows is the part of \<open>c\<close> written so far, one
  limb up, and the two carries; the limbs not yet visited are unchanged.
\<close>

lemma mont_first:
  fixes a :: u32 and b c :: "u32 list" and key :: RSAPublicKey
  assumes "n0inv key * rsa_n key ! 0 = - 1"
  defines "A \<equiv> ucast a * ucast (b ! 0) + ucast (c ! 0) :: u64"
  defines "d0 \<equiv> ucast A * n0inv key :: u32"
  defines "B \<equiv> ucast d0 * ucast (rsa_n key ! 0) + ucast (ucast A :: u32) :: u64"
  shows "uint (c ! 0) + uint a * uint (b ! 0) + uint d0 * uint (rsa_n key ! 0) =
    2 ^ 32 * (uint A div 2 ^ 32 + uint B div 2 ^ 32)"
proof -
  have B: "uint B = uint d0 * uint (rsa_n key ! 0) + uint (ucast A :: u32)"
    unfolding B_def by (rule uint_mac0)
  have "uint (d0 * rsa_n key ! 0 + ucast A) = uint B mod 2 ^ 32"
    unfolding B by (simp add: uint_word_ariths mod_simps)
  moreover have "d0 * rsa_n key ! 0 + ucast A = 0"
    using assms(1) by (simp add: d0_def mult.assoc)
  ultimately have "uint B mod 2 ^ 32 = 0"
    by simp
  moreover have "uint A = uint a * uint (b ! 0) + uint (c ! 0)"
    unfolding A_def by (rule uint_mac0)
  moreover have "uint B = uint d0 * uint (rsa_n key ! 0) + uint A mod 2 ^ 32"
    using B by (simp only: uint_low)
  moreover have "uint A = 2 ^ 32 * (uint A div 2 ^ 32) + uint A mod 2 ^ 32"
    and "uint B = 2 ^ 32 * (uint B div 2 ^ 32) + uint B mod 2 ^ 32"
    by (simp_all only: mult_div_mod_eq)
  ultimately show ?thesis unfolding distrib_left by linarith
qed

lemma mont_loop:
  fixes A0 B0 :: u64 and a d0 :: u32
  assumes "length n = length c" and "length b = length c" and "Suc k \<le> length c"
    and "uint (c ! 0) + uint a * uint (b ! 0) + uint d0 * uint (n ! 0) =
      2 ^ 32 * (uint A0 div 2 ^ 32 + uint B0 div 2 ^ 32)"
  shows "\<exists>A B c'. fold (mont_step n a d0 b) [1..<Suc k] (A0, B0, c) = (A, B, c') \<and>
    length c' = length c \<and> drop k c' = drop k c \<and>
    bn (take (Suc k) c) + uint a * bn (take (Suc k) b) + uint d0 * bn (take (Suc k) n) =
      2 ^ 32 * bn (take k c') + 2 ^ (32 * Suc k) * (uint A div 2 ^ 32 + uint B div 2 ^ 32)"
  using assms(3)
proof (induction k)
  case 0
  then show ?case
    using assms bn_take_Suc [of 0 c] bn_take_Suc [of 0 b] bn_take_Suc [of 0 n]
    by (cases "c = []") simp_all
next
  case (Suc k)
  then obtain A B c' where st: "fold (mont_step n a d0 b) [1..<Suc k] (A0, B0, c) = (A, B, c')"
    and len: "length c' = length c" and same: "drop k c' = drop k c"
    and val: "bn (take (Suc k) c) + uint a * bn (take (Suc k) b) + uint d0 * bn (take (Suc k) n) =
      2 ^ 32 * bn (take k c') + 2 ^ (32 * Suc k) * (uint A div 2 ^ 32 + uint B div 2 ^ 32)"
    by auto
  have ck: "c' ! Suc k = c ! Suc k"
    using same len Suc.prems by (metis Suc_leD add_Suc_right nth_drop add.commute le_add2 plus_1_eq_Suc)
  define A' where "A' = drop_bit 32 A + ucast a * ucast (b ! Suc k) + ucast (c' ! Suc k)"
  define B' where "B' = drop_bit 32 B + ucast d0 * ucast (n ! Suc k) + ucast (ucast A' :: u32)"
  have A': "uint A' = uint A div 2 ^ 32 + uint a * uint (b ! Suc k) + uint (c ! Suc k)"
    unfolding A'_def ck by (rule uint_mac)
  have B': "uint B' = uint B div 2 ^ 32 + uint d0 * uint (n ! Suc k) + uint A' mod 2 ^ 32"
    unfolding B'_def uint_mac by (simp add: uint_low)
  let ?P = "(2 :: int) ^ (32 * Suc k)"
  have split: "?P * (uint A' + uint B' - uint A' mod 2 ^ 32) =
      2 ^ (32 * Suc (Suc k)) * (uint A' div 2 ^ 32 + uint B' div 2 ^ 32) + ?P * (uint B' mod 2 ^ 32)"
    using limb_split [of "Suc k" "uint A'"] limb_split [of "Suc k" "uint B'"] by (simp add: algebra_simps)
  have "fold (mont_step n a d0 b) [1..<Suc (Suc k)] (A0, B0, c) = (A', B', c'[k := ucast B'])"
    using st by (simp add: Let_def A'_def B'_def)
  moreover have "drop (Suc k) (c'[k := ucast B']) = drop (Suc k) c"
    using same by (metis Suc_eq_plus1_left drop_drop drop_update_cancel lessI)
  moreover have "2 ^ 32 * bn (take (Suc k) (c'[k := ucast B'])) = 2 ^ 32 * bn (take k c') + ?P * (uint B' mod 2 ^ 32)"
    using Suc.prems len by (simp add: bn_take_Suc uint_low power_add algebra_simps)
  moreover have "bn (take (Suc (Suc k)) c) + uint a * bn (take (Suc (Suc k)) b) + uint d0 * bn (take (Suc (Suc k)) n) =
      2 ^ 32 * bn (take k c') + ?P * (uint A' + uint B' - uint A' mod 2 ^ 32)"
  proof -
    let ?r = "uint (c ! Suc k) + uint a * uint (b ! Suc k) + uint d0 * uint (n ! Suc k)"
    have "uint A' + uint B' - uint A' mod 2 ^ 32 = uint A div 2 ^ 32 + uint B div 2 ^ 32 + ?r"
      using A' B' by linarith
    moreover have "bn (take (Suc (Suc k)) c) + uint a * bn (take (Suc (Suc k)) b) + uint d0 * bn (take (Suc (Suc k)) n) =
        bn (take (Suc k) c) + uint a * bn (take (Suc k) b) + uint d0 * bn (take (Suc k) n) + ?P * ?r"
      using Suc.prems assms(1,2) by (simp add: bn_take_Suc algebra_simps)
    ultimately show ?thesis
      unfolding val by (simp only: distrib_left add.assoc)
  qed
  ultimately show ?case
    using len split by simp
qed

lemma row_bound:
  fixes c b n R x d T :: int
  assumes "c < R" "0 \<le> b" "b < R" "0 \<le> n" "0 \<le> x" "x < 2 ^ 32" "0 \<le> d" "d < 2 ^ 32"
    and "2 ^ 32 * T = c + x * b + d * n"
  shows "T < R + n"
proof -
  have "x * b \<le> (2 ^ 32 - 1) * b" "(2 ^ 32 - 1) * b \<le> (2 ^ 32 - 1) * R" "d * n \<le> (2 ^ 32 - 1) * n"
    using assms by (auto intro: mult_right_mono)
  then have "2 ^ 32 * T < 2 ^ 32 * (R + n)"
    using assms(1,4,9) by simp
  then show ?thesis by simp
qed

lemma montMulAdd_value:
  assumes key: "length c = nat (rsa_len key)" "length (rsa_n key) = length c" "length b = length c" "c \<noteq> []"
    and inv: "n0inv key * rsa_n key ! 0 = - 1"
  shows "length (montMulAdd key c a b) = length c \<and>
    (\<exists>d < 2 ^ 32. 2 ^ 32 * bn (montMulAdd key c a b) = bn c + uint a * bn b + d * bn (rsa_n key))"
proof -
  define A0 :: u64 where "A0 = ucast a * ucast (b ! 0) + ucast (c ! 0)"
  define d0 :: u32 where "d0 = ucast A0 * n0inv key"
  define B0 :: u64 where "B0 = ucast d0 * ucast (rsa_n key ! 0) + ucast (ucast A0 :: u32)"
  obtain k where k: "length c = Suc k"
    using key(4) by (cases c) auto
  then have l: "nat (rsa_len key) = Suc k"
    using key(1) by simp
  obtain A B c' where st: "fold (mont_step (rsa_n key) a d0 b) [1..<Suc k] (A0, B0, c) = (A, B, c')"
    and len: "length c' = length c"
    and val: "bn c + uint a * bn b + uint d0 * bn (rsa_n key) =
      2 ^ 32 * bn (take k c') + 2 ^ (32 * Suc k) * (uint A div 2 ^ 32 + uint B div 2 ^ 32)"
    using mont_loop [OF key(2,3), of k a d0 A0 B0] mont_first [OF inv, of c a b] key k
    by (auto simp: A0_def B0_def d0_def)
  define F where "F = drop_bit 32 A + drop_bit 32 B"
  define c2 where "c2 = c'[k := ucast F]"
  have r: "montMulAdd key c a b = (if drop_bit 32 F \<noteq> 0 then subM key c2 else c2)"
    using st unfolding montMulAdd_def l A0_def [symmetric] Let_def d0_def [symmetric] B0_def [symmetric]
    by (simp add: F_def c2_def del: upt_Suc)
  have hi: "0 \<le> uint A div 2 ^ 32" "uint A div 2 ^ 32 < 2 ^ 32" "0 \<le> uint B div 2 ^ 32" "uint B div 2 ^ 32 < 2 ^ 32"
    using uint_bounded [of A] uint_bounded [of B] by (simp_all add: pos_imp_zdiv_nonneg_iff)
  then have F: "uint F = uint A div 2 ^ 32 + uint B div 2 ^ 32"
    by (simp add: F_def uint_word_ariths uint_high)
  define T where "T = bn c2 + 2 ^ (32 * Suc k) * (uint F div 2 ^ 32)"
  have "bn c2 = bn (take k c') + 2 ^ (32 * k) * (uint F mod 2 ^ 32)"
    using bn_take_Suc [of k c2] len k by (simp add: c2_def uint_low)
  then have T: "2 ^ 32 * T = bn c + uint a * bn b + uint d0 * bn (rsa_n key)"
    using limb_split [of "Suc k" "uint F"] val F by (simp add: T_def power_add algebra_simps)
  show ?thesis
  proof (cases "drop_bit 32 F = 0")
    case True
    then have "T = bn c2"
      using uint_high [of F] by (simp add: T_def)
    then show ?thesis
      using T True r len uint_bounded [of d0] by (auto simp: c2_def)
  next
    case False
    have "uint F div 2 ^ 32 \<noteq> 0"
      using False uint_high [of F] by (metis uint_0_iff)
    moreover have "0 \<le> uint F div 2 ^ 32" "uint F div 2 ^ 32 < 2"
      using hi F by (simp_all add: pos_imp_zdiv_nonneg_iff)
    ultimately have one: "uint F div 2 ^ 32 = 1"
      by linarith
    have l2: "length c2 = Suc k" "length (rsa_n key) = Suc k" "length b = Suc k"
      using len k key by (simp_all add: c2_def)
    have "T < 2 ^ (32 * Suc k) + bn (rsa_n key)"
      using row_bound [OF _ _ _ _ _ _ _ _ T, of "2 ^ (32 * Suc k)"] bn_bounds [of c] bn_bounds [of b]
        bn_bounds [of "rsa_n key"] uint_bounded [of a] uint_bounded [of d0] k l2 by simp
    then have "(T - bn (rsa_n key)) mod 2 ^ (32 * Suc k) = T - bn (rsa_n key)"
      using bn_bounds [of c2] bn_bounds [of "rsa_n key"] l2 one
      by (intro mod_pos_pos_trivial) (simp_all add: T_def)
    moreover have "T - bn (rsa_n key) = bn c2 - bn (rsa_n key) + 2 ^ (32 * Suc k)"
      using one by (simp add: T_def)
    ultimately have "(bn c2 - bn (rsa_n key)) mod 2 ^ (32 * Suc k) = T - bn (rsa_n key)"
      by (metis mod_add_self2)
    then have "bn (subM key c2) = T - bn (rsa_n key)" "length (subM key c2) = Suc k"
      using subM_value [of c2 key] l2 k key(1) by simp_all
    then have "2 ^ 32 * bn (subM key c2) = bn c + uint a * bn b + (uint d0 - 2 ^ 32) * bn (rsa_n key)"
      using T by (simp add: algebra_simps)
    moreover have "uint d0 - 2 ^ 32 < 2 ^ 32"
      using uint_bounded [of d0] by simp
    ultimately have "\<exists>d < 2 ^ 32. 2 ^ 32 * bn (subM key c2) = bn c + uint a * bn b + d * bn (rsa_n key)"
      by blast
    then show ?thesis
      using r False k \<open>length (subM key c2) = Suc k\<close> by simp
  qed
qed

text \<open>The modulus is odd, so the powers of two cancel.\<close>

lemma modulus_odd:
  assumes "n0inv key * rsa_n key ! 0 = - 1" and "rsa_n key \<noteq> []"
  shows "odd (bn (rsa_n key))"
proof -
  have "\<not> even (uint (rsa_n key ! 0))"
  proof
    assume "even (uint (rsa_n key ! 0))"
    then have "even (uint (n0inv key) * uint (rsa_n key ! 0) mod 2 ^ 32)"
      by (simp add: dvd_mod_iff)
    moreover have "uint (n0inv key) * uint (rsa_n key ! 0) mod 2 ^ 32 = uint (- 1 :: u32)"
      using assms(1) uint_word_ariths(3) [of "n0inv key" "rsa_n key ! 0"] by simp
    moreover have "uint (- 1 :: u32) = 2 ^ 32 - 1"
      by (simp add: unsigned_minus_1_eq_mask mask_eq_exp_minus_1)
    ultimately show False by simp
  qed
  then show ?thesis
    using assms(2) by (cases "rsa_n key") simp_all
qed

lemma cancel_power:
  assumes "odd (n :: int)" and "n dvd 2 ^ k * x - 2 ^ k * y"
  shows "n dvd x - y"
proof -
  have "n dvd 2 ^ k * (x - y)"
    using assms(2) by (simp add: right_diff_distrib)
  moreover have "coprime n (2 ^ k)"
    using assms(1) by simp
  ultimately show ?thesis
    by (simp add: coprime_dvd_mult_right_iff)
qed

lemma montMul_loop:
  assumes "length b = nat (rsa_len key)" "length (rsa_n key) = length b" "b \<noteq> []" "k \<le> length a"
    and inv: "n0inv key * rsa_n key ! 0 = - 1"
  defines "r \<equiv> fold (\<lambda>i c. montMulAdd key c (a ! i) b) [0..<k] (replicate (nat (rsa_len key)) 0)"
  shows "length r = length b \<and> bn r < bn b + bn (rsa_n key) \<and>
    (\<exists>e. 2 ^ (32 * k) * bn r = bn (take k a) * bn b + e * bn (rsa_n key))"
  using assms(4) unfolding r_def
proof (induction k)
  case 0
  have "0 < bn (rsa_n key)"
    using modulus_odd [OF inv] bn_bounds [of "rsa_n key"] assms(2,3)
    by (cases "rsa_n key = []"; cases "bn (rsa_n key) = 0") auto
  then have "0 < bn b + bn (rsa_n key)"
    using bn_bounds [of b] by simp
  then show ?case
    using assms by (auto intro: exI [of _ 0])
next
  case (Suc k)
  let ?n = "bn (rsa_n key)"
  let ?c = "fold (\<lambda>i c. montMulAdd key c (a ! i) b) [0..<k] (replicate (nat (rsa_len key)) 0)"
  obtain e where len: "length ?c = length b" and lt: "bn ?c < bn b + ?n"
    and val: "2 ^ (32 * k) * bn ?c = bn (take k a) * bn b + e * ?n"
    using Suc by auto
  let ?r = "montMulAdd key ?c (a ! k) b"
  have "?c \<noteq> []"
    using len assms(3) by (metis length_0_conv)
  then obtain d where r: "length ?r = length b" and d: "d < 2 ^ 32"
    and step: "2 ^ 32 * bn ?r = bn ?c + uint (a ! k) * bn b + d * ?n"
    using montMulAdd_value [of ?c key b "a ! k"] len assms by auto
  have "uint (a ! k) * bn b \<le> (2 ^ 32 - 1) * bn b" "d * ?n \<le> (2 ^ 32 - 1) * ?n"
    using d bn_bounds [of b] bn_bounds [of "rsa_n key"] uint_bounded [of "a ! k"]
    by (auto intro: mult_right_mono)
  then have "2 ^ 32 * bn ?r < 2 ^ 32 * (bn b + ?n)"
    using lt step by simp
  then have small: "bn ?r < bn b + ?n"
    by simp
  have "2 ^ (32 * Suc k) * bn ?r = 2 ^ (32 * k) * (2 ^ 32 * bn ?r)"
    by (simp add: power_add)
  also have "\<dots> = bn (take k a) * bn b + e * ?n + 2 ^ (32 * k) * (uint (a ! k) * bn b + d * ?n)"
    unfolding step using val by (simp add: distrib_left)
  also have "\<dots> = bn (take (Suc k) a) * bn b + (e + 2 ^ (32 * k) * d) * ?n"
    using Suc.prems by (simp add: bn_take_Suc algebra_simps)
  finally show ?case
    using small r by (auto simp del: mult_Suc_right)
qed

lemma montMul_value:
  assumes "length a = nat (rsa_len key)" "length b = length a" "length (rsa_n key) = length a" "a \<noteq> []"
    and "n0inv key * rsa_n key ! 0 = - 1"
  shows "length (montMul key a b) = length a" and "bn (montMul key a b) < bn b + bn (rsa_n key)"
    and "bn (rsa_n key) dvd 2 ^ (32 * length a) * bn (montMul key a b) - bn a * bn b"
proof -
  have "b \<noteq> []"
    using assms(2,4) by auto
  then have "length (montMul key a b) = length b \<and> bn (montMul key a b) < bn b + bn (rsa_n key) \<and>
      (\<exists>e. 2 ^ (32 * length a) * bn (montMul key a b) = bn a * bn b + e * bn (rsa_n key))"
    using montMul_loop [of b key "length a" a] assms by (simp add: montMul_def)
  then show "length (montMul key a b) = length a" and "bn (montMul key a b) < bn b + bn (rsa_n key)"
    and "bn (rsa_n key) dvd 2 ^ (32 * length a) * bn (montMul key a b) - bn a * bn b"
    using assms(2) by auto
qed

section \<open>Bytes\<close>

lemma foldl_be_val: "foldl (\<lambda>v b. 2 ^ 8 * v + uint b) v bs = 2 ^ (8 * length bs) * v + be_val bs"
  unfolding be_val_def
proof (induction bs rule: rev_induct)
  case (snoc b bs)
  then show ?case by (simp add: algebra_simps power_add)
qed simp

lemma be_val_append: "be_val (xs @ ys) = 2 ^ (8 * length ys) * be_val xs + be_val ys"
  using foldl_be_val [of "be_val xs" ys] by (simp add: be_val_def)

lemma be_val_Nil [simp]: "be_val [] = 0"
  by (simp add: be_val_def)

lemma be_val_bounds: "0 \<le> be_val bs \<and> be_val bs < 2 ^ (8 * length bs)"
proof (induction bs rule: rev_induct)
  case (snoc b bs)
  then have "be_val bs \<le> 2 ^ (8 * length bs) - 1"
    by simp
  then have "2 ^ 8 * be_val bs \<le> 2 ^ 8 * (2 ^ (8 * length bs) - 1)"
    by (rule mult_left_mono) simp
  then show ?case
    using snoc uint_bounded [of b] by (simp add: be_val_append be_val_def power_add algebra_simps)
qed simp

lemma last_byte: "(2 ^ 8 * v + uint (b :: byte)) mod 2 ^ 8 = uint b"
  using uint_bounded [of b] by simp

lemma be_val_inj: "length xs = length ys \<Longrightarrow> be_val xs = be_val ys \<Longrightarrow> xs = ys"
proof (induction xs ys rule: rev_induct2)
  case (4 x xs y ys)
  have e: "2 ^ 8 * be_val xs + uint x = 2 ^ 8 * be_val ys + uint y"
    using 4 by (simp add: be_val_append be_val_def)
  then have "uint x = uint y"
    by (metis last_byte)
  then show ?case
    using e 4 by (simp add: word_uint_eqI)
qed auto

lemma be_val_be32: "be_val (be32_enc w) = uint w"
proof -
  have b: "uint (ucast (drop_bit k w) :: byte) = uint w div 2 ^ k mod 2 ^ 8" for k
  proof -
    have "uint (drop_bit k w) = drop_bit k (uint w)"
      using uint_bounded [of w] by (simp add: unsigned_drop_bit_eq take_bit_int_eq_self)
    then show ?thesis
      by (simp only: unsigned_ucast_eq take_bit_eq_mod drop_bit_eq_div) simp
  qed
  have d: "uint w div 2 ^ 16 = uint w div 2 ^ 8 div 2 ^ 8" "uint w div 2 ^ 24 = uint w div 2 ^ 16 div 2 ^ 8"
    by (simp_all flip: zdiv_zmult2_eq)
  have "uint w div 2 ^ 24 mod 2 ^ 8 = uint w div 2 ^ 24"
    using uint_bounded [of w] by (intro mod_pos_pos_trivial) (simp_all add: pos_imp_zdiv_nonneg_iff)
  moreover have "be_val (be32_enc w) = 2 ^ 8 * (2 ^ 8 * (2 ^ 8 * uint (ucast (drop_bit 24 w) :: byte) +
      uint (ucast (drop_bit 16 w) :: byte)) + uint (ucast (drop_bit 8 w) :: byte)) + uint (ucast (drop_bit 0 w) :: byte)"
    by (simp add: be32_enc_def le32_enc_def be_val_def)
  ultimately show ?thesis
    unfolding b d by (simp only: div_by_1 power_0 mult_div_mod_eq)
qed

lemma be_val_words: "be_val (concat (map be32_enc (rev ws))) = bn ws"
  by (induction ws) (simp_all add: be_val_append be_val_be32)

lemma length_words [simp]: "length (concat (map be32_enc ws)) = 4 * length ws"
  by (induction ws) simp_all

lemma rev_map_upt: "rev (map (\<lambda>i. f (l - 1 - i)) [0..<l]) = map f [0..<l]"
  by (rule nth_equalityI) (simp_all add: rev_nth)

lemma words_of_bytes:
  "length bs = 4 * l \<Longrightarrow> concat (map (\<lambda>i. be32_enc (be32_dec (take 4 (drop (i * 4) bs)))) [0..<l]) = bs"
proof (induction l arbitrary: bs)
  case (Suc l)
  have "map (\<lambda>i. be32_enc (be32_dec (take 4 (drop (i * 4) bs)))) [0..<Suc l] =
      take 4 bs # map (\<lambda>i. be32_enc (be32_dec (take 4 (drop (i * 4) (drop 4 bs))))) [0..<l]"
    using Suc.prems unfolding upt_conv_Cons [OF zero_less_Suc] map_Suc_upt [symmetric]
    by (simp add: be32_enc_dec comp_def add.commute)
  then show ?case
    using Suc.IH [of "drop 4 bs"] Suc.prems by simp
qed simp

section \<open>Exponentiation and verification\<close>

text \<open>
  Three Montgomery products give the cube; the last result is below the sum of its second
  factor and the modulus.
\<close>

lemma mont_cube:
  assumes key: "rsa_key_ok key" and a: "length a = 64"
  defines "aR \<equiv> montMul key a (rsa_rr key)"
  defines "v \<equiv> montMul key (montMul key aR aR) a"
  shows "length v = 64" and "bn v < bn a + bn (rsa_n key)" and "bn (rsa_n key) dvd bn v - bn a ^ 3"
proof -
  let ?n = "bn (rsa_n key)"
  define R where "R = (2 :: int) ^ 2048"
  define aaR where "aaR = montMul key aR aR"
  have k: "nat (rsa_len key) = 64" "length (rsa_n key) = 64" "length (rsa_rr key) = 64"
    "n0inv key * rsa_n key ! 0 = - 1" and rr: "?n dvd bn (rsa_rr key) - R ^ 2"
    using key by (simp_all add: rsa_key_ok_def R_def mod_eq_dvd_iff)
  have mul: "length (montMul key x y) = 64 \<and> bn (montMul key x y) < bn y + ?n \<and>
      ?n dvd R * bn (montMul key x y) - bn x * bn y" if "length x = 64" "length y = 64" for x y
    using montMul_value [of x key y] that k by (cases "x = []") (simp_all add: R_def)
  have odd: "odd ?n"
    using modulus_odd [OF k(4)] k(2) by (cases "rsa_n key = []") simp_all
  have cancel: "?n dvd x - y" if "?n dvd R * x - R * y" for x y
    using cancel_power [OF odd] that unfolding R_def by blast
  have l: "length aR = 64" "length aaR = 64"
    using mul a k(3) by (simp_all add: aR_def aaR_def)
  have "?n dvd (R * bn aR - bn a * bn (rsa_rr key)) + bn a * (bn (rsa_rr key) - R ^ 2)"
    using mul [OF a k(3)] rr by (intro dvd_add dvd_mult) (simp_all add: aR_def)
  then have "?n dvd R * bn aR - R * (bn a * R)"
    by (simp only: right_diff_distrib) (simp add: power2_eq_square ac_simps)
  then have 1: "?n dvd bn aR - bn a * R"
    by (rule cancel)
  have "?n dvd (R * bn aaR - bn aR * bn aR) + (bn aR + bn a * R) * (bn aR - bn a * R)"
    using mul [OF l(1) l(1)] 1 by (intro dvd_add dvd_mult) (simp_all add: aaR_def)
  then have "?n dvd R * bn aaR - R * (bn a ^ 2 * R)"
    by (simp only: distrib_right right_diff_distrib) (simp add: power2_eq_square ac_simps)
  then have 2: "?n dvd bn aaR - bn a ^ 2 * R"
    by (rule cancel)
  have "?n dvd (R * bn v - bn aaR * bn a) + bn a * (bn aaR - bn a ^ 2 * R)"
    using mul [OF l(2) a] 2 by (intro dvd_add dvd_mult) (simp_all add: v_def aaR_def)
  then have "?n dvd R * bn v - R * bn a ^ 3"
    by (simp only: right_diff_distrib) (simp add: power2_eq_square power3_eq_cube ac_simps)
  then show "?n dvd bn v - bn a ^ 3"
    by (rule cancel)
  show "length v = 64" "bn v < bn a + ?n"
    using mul [OF l(2) a] by (simp_all add: v_def aaR_def)
qed

lemma reduce_once:
  assumes "rsa_key_ok key" and "length v = 64"
  shows "length (if geM key v then subM key v else v) = 64"
    and "bn (if geM key v then subM key v else v) = (if bn (rsa_n key) \<le> bn v then bn v - bn (rsa_n key) else bn v)"
proof -
  have k: "nat (rsa_len key) = 64" "length (rsa_n key) = 64"
    using assms(1) by (simp_all add: rsa_key_ok_def)
  then have "(bn v - bn (rsa_n key)) mod 2 ^ (32 * 64) = bn v - bn (rsa_n key)" if "bn (rsa_n key) \<le> bn v"
    using that bn_bounds [of v] bn_bounds [of "rsa_n key"] assms(2)
    by (intro mod_pos_pos_trivial) (simp_all del: power_numeral)
  then show "length (if geM key v then subM key v else v) = 64"
    and "bn (if geM key v then subM key v else v) = (if bn (rsa_n key) \<le> bn v then bn v - bn (rsa_n key) else bn v)"
    using geM_value [of v key] subM_value [of v key] k assms(2) by simp_all
qed

text \<open>
  \<open>modpow3\<close> computes a representative of the cube modulo \<open>n\<close>, and the least one if the
  number is below \<open>n\<close> or \<open>n\<close> fills its 2048 bits.
\<close>

lemma modpow3_value:
  assumes key: "rsa_key_ok key" and len: "length bs = 256"
  shows "length (modpow3 key bs) = 256"
    and "be_val (modpow3 key bs) mod bn (rsa_n key) = be_val bs ^ 3 mod bn (rsa_n key)"
    and "be_val bs < bn (rsa_n key) \<or> 2 ^ 2048 \<le> 2 * bn (rsa_n key) \<Longrightarrow>
      be_val (modpow3 key bs) < bn (rsa_n key)"
proof -
  let ?n = "bn (rsa_n key)"
  have l: "nat (rsa_len key) = 64" "length (rsa_n key) = 64"
    using key by (simp_all add: rsa_key_ok_def)
  define a where "a = map (\<lambda>i. be32_dec (take 4 (drop ((64 - 1 - i) * 4) bs))) [0..<64]"
  define v where "v = montMul key (montMul key (montMul key a (rsa_rr key)) (montMul key a (rsa_rr key))) a"
  define w where "w = (if geM key v then subM key v else v)"
  have "rev a = map (\<lambda>i. be32_dec (take 4 (drop (i * 4) bs))) [0..<64]"
    unfolding a_def by (rule rev_map_upt)
  then have "concat (map be32_enc (rev a)) = bs"
    using words_of_bytes [of bs 64] len by (simp add: comp_def)
  then have a: "bn a = be_val bs"
    using be_val_words [of a] by simp
  have v: "length v = 64" "bn v < bn a + ?n" "?n dvd bn v - bn a ^ 3"
    unfolding v_def by (rule mont_cube [OF key]; simp add: a_def)+
  have w: "length w = 64" "bn w = (if ?n \<le> bn v then bn v - ?n else bn v)"
    unfolding w_def by (rule reduce_once [OF key v(1)])+
  have "modpow3 key bs = concat (map be32_enc (map (\<lambda>i. w ! i) (rev [0..<64])))"
    unfolding modpow3_def Let_def l a_def [symmetric] v_def [symmetric] w_def [symmetric] by (simp add: comp_def)
  also have "map (\<lambda>i. w ! i) (rev [0..<64]) = rev w"
    using map_nth [of w] w(1) by (simp add: rev_map [symmetric])
  finally have r: "modpow3 key bs = concat (map be32_enc (rev w))" .
  then show "length (modpow3 key bs) = 256"
    using w(1) by simp
  have b: "be_val (modpow3 key bs) = bn w"
    unfolding r by (rule be_val_words)
  show "be_val (modpow3 key bs) mod ?n = be_val bs ^ 3 mod ?n"
    using v(3) w(2) unfolding b a [symmetric] by (auto simp: mod_eq_dvd_iff [symmetric])
  show "be_val (modpow3 key bs) < ?n" if "be_val bs < ?n \<or> 2 ^ 2048 \<le> 2 * ?n"
  proof -
    have "bn v < 2 * ?n"
      using that v(2) a bn_bounds [of v] v(1) by (simp del: power_numeral) linarith
    then show ?thesis
      using w(2) unfolding b by auto
  qed
qed

lemma digest_matches_eq:
  "length buf \<le> length sha \<Longrightarrow> digest_matches buf sha = Inr (if buf = take (length buf) sha then 1 else 0)"
  by (induction buf sha rule: digest_matches.induct) auto

lemma length_padding: "length rsa_padding = 236"
  by (simp add: rsa_padding_def)

lemma RSA_verify_bytes:
  assumes "rsa_len key = 64" and "length sig = 256" and "20 \<le> length sha" and "length (modpow3 key sig) = 256"
  shows "RSA_verify key sig 256 sha =
    Inr (if be_val (modpow3 key sig) = be_val (rsa_padding @ take 20 sha) then 1 else 0)"
proof -
  let ?buf = "modpow3 key sig"
  have "RSA_verify key sig 256 sha =
      Inr (if take 236 ?buf = rsa_padding \<and> drop 236 ?buf = take 20 sha then 1 else 0)"
    using assms digest_matches_eq [of "drop 236 ?buf" sha]
    by (simp add: RSA_verify_def RSANUMBYTES_def RSANUMWORDS_def length_padding Let_def)
  moreover have "take 236 ?buf = rsa_padding \<and> drop 236 ?buf = take 20 sha \<longleftrightarrow> ?buf = rsa_padding @ take 20 sha"
    using length_padding append_take_drop_id [of 236 ?buf] by (metis append_eq_conv_conj)
  moreover have "?buf = rsa_padding @ take 20 sha \<longleftrightarrow> be_val ?buf = be_val (rsa_padding @ take 20 sha)"
    using be_val_inj [of ?buf "rsa_padding @ take 20 sha"] assms(3,4) length_padding by auto
  ultimately show ?thesis by simp
qed

text \<open>
  C35. Which signatures \<open>RSA_verify\<close> accepts. For a key that fits its description, any
  256 bytes and a digest of at least 20 bytes, the Montgomery arithmetic neither overflows nor
  leaves its arrays and the answer is 0 or 1. An accepted signature, cubed modulo \<open>n\<close>, is
  the PKCS 1.5 padding followed by the digest, up to a multiple of \<open>n\<close>. When the signature is
  below \<open>n\<close>, or \<open>n\<close> uses its 2048 bits, acceptance is equivalent to that equation. A key
  or a signature of another length is refused.
\<close>

theorem RSA_verify_spec:
  assumes "rsa_key_ok key" and "length sig = 256" and "20 \<le> length sha"
  defines "n \<equiv> bn (rsa_n key)"
  defines "em \<equiv> be_val (rsa_padding @ take 20 sha)"
  shows "(\<exists>r \<in> {0, 1}. RSA_verify key sig 256 sha = Inr r \<and>
      (r = 1 \<longrightarrow> be_val sig ^ 3 mod n = em mod n) \<and>
      (be_val sig < n \<or> 2 ^ 2048 \<le> 2 * n \<longrightarrow> (r = 1 \<longleftrightarrow> be_val sig ^ 3 mod n = em))) \<and>
    (len \<noteq> 256 \<or> rsa_len other \<noteq> 64 \<longrightarrow> RSA_verify other sig len sha = Inr 0)"
proof
  let ?v = "be_val (modpow3 key sig)"
  let ?r = "if ?v = em then 1 else 0 :: int"
  have "RSA_verify key sig 256 sha = Inr ?r"
    unfolding em_def using assms(1) modpow3_value(1) [OF assms(1,2)]
    by (intro RSA_verify_bytes [OF _ assms(2,3)]) (simp_all add: rsa_key_ok_def)
  moreover have m: "?v mod n = be_val sig ^ 3 mod n"
    unfolding n_def by (rule modpow3_value(2) [OF assms(1,2)])
  moreover have "be_val sig ^ 3 mod n = ?v" if "be_val sig < n \<or> 2 ^ 2048 \<le> 2 * n"
    using modpow3_value(3) [OF assms(1,2)] that m be_val_bounds [of "modpow3 key sig"]
    unfolding n_def by (metis mod_pos_pos_trivial)
  ultimately show "\<exists>r \<in> {0, 1}. RSA_verify key sig 256 sha = Inr r \<and>
      (r = 1 \<longrightarrow> be_val sig ^ 3 mod n = em mod n) \<and>
      (be_val sig < n \<or> 2 ^ 2048 \<le> 2 * n \<longrightarrow> (r = 1 \<longleftrightarrow> be_val sig ^ 3 mod n = em))"
    by (intro bexI [of _ ?r]) auto
  show "len \<noteq> 256 \<or> rsa_len other \<noteq> 64 \<longrightarrow> RSA_verify other sig len sha = Inr 0"
    by (auto simp: RSA_verify_def RSANUMBYTES_def RSANUMWORDS_def)
qed

text \<open>
  A signature that is accepted: the modulus is \<open>s\<^sup>3 - em\<close> for the number
  \<open>s = 3 \<cdot> 2\<^sup>6\<^sup>8\<^sup>1\<close> and the padded digest \<open>em\<close>.
\<close>

definition demo_rsa_key :: RSAPublicKey where
  "demo_rsa_key = \<lparr>rsa_len = 64, n0inv = 1,
     rsa_n = [0xffffffff, 0xffffffff, 0xffffffff, 0xffffffff, 0xffffffff, 0xfafffbeb,
     0xf1fcfde5, 0xf6f9fad4, 0xffcfdecf] @ replicate 54 0 @ [0xd7fe0000],
     rsa_rr = [0xa57eca7b, 0xcdc842b9, 0xd3aeb940, 0x6cef99c2, 0x205c971c, 0x860df645,
     0x3b453845, 0x60c05168, 0x1a45c392, 0x9d5adfc0, 0xd2b36051, 0xf4e55d56,
     0x9762f542, 0xe12896ed, 0x1c96d2dc, 0x1ceb4af6, 0xae5cacab, 0xbeb26d73,
     0xaa6780f6, 0xb5040be3, 0x2d87885d, 0xe6ea6f35, 0x16b9196a, 0x466b5196,
     0x535879b5, 0xcae56f29, 0x019c7598, 0x782968ae, 0x75f2deb1, 0xac1e09c2,
     0x6262189c, 0xd7129581, 0x4e773ebb, 0xbe97191a, 0xb6dbc467, 0xd8cb7d24,
     0xe965b775, 0xc9ea2a76, 0xa3cfbd2e, 0xfb57a91b, 0x393bca08, 0xdfffb425,
     0xe24df27f, 0xf3c6ff78, 0x0f531ad7, 0xd0aa3a77, 0x24134c07, 0x6debaf38,
     0x1c00425f, 0x39fbcbd0, 0x0ab1e076, 0xd2974883, 0x296b0cd7, 0xe06f1d79,
     0x7fd1c6ae, 0xe77fc5ec, 0x8d43ada9, 0x56a45b98, 0x27bba08d, 0xfbc254c3,
     0xfb9ec635, 0x10287226, 0x557032d1, 0x515ac80b]\<rparr>"

definition demo_sig :: "byte list" where
  "demo_sig = replicate 170 0 @ [6] @ replicate 85 0"

definition demo_sha :: "byte list" where
  "demo_sha = replicate 19 0 @ [1]"

lemma be_val_Cons: "be_val (b # bs) = 2 ^ (8 * length bs) * uint b + be_val bs"
  using be_val_append [of "[b]" bs] by (simp add: be_val_def)

lemma be_val_zeros: "be_val (replicate k 0) = 0"
  by (induction k) (simp_all add: be_val_def)

lemma be_val_ones: "be_val (replicate k 0xff) = 2 ^ (8 * k) - 1"
proof (induction k)
  case (Suc k)
  then show ?case
    using be_val_append [of "replicate k 0xff" "[0xff]"]
    by (simp add: be_val_def power_add replicate_append_same)
qed simp

lemma demo_em: "be_val (rsa_padding @ take 20 demo_sha) = 2 ^ 2033 - 2 ^ 288 + 249903374471035965343514536750089236 * 2 ^ 160 + 1"
  by (simp add: rsa_padding_def demo_sha_def be_val_append be_val_Cons be_val_ones be_val_zeros)

lemma demo_sig_val: "be_val demo_sig = 3 * 2 ^ 681"
  by (simp add: demo_sig_def be_val_append be_val_Cons be_val_zeros)

lemma demo_n: "bn (rsa_n demo_rsa_key) = 27647 * 2 ^ 2033 + 2 ^ 288 - 249903374471035965343514536750089236 * 2 ^ 160 - 1"
  by (simp add: demo_rsa_key_def bn_append)

lemma demo_rr: "bn (rsa_rr demo_rsa_key) = 10270068690353292132514721194316814150562283976434659797394527064204493165543225347942074213455650682628112367094481390786640155103497909250333434062996872671774027769998226508628410443824115103663860033780856153398347284614060389845623260304709101286564888264266914526918943114926702240490447184583551416226311447694297749608667263094869938069438118631967828864584326330966894057439861154737127940730615121080778848203802816097468397343179912664083605390183580448418569621225361551625029978694040787174788209888411725058439457635024217109564264741576195450015067561048737515917285501101589933394073923954236020673147"
  by (simp add: demo_rsa_key_def)

text \<open>The quotient of \<open>R\<^sup>2\<close> by the modulus, multiplied out in the sparse form of the modulus.\<close>

definition demo_q :: int where
  "demo_q = 38303022206558363917597753077525119754035966154781241392008071724567869916823635431992111109805144441644732164194623442065443256564664755758087625326405662144060208687080661190525933370158357877364387336585131337117731667829470256082436093438101318551018894320523949927490870141932855080712275364939883201532972433772657150665207988346155019105416398753049984490146979268816112644506486330309822894743493173251192534692608895789553397133816339313325147878266298549312780932347240446785327446355412363274656435898396161534184079229937802535365223890539072521482342355566460988177754250656538645064517505170697837529723"

lemma demo_products: "demo_q * 27647 = 1058963654944719087229825079334336985839832356281236980764847158969127899590423048788285895852782828378151910143488754302783309714243286502443848577399137341296832589571719039934470479884768120235493216694569126077293927420481364169911110675283187153980019371279525643645340086814017644416452277014492950872782088876512652244441005253806147813207447176325572921199093535844959066282670827574075673570973355760875720006646558141893782770558620332995500363390428355992850454436604156632273947909388085607454426483282958677935587238470090426695242344901733738001422319104345946940150371767901323920098715465454283114184251781"
  "demo_q * 249903374471035965343514536750089236 = 9572054501857961111567829675053526300472534417942011520085560050270702824619732641248829618940131702830205702663722816625022848796510647012716748366415099300420821363589574140011191347337122825920702748828496157674770001146375135071031964267392575402366970236540820663039520994646430810793877916920218671042943486551895330735135663132499828173251916479855434559935667135528748916634677217238301355951137143500565774753109273741959022789517445931787501488283611813315772310852943802743144845724421281816261450310181565588422585807887861650550976025504371184413374338006192700210373374435916416047135743244342611936775740143137264105035973093050052361628"
  unfolding demo_q_def by simp_all

lemma demo_quotient: "demo_q * bn (rsa_n demo_rsa_key) + bn (rsa_rr demo_rsa_key) = (2 ^ 2048) ^ 2"
proof -
  have "demo_q * bn (rsa_n demo_rsa_key) + bn (rsa_rr demo_rsa_key) =
      demo_q * 27647 * 2 ^ 2033 + demo_q * 2 ^ 288 - demo_q * 249903374471035965343514536750089236 * 2 ^ 160 - demo_q + bn (rsa_rr demo_rsa_key)"
    unfolding demo_n by (simp only: distrib_left right_diff_distrib mult.assoc mult_1_right)
  also have "\<dots> = (2 ^ 2048) ^ 2"
    unfolding demo_products demo_rr demo_q_def by simp
  finally show ?thesis .
qed

lemma demo_rsa_key_ok: "rsa_key_ok demo_rsa_key"
proof -
  have "(2 ^ 2048) ^ 2 mod bn (rsa_n demo_rsa_key) = bn (rsa_rr demo_rsa_key) mod bn (rsa_n demo_rsa_key)"
    unfolding demo_quotient [symmetric] by (rule mod_mult_self3)
  then show ?thesis
    unfolding rsa_key_ok_def by (intro conjI) (simp_all add: demo_rsa_key_def del: bn.simps)
qed

theorem RSA_verify_spec_witness:
  "rsa_key_ok demo_rsa_key \<and> RSA_verify demo_rsa_key demo_sig 256 demo_sha = Inr 1 \<and>
   RSA_verify demo_rsa_key demo_sig 255 demo_sha = Inr 0"
proof -
  let ?n = "bn (rsa_n demo_rsa_key)" and ?em = "be_val (rsa_padding @ take 20 demo_sha)"
  have "be_val demo_sig ^ 3 = ?n + ?em"
    unfolding demo_n demo_em demo_sig_val by simp
  moreover have "0 \<le> ?em" "?em < ?n"
    unfolding demo_n demo_em by simp_all
  ultimately have "be_val demo_sig ^ 3 mod ?n = ?em" "be_val demo_sig < ?n"
    unfolding demo_n demo_sig_val by simp_all
  moreover have "length demo_sig = 256" "20 \<le> length demo_sha"
    by (simp_all add: demo_sig_def demo_sha_def)
  ultimately show ?thesis
    using RSA_verify_spec [OF demo_rsa_key_ok, of demo_sig demo_sha 255 demo_rsa_key] demo_rsa_key_ok by auto
qed

end
