(* ===== verification/Des.thy ===== *)
theory Des
  imports Prelude
begin

text \<open>
  \<open>utils/d3des.c\<close>: the Data Encryption Standard with the key schedule and the tables of
  D3DES, in the variant that numbers the bits of a key byte from the least significant one.
  The global key register \<open>KnL\<close> is passed and returned.

  The cipher of FIPS 46-3 is written out on lists of bits, with its permutations and S-boxes
  as in the standard. The swap networks of \<open>desfunc\<close> are the initial and final permutation,
  the tables \<open>SP1\<close> to \<open>SP8\<close> are S-boxes followed by the permutation P, and the packed key
  register holds the sixteen round keys; so \<open>des\<close> computes the standard's cipher, and
  the register loaded for decryption undoes what the one for encryption does.
\<close>

unbundle bit_operations_syntax

section \<open>The tables of the source\<close>

definition bytebit :: "byte list" where
  "bytebit = [1, 2, 4, 8, 16, 32, 64, 128]"

definition bigbyte :: "u32 list" where
  "bigbyte =
   [0x800000, 0x400000, 0x200000, 0x100000, 0x80000, 0x40000, 0x20000, 0x10000,
    0x8000, 0x4000, 0x2000, 0x1000, 0x800, 0x400, 0x200, 0x100,
    0x80, 0x40, 0x20, 0x10, 0x8, 0x4, 0x2, 0x1]"

definition pc1 :: "nat list" where
  "pc1 =
   [56, 48, 40, 32, 24, 16, 8, 0, 57, 49, 41, 33, 25, 17,
    9, 1, 58, 50, 42, 34, 26, 18, 10, 2, 59, 51, 43, 35,
    62, 54, 46, 38, 30, 22, 14, 6, 61, 53, 45, 37, 29, 21,
    13, 5, 60, 52, 44, 36, 28, 20, 12, 4, 27, 19, 11, 3]"

definition totrot :: "nat list" where
  "totrot = [1, 2, 4, 6, 8, 10, 12, 14, 15, 17, 19, 21, 23, 25, 27, 28]"

definition pc2 :: "nat list" where
  "pc2 =
   [13, 16, 10, 23, 0, 4, 2, 27, 14, 5, 20, 9,
    22, 18, 11, 3, 25, 7, 15, 6, 26, 19, 12, 1,
    40, 51, 30, 36, 46, 54, 29, 39, 50, 44, 32, 47,
    43, 48, 38, 55, 33, 52, 45, 41, 49, 35, 28, 31]"

definition SP1 :: "u32 list" where
  "SP1 =
   [0x01010400, 0x00000000, 0x00010000, 0x01010404, 0x01010004, 0x00010404, 0x00000004, 0x00010000,
    0x00000400, 0x01010400, 0x01010404, 0x00000400, 0x01000404, 0x01010004, 0x01000000, 0x00000004,
    0x00000404, 0x01000400, 0x01000400, 0x00010400, 0x00010400, 0x01010000, 0x01010000, 0x01000404,
    0x00010004, 0x01000004, 0x01000004, 0x00010004, 0x00000000, 0x00000404, 0x00010404, 0x01000000,
    0x00010000, 0x01010404, 0x00000004, 0x01010000, 0x01010400, 0x01000000, 0x01000000, 0x00000400,
    0x01010004, 0x00010000, 0x00010400, 0x01000004, 0x00000400, 0x00000004, 0x01000404, 0x00010404,
    0x01010404, 0x00010004, 0x01010000, 0x01000404, 0x01000004, 0x00000404, 0x00010404, 0x01010400,
    0x00000404, 0x01000400, 0x01000400, 0x00000000, 0x00010004, 0x00010400, 0x00000000, 0x01010004]"

definition SP2 :: "u32 list" where
  "SP2 =
   [0x80108020, 0x80008000, 0x00008000, 0x00108020, 0x00100000, 0x00000020, 0x80100020, 0x80008020,
    0x80000020, 0x80108020, 0x80108000, 0x80000000, 0x80008000, 0x00100000, 0x00000020, 0x80100020,
    0x00108000, 0x00100020, 0x80008020, 0x00000000, 0x80000000, 0x00008000, 0x00108020, 0x80100000,
    0x00100020, 0x80000020, 0x00000000, 0x00108000, 0x00008020, 0x80108000, 0x80100000, 0x00008020,
    0x00000000, 0x00108020, 0x80100020, 0x00100000, 0x80008020, 0x80100000, 0x80108000, 0x00008000,
    0x80100000, 0x80008000, 0x00000020, 0x80108020, 0x00108020, 0x00000020, 0x00008000, 0x80000000,
    0x00008020, 0x80108000, 0x00100000, 0x80000020, 0x00100020, 0x80008020, 0x80000020, 0x00100020,
    0x00108000, 0x00000000, 0x80008000, 0x00008020, 0x80000000, 0x80100020, 0x80108020, 0x00108000]"

definition SP3 :: "u32 list" where
  "SP3 =
   [0x00000208, 0x08020200, 0x00000000, 0x08020008, 0x08000200, 0x00000000, 0x00020208, 0x08000200,
    0x00020008, 0x08000008, 0x08000008, 0x00020000, 0x08020208, 0x00020008, 0x08020000, 0x00000208,
    0x08000000, 0x00000008, 0x08020200, 0x00000200, 0x00020200, 0x08020000, 0x08020008, 0x00020208,
    0x08000208, 0x00020200, 0x00020000, 0x08000208, 0x00000008, 0x08020208, 0x00000200, 0x08000000,
    0x08020200, 0x08000000, 0x00020008, 0x00000208, 0x00020000, 0x08020200, 0x08000200, 0x00000000,
    0x00000200, 0x00020008, 0x08020208, 0x08000200, 0x08000008, 0x00000200, 0x00000000, 0x08020008,
    0x08000208, 0x00020000, 0x08000000, 0x08020208, 0x00000008, 0x00020208, 0x00020200, 0x08000008,
    0x08020000, 0x08000208, 0x00000208, 0x08020000, 0x00020208, 0x00000008, 0x08020008, 0x00020200]"

definition SP4 :: "u32 list" where
  "SP4 =
   [0x00802001, 0x00002081, 0x00002081, 0x00000080, 0x00802080, 0x00800081, 0x00800001, 0x00002001,
    0x00000000, 0x00802000, 0x00802000, 0x00802081, 0x00000081, 0x00000000, 0x00800080, 0x00800001,
    0x00000001, 0x00002000, 0x00800000, 0x00802001, 0x00000080, 0x00800000, 0x00002001, 0x00002080,
    0x00800081, 0x00000001, 0x00002080, 0x00800080, 0x00002000, 0x00802080, 0x00802081, 0x00000081,
    0x00800080, 0x00800001, 0x00802000, 0x00802081, 0x00000081, 0x00000000, 0x00000000, 0x00802000,
    0x00002080, 0x00800080, 0x00800081, 0x00000001, 0x00802001, 0x00002081, 0x00002081, 0x00000080,
    0x00802081, 0x00000081, 0x00000001, 0x00002000, 0x00800001, 0x00002001, 0x00802080, 0x00800081,
    0x00002001, 0x00002080, 0x00800000, 0x00802001, 0x00000080, 0x00800000, 0x00002000, 0x00802080]"

definition SP5 :: "u32 list" where
  "SP5 =
   [0x00000100, 0x02080100, 0x02080000, 0x42000100, 0x00080000, 0x00000100, 0x40000000, 0x02080000,
    0x40080100, 0x00080000, 0x02000100, 0x40080100, 0x42000100, 0x42080000, 0x00080100, 0x40000000,
    0x02000000, 0x40080000, 0x40080000, 0x00000000, 0x40000100, 0x42080100, 0x42080100, 0x02000100,
    0x42080000, 0x40000100, 0x00000000, 0x42000000, 0x02080100, 0x02000000, 0x42000000, 0x00080100,
    0x00080000, 0x42000100, 0x00000100, 0x02000000, 0x40000000, 0x02080000, 0x42000100, 0x40080100,
    0x02000100, 0x40000000, 0x42080000, 0x02080100, 0x40080100, 0x00000100, 0x02000000, 0x42080000,
    0x42080100, 0x00080100, 0x42000000, 0x42080100, 0x02080000, 0x00000000, 0x40080000, 0x42000000,
    0x00080100, 0x02000100, 0x40000100, 0x00080000, 0x00000000, 0x40080000, 0x02080100, 0x40000100]"

definition SP6 :: "u32 list" where
  "SP6 =
   [0x20000010, 0x20400000, 0x00004000, 0x20404010, 0x20400000, 0x00000010, 0x20404010, 0x00400000,
    0x20004000, 0x00404010, 0x00400000, 0x20000010, 0x00400010, 0x20004000, 0x20000000, 0x00004010,
    0x00000000, 0x00400010, 0x20004010, 0x00004000, 0x00404000, 0x20004010, 0x00000010, 0x20400010,
    0x20400010, 0x00000000, 0x00404010, 0x20404000, 0x00004010, 0x00404000, 0x20404000, 0x20000000,
    0x20004000, 0x00000010, 0x20400010, 0x00404000, 0x20404010, 0x00400000, 0x00004010, 0x20000010,
    0x00400000, 0x20004000, 0x20000000, 0x00004010, 0x20000010, 0x20404010, 0x00404000, 0x20400000,
    0x00404010, 0x20404000, 0x00000000, 0x20400010, 0x00000010, 0x00004000, 0x20400000, 0x00404010,
    0x00004000, 0x00400010, 0x20004010, 0x00000000, 0x20404000, 0x20000000, 0x00400010, 0x20004010]"

definition SP7 :: "u32 list" where
  "SP7 =
   [0x00200000, 0x04200002, 0x04000802, 0x00000000, 0x00000800, 0x04000802, 0x00200802, 0x04200800,
    0x04200802, 0x00200000, 0x00000000, 0x04000002, 0x00000002, 0x04000000, 0x04200002, 0x00000802,
    0x04000800, 0x00200802, 0x00200002, 0x04000800, 0x04000002, 0x04200000, 0x04200800, 0x00200002,
    0x04200000, 0x00000800, 0x00000802, 0x04200802, 0x00200800, 0x00000002, 0x04000000, 0x00200800,
    0x04000000, 0x00200800, 0x00200000, 0x04000802, 0x04000802, 0x04200002, 0x04200002, 0x00000002,
    0x00200002, 0x04000000, 0x04000800, 0x00200000, 0x04200800, 0x00000802, 0x00200802, 0x04200800,
    0x00000802, 0x04000002, 0x04200802, 0x04200000, 0x00200800, 0x00000000, 0x00000002, 0x04200802,
    0x00000000, 0x00200802, 0x04200000, 0x00000800, 0x04000002, 0x04000800, 0x00000800, 0x00200002]"

definition SP8 :: "u32 list" where
  "SP8 =
   [0x10001040, 0x00001000, 0x00040000, 0x10041040, 0x10000000, 0x10001040, 0x00000040, 0x10000000,
    0x00040040, 0x10040000, 0x10041040, 0x00041000, 0x10041000, 0x00041040, 0x00001000, 0x00000040,
    0x10040000, 0x10000040, 0x10001000, 0x00001040, 0x00041000, 0x00040040, 0x10040040, 0x10041000,
    0x00001040, 0x00000000, 0x00000000, 0x10040040, 0x10000040, 0x10001000, 0x00041040, 0x00040000,
    0x00041040, 0x00040000, 0x10041000, 0x00001000, 0x00000040, 0x10040040, 0x00001000, 0x00041040,
    0x10001000, 0x00000040, 0x10000040, 0x10040000, 0x10040040, 0x10000000, 0x00040000, 0x10001040,
    0x00000000, 0x10041040, 0x00040040, 0x10000040, 0x10040000, 0x10001000, 0x10001040, 0x00000000,
    0x10041040, 0x00041000, 0x00041000, 0x00001040, 0x00001040, 0x00040040, 0x10000000, 0x10041000]"

section \<open>Key schedule\<close>

text \<open>The key bits, one per byte, and their rotation for round \<open>i\<close>.\<close>

definition des_key_bits :: "byte list \<Rightarrow> byte list" where
  "des_key_bits key = map (\<lambda>l. if (key ! (l div 8)) AND (bytebit ! (l mod 8)) \<noteq> 0 then 1 else 0) pc1"

definition key_rotate :: "byte list \<Rightarrow> nat \<Rightarrow> byte list" where
  "key_rotate pc1m i =
     map (\<lambda>j. let l = j + totrot ! i in if l < 28 then pc1m ! l else pc1m ! (l - 28)) [0..<28] @
     map (\<lambda>j. let l = j + totrot ! i in if l < 56 then pc1m ! l else pc1m ! (l - 28)) [28..<56]"

text \<open>The 24 bits of \<open>kn[m]\<close> (\<open>off\<close> 0) or \<open>kn[n]\<close> (\<open>off\<close> 24).\<close>

definition kn_half :: "byte list \<Rightarrow> nat \<Rightarrow> u32" where
  "kn_half pcr off =
     fold (\<lambda>j kn. if pcr ! (pc2 ! (j + off)) \<noteq> 0 then kn OR (bigbyte ! j) else kn) [0..<24] 0"

definition DE1 :: int where "DE1 = 1"
definition EN0 :: int where "EN0 = 0"

definition usekey :: "u32 list \<Rightarrow> u32 list \<Rightarrow> u32 list" where
  "usekey from KnL = map (\<lambda>i. from ! i) [0..<32]"

definition cpkey :: "u32 list \<Rightarrow> u32 list \<Rightarrow> u32 list" where
  "cpkey into KnL = map (\<lambda>i. KnL ! i) [0..<32] @ drop 32 into"

definition cookey :: "u32 list \<Rightarrow> u32 list \<Rightarrow> u32 list" where
  "cookey raw KnL =
     (let dough = concat (map (\<lambda>i. let raw0 = raw ! (2 * i); raw1 = raw ! (2 * i + 1) in
            [push_bit 6 (raw0 AND 0x00fc0000) OR push_bit 10 (raw0 AND 0x00000fc0) OR
             drop_bit 10 (raw1 AND 0x00fc0000) OR drop_bit 6 (raw1 AND 0x00000fc0),
             push_bit 12 (raw0 AND 0x0003f000) OR push_bit 16 (raw0 AND 0x0000003f) OR
             drop_bit 4 (raw1 AND 0x0003f000) OR (raw1 AND 0x0000003f)]) [0..<16])
      in usekey dough KnL)"

text \<open>Every entry of the local array \<open>kn\<close> is written before it is read.\<close>

definition deskey :: "byte list \<Rightarrow> int \<Rightarrow> u32 list \<Rightarrow> u32 list res" where
  "deskey key edf KnL =
     (if length key < 8 then Inl OutOfBounds
      else let pc1m = des_key_bits key;
               kn = fold (\<lambda>i kn.
                      let m = (if edf = DE1 then 2 * (15 - i) else 2 * i); n = m + 1; pcr = key_rotate pc1m i
                      in kn[m := kn_half pcr 0, n := kn_half pcr 24]) [0..<16] (replicate 32 0)
           in Inr (cookey kn KnL))"

section \<open>The block function\<close>

definition scrunch :: "byte list \<Rightarrow> u32 \<times> u32" where
  "scrunch b =
     (push_bit 24 (ucast (b ! 0)) OR push_bit 16 (ucast (b ! 1)) OR push_bit 8 (ucast (b ! 2)) OR ucast (b ! 3),
      push_bit 24 (ucast (b ! 4)) OR push_bit 16 (ucast (b ! 5)) OR push_bit 8 (ucast (b ! 6)) OR ucast (b ! 7))"

definition unscrun :: "u32 \<times> u32 \<Rightarrow> byte list" where
  "unscrun = (\<lambda>(x, y).
     [ucast (drop_bit 24 x AND 0xff), ucast (drop_bit 16 x AND 0xff), ucast (drop_bit 8 x AND 0xff), ucast (x AND 0xff),
      ucast (drop_bit 24 y AND 0xff), ucast (drop_bit 16 y AND 0xff), ucast (drop_bit 8 y AND 0xff), ucast (y AND 0xff)])"

text \<open>The exchange of masked bits that both permutations are made of: \<open>(a, b)\<close> become the words
  called \<open>leftt\<close> and \<open>right\<close> in the first line of such a group, or the other way round.\<close>

definition swap_bits :: "nat \<Rightarrow> u32 \<Rightarrow> u32 \<times> u32 \<Rightarrow> u32 \<times> u32" where
  "swap_bits n msk = (\<lambda>(a, b).
     let work = (drop_bit n a XOR b) AND msk; b = b XOR work; a = a XOR push_bit n work
     in (a, b))"

definition des_initial :: "u32 \<times> u32 \<Rightarrow> u32 \<times> u32" where
  "des_initial = (\<lambda>(leftt, right).
     let (leftt, right) = swap_bits 4 0x0f0f0f0f (leftt, right);
         (leftt, right) = swap_bits 16 0x0000ffff (leftt, right);
         (right, leftt) = swap_bits 2 0x33333333 (right, leftt);
         (right, leftt) = swap_bits 8 0x00ff00ff (right, leftt);
         right = (push_bit 1 right OR (drop_bit 31 right AND 1)) AND 0xffffffff;
         work = (leftt XOR right) AND 0xaaaaaaaa;
         leftt = leftt XOR work;
         right = right XOR work;
         leftt = (push_bit 1 leftt OR (drop_bit 31 leftt AND 1)) AND 0xffffffff
     in (leftt, right))"

definition des_final :: "u32 \<times> u32 \<Rightarrow> u32 \<times> u32" where
  "des_final = (\<lambda>(leftt, right).
     let right = push_bit 31 right OR drop_bit 1 right;
         work = (leftt XOR right) AND 0xaaaaaaaa;
         leftt = leftt XOR work;
         right = right XOR work;
         leftt = push_bit 31 leftt OR drop_bit 1 leftt;
         (leftt, right) = swap_bits 8 0x00ff00ff (leftt, right);
         (leftt, right) = swap_bits 2 0x33333333 (leftt, right);
         (right, leftt) = swap_bits 16 0x0000ffff (right, leftt);
         (right, leftt) = swap_bits 4 0x0f0f0f0f (right, leftt)
     in (right, leftt))"

definition six :: "u32 \<Rightarrow> nat" where
  "six work = unat (work AND 0x3f)"

definition fval :: "u32 \<Rightarrow> u32 \<Rightarrow> u32 \<Rightarrow> u32" where
  "fval right k0 k1 =
     (let work = push_bit 28 right OR drop_bit 4 right;
          work = work XOR k0;
          f = SP7 ! six work;
          f = f OR (SP5 ! six (drop_bit 8 work));
          f = f OR (SP3 ! six (drop_bit 16 work));
          f = f OR (SP1 ! six (drop_bit 24 work));
          work = right XOR k1;
          f = f OR (SP8 ! six work);
          f = f OR (SP6 ! six (drop_bit 8 work));
          f = f OR (SP4 ! six (drop_bit 16 work));
          f = f OR (SP2 ! six (drop_bit 24 work))
      in f)"

definition desfunc :: "u32 \<times> u32 \<Rightarrow> u32 list \<Rightarrow> u32 \<times> u32" where
  "desfunc block keys =
     des_final (fold (\<lambda>round (leftt, right).
       let leftt = leftt XOR fval right (keys ! (4 * round)) (keys ! (4 * round + 1));
           right = right XOR fval leftt (keys ! (4 * round + 2)) (keys ! (4 * round + 3))
       in (leftt, right)) [0..<8] (des_initial block))"

definition des :: "byte list \<Rightarrow> byte list \<Rightarrow> u32 list \<Rightarrow> byte list res" where
  "des inblock outblock KnL =
     (if length inblock < 8 \<or> length outblock < 8 then Inl OutOfBounds
      else Inr (unscrun (desfunc (scrunch inblock) KnL) @ drop 8 outblock))"

section \<open>The cipher of the standard\<close>

type_synonym bits = "bool list"

text \<open>The standard numbers bits from 1.\<close>

definition select :: "nat list \<Rightarrow> bits \<Rightarrow> bits" where
  "select p bs = map (\<lambda>i. bs ! (i - 1)) p"

definition xor_bits :: "bits \<Rightarrow> bits \<Rightarrow> bits" where
  "xor_bits = map2 (\<lambda>x y. x \<noteq> y)"

definition IP :: "nat list" where
  "IP =
   [58, 50, 42, 34, 26, 18, 10, 2, 60, 52, 44, 36, 28, 20, 12, 4,
    62, 54, 46, 38, 30, 22, 14, 6, 64, 56, 48, 40, 32, 24, 16, 8,
    57, 49, 41, 33, 25, 17, 9, 1, 59, 51, 43, 35, 27, 19, 11, 3,
    61, 53, 45, 37, 29, 21, 13, 5, 63, 55, 47, 39, 31, 23, 15, 7]"

definition FP :: "nat list" where
  "FP =
   [40, 8, 48, 16, 56, 24, 64, 32, 39, 7, 47, 15, 55, 23, 63, 31,
    38, 6, 46, 14, 54, 22, 62, 30, 37, 5, 45, 13, 53, 21, 61, 29,
    36, 4, 44, 12, 52, 20, 60, 28, 35, 3, 43, 11, 51, 19, 59, 27,
    34, 2, 42, 10, 50, 18, 58, 26, 33, 1, 41, 9, 49, 17, 57, 25]"

definition E_bits :: "nat list" where
  "E_bits =
   [32, 1, 2, 3, 4, 5, 4, 5, 6, 7, 8, 9, 8, 9, 10, 11,
    12, 13, 12, 13, 14, 15, 16, 17, 16, 17, 18, 19, 20, 21, 20, 21,
    22, 23, 24, 25, 24, 25, 26, 27, 28, 29, 28, 29, 30, 31, 32, 1]"

definition P_bits :: "nat list" where
  "P_bits =
   [16, 7, 20, 21, 29, 12, 28, 17, 1, 15, 23, 26, 5, 18, 31, 10,
    2, 8, 24, 14, 32, 27, 3, 9, 19, 13, 30, 6, 22, 11, 4, 25]"

definition PC1 :: "nat list" where
  "PC1 =
   [57, 49, 41, 33, 25, 17, 9, 1, 58, 50, 42, 34, 26, 18,
    10, 2, 59, 51, 43, 35, 27, 19, 11, 3, 60, 52, 44, 36,
    63, 55, 47, 39, 31, 23, 15, 7, 62, 54, 46, 38, 30, 22,
    14, 6, 61, 53, 45, 37, 29, 21, 13, 5, 28, 20, 12, 4]"

definition PC2 :: "nat list" where
  "PC2 =
   [14, 17, 11, 24, 1, 5, 3, 28, 15, 6, 21, 10,
    23, 19, 12, 4, 26, 8, 16, 7, 27, 20, 13, 2,
    41, 52, 31, 37, 47, 55, 30, 40, 51, 45, 33, 48,
    44, 49, 39, 56, 34, 53, 46, 42, 50, 36, 29, 32]"

definition shifts :: "nat list" where
  "shifts = [1, 1, 2, 2, 2, 2, 2, 2, 1, 2, 2, 2, 2, 2, 2, 1]"

definition S_boxes :: "nat list list list" where
  "S_boxes =
    [[[14, 4, 13, 1, 2, 15, 11, 8, 3, 10, 6, 12, 5, 9, 0, 7],
      [0, 15, 7, 4, 14, 2, 13, 1, 10, 6, 12, 11, 9, 5, 3, 8],
      [4, 1, 14, 8, 13, 6, 2, 11, 15, 12, 9, 7, 3, 10, 5, 0],
      [15, 12, 8, 2, 4, 9, 1, 7, 5, 11, 3, 14, 10, 0, 6, 13]],
     [[15, 1, 8, 14, 6, 11, 3, 4, 9, 7, 2, 13, 12, 0, 5, 10],
      [3, 13, 4, 7, 15, 2, 8, 14, 12, 0, 1, 10, 6, 9, 11, 5],
      [0, 14, 7, 11, 10, 4, 13, 1, 5, 8, 12, 6, 9, 3, 2, 15],
      [13, 8, 10, 1, 3, 15, 4, 2, 11, 6, 7, 12, 0, 5, 14, 9]],
     [[10, 0, 9, 14, 6, 3, 15, 5, 1, 13, 12, 7, 11, 4, 2, 8],
      [13, 7, 0, 9, 3, 4, 6, 10, 2, 8, 5, 14, 12, 11, 15, 1],
      [13, 6, 4, 9, 8, 15, 3, 0, 11, 1, 2, 12, 5, 10, 14, 7],
      [1, 10, 13, 0, 6, 9, 8, 7, 4, 15, 14, 3, 11, 5, 2, 12]],
     [[7, 13, 14, 3, 0, 6, 9, 10, 1, 2, 8, 5, 11, 12, 4, 15],
      [13, 8, 11, 5, 6, 15, 0, 3, 4, 7, 2, 12, 1, 10, 14, 9],
      [10, 6, 9, 0, 12, 11, 7, 13, 15, 1, 3, 14, 5, 2, 8, 4],
      [3, 15, 0, 6, 10, 1, 13, 8, 9, 4, 5, 11, 12, 7, 2, 14]],
     [[2, 12, 4, 1, 7, 10, 11, 6, 8, 5, 3, 15, 13, 0, 14, 9],
      [14, 11, 2, 12, 4, 7, 13, 1, 5, 0, 15, 10, 3, 9, 8, 6],
      [4, 2, 1, 11, 10, 13, 7, 8, 15, 9, 12, 5, 6, 3, 0, 14],
      [11, 8, 12, 7, 1, 14, 2, 13, 6, 15, 0, 9, 10, 4, 5, 3]],
     [[12, 1, 10, 15, 9, 2, 6, 8, 0, 13, 3, 4, 14, 7, 5, 11],
      [10, 15, 4, 2, 7, 12, 9, 5, 6, 1, 13, 14, 0, 11, 3, 8],
      [9, 14, 15, 5, 2, 8, 12, 3, 7, 0, 4, 10, 1, 13, 11, 6],
      [4, 3, 2, 12, 9, 5, 15, 10, 11, 14, 1, 7, 6, 0, 8, 13]],
     [[4, 11, 2, 14, 15, 0, 8, 13, 3, 12, 9, 7, 5, 10, 6, 1],
      [13, 0, 11, 7, 4, 9, 1, 10, 14, 3, 5, 12, 2, 15, 8, 6],
      [1, 4, 11, 13, 12, 3, 7, 14, 10, 15, 6, 8, 0, 5, 9, 2],
      [6, 11, 13, 8, 1, 4, 10, 7, 9, 5, 0, 15, 14, 2, 3, 12]],
     [[13, 2, 8, 4, 6, 15, 11, 1, 10, 9, 3, 14, 5, 0, 12, 7],
      [1, 15, 13, 8, 10, 3, 7, 4, 12, 5, 6, 11, 0, 14, 9, 2],
      [7, 11, 4, 1, 9, 12, 14, 2, 0, 6, 10, 13, 15, 3, 5, 8],
      [2, 1, 14, 7, 4, 10, 8, 13, 15, 12, 9, 0, 3, 5, 6, 11]]]"

text \<open>An S-box reads its row from the outer and its column from the inner four of six bits.\<close>

definition sbox :: "nat list list \<Rightarrow> nat \<Rightarrow> nat" where
  "sbox s v = s ! (2 * (v div 32) + v mod 2) ! (v div 2 mod 16)"

definition num_of :: "bits \<Rightarrow> nat" where
  "num_of bs = fold (\<lambda>b n. 2 * n + of_bool b) bs 0"

definition nibble :: "nat \<Rightarrow> bits" where
  "nibble n = [bit n 3, bit n 2, bit n 1, bit n 0]"

definition des_f :: "bits \<Rightarrow> bits \<Rightarrow> bits" where
  "des_f R K =
     (let x = xor_bits (select E_bits R) K
      in select P_bits (concat (map (\<lambda>g. nibble (sbox (S_boxes ! g) (num_of (take 6 (drop (6 * g) x))))) [0..<8])))"

definition des_round :: "bits \<Rightarrow> bits \<times> bits \<Rightarrow> bits \<times> bits" where
  "des_round K = (\<lambda>(L, R). (R, xor_bits L (des_f R K)))"

definition DES :: "bits list \<Rightarrow> bits \<Rightarrow> bits" where
  "DES Ks x =
     (let y = select IP x; (L, R) = fold des_round Ks (take 32 y, drop 32 y)
      in select FP (R @ L))"

fun schedule :: "nat list \<Rightarrow> bits \<Rightarrow> bits \<Rightarrow> bits list" where
  "schedule [] C D = []"
| "schedule (s # ss) C D =
     (let C = rotate s C; D = rotate s D in select PC2 (C @ D) # schedule ss C D)"

definition round_keys :: "bits \<Rightarrow> bits list" where
  "round_keys key = (let x = select PC1 key in schedule shifts (take 28 x) (drop 28 x))"

text \<open>Bytes as bits: a block from the most significant bit of each byte, a key of this variant
  from the least significant one.\<close>

definition block_bits :: "byte list \<Rightarrow> bits" where
  "block_bits bs = concat (map (\<lambda>b. map (\<lambda>i. bit b (7 - i)) [0..<8]) bs)"

definition vnc_key :: "byte list \<Rightarrow> bits" where
  "vnc_key bs = concat (map (\<lambda>b. map (bit b) [0..<8]) bs)"

section \<open>The tables are S-boxes followed by P\<close>

definition spread :: "nat list \<Rightarrow> nat \<Rightarrow> u32" where
  "spread ps n = fold (\<lambda>(p, b) w. if b then w OR push_bit p 1 else w) (zip ps (nibble n)) 0"

text \<open>The places of the four bits of each S-box after P, in words rotated left by one.\<close>

definition places :: "nat list list" where
  "places = [[24, 16, 10, 2], [20, 5, 31, 15], [9, 17, 3, 27], [7, 13, 23, 0], [25, 19, 8, 30], [29, 4, 22, 14], [1, 21, 11, 26], [28, 6, 18, 12]]"

lemma upt_64: "[0..<64] = [0, 1, 2, 3, 4, 5, 6, 7, 8, 9, 10, 11, 12, 13, 14, 15, 16, 17, 18, 19, 20, 21, 22, 23, 24, 25, 26, 27, 28, 29, 30, 31, 32, 33, 34, 35, 36, 37, 38, 39, 40, 41, 42, 43, 44, 45, 46, 47, 48, 49, 50, 51, 52, 53, 54, 55, 56, 57, 58, 59, 60, 61, 62, 63]"
  by code_simp

lemma S1_values: "map (sbox (S_boxes ! 0)) [0..<64] =
   [14, 0, 4, 15, 13, 7, 1, 4, 2, 14, 15, 2, 11, 13, 8, 1,
    3, 10, 10, 6, 6, 12, 12, 11, 5, 9, 9, 5, 0, 3, 7, 8,
    4, 15, 1, 12, 14, 8, 8, 2, 13, 4, 6, 9, 2, 1, 11, 7,
    15, 5, 12, 11, 9, 3, 7, 14, 3, 10, 10, 0, 5, 6, 0, 13]"
  unfolding upt_64 list.map by (simp add: sbox_def S_boxes_def)

lemma S2_values: "map (sbox (S_boxes ! 1)) [0..<64] =
   [15, 3, 1, 13, 8, 4, 14, 7, 6, 15, 11, 2, 3, 8, 4, 14,
    9, 12, 7, 0, 2, 1, 13, 10, 12, 6, 0, 9, 5, 11, 10, 5,
    0, 13, 14, 8, 7, 10, 11, 1, 10, 3, 4, 15, 13, 4, 1, 2,
    5, 11, 8, 6, 12, 7, 6, 12, 9, 0, 3, 5, 2, 14, 15, 9]"
  unfolding upt_64 list.map by (simp add: sbox_def S_boxes_def)

lemma S3_values: "map (sbox (S_boxes ! 2)) [0..<64] =
   [10, 13, 0, 7, 9, 0, 14, 9, 6, 3, 3, 4, 15, 6, 5, 10,
    1, 2, 13, 8, 12, 5, 7, 14, 11, 12, 4, 11, 2, 15, 8, 1,
    13, 1, 6, 10, 4, 13, 9, 0, 8, 6, 15, 9, 3, 8, 0, 7,
    11, 4, 1, 15, 2, 14, 12, 3, 5, 11, 10, 5, 14, 2, 7, 12]"
  unfolding upt_64 list.map by (simp add: sbox_def S_boxes_def)

lemma S4_values: "map (sbox (S_boxes ! 3)) [0..<64] =
   [7, 13, 13, 8, 14, 11, 3, 5, 0, 6, 6, 15, 9, 0, 10, 3,
    1, 4, 2, 7, 8, 2, 5, 12, 11, 1, 12, 10, 4, 14, 15, 9,
    10, 3, 6, 15, 9, 0, 0, 6, 12, 10, 11, 1, 7, 13, 13, 8,
    15, 9, 1, 4, 3, 5, 14, 11, 5, 12, 2, 7, 8, 2, 4, 14]"
  unfolding upt_64 list.map by (simp add: sbox_def S_boxes_def)

lemma S5_values: "map (sbox (S_boxes ! 4)) [0..<64] =
   [2, 14, 12, 11, 4, 2, 1, 12, 7, 4, 10, 7, 11, 13, 6, 1,
    8, 5, 5, 0, 3, 15, 15, 10, 13, 3, 0, 9, 14, 8, 9, 6,
    4, 11, 2, 8, 1, 12, 11, 7, 10, 1, 13, 14, 7, 2, 8, 13,
    15, 6, 9, 15, 12, 0, 5, 9, 6, 10, 3, 4, 0, 5, 14, 3]"
  unfolding upt_64 list.map by (simp add: sbox_def S_boxes_def)

lemma S6_values: "map (sbox (S_boxes ! 5)) [0..<64] =
   [12, 10, 1, 15, 10, 4, 15, 2, 9, 7, 2, 12, 6, 9, 8, 5,
    0, 6, 13, 1, 3, 13, 4, 14, 14, 0, 7, 11, 5, 3, 11, 8,
    9, 4, 14, 3, 15, 2, 5, 12, 2, 9, 8, 5, 12, 15, 3, 10,
    7, 11, 0, 14, 4, 1, 10, 7, 1, 6, 13, 0, 11, 8, 6, 13]"
  unfolding upt_64 list.map by (simp add: sbox_def S_boxes_def)

lemma S7_values: "map (sbox (S_boxes ! 6)) [0..<64] =
   [4, 13, 11, 0, 2, 11, 14, 7, 15, 4, 0, 9, 8, 1, 13, 10,
    3, 14, 12, 3, 9, 5, 7, 12, 5, 2, 10, 15, 6, 8, 1, 6,
    1, 6, 4, 11, 11, 13, 13, 8, 12, 1, 3, 4, 7, 10, 14, 7,
    10, 9, 15, 5, 6, 0, 8, 15, 0, 14, 5, 2, 9, 3, 2, 12]"
  unfolding upt_64 list.map by (simp add: sbox_def S_boxes_def)

lemma S8_values: "map (sbox (S_boxes ! 7)) [0..<64] =
   [13, 1, 2, 15, 8, 13, 4, 8, 6, 10, 15, 3, 11, 7, 1, 4,
    10, 12, 9, 5, 3, 6, 14, 11, 5, 0, 0, 14, 12, 9, 7, 2,
    7, 2, 11, 1, 4, 14, 1, 7, 9, 4, 12, 10, 14, 8, 2, 13,
    0, 15, 6, 12, 10, 9, 13, 0, 15, 3, 3, 5, 5, 6, 8, 11]"
  unfolding upt_64 list.map by (simp add: sbox_def S_boxes_def)

lemma SP1_spread: "SP1 = map (spread (places ! 0)) (map (sbox (S_boxes ! 0)) [0..<64])"
  unfolding S1_values by code_simp

lemma SP2_spread: "SP2 = map (spread (places ! 1)) (map (sbox (S_boxes ! 1)) [0..<64])"
  unfolding S2_values by code_simp

lemma SP3_spread: "SP3 = map (spread (places ! 2)) (map (sbox (S_boxes ! 2)) [0..<64])"
  unfolding S3_values by code_simp

lemma SP4_spread: "SP4 = map (spread (places ! 3)) (map (sbox (S_boxes ! 3)) [0..<64])"
  unfolding S4_values by code_simp

lemma SP5_spread: "SP5 = map (spread (places ! 4)) (map (sbox (S_boxes ! 4)) [0..<64])"
  unfolding S5_values by code_simp

lemma SP6_spread: "SP6 = map (spread (places ! 5)) (map (sbox (S_boxes ! 5)) [0..<64])"
  unfolding S6_values by code_simp

lemma SP7_spread: "SP7 = map (spread (places ! 6)) (map (sbox (S_boxes ! 6)) [0..<64])"
  unfolding S7_values by code_simp

lemma SP8_spread: "SP8 = map (spread (places ! 7)) (map (sbox (S_boxes ! 7)) [0..<64])"
  unfolding S8_values by code_simp

section \<open>Words as bits\<close>

text \<open>A word from its most significant bit, and a word of the round loop, which is kept rotated
  left by one.\<close>

definition wbits :: "u32 \<Rightarrow> bits" where
  "wbits w = map (\<lambda>i. bit w (31 - i)) [0..<32]"

definition rbits :: "u32 \<Rightarrow> bits" where
  "rbits w = map (\<lambda>i. bit w ((32 - i) mod 32)) [0..<32]"

lemma upt_32: "[0..<32] = [0, 1, 2, 3, 4, 5, 6, 7, 8, 9, 10, 11, 12, 13, 14, 15, 16, 17, 18, 19, 20, 21, 22, 23, 24, 25, 26, 27, 28, 29, 30, 31]"
  by code_simp

lemma all_less_32: "(\<forall>i < (32 :: nat). Q i) \<longleftrightarrow> list_all Q [0..<32]"
  by (auto simp: list_all_iff)

lemma mask_bits:
  "i < 32 \<Longrightarrow> bit (0x0f0f0f0f :: u32) i \<longleftrightarrow> i mod 8 < 4"
  "i < 32 \<Longrightarrow> bit (0x0000ffff :: u32) i \<longleftrightarrow> i < 16"
  "i < 32 \<Longrightarrow> bit (0x33333333 :: u32) i \<longleftrightarrow> i mod 4 < 2"
  "i < 32 \<Longrightarrow> bit (0x00ff00ff :: u32) i \<longleftrightarrow> i mod 16 < 8"
  "i < 32 \<Longrightarrow> bit (0xaaaaaaaa :: u32) i \<longleftrightarrow> odd i"
proof -
  have "\<forall>i < 32. bit (0x0f0f0f0f :: u32) i = (i mod 8 < 4) \<and> bit (0x0000ffff :: u32) i = (i < 16) \<and>
     bit (0x33333333 :: u32) i = (i mod 4 < 2) \<and> bit (0x00ff00ff :: u32) i = (i mod 16 < 8) \<and> bit (0xaaaaaaaa :: u32) i = odd i"
    unfolding all_less_32 upt_32 by (simp add: bit_0 bit_Suc)
  then show
    "i < 32 \<Longrightarrow> bit (0x0f0f0f0f :: u32) i \<longleftrightarrow> i mod 8 < 4"
    "i < 32 \<Longrightarrow> bit (0x0000ffff :: u32) i \<longleftrightarrow> i < 16"
    "i < 32 \<Longrightarrow> bit (0x33333333 :: u32) i \<longleftrightarrow> i mod 4 < 2"
    "i < 32 \<Longrightarrow> bit (0x00ff00ff :: u32) i \<longleftrightarrow> i mod 16 < 8"
    "i < 32 \<Longrightarrow> bit (0xaaaaaaaa :: u32) i \<longleftrightarrow> odd i"
    by blast+
qed

lemma fst_swap_bits:
  "i < 32 \<Longrightarrow> bit (fst (swap_bits n m ab)) i = (if n \<le> i \<and> bit m (i - n) then bit (snd ab) (i - n) else bit (fst ab) i)"
  by (cases ab) (auto simp: swap_bits_def Let_def bit_simps)

lemma snd_swap_bits:
  "i < 32 \<Longrightarrow> bit (snd (swap_bits n m ab)) i = (if bit m i then bit (fst ab) (i + n) else bit (snd ab) i)"
  by (cases ab) (auto simp: swap_bits_def Let_def bit_simps ac_simps)

definition rol1 :: "u32 \<Rightarrow> u32" where
  "rol1 w = (push_bit 1 w OR (drop_bit 31 w AND 1)) AND 0xffffffff"

definition ror1 :: "u32 \<Rightarrow> u32" where
  "ror1 w = push_bit 31 w OR drop_bit 1 w"

lemma rol1_bit: "i < 32 \<Longrightarrow> bit (rol1 w) i = bit w (if i = 0 then 31 else i - 1)"
proof -
  have "(0xffffffff :: u32) = - 1"
    by simp
  then have "rol1 w = push_bit 1 w OR (drop_bit 31 w AND 1)"
    by (simp only: rol1_def and.right_neutral)
  then show "i < 32 \<Longrightarrow> ?thesis"
    by (simp only: bit_or_iff bit_and_iff bit_push_bit_iff bit_drop_bit_eq) (auto simp: bit_1_iff)
qed

lemma ror1_bit: "i < 32 \<Longrightarrow> bit (ror1 w) i = bit w (if i = 31 then 0 else i + 1)"
  by (auto simp: ror1_def bit_simps dest: bit_imp_le_length)

lemma des_initial_alt:
  "des_initial lr =
     (let (leftt, right) = swap_bits 16 0x0000ffff (swap_bits 4 0x0f0f0f0f lr);
          (right, leftt) = swap_bits 8 0x00ff00ff (swap_bits 2 0x33333333 (right, leftt));
          (leftt, right) = swap_bits 0 0xaaaaaaaa (leftt, rol1 right)
      in (rol1 leftt, right))"
  by (simp add: des_initial_def swap_bits_def rol1_def case_prod_beta Let_def)

lemma des_final_alt:
  "des_final lr =
     (let (leftt, right) = swap_bits 0 0xaaaaaaaa (fst lr, ror1 (snd lr));
          (leftt, right) = swap_bits 2 0x33333333 (swap_bits 8 0x00ff00ff (ror1 leftt, right))
      in swap_bits 4 0x0f0f0f0f (swap_bits 16 0x0000ffff (right, leftt)))"
  by (simp add: des_final_def swap_bits_def ror1_def case_prod_beta Let_def)

lemmas net_simps = fst_swap_bits snd_swap_bits rol1_bit ror1_bit mask_bits

lemma des_initial_bits:
  "rbits (fst (des_initial (l, r))) @ rbits (snd (des_initial (l, r))) = select IP (wbits l @ wbits r)"
  unfolding des_initial_alt Let_def case_prod_beta rbits_def wbits_def upt_32 select_def IP_def fst_conv snd_conv list.map
  by (simp add: net_simps)

lemma des_final_bits:
  "wbits (fst (des_final (l, r))) @ wbits (snd (des_final (l, r))) = select FP (rbits r @ rbits l)"
  unfolding des_final_alt Let_def case_prod_beta rbits_def wbits_def upt_32 select_def FP_def fst_conv snd_conv list.map
  by (simp add: net_simps) (simp add: eval_nat_numeral)

section \<open>The round function\<close>

lemma num_of_6: "num_of [a, b, c, d, e, f] = 32 * of_bool a + 16 * of_bool b + 8 * of_bool c + 4 * of_bool d + 2 * of_bool e + of_bool f"
  by (simp add: num_of_def)

lemma six_num_of: "six w = num_of [bit w 5, bit w 4, bit w 3, bit w 2, bit w 1, bit w 0]"
proof -
  have two: "take_bit 2 (unat w) = 2 * of_bool (bit w 1) + of_bool (bit w 0)"
    using take_bit_Suc_from_most [of 1 "unat w"] take_bit_Suc_from_most [of 0 "unat w"]
    by (simp add: numeral_2_eq_2 bit_unsigned_iff)
  have "six w = take_bit 6 (unat w)"
    by (simp add: six_def unsigned_and_eq take_bit_eq_mask mask_eq_exp_minus_1)
  also have "\<dots> = num_of [bit w 5, bit w 4, bit w 3, bit w 2, bit w 1, bit w 0]"
    using two take_bit_Suc_from_most [of 5 "unat w"] take_bit_Suc_from_most [of 4 "unat w"] take_bit_Suc_from_most [of 3 "unat w"]
      take_bit_Suc_from_most [of 2 "unat w"]
    by (simp add: num_of_6 bit_unsigned_iff)
  finally show ?thesis .
qed

lemma six_less: "six w < 64"
  by (simp add: six_num_of num_of_6 of_bool_def)

lemma spread_bit:
  assumes "i < 32" and "a < 32" and "b < 32" and "c < 32" and "d < 32"
  shows "bit (spread [a, b, c, d] n) i \<longleftrightarrow>
    i = a \<and> bit n 3 \<or> i = b \<and> bit n 2 \<or> i = c \<and> bit n 1 \<or> i = d \<and> bit n 0"
  using assms by (auto simp: spread_def nibble_def bit_simps)

text \<open>The round key in a pair of the key register: groups of six bits, alternating between the words.\<close>

definition kbits :: "u32 \<Rightarrow> u32 \<Rightarrow> bits" where
  "kbits k0 k1 = concat (map (\<lambda>s. map (\<lambda>i. bit k0 (s + 5 - i)) [0..<6] @ map (\<lambda>i. bit k1 (s + 5 - i)) [0..<6]) [24, 16, 8, 0])"

definition ror4 :: "u32 \<Rightarrow> u32" where
  "ror4 w = push_bit 28 w OR drop_bit 4 w"

lemma ror4_bit: "i < 32 \<Longrightarrow> bit (ror4 w) i = bit w (if i < 28 then i + 4 else i - 28)"
  by (auto simp: ror4_def bit_simps ac_simps dest: bit_imp_le_length)

lemma upt_6: "[0..<6] = [0, 1, 2, 3, 4, 5]" and upt_8: "[0..<8] = [0, 1, 2, 3, 4, 5, 6, 7]"
  by code_simp+

definition box_input :: "u32 \<Rightarrow> u32 \<Rightarrow> u32 \<Rightarrow> nat \<Rightarrow> nat" where
  "box_input R k0 k1 g = num_of (take 6 (drop (6 * g) (xor_bits (select E_bits (rbits R)) (kbits k0 k1))))"

lemma box_inputs:
  "map (box_input R k0 k1) [0..<8] =
   [six (drop_bit 24 (ror4 R XOR k0)), six (drop_bit 24 (R XOR k1)),
    six (drop_bit 16 (ror4 R XOR k0)), six (drop_bit 16 (R XOR k1)),
    six (drop_bit 8 (ror4 R XOR k0)), six (drop_bit 8 (R XOR k1)),
    six (ror4 R XOR k0), six (R XOR k1)]"
proof -
  have x: "xor_bits (select E_bits (rbits R)) (kbits k0 k1) =
    concat (map (\<lambda>s. map (\<lambda>i. bit (ror4 R XOR k0) (s + 5 - i)) [0..<6] @ map (\<lambda>i. bit (R XOR k1) (s + 5 - i)) [0..<6]) [24, 16, 8, 0])"
    unfolding xor_bits_def select_def E_bits_def rbits_def kbits_def upt_32 upt_6 list.map concat.simps append.simps
    by (simp add: ror4_bit bit_xor_iff)
  show ?thesis
    unfolding upt_8 box_input_def x upt_6 list.map concat.simps append.simps
    by (simp add: six_num_of bit_drop_bit_eq bit_xor_iff)
qed

lemma sp_lookup:
  "SP1 ! six w = spread (places ! 0) (sbox (S_boxes ! 0) (six w))"
  "SP2 ! six w = spread (places ! 1) (sbox (S_boxes ! 1) (six w))"
  "SP3 ! six w = spread (places ! 2) (sbox (S_boxes ! 2) (six w))"
  "SP4 ! six w = spread (places ! 3) (sbox (S_boxes ! 3) (six w))"
  "SP5 ! six w = spread (places ! 4) (sbox (S_boxes ! 4) (six w))"
  "SP6 ! six w = spread (places ! 5) (sbox (S_boxes ! 5) (six w))"
  "SP7 ! six w = spread (places ! 6) (sbox (S_boxes ! 6) (six w))"
  "SP8 ! six w = spread (places ! 7) (sbox (S_boxes ! 7) (six w))"
  unfolding SP1_spread SP2_spread SP3_spread SP4_spread SP5_spread SP6_spread SP7_spread SP8_spread
  by (simp_all add: six_less)

lemma spread_P:
  "rbits (spread (places ! 6) n6 OR spread (places ! 4) n4 OR spread (places ! 2) n2 OR spread (places ! 0) n0 OR
     spread (places ! 7) n7 OR spread (places ! 5) n5 OR spread (places ! 3) n3 OR spread (places ! 1) n1) =
   select P_bits (concat (map nibble [n0, n1, n2, n3, n4, n5, n6, n7]))"
  unfolding rbits_def upt_32 select_def P_bits_def nibble_def list.map concat.simps append.simps
  by (simp add: places_def bit_or_iff spread_bit)

lemma des_f_boxes: "des_f (rbits R) (kbits k0 k1) =
    select P_bits (concat (map nibble (map2 sbox S_boxes (map (box_input R k0 k1) [0..<8]))))"
  by (simp add: des_f_def Let_def box_input_def upt_8 S_boxes_def)

lemma fval_f: "rbits (fval R k0 k1) = des_f (rbits R) (kbits k0 k1)"
proof -
  have "fval R k0 k1 = (let f = (\<lambda>g. spread (places ! g) (sbox (S_boxes ! g) (map (box_input R k0 k1) [0..<8] ! g)))
      in f 6 OR f 4 OR f 2 OR f 0 OR f 7 OR f 5 OR f 3 OR f 1)"
    unfolding box_inputs by (simp add: fval_def Let_def sp_lookup ror4_def or.assoc)
  then show ?thesis
    unfolding des_f_boxes box_inputs by (simp add: Let_def spread_P [simplified] S_boxes_def)
qed

section \<open>The cipher\<close>

lemma length_bits [simp]: "length (wbits w) = 32" "length (rbits w) = 32" "length (select p bs) = length p"
  by (simp_all add: wbits_def rbits_def select_def)

lemma rbits_xor: "rbits (a XOR b) = xor_bits (rbits a) (rbits b)"
  by (simp add: rbits_def xor_bits_def zip_map_map bit_xor_iff zip_same_conv_map comp_def)

lemma des_round_pair:
  "fold des_round [kbits k0 k1, kbits k2 k3] (rbits l, rbits r) =
   (let l = l XOR fval r k0 k1; r = r XOR fval l k2 k3 in (rbits l, rbits r))"
  by (simp add: des_round_def Let_def rbits_xor fval_f)

text \<open>The round keys in the key register.\<close>

definition register_keys :: "u32 list \<Rightarrow> bits list" where
  "register_keys ks = map (\<lambda>i. kbits (ks ! (2 * i)) (ks ! (2 * i + 1))) [0..<16]"

lemma rounds_desfunc:
  "fold des_round (concat (map (\<lambda>i. [kbits (ks ! (4 * i)) (ks ! (4 * i + 1)), kbits (ks ! (4 * i + 2)) (ks ! (4 * i + 3))]) is)) (rbits l, rbits r) =
   map_prod rbits rbits (fold (\<lambda>i (l, r).
       let l = l XOR fval r (ks ! (4 * i)) (ks ! (4 * i + 1)); r = r XOR fval l (ks ! (4 * i + 2)) (ks ! (4 * i + 3)) in (l, r)) is (l, r))"
proof (induction "is" arbitrary: l r)
  case (Cons i "is")
  show ?case
    using Cons.IH des_round_pair [of "ks ! (4 * i)" "ks ! (4 * i + 1)" "ks ! (4 * i + 2)" "ks ! (4 * i + 3)" l r]
    by (simp add: Let_def)
qed simp

lemma upt_16: "[0..<16] = [0, 1, 2, 3, 4, 5, 6, 7, 8, 9, 10, 11, 12, 13, 14, 15]"
  by code_simp

lemma register_keys_pairs:
  "register_keys ks = concat (map (\<lambda>i. [kbits (ks ! (4 * i)) (ks ! (4 * i + 1)), kbits (ks ! (4 * i + 2)) (ks ! (4 * i + 3))]) [0..<8])"
  unfolding register_keys_def upt_16 upt_8 by simp (simp add: eval_nat_numeral)

lemma desfunc_DES:
  "wbits (fst (desfunc (l, r) ks)) @ wbits (snd (desfunc (l, r) ks)) = DES (register_keys ks) (wbits l @ wbits r)"
proof -
  define y where "y = des_initial (l, r)"
  have "take 32 (select IP (wbits l @ wbits r)) = rbits (fst y)" "drop 32 (select IP (wbits l @ wbits r)) = rbits (snd y)"
    by (simp_all add: y_def flip: des_initial_bits)
  moreover define z where "z = fold (\<lambda>i (l, r).
       let l = l XOR fval r (ks ! (4 * i)) (ks ! (4 * i + 1)); r = r XOR fval l (ks ! (4 * i + 2)) (ks ! (4 * i + 3)) in (l, r)) [0..<8] y"
  ultimately have "DES (register_keys ks) (wbits l @ wbits r) = select FP (rbits (snd z) @ rbits (fst z))"
    using rounds_desfunc [of ks "[0..<8]" "fst y" "snd y"]
    by (simp add: DES_def register_keys_pairs del: concat.simps upt.simps) (simp add: case_prod_beta)
  also have "\<dots> = wbits (fst (des_final z)) @ wbits (snd (des_final z))"
    using des_final_bits [of "fst z" "snd z"] by simp
  finally show ?thesis
    by (simp add: desfunc_def z_def y_def)
qed

section \<open>Bytes and the key schedule\<close>

lemma length_8E:
  assumes "length bs = 8"
  obtains b0 b1 b2 b3 b4 b5 b6 b7 where "bs = [b0, b1, b2, b3, b4, b5, b6, b7]"
  using assms by (auto simp: numeral_eq_Suc length_Suc_conv)

lemma scrunch_take: "scrunch (take 8 bs) = scrunch bs"
  by (simp add: scrunch_def)

lemma scrunch_bits:
  assumes "length bs = 8"
  shows "wbits (fst (scrunch bs)) @ wbits (snd (scrunch bs)) = block_bits bs"
proof -
  obtain b0 b1 b2 b3 b4 b5 b6 b7 where "bs = [b0, b1, b2, b3, b4, b5, b6, b7]"
    by (rule length_8E [OF assms])
  then show ?thesis
    unfolding block_bits_def wbits_def scrunch_def upt_32 upt_8
    by (simp add: bit_or_iff bit_push_bit_iff bit_unsigned_iff bit_imp_le_length)
qed

lemma unscrun_bits: "block_bits (unscrun (x, y)) = wbits x @ wbits y"
proof -
  have m: "bit (0xff :: u32) i \<longleftrightarrow> i < 8" if "i < 8" for i
    using that bit_mask_iff [where 'a = u32, of 8 i] by (simp add: mask_eq_exp_minus_1)
  show ?thesis
    unfolding block_bits_def unscrun_def wbits_def upt_32 upt_8
    by (simp add: bit_and_iff bit_drop_bit_eq bit_unsigned_iff m)
qed

lemma block_bits_inj:
  assumes "block_bits xs = block_bits ys" and "length xs = length ys"
  shows "xs = ys"
  using assms(2,1)
proof (induction xs ys rule: list_induct2)
  case (Cons x xs y ys)
  then have "bit x i = bit y i" if "i < 8" for i
  proof -
    have "map (\<lambda>i. bit x (7 - i)) [0..<8] = map (\<lambda>i. bit y (7 - i)) [0..<8]"
      using Cons.prems by (simp add: block_bits_def)
    then have "map (\<lambda>i. bit x (7 - i)) [0..<8] ! (7 - i) = map (\<lambda>i. bit y (7 - i)) [0..<8] ! (7 - i)"
      by simp
    then show ?thesis
      using that nth_upt [of 0 "7 - i" 8] by simp
  qed
  then have "x = y"
    by (intro bit_word_eqI) simp
  then show ?case
    using Cons by (simp add: block_bits_def)
qed simp

lemma vnc_key_nth: "l < 8 * length key \<Longrightarrow> vnc_key key ! l = bit (key ! (l div 8)) (l mod 8)"
proof (induction key arbitrary: l)
  case (Cons b key)
  show ?case
  proof (cases "l < 8")
    case True
    then show ?thesis
      by (simp add: vnc_key_def nth_append)
  next
    case False
    then have "vnc_key (b # key) ! l = vnc_key key ! (l - 8)"
      by (simp add: vnc_key_def nth_append)
    also have "\<dots> = bit (key ! ((l - 8) div 8)) ((l - 8) mod 8)"
      using Cons False by simp
    finally show ?thesis
      using False by (simp add: le_div_geq le_mod_geq)
  qed
qed simp

lemma bytebit_nth: "bytebit ! i = push_bit i 1" if "i < 8"
proof -
  have "bytebit = map (\<lambda>i. push_bit i 1) [0..<8]"
    unfolding bytebit_def upt_8 by simp
  then have "bytebit ! i = map (\<lambda>i. push_bit i 1) [0..<8] ! i"
    by (rule arg_cong)
  also have "\<dots> = push_bit i 1"
    using that by (subst nth_map) simp_all
  finally show ?thesis .
qed

lemma and_bytebit: "(b AND (bytebit ! i) \<noteq> 0) \<longleftrightarrow> bit b i" if "i < 8" for b :: byte
proof -
  have "b AND push_bit i 1 = (if bit b i then push_bit i 1 else 0)"
    by (rule bit_word_eqI) (auto simp: bit_simps)
  moreover have "push_bit i 1 \<noteq> (0 :: byte)"
    using that bit_push_bit_iff [where 'a = byte, of i 1 i] by (auto simp: bit_simps)
  ultimately show ?thesis
    using that by (simp add: bytebit_nth)
qed

lemma pc1_PC1: "pc1 = map (\<lambda>i. i - 1) PC1" and pc2_PC2: "pc2 = map (\<lambda>i. i - 1) PC2"
  by code_simp+

lemma PC1_range: "i \<in> set PC1 \<Longrightarrow> i - 1 < 64"
  by (auto simp: PC1_def)

definition tr :: "byte list \<Rightarrow> bits" where
  "tr = map (\<lambda>b. b \<noteq> 0)"

lemma des_key_bits_PC1: "8 \<le> length key \<Longrightarrow> tr (des_key_bits key) = select PC1 (vnc_key (take 8 key))"
  using PC1_range
  by (auto simp: tr_def des_key_bits_def select_def pc1_PC1 vnc_key_nth and_bytebit less_mult_imp_div_less)

lemma key_rotate_bits:
  assumes "length m = 56" and "i < 16"
  shows "tr (key_rotate m i) = rotate (totrot ! i) (take 28 (tr m)) @ rotate (totrot ! i) (drop 28 (tr m))"
proof -
  have t: "totrot ! i \<le> 28"
    using assms(2) by (auto simp: totrot_def less_Suc_eq numeral_eq_Suc)
  have "rotate (totrot ! i) (take 28 (tr m)) = map (\<lambda>j. tr m ! ((totrot ! i + j) mod 28)) [0..<28]"
    using assms by (intro nth_equalityI) (auto simp: nth_rotate tr_def)
  moreover have "rotate (totrot ! i) (drop 28 (tr m)) = map (\<lambda>j. tr m ! (28 + (totrot ! i + j) mod 28)) [0..<28]"
    using assms by (intro nth_equalityI) (auto simp: nth_rotate tr_def)
  moreover have "[28..<56] = map (\<lambda>j. j + 28) [0..<28]"
    by (simp add: map_add_upt)
  moreover have "(totrot ! i + j) mod 28 = (if totrot ! i + j < 28 then totrot ! i + j else totrot ! i + j - 28)" if "j < 28" for j
    using t that by (simp add: mod_if)
  ultimately show ?thesis
    using assms t by (auto simp: key_rotate_def tr_def Let_def ac_simps)
qed

lemma bigbyte_nth: "bigbyte ! j = push_bit (23 - j) 1" if "j < 24"
proof -
  have "bigbyte = map (\<lambda>j. push_bit (23 - j) 1) [0..<24]"
    by code_simp
  then have "bigbyte ! j = map (\<lambda>j. push_bit (23 - j) 1) [0..<24] ! j"
    by (rule arg_cong)
  also have "\<dots> = push_bit (23 - j) 1"
    using that by (subst nth_map) simp_all
  finally show ?thesis .
qed

lemma fold_or_bit:
  "bit (fold (\<lambda>j kn. if c j then kn OR f j else kn) js (w :: u32)) i \<longleftrightarrow> bit w i \<or> (\<exists>j \<in> set js. c j \<and> bit (f j) i)"
  by (induction js arbitrary: w) (auto simp: bit_or_iff)

lemma kn_half_bit:
  assumes "j < 24"
  shows "bit (kn_half pcr off) (23 - j) \<longleftrightarrow> pcr ! (pc2 ! (j + off)) \<noteq> 0"
proof -
  have "bit (kn_half pcr off) (23 - j) \<longleftrightarrow> (\<exists>k < 24. pcr ! (pc2 ! (k + off)) \<noteq> 0 \<and> bit (bigbyte ! k) (23 - j))"
    by (auto simp: kn_half_def fold_or_bit)
  also have "\<dots> \<longleftrightarrow> (\<exists>k < 24. pcr ! (pc2 ! (k + off)) \<noteq> 0 \<and> k = j)"
  proof (intro ex_cong1 conj_cong refl)
    fix k :: nat
    assume "k < 24"
    then show "bit (bigbyte ! k) (23 - j) \<longleftrightarrow> k = j"
      using assms by (auto simp: bigbyte_nth bit_exp_iff)
  qed
  finally show ?thesis
    using assms by auto
qed

definition cook0 :: "u32 \<Rightarrow> u32 \<Rightarrow> u32" where
  "cook0 raw0 raw1 = push_bit 6 (raw0 AND 0x00fc0000) OR push_bit 10 (raw0 AND 0x00000fc0) OR
     drop_bit 10 (raw1 AND 0x00fc0000) OR drop_bit 6 (raw1 AND 0x00000fc0)"

definition cook1 :: "u32 \<Rightarrow> u32 \<Rightarrow> u32" where
  "cook1 raw0 raw1 = push_bit 12 (raw0 AND 0x0003f000) OR push_bit 16 (raw0 AND 0x0000003f) OR
     drop_bit 4 (raw1 AND 0x0003f000) OR (raw1 AND 0x0000003f)"

lemma cook_masks:
  "i < 32 \<Longrightarrow> bit (0x00fc0000 :: u32) i \<longleftrightarrow> 18 \<le> i \<and> i < 24"
  "i < 32 \<Longrightarrow> bit (0x0003f000 :: u32) i \<longleftrightarrow> 12 \<le> i \<and> i < 18"
  "i < 32 \<Longrightarrow> bit (0x00000fc0 :: u32) i \<longleftrightarrow> 6 \<le> i \<and> i < 12"
  "i < 32 \<Longrightarrow> bit (0x0000003f :: u32) i \<longleftrightarrow> i < 6"
proof -
  have "\<forall>i < 32. bit (0x00fc0000 :: u32) i = (18 \<le> i \<and> i < 24) \<and> bit (0x0003f000 :: u32) i = (12 \<le> i \<and> i < 18) \<and>
     bit (0x00000fc0 :: u32) i = (6 \<le> i \<and> i < 12) \<and> bit (0x0000003f :: u32) i = (i < 6)"
    unfolding all_less_32 upt_32 by (simp add: bit_0 bit_Suc)
  then show
    "i < 32 \<Longrightarrow> bit (0x00fc0000 :: u32) i \<longleftrightarrow> 18 \<le> i \<and> i < 24"
    "i < 32 \<Longrightarrow> bit (0x0003f000 :: u32) i \<longleftrightarrow> 12 \<le> i \<and> i < 18"
    "i < 32 \<Longrightarrow> bit (0x00000fc0 :: u32) i \<longleftrightarrow> 6 \<le> i \<and> i < 12"
    "i < 32 \<Longrightarrow> bit (0x0000003f :: u32) i \<longleftrightarrow> i < 6"
    by blast+
qed

lemma upt_24: "[0..<24] = [0, 1, 2, 3, 4, 5, 6, 7, 8, 9, 10, 11, 12, 13, 14, 15, 16, 17, 18, 19, 20, 21, 22, 23]"
  by code_simp

lemma kbits_cook:
  "kbits (cook0 a b) (cook1 a b) = map (\<lambda>j. bit a (23 - j)) [0..<24] @ map (\<lambda>j. bit b (23 - j)) [0..<24]"
  unfolding kbits_def cook0_def cook1_def upt_6 upt_24
  by (simp add: bit_or_iff bit_push_bit_iff bit_drop_bit_eq bit_and_iff cook_masks) (simp add: eval_nat_numeral)

lemma PC2_select: "select PC2 bs = map (\<lambda>j. bs ! (pc2 ! j)) [0..<24] @ map (\<lambda>j. bs ! (pc2 ! (j + 24))) [0..<24]"
proof -
  have l: "length pc2 = 48"
    by (simp add: pc2_def)
  have "select PC2 bs = map (\<lambda>i. bs ! i) pc2"
    by (simp add: select_def pc2_PC2)
  also have "pc2 = map ((!) pc2) [0..<48]"
    using map_nth [of pc2] by (simp add: l)
  also have "[0..<48] = [0..<24] @ map (\<lambda>j. j + 24) [0..<24]"
    using upt_add_eq_append [of 0 24 24] by (simp add: map_add_upt)
  finally show ?thesis
    by (simp add: comp_def)
qed

lemma round_key:
  assumes "length pcr = 56"
  shows "kbits (cook0 (kn_half pcr 0) (kn_half pcr 24)) (cook1 (kn_half pcr 0) (kn_half pcr 24)) = select PC2 (tr pcr)"
proof -
  have "pc2 ! j < 56" if "j < 48" for j
    using that nth_mem [of j pc2] by (auto simp: pc2_def)
  then show ?thesis
    using assms by (auto simp: kbits_cook PC2_select kn_half_bit tr_def)
qed

fun sums :: "nat \<Rightarrow> nat list \<Rightarrow> nat list" where
  "sums t [] = []"
| "sums t (s # ss) = (s + t) # sums (s + t) ss"

lemma schedule_sums:
  "schedule ss (rotate t C) (rotate t D) = map (\<lambda>t. select PC2 (rotate t C @ rotate t D)) (sums t ss)"
  by (induction ss arbitrary: t) (simp_all add: rotate_rotate Let_def)

lemma schedule_totrot: "schedule shifts C D = map (\<lambda>i. select PC2 (rotate (totrot ! i) C @ rotate (totrot ! i) D)) [0..<16]"
proof -
  have "sums 0 shifts = map ((!) totrot) [0..<16]"
    by code_simp
  then show ?thesis
    using schedule_sums [of shifts 0 C D] by simp
qed

lemma pair_nth:
  assumes "i < length is"
  shows "concat (map (\<lambda>i. [f i, g i]) is) ! (2 * i) = f (is ! i)" "concat (map (\<lambda>i. [f i, g i]) is) ! (2 * i + 1) = g (is ! i)"
  using assms
proof (induction "is" arbitrary: i)
  case (Cons a "is")
  { case 1 then show ?case using Cons.IH(1) [of "i - 1"] by (cases i) auto }
  { case 2 then show ?case using Cons.IH(2) [of "i - 1"] by (cases i) auto }
qed simp_all

lemma pair_length: "length (concat (map (\<lambda>i. [f i, g i]) is)) = 2 * length is"
  by (induction "is") auto

lemma usekey_id: "length ks = 32 \<Longrightarrow> usekey ks KnL = ks"
  using map_nth [of ks] by (simp add: usekey_def)

lemma cookey_keys:
  assumes "length is = 16"
  shows "register_keys (cookey (concat (map (\<lambda>i. [f i, g i]) is)) KnL) =
    map (\<lambda>i. kbits (cook0 (f i) (g i)) (cook1 (f i) (g i))) is"
proof -
  let ?raw = "concat (map (\<lambda>i. [f i, g i]) is)"
  let ?dough = "concat (map (\<lambda>i. [cook0 (?raw ! (2 * i)) (?raw ! (2 * i + 1)), cook1 (?raw ! (2 * i)) (?raw ! (2 * i + 1))]) [0..<16])"
  have "cookey ?raw KnL = usekey ?dough KnL"
    by (simp only: cookey_def Let_def cook0_def cook1_def)
  also have "\<dots> = ?dough"
    by (rule usekey_id) (unfold pair_length, simp)
  finally have "cookey ?raw KnL = ?dough" .
  moreover have "?dough ! (2 * i) = cook0 (f (is ! i)) (g (is ! i))" "?dough ! (2 * i + 1) = cook1 (f (is ! i)) (g (is ! i))" if "i < 16" for i
  proof -
    have u: "[0..<16] ! i = i" "i < length [0..<16]" "i < length is"
      using that assms by simp_all
    show "?dough ! (2 * i) = cook0 (f (is ! i)) (g (is ! i))"
      by (subst pair_nth(1) [OF u(2)]) (simp only: u(1) pair_nth [OF u(3)])
    show "?dough ! (2 * i + 1) = cook1 (f (is ! i)) (g (is ! i))"
      by (subst pair_nth(2) [OF u(2)]) (simp only: u(1) pair_nth [OF u(3)])
  qed
  ultimately have "register_keys (cookey ?raw KnL) =
    map (\<lambda>i. kbits (cook0 (f (is ! i)) (g (is ! i))) (cook1 (f (is ! i)) (g (is ! i)))) [0..<16]"
    unfolding register_keys_def by (intro map_cong) auto
  also have "\<dots> = map (\<lambda>i. kbits (cook0 (f i) (g i)) (cook1 (f i) (g i))) (map ((!) is) [0..<16])"
    by simp
  also have "map ((!) is) [0..<16] = is"
    using assms map_nth [of "is"] by simp
  finally show ?thesis .
qed

lemma kn_forward:
  "fold (\<lambda>i kn. kn[2 * i := f i, 2 * i + 1 := g i]) [0..<16] (replicate 32 (0 :: u32)) = concat (map (\<lambda>i. [f i, g i]) [0..<16])"
  unfolding upt_16 by (simp add: numeral_eq_Suc)

lemma kn_backward:
  "fold (\<lambda>i kn. kn[2 * (15 - i) := f i, 2 * (15 - i) + 1 := g i]) [0..<16] (replicate 32 (0 :: u32)) = concat (map (\<lambda>i. [f i, g i]) (rev [0..<16]))"
  unfolding upt_16 by (simp add: numeral_eq_Suc)

lemma deskey_keys:
  assumes "8 \<le> length key"
  shows "\<exists>KnL'. deskey key edf KnL = Inr KnL' \<and>
    register_keys KnL' = (if edf = DE1 then rev else id) (round_keys (vnc_key (take 8 key)))"
proof -
  let ?half = "\<lambda>off i. kn_half (key_rotate (des_key_bits key) i) off"
  have len: "length (des_key_bits key) = 56" "length (key_rotate (des_key_bits key) i) = 56" for i
    by (simp_all add: des_key_bits_def pc1_def key_rotate_def)
  have key: "kbits (cook0 (?half 0 i) (?half 24 i)) (cook1 (?half 0 i) (?half 24 i)) = round_keys (vnc_key (take 8 key)) ! i"
    if "i < 16" for i
    using that assms
    by (simp add: round_key len key_rotate_bits des_key_bits_PC1 round_keys_def schedule_totrot Let_def)
  have n: "length (round_keys (vnc_key (take 8 key))) = 16"
    by (simp add: round_keys_def schedule_totrot Let_def)
  let ?is = "if edf = DE1 then rev [0..<16] else [0..<16]"
  have "deskey key edf KnL = Inr (cookey (concat (map (\<lambda>i. [?half 0 i, ?half 24 i]) ?is)) KnL)"
    using assms kn_forward [of "?half 0" "?half 24"] kn_backward [of "?half 0" "?half 24"]
    by (simp add: deskey_def Let_def del: upt.simps concat.simps)
  moreover have "register_keys (cookey (concat (map (\<lambda>i. [?half 0 i, ?half 24 i]) ?is)) KnL) =
    map ((!) (round_keys (vnc_key (take 8 key)))) ?is"
    by (subst cookey_keys) (auto simp: key)
  moreover have "map ((!) (round_keys (vnc_key (take 8 key)))) ?is = (if edf = DE1 then rev else id) (round_keys (vnc_key (take 8 key)))"
    using n map_nth [of "round_keys (vnc_key (take 8 key))"] by (simp flip: rev_map)
  ultimately show ?thesis
    by simp
qed

section \<open>Decryption undoes encryption\<close>

lemma IP_FP: "length bs = 64 \<Longrightarrow> select IP (select FP bs) = bs" "length bs = 64 \<Longrightarrow> select FP (select IP bs) = bs"
proof -
  have c: "map (\<lambda>i. q ! (p ! i - 1)) [0..<64] = map Suc [0..<64] \<Longrightarrow> length p = 64 \<Longrightarrow> length q = 64 \<Longrightarrow>
    \<forall>i < 64. p ! i - 1 < 64 \<Longrightarrow> length bs = 64 \<Longrightarrow> select p (select q bs) = bs" for p q
    by (rule nth_equalityI) (auto simp: select_def dest: map_eq_conv [THEN iffD1])
  have "map (\<lambda>i. FP ! (IP ! i - 1)) [0..<64] = map Suc [0..<64]" "map (\<lambda>i. IP ! (FP ! i - 1)) [0..<64] = map Suc [0..<64]"
    by code_simp+
  moreover have "length IP = 64" "length FP = 64" "\<forall>x \<in> set IP. x - 1 < 64" "\<forall>x \<in> set FP. x - 1 < 64"
    by code_simp+
  ultimately show "length bs = 64 \<Longrightarrow> select IP (select FP bs) = bs" "length bs = 64 \<Longrightarrow> select FP (select IP bs) = bs"
    using c [of FP IP] c [of IP FP] by auto
qed

lemma length_des_f [simp]: "length (des_f R K) = 32"
  by (simp add: des_f_def Let_def P_bits_def)

lemma xor_bits_cancel: "length a = length b \<Longrightarrow> xor_bits (xor_bits a b) b = a"
  by (induction a b rule: list_induct2) (auto simp: xor_bits_def)

lemma length_xor_bits [simp]: "length (xor_bits a b) = min (length a) (length b)"
  by (simp add: xor_bits_def)

lemma des_round_step: "des_round K (L, R) = (R, xor_bits L (des_f R K))"
  by (simp add: des_round_def)

lemma feistel_length:
  assumes "length L = 32" and "length R = 32" and "fold des_round Ks (L, R) = (L', R')"
  shows "length L' = 32 \<and> length R' = 32"
  using assms
proof (induction Ks arbitrary: L R)
  case (Cons K Ks)
  then show ?case
    using Cons.IH [of R "xor_bits L (des_f R K)"] by (simp add: des_round_step)
qed simp

lemma feistel_inverse:
  assumes "length L = 32" and "length R = 32" and "fold des_round Ks (L, R) = (L', R')"
  shows "fold des_round (rev Ks) (R', L') = (R, L)"
  using assms
proof (induction Ks arbitrary: L R)
  case (Cons K Ks)
  then have "fold des_round (rev Ks) (R', L') = (xor_bits L (des_f R K), R)"
    using Cons.IH [of R "xor_bits L (des_f R K)"] by (simp add: des_round_step)
  then show ?case
    using Cons.prems by (simp add: des_round_step xor_bits_cancel)
qed simp

lemma DES_inverse:
  assumes "length x = 64"
  shows "DES (rev Ks) (DES Ks x) = x"
proof -
  define y where "y = select IP x"
  have y: "length (take 32 y) = 32" "length (drop 32 y) = 32" "select FP y = x"
    using assms by (simp_all add: y_def IP_FP) (simp_all add: IP_def)
  obtain L R where f: "fold des_round Ks (take 32 y, drop 32 y) = (L, R)"
    by fastforce
  have "length (R @ L) = 64" "length R = 32"
    using feistel_length [OF y(1,2) f] by simp_all
  then have "DES (rev Ks) (DES Ks x) = select FP (take 32 y @ drop 32 y)"
    using f feistel_inverse [OF y(1,2) f] by (simp add: DES_def y_def [symmetric] IP_FP)
  then show ?thesis
    using y(3) by simp
qed

lemma length_block_bits [simp]: "length (block_bits bs) = 8 * length bs"
  by (induction bs) (simp_all add: block_bits_def)

lemma des_DES:
  assumes "8 \<le> length inblock" and "8 \<le> length outblock"
  shows "\<exists>out. des inblock outblock KnL = Inr (out @ drop 8 outblock) \<and> length out = 8 \<and>
    block_bits out = DES (register_keys KnL) (block_bits (take 8 inblock))"
proof -
  obtain l r where s: "scrunch inblock = (l, r)"
    by fastforce
  obtain x y where d: "desfunc (l, r) KnL = (x, y)"
    by fastforce
  have "wbits l @ wbits r = block_bits (take 8 inblock)"
    using scrunch_bits [of "take 8 inblock"] assms(1) s by (simp add: scrunch_take)
  then have "block_bits (unscrun (x, y)) = DES (register_keys KnL) (block_bits (take 8 inblock))"
    using desfunc_DES [of l r KnL] d by (simp add: unscrun_bits)
  moreover have "length (unscrun (x, y)) = 8"
    by (simp add: unscrun_def)
  moreover have "des inblock outblock KnL = Inr (unscrun (x, y) @ drop 8 outblock)"
    using assms s d by (simp add: des_def)
  ultimately show ?thesis
    by blast
qed

text \<open>
  C39. With the register loaded by \<open>deskey\<close>, \<open>des\<close> computes on every block the cipher of FIPS 46-3
  under the key whose bits are read from the least significant end of each byte, forwards for
  \<open>EN0\<close> and with the round keys reversed for \<open>DE1\<close>; loading the key for
  decryption and running \<open>des\<close> on the result gives the block back, also in place.
\<close>

theorem des_standard:
  assumes "8 \<le> length key" and "8 \<le> length inblock" and "8 \<le> length outblock"
  shows "\<exists>Ke Kd c. deskey key EN0 KnL = Inr Ke \<and> deskey key DE1 Ke = Inr Kd \<and>
    des inblock outblock Ke = Inr (c @ drop 8 outblock) \<and> length c = 8 \<and>
    block_bits c = DES (round_keys (vnc_key (take 8 key))) (block_bits (take 8 inblock)) \<and>
    des c c Kd = Inr (take 8 inblock)"
proof -
  obtain Ke where e: "deskey key EN0 KnL = Inr Ke" "register_keys Ke = round_keys (vnc_key (take 8 key))"
    using deskey_keys [OF assms(1), of EN0] by (auto simp: EN0_def DE1_def)
  obtain Kd where d: "deskey key DE1 Ke = Inr Kd" "register_keys Kd = rev (round_keys (vnc_key (take 8 key)))"
    using deskey_keys [OF assms(1), of DE1] by auto
  obtain c where c: "des inblock outblock Ke = Inr (c @ drop 8 outblock)" "length c = 8"
      "block_bits c = DES (round_keys (vnc_key (take 8 key))) (block_bits (take 8 inblock))"
    using des_DES [OF assms(2,3), of Ke] e(2) by auto
  obtain p where p: "des c c Kd = Inr (p @ drop 8 c)" "length p = 8" "block_bits p = DES (register_keys Kd) (block_bits (take 8 c))"
    using des_DES [of c c Kd] c(2) by auto
  have "block_bits p = block_bits (take 8 inblock)"
    using p(3) c(2,3) d(2) assms(2) by (simp add: DES_inverse)
  then have "p = take 8 inblock"
    using p(2) assms(2) by (intro block_bits_inj) simp_all
  then show ?thesis
    using e(1) d(1) c p(1) by auto
qed

theorem des_standard_witness:
  "\<exists>Ke Kd c. deskey [0x01, 0x23, 0x45, 0x67, 0x89, 0xab, 0xcd, 0xef] EN0 (replicate 32 0) = Inr Ke \<and>
    deskey [0x01, 0x23, 0x45, 0x67, 0x89, 0xab, 0xcd, 0xef] DE1 Ke = Inr Kd \<and>
    des [0x01, 0x23, 0x45, 0x67, 0x89, 0xab, 0xcd, 0xe7] [0, 0, 0, 0, 0, 0, 0, 0, 9] Ke = Inr (c @ [9]) \<and> length c = 8 \<and>
    block_bits c = DES (round_keys (vnc_key [0x01, 0x23, 0x45, 0x67, 0x89, 0xab, 0xcd, 0xef]))
      (block_bits [0x01, 0x23, 0x45, 0x67, 0x89, 0xab, 0xcd, 0xe7]) \<and>
    des c c Kd = Inr [0x01, 0x23, 0x45, 0x67, 0x89, 0xab, 0xcd, 0xe7]"
  using des_standard [of "[0x01, 0x23, 0x45, 0x67, 0x89, 0xab, 0xcd, 0xef]" "[0x01, 0x23, 0x45, 0x67, 0x89, 0xab, 0xcd, 0xe7]"
      "[0, 0, 0, 0, 0, 0, 0, 0, 9]" "replicate 32 0"]
  by simp

end
