(* ===== verification/Encrypt.thy ===== *)
theory Encrypt
  imports Rpc_Buffer
begin

text \<open>
  \<open>utils/encrypt.c\<close>: \<open>simple_crypt\<close>, which mixes two keys of 32 bits into data, and two wrappers
  of the ciphers, line by line those of \<open>rpc_crypt.c\<close>. The data of \<open>simple_crypt\<close> is the block
  from \<open>pdata\<close> to its end; the low byte of a 32 bit word has the lowest address.
\<close>

unbundle bit_operations_syntax

section \<open>The functions\<close>

definition key_byte :: "u32 \<Rightarrow> nat \<Rightarrow> byte" where
  "key_byte k i = ucast (drop_bit (8 * i) k)"

text \<open>The unions \<open>k\<close> and \<open>p\<close> after their second and fourth bytes were exchanged crosswise.\<close>

definition mixed_keys :: "u32 \<Rightarrow> u32 \<Rightarrow> byte list \<times> byte list" where
  "mixed_keys key0 key1 =
     ([key_byte key0 0, key_byte key1 1, key_byte key0 2, key_byte key1 3],
      [key_byte key1 0, key_byte key0 3, key_byte key1 2, key_byte key0 1])"

text \<open>\<open>while (len)\<close>: the count of bytes goes down to zero, whatever its sign.\<close>

fun crypt_loop :: "byte list \<times> byte list \<Rightarrow> int \<Rightarrow> nat \<Rightarrow> byte list \<Rightarrow> (byte list \<times> int) res" where
  "crypt_loop kp len count [] = (if len = 0 then Inr ([], len) else Inl OutOfBounds)"
| "crypt_loop kp len count (b # pdata) =
     (if len = 0 then Inr (b # pdata, len)
      else let count = (if count = 8 then 0 else count);
               x = (if count < 4 then fst kp ! count else snd kp ! (count - 4))
           in bindR (crypt_loop kp (len - 1) (count + 1) pdata) (\<lambda>(out, len). Inr ((b XOR x) # out, len)))"

text \<open>The second loop: what it computes in \<open>c\<close> is never stored.\<close>

definition mix_loop :: "byte \<Rightarrow> int \<Rightarrow> byte list \<Rightarrow> byte list res" where
  "mix_loop rbkey len ps =
     (if int (length ps) < len then Inl OutOfBounds
      else Inr (map (\<lambda>b. b XOR rbkey) (take (nat len) ps) @ drop (nat len) ps))"

definition simple_crypt :: "byte list \<Rightarrow> int \<Rightarrow> u32 \<Rightarrow> u32 \<Rightarrow> byte list res" where
  "simple_crypt pdata len key0 key1 =
     (let rbkey = key_byte key1 0 XOR ucast key0
      in bindR (crypt_loop (mixed_keys key0 key1) len 0 pdata) (\<lambda>(ps, len). mix_loop rbkey len ps))"

definition aes_crypt :: "crypt_env \<Rightarrow> mem \<Rightarrow> int \<Rightarrow> byte list \<Rightarrow> bool \<Rightarrow> (mem \<times> int) res" where
  "aes_crypt env src inlen pubkey enc =
     (let len = aes_padded inlen;
          aes = the (fst (if enc then AES_set_encrypt_key (Some pubkey) 128 (Some (stack_key env))
                          else AES_set_decrypt_key (Some pubkey) 128 (Some (stack_key env)))) in
      bindR (mem_peek (env_junk env) src 0 len) (\<lambda>data.
      bindR (mem_write (replicate (nat len) (Some 0)) 0 (fst (AES_cbc_encrypt data (nat len) aes aes_iv enc))) (\<lambda>out.
      Inr (out, len))))"

definition tea_crypt :: "crypt_env \<Rightarrow> mem \<Rightarrow> int \<Rightarrow> byte list \<Rightarrow> bool \<Rightarrow> (mem \<times> int) res" where
  "tea_crypt env src inlen pubkey enc =
     bindR (if inlen \<le> 0 then Inr [] else mem_read src 0 inlen) (\<lambda>data.
       case tea_crypt_fn (env_stack env) (env_rand env) (if enc then 1 else 0) data pubkey (inlen + 32) of
         (r, outlen, bytes) \<Rightarrow>
           bindR (mem_write (mem_alloc (inlen + 32)) 0 bytes) (\<lambda>out. Inr (out, outlen)))"

section \<open>What they do\<close>

lemma wrappers_agree:
  "aes_crypt env src inlen pubkey enc = rpc_aes_crypt env src 0 inlen pubkey enc"
  "tea_crypt env src inlen pubkey enc = rpc_tea_crypt env src 0 inlen pubkey enc"
  by (simp_all add: aes_crypt_def rpc_aes_crypt_def tea_crypt_def rpc_tea_crypt_def)

text \<open>The key stream: the eight key bytes over and over.\<close>

definition pad_byte :: "byte list \<times> byte list \<Rightarrow> nat \<Rightarrow> byte" where
  "pad_byte kp i = (fst kp @ snd kp) ! (i mod 8)"

lemma crypt_loop_pad:
  assumes "length (fst kp) = 4" and "0 \<le> len" and "len \<le> int (length pdata)" and "count \<le> 8" and "count mod 8 = i mod 8"
  shows "crypt_loop kp len count pdata =
    Inr (map (\<lambda>(b, j). b XOR pad_byte kp j) (zip (take (nat len) pdata) [i..<i + nat len]) @ drop (nat len) pdata, 0)"
  using assms
proof (induction pdata arbitrary: len count i)
  case (Cons b pdata)
  show ?case
  proof (cases "len = 0")
    case False
    define c where "c = (if count = 8 then 0 else count)"
    have c: "c < 8" "c = i mod 8" "(c + 1) mod 8 = Suc i mod 8" "c + 1 \<le> 8"
      using Cons.prems(4,5) by (auto simp: c_def mod_Suc)
    have x: "(if c < 4 then fst kp ! c else snd kp ! (c - 4)) = pad_byte kp i"
      using c Cons.prems(1) by (simp add: pad_byte_def nth_append)
    have n: "nat len = Suc (nat (len - 1))"
      using False Cons.prems(2) by simp
    have "crypt_loop kp (len - 1) (c + 1) pdata =
      Inr (map (\<lambda>(b, j). b XOR pad_byte kp j) (zip (take (nat (len - 1)) pdata) [Suc i..<Suc i + nat (len - 1)]) @ drop (nat (len - 1)) pdata, 0)"
      using Cons.prems False c(3,4) by (intro Cons.IH) auto
    moreover have "[i..<i + nat len] = i # [Suc i..<Suc i + nat (len - 1)]"
      using n by (simp add: upt_conv_Cons)
    ultimately show ?thesis
      using False x n unfolding crypt_loop.simps c_def [symmetric] by (simp add: c_def [symmetric] Let_def)
  qed simp
qed simp

lemma simple_crypt_pad:
  assumes "0 \<le> len" and "len \<le> int (length pdata)"
  shows "simple_crypt pdata len key0 key1 =
    Inr (map (\<lambda>(b, j). b XOR pad_byte (mixed_keys key0 key1) j) (zip (take (nat len) pdata) [0..<nat len]) @ drop (nat len) pdata)"
  using crypt_loop_pad [of "mixed_keys key0 key1" len pdata 0 0] assms
  by (simp add: simple_crypt_def Let_def mix_loop_def mixed_keys_def)

text \<open>
  The first loop leaves \<open>len\<close> at zero, so the second never runs and \<open>simple_crypt\<close> is the
  addition of a key stream of period eight: it undoes itself and leaves what is behind \<open>len\<close>.
\<close>

theorem simple_crypt_involution:
  assumes "0 \<le> len" and "len \<le> int (length pdata)"
  shows "\<exists>c. simple_crypt pdata len key0 key1 = Inr c \<and> length c = length pdata \<and> drop (nat len) c = drop (nat len) pdata \<and>
    simple_crypt c len key0 key1 = Inr pdata"
proof -
  let ?x = "\<lambda>d. map (\<lambda>(b, j). b XOR pad_byte (mixed_keys key0 key1) j) (zip d [0..<nat len])"
  let ?c = "?x (take (nat len) pdata) @ drop (nat len) pdata"
  have n: "nat len \<le> length pdata"
    using assms by simp
  then have "length ?c = length pdata" "take (nat len) ?c = ?x (take (nat len) pdata)" "drop (nat len) ?c = drop (nat len) pdata"
    by simp_all
  moreover have "?x (?x (take (nat len) pdata)) = take (nat len) pdata"
    using n by (intro nth_equalityI) (simp_all add: xor.assoc)
  ultimately show ?thesis
    using simple_crypt_pad [OF assms] simple_crypt_pad [of len ?c key0 key1] assms by (intro exI [of _ ?c]) simp
qed

lemma simple_crypt_negative: "len < 0 \<Longrightarrow> simple_crypt pdata len key0 key1 = Inl OutOfBounds"
proof -
  have "crypt_loop kp len count pdata = Inl OutOfBounds" if "len < 0" for kp count
    using that by (induction pdata arbitrary: len count) (simp_all add: Let_def)
  then show "len < 0 \<Longrightarrow> ?thesis"
    by (simp add: simple_crypt_def)
qed

end
