(* ===== verification/Urlcode.thy ===== *)
theory Urlcode
  imports Prelude
begin

text \<open>
  \<open>utils/urlcode.c\<close>: percent encoding of a C string. A string is the list of its bytes in front
  of the terminator; \<open>char\<close> is signed, so the classification functions of the C library, whose
  argument must be an unsigned character or \<open>EOF\<close>, are undefined on a byte from 128 to 254.
  The output goes to a block whose size is fixed beforehand; a byte written behind its end, the
  terminator included, is a fault.
\<close>

unbundle bit_operations_syntax

section \<open>The functions\<close>

text \<open>\<open>isalnum\<close>, \<open>isdigit\<close> and \<open>tolower\<close> of the C locale.\<close>

definition ctype_arg :: "byte \<Rightarrow> unit res" where
  "ctype_arg c = (if c < 128 \<or> c = 255 then Inr () else Inl OutOfBounds)"

definition isdigit_c :: "byte \<Rightarrow> bool" where
  "isdigit_c c \<longleftrightarrow> 48 \<le> c \<and> c \<le> 57"

definition isalnum_c :: "byte \<Rightarrow> bool" where
  "isalnum_c c \<longleftrightarrow> isdigit_c c \<or> 65 \<le> c \<and> c \<le> 90 \<or> 97 \<le> c \<and> c \<le> 122"

definition tolower_c :: "byte \<Rightarrow> byte" where
  "tolower_c c = (if 65 \<le> c \<and> c \<le> 90 then c + 32 else c)"

definition from_hex :: "byte \<Rightarrow> byte res" where
  "from_hex ch = bindR (ctype_arg ch) (\<lambda>_. Inr (if isdigit_c ch then ch - 48 else tolower_c ch - 97 + 10))"

definition to_hex :: "byte \<Rightarrow> byte" where
  "to_hex code = [48, 49, 50, 51, 52, 53, 54, 55, 56, 57, 97, 98, 99, 100, 101, 102] ! unat (code AND 15)"

text \<open>\<open>*pbuf++ = c\<close> in a block of \<open>cap\<close> bytes.\<close>

definition emit :: "nat \<Rightarrow> byte list \<Rightarrow> byte list \<Rightarrow> byte list res" where
  "emit cap out cs = (if length out + length cs \<le> cap then Inr (out @ cs) else Inl OutOfBounds)"

text \<open>\<open>*pstr >> 4\<close> shifts a signed character.\<close>

definition encode_char :: "byte \<Rightarrow> byte list res" where
  "encode_char c = bindR (ctype_arg c) (\<lambda>_. Inr (
     if isalnum_c c \<or> c = 45 \<or> c = 95 \<or> c = 46 \<or> c = 126 then [c]
     else if c = 32 then [43]
     else [37, to_hex (signed_drop_bit 4 c), to_hex (c AND 15)]))"

fun encode_loop :: "nat \<Rightarrow> byte list \<Rightarrow> byte list \<Rightarrow> byte list res" where
  "encode_loop cap [] out = bindR (emit cap out [0]) (\<lambda>_. Inr out)"
| "encode_loop cap (c # str) out =
     bindR (encode_char c) (\<lambda>cs. bindR (emit cap out cs) (\<lambda>out. encode_loop cap str out))"

definition url_encode :: "byte list \<Rightarrow> byte list res" where
  "url_encode str = encode_loop (length str * 3 + 1) str []"

fun decode_loop :: "nat \<Rightarrow> byte list \<Rightarrow> byte list \<Rightarrow> byte list res" where
  "decode_loop cap [] out = bindR (emit cap out [0]) (\<lambda>_. Inr out)"
| "decode_loop cap (c # str) out =
     (if c = 37 then
        (case str of
           a # b # rest \<Rightarrow>
             bindR (from_hex a) (\<lambda>x. bindR (from_hex b) (\<lambda>y.
             bindR (emit cap out [push_bit 4 x OR y]) (\<lambda>out. decode_loop cap rest out)))
         | _ \<Rightarrow> decode_loop cap str out)
      else if c = 43 then bindR (emit cap out [32]) (\<lambda>out. decode_loop cap str out)
      else bindR (emit cap out [c]) (\<lambda>out. decode_loop cap str out))"

definition url_decode :: "byte list \<Rightarrow> byte list res" where
  "url_decode str = decode_loop (length str + 1) str []"

section \<open>One character\<close>

lemma all_nibbles: "(\<forall>n < (16 :: nat). Q n) \<longleftrightarrow> list_all Q [0, 1, 2, 3, 4, 5, 6, 7, 8, 9, 10, 11, 12, 13, 14, 15]"
proof -
  have "[0, 1, 2, 3, 4, 5, 6, 7, 8, 9, 10, 11, 12, 13, 14, 15] = [0..<16]"
    by code_simp
  then show ?thesis
    by (simp only: list_all_iff) auto
qed

lemma hex_digits:
  "to_hex n < 128 \<and> to_hex n \<noteq> 0 \<and> (isdigit_c (to_hex n) \<or> 97 \<le> to_hex n \<and> to_hex n \<le> 122) \<and> from_hex (to_hex n) = Inr (n AND 15)"
proof -
  let ?h = "\<lambda>k. [48, 49, 50, 51, 52, 53, 54, 55, 56, 57, 97, 98, 99, 100, 101, 102] ! k :: byte"
  have "\<forall>k < 16. ?h k < 128 \<and> ?h k \<noteq> 0 \<and> (isdigit_c (?h k) \<or> 97 \<le> ?h k \<and> ?h k \<le> 122) \<and> from_hex (?h k) = Inr (word_of_nat k)"
    unfolding all_nibbles by (simp add: from_hex_def ctype_arg_def isdigit_c_def tolower_c_def)
  moreover have "unat (n AND 15) < 16"
    using word_and_le1 [of n 15] by (simp add: word_le_nat_alt)
  ultimately have "?h (unat (n AND 15)) < 128 \<and> ?h (unat (n AND 15)) \<noteq> 0 \<and>
      (isdigit_c (?h (unat (n AND 15))) \<or> 97 \<le> ?h (unat (n AND 15)) \<and> ?h (unat (n AND 15)) \<le> 122) \<and>
      from_hex (?h (unat (n AND 15))) = Inr (word_of_nat (unat (n AND 15)))"
    by blast
  then show ?thesis
    by (simp add: to_hex_def)
qed

lemma nibbles: "push_bit 4 (signed_drop_bit 4 c AND 15) OR (c AND 15) = (c :: byte)"
proof -
  have "push_bit 4 (signed_drop_bit 4 c AND mask 4) OR (c AND mask 4) = c"
    by (rule bit_word_eqI) (auto simp: bit_or_iff bit_and_iff bit_push_bit_iff bit_signed_drop_bit_iff bit_mask_iff)
  then show ?thesis
    by (simp add: mask_eq_exp_minus_1)
qed

definition unreserved :: "byte \<Rightarrow> bool" where
  "unreserved c \<longleftrightarrow> isalnum_c c \<or> c \<in> {45, 95, 46, 126}"

definition enc :: "byte \<Rightarrow> byte list" where
  "enc c = (if unreserved c then [c] else if c = 32 then [43] else [37, to_hex (signed_drop_bit 4 c), to_hex (c AND 15)])"

lemma encode_char_enc: "c < 128 \<Longrightarrow> encode_char c = Inr (enc c)"
  by (simp add: encode_char_def enc_def unreserved_def ctype_arg_def)

lemma unreserved_plain: "unreserved c \<Longrightarrow> c \<noteq> 37 \<and> c \<noteq> 43 \<and> c \<noteq> 0 \<and> c < 128"
  by (auto simp: unreserved_def isalnum_c_def isdigit_c_def word_le_nat_alt word_less_nat_alt)

lemma decode_enc:
  assumes "c < 128"
  shows "decode_loop cap (enc c @ rest) out = bindR (emit cap out [c]) (\<lambda>out. decode_loop cap rest out)"
proof (cases "unreserved c \<or> c = 32")
  case True
  then show ?thesis
    using unreserved_plain [of c] by (auto simp: enc_def)
next
  case False
  have "push_bit 4 (signed_drop_bit 4 c AND 15) OR ((c AND 15) AND 15) = c"
    using nibbles [of c] by (simp add: and.assoc)
  then show ?thesis
    using False hex_digits [of "signed_drop_bit 4 c"] hex_digits [of "c AND 15"] by (simp add: enc_def)
qed

section \<open>Whole strings\<close>

lemma length_enc: "length (enc c) \<in> {1..3}"
  by (simp add: enc_def)

lemma encode_loop_enc:
  "\<lbrakk>\<forall>c \<in> set str. c < 128; length out + 3 * length str < cap\<rbrakk> \<Longrightarrow> encode_loop cap str out = Inr (out @ concat (map enc str))"
proof (induction str arbitrary: out)
  case (Cons c str)
  then show ?case
    using length_enc [of c] by (simp add: encode_char_enc emit_def)
qed (simp add: emit_def)

lemma decode_loop_enc:
  "\<lbrakk>\<forall>c \<in> set str. c < 128; length out + length str < cap\<rbrakk> \<Longrightarrow> decode_loop cap (concat (map enc str)) out = Inr (out @ str)"
proof (induction str arbitrary: out)
  case (Cons c str)
  then show ?case
    by (simp add: decode_enc emit_def)
qed (simp add: emit_def)

lemma decode_loop_total:
  "\<lbrakk>\<forall>c \<in> set str. c < 128; length out + length str < cap\<rbrakk> \<Longrightarrow>
    \<exists>t. decode_loop cap str out = Inr (out @ t) \<and> length t \<le> length str"
proof (induction str arbitrary: out rule: length_induct)
  case (1 str)
  have stp: "\<exists>t. decode_loop cap rest (out @ [x]) = Inr (out @ t) \<and> length t \<le> length str"
    if "length rest < length str" "set rest \<subseteq> set str" for rest x
  proof -
    have "\<forall>c \<in> set rest. c < 128" "length (out @ [x]) + length rest < cap"
      using 1(2,3) that by auto
    then have "\<exists>t. decode_loop cap rest (out @ [x]) = Inr ((out @ [x]) @ t) \<and> length t \<le> length rest"
      using 1(1) that(1) by blast
    then show ?thesis
      using that(1) by auto
  qed
  have skip: "\<exists>t. decode_loop cap rest out = Inr (out @ t) \<and> length t \<le> length str"
    if "length rest < length str" "set rest \<subseteq> set str" for rest
  proof -
    have "\<forall>c \<in> set rest. c < 128" "length out + length rest < cap"
      using 1(2,3) that by auto
    then have "\<exists>t. decode_loop cap rest out = Inr (out @ t) \<and> length t \<le> length rest"
      using 1(1) that(1) by blast
    then show ?thesis
      using that(1) by auto
  qed
  have hex: "\<exists>x. from_hex a = Inr x" if "a \<in> set str" for a
    using 1(2) that by (simp add: from_hex_def ctype_arg_def)
  show ?case
  proof (cases str)
    case Nil
    then show ?thesis
      using 1(3) by (simp add: emit_def)
  next
    case (Cons c str')
    then have room: "emit cap out [x] = Inr (out @ [x])" for x
      using 1(3) by (simp add: emit_def)
    show ?thesis
    proof (cases "c = 37")
      case True
      consider a b rest where "str' = a # b # rest" | "str' = []" | a where "str' = [a]"
        by (metis list.exhaust)
      then show ?thesis
      proof cases
        case (1 a b rest)
        then obtain x y where "from_hex a = Inr x" "from_hex b = Inr y"
          using hex [of a] hex [of b] Cons by auto
        then have "decode_loop cap str out = decode_loop cap rest (out @ [push_bit 4 x OR y])"
          using 1 Cons True by (simp add: room)
        then show ?thesis
          using stp [of rest] 1 Cons by auto
      next
        case 2
        then show ?thesis
          using skip [of "[]"] Cons True by simp
      next
        case (3 a)
        then show ?thesis
          using skip [of "[a]"] Cons True by (simp del: decode_loop.simps(2)) simp
      qed
    next
      case False
      then have "decode_loop cap str out = decode_loop cap str' (out @ [if c = 43 then 32 else c])"
        using Cons by (simp add: room)
      then show ?thesis
        using stp [of str'] Cons by auto
    qed
  qed
qed

text \<open>
  Percent encoding. A string of characters below 128 is encoded inside the block allocated for
  it, into unreserved characters, \<open>+\<close> and percent signs with two hexadecimal digits, and
  decoding gives it back. Decoding never leaves its block on any such text, whether or not an
  encoder produced it.
\<close>

theorem url_code_round_trip:
  assumes "\<forall>c \<in> set str. c < 128"
  shows "\<exists>e. url_encode str = Inr e \<and> url_decode e = Inr str \<and> length e \<le> 3 * length str \<and>
      (\<forall>c \<in> set e. unreserved c \<or> c = 43 \<or> c = 37) \<and>
    (\<exists>t. url_decode str = Inr t \<and> length t \<le> length str)"
proof -
  have h: "unreserved (to_hex n)" for n
    using hex_digits [of n] by (auto simp: unreserved_def isalnum_c_def)
  have len: "length (concat (map enc str)) \<le> 3 * length str" "length str \<le> length (concat (map enc str))"
  proof (induction str)
    case (Cons c str)
    { case 1 then show ?case using Cons length_enc [of c] by simp }
    { case 2 then show ?case using Cons length_enc [of c] by simp }
  qed simp_all
  have "url_encode str = Inr (concat (map enc str))"
    using assms encode_loop_enc [of str "[]"] by (simp add: url_encode_def)
  moreover have "url_decode (concat (map enc str)) = Inr str"
    using assms decode_loop_enc [of str "[]"] len by (simp add: url_decode_def)
  moreover have "\<forall>c \<in> set (concat (map enc str)). unreserved c \<or> c = 43 \<or> c = 37"
    using h by (auto simp: enc_def split: if_splits)
  ultimately show ?thesis
    using len(1) decode_loop_total [OF assms, of "[]"] by (auto simp: url_decode_def)
qed

theorem url_code_round_trip_witness:
  "\<exists>e. url_encode [97, 32, 47, 37] = Inr e \<and> url_decode e = Inr [97, 32, 47, 37]"
  using url_code_round_trip [of "[97, 32, 47, 37]"] by auto

text \<open>A byte from 128 to 254 reaches \<open>isalnum\<close> as a negative number that is not \<open>EOF\<close>.\<close>

lemma url_encode_negative_char:
  assumes "\<forall>c \<in> set pre. c < 128" and "128 \<le> c" and "c \<noteq> 255"
  shows "url_encode (pre @ c # post) = Inl OutOfBounds"
proof -
  have "encode_loop cap (pre @ c # post) out = Inl OutOfBounds" if "\<forall>c \<in> set pre. c < 128" "length out + 3 * length pre < cap" for out cap
    using that
  proof (induction pre arbitrary: out)
    case (Cons a pre)
    then show ?case
      using length_enc [of a] by (simp add: encode_char_enc emit_def)
  qed (use assms(2,3) in \<open>simp add: encode_char_def ctype_arg_def linorder_not_le [symmetric]\<close>)
  then show ?thesis
    using assms(1) by (simp add: url_encode_def)
qed

end
