(* ===== verification/Vector.thy ===== *)
theory Vector
  imports Prelude
begin

text \<open>
  \<open>utils/vector.c\<close>: a sequence of copied blocks of bytes, kept as a singly linked list with
  pointers to its head and tail. Entries live in a store from addresses to entries, \<open>None\<close> is the
  null pointer; \<open>fresh\<close> is what \<open>malloc\<close> returns for an entry and \<open>ok\<close> whether the
  allocation of its data succeeds.
\<close>

section \<open>The operations\<close>

record vectorentry_s =
  ve_data :: "byte list"
  ve_len :: u32
  ve_next :: "nat option"

record vector_s =
  num_entries :: u32
  head :: "nat option"
  tail :: "nat option"

type_synonym entries = "nat \<rightharpoonup> vectorentry_s"

definition EINVAL :: int where "EINVAL = 22"
definition ENOMEM :: int where "ENOMEM = 12"

definition vector_create :: "bool \<Rightarrow> vector_s option" where
  "vector_create ok = (if ok then Some \<lparr>num_entries = 0, head = None, tail = None\<rparr> else None)"

text \<open>The result is the store without the entries; the fuel bounds the length of the list.\<close>

fun delete_loop :: "nat \<Rightarrow> nat option \<Rightarrow> entries \<Rightarrow> entries res option" where
  "delete_loop fuel None h = Some (Inr h)"
| "delete_loop 0 (Some p) h = None"
| "delete_loop (Suc fuel) (Some p) h =
     (case h p of None \<Rightarrow> Some (Inl UseAfterFree) | Some e \<Rightarrow> delete_loop fuel (ve_next e) (h(p := None)))"

definition vector_delete :: "nat \<Rightarrow> vector_s option \<Rightarrow> entries \<Rightarrow> (entries \<times> int) res option" where
  "vector_delete fuel vector h =
     (case vector of
        None \<Rightarrow> Some (Inr (h, - EINVAL))
      | Some v \<Rightarrow> map_option (\<lambda>r. bindR r (\<lambda>h. Inr (h, 0))) (delete_loop fuel (head v) h))"

definition INSERT_PREPEND :: int where "INSERT_PREPEND = 0"
definition INSERT_APPEND :: int where "INSERT_APPEND = 1"

definition vector_insert ::
    "nat option \<Rightarrow> bool \<Rightarrow> vector_s option \<Rightarrow> byte list option \<Rightarrow> u32 \<Rightarrow> int \<Rightarrow> entries \<Rightarrow> (vector_s option \<times> entries \<times> int) res" where
  "vector_insert fresh ok vector data len pos h =
     (case (vector, data) of
        (Some v, Some bytes) \<Rightarrow>
          if len \<le> 0 \<or> (pos \<noteq> INSERT_PREPEND \<and> pos \<noteq> INSERT_APPEND) then Inr (vector, h, - EINVAL)
          else (case fresh of
              None \<Rightarrow> Inr (vector, h, - ENOMEM)
            | Some p \<Rightarrow>
                if \<not> ok then Inr (vector, h, - ENOMEM)
                else if length bytes < unat len then Inl OutOfBounds
                else let h = h(p \<mapsto> \<lparr>ve_data = take (unat len) bytes, ve_len = len, ve_next = None\<rparr>)
                     in bindR (if head v = None \<and> tail v = None then Inr (v\<lparr>head := Some p, tail := Some p\<rparr>, h)
                               else if pos = 0 then Inr (v\<lparr>head := Some p\<rparr>, h(p \<mapsto> (the (h p))\<lparr>ve_next := head v\<rparr>))
                               else (case tail v of
                                   None \<Rightarrow> Inl NullDeref
                                 | Some t \<Rightarrow>
                                     (case h t of
                                        None \<Rightarrow> Inl UseAfterFree
                                      | Some e \<Rightarrow> Inr (v\<lparr>tail := Some p\<rparr>, h(t \<mapsto> e\<lparr>ve_next := Some p\<rparr>)))))
                         (\<lambda>(v, h). Inr (Some (v\<lparr>num_entries := num_entries v + 1\<rparr>), h, 0)))
      | _ \<Rightarrow> Inr (vector, h, - EINVAL))"

definition vector_append ::
    "nat option \<Rightarrow> bool \<Rightarrow> vector_s option \<Rightarrow> byte list option \<Rightarrow> u32 \<Rightarrow> entries \<Rightarrow> (vector_s option \<times> entries \<times> int) res" where
  "vector_append fresh ok vector data len h = vector_insert fresh ok vector data len INSERT_APPEND h"

definition vector_prepend ::
    "nat option \<Rightarrow> bool \<Rightarrow> vector_s option \<Rightarrow> byte list option \<Rightarrow> u32 \<Rightarrow> entries \<Rightarrow> (vector_s option \<times> entries \<times> int) res" where
  "vector_prepend fresh ok vector data len h = vector_insert fresh ok vector data len INSERT_PREPEND h"

text \<open>\<open>while (loc != pos)\<close> from \<open>loc = 0\<close>: \<open>k\<close> steps along the list.\<close>

fun walk :: "entries \<Rightarrow> nat \<Rightarrow> nat option \<Rightarrow> vectorentry_s res" where
  "walk h k None = Inl NullDeref"
| "walk h k (Some p) =
     (case h p of
        None \<Rightarrow> Inl UseAfterFree
      | Some e \<Rightarrow> (case k of 0 \<Rightarrow> Inr e | Suc k \<Rightarrow> walk h k (ve_next e)))"

definition vector_getentry :: "entries \<Rightarrow> vector_s option \<Rightarrow> u32 \<Rightarrow> (byte list \<times> u32) option res" where
  "vector_getentry h vector pos =
     (case vector of
        None \<Rightarrow> Inr None
      | Some v \<Rightarrow>
          if pos \<ge> num_entries v then Inr None
          else bindR (walk h (unat pos) (head v)) (\<lambda>e. Inr (Some (ve_data e, ve_len e))))"

definition vector_length :: "vector_s option \<Rightarrow> u32" where
  "vector_length vector = (case vector of None \<Rightarrow> word_of_int (- EINVAL) | Some v \<Rightarrow> num_entries v)"

section \<open>A vector is a sequence of blocks\<close>

fun vseg :: "entries \<Rightarrow> nat option \<Rightarrow> nat list \<Rightarrow> byte list list \<Rightarrow> bool" where
  "vseg h p [] [] \<longleftrightarrow> p = None"
| "vseg h p (a # as) (d # ds) \<longleftrightarrow>
     p = Some a \<and> (\<exists>e. h a = Some e \<and> ve_data e = d \<and> unat (ve_len e) = length d \<and> vseg h (ve_next e) as ds)"
| "vseg h p _ _ \<longleftrightarrow> False"

definition vec_is :: "entries \<Rightarrow> vector_s \<Rightarrow> nat list \<Rightarrow> byte list list \<Rightarrow> bool" where
  "vec_is h v as ds \<longleftrightarrow> vseg h (head v) as ds \<and> distinct as \<and> tail v = (if as = [] then None else Some (last as)) \<and>
     unat (num_entries v) = length ds"

lemma vseg_length: "vseg h p as ds \<Longrightarrow> length as = length ds"
  by (induction h p as ds rule: vseg.induct) auto

lemma vseg_dom: "vseg h p as ds \<Longrightarrow> set as \<subseteq> dom h"
  by (induction h p as ds rule: vseg.induct) auto

lemma vseg_frame: "a \<notin> set as \<Longrightarrow> vseg (h(a := x)) p as ds = vseg h p as ds"
  by (induction h p as ds rule: vseg.induct) auto

lemma vseg_snoc:
  assumes "vseg h p (as @ [t]) ds" and "h t = Some e" and "a \<notin> set (as @ [t])" and "distinct (as @ [t])"
    and "h a = Some n" and "ve_next n = None" and "ve_data n = d" and "unat (ve_len n) = length d"
  shows "vseg (h(t \<mapsto> e\<lparr>ve_next := Some a\<rparr>)) p (as @ [t, a]) (ds @ [d])"
  using assms
proof (induction as arbitrary: p ds)
  case Nil
  then obtain d' where "ds = [d']"
    using vseg_length by (cases ds) fastforce+
  then show ?case
    using Nil by auto
next
  case (Cons b as)
  then obtain d' ds' where ds: "ds = d' # ds'"
    using vseg_length by (cases ds) fastforce+
  then obtain f where f: "p = Some b" "h b = Some f" "ve_data f = d'" "unat (ve_len f) = length d'" "vseg h (ve_next f) (as @ [t]) ds'"
    using Cons.prems(1) by auto
  have "vseg (h(t \<mapsto> e\<lparr>ve_next := Some a\<rparr>)) (ve_next f) (as @ [t, a]) (ds' @ [d])"
    using Cons.prems f(5) by (intro Cons.IH) auto
  moreover have "(h(t \<mapsto> e\<lparr>ve_next := Some a\<rparr>)) b = Some f"
    using f(2) Cons.prems(4) by auto
  ultimately show ?case
    using f(1,3,4) ds by (simp del: fun_upd_apply)
qed

lemma walk_nth: "vseg h p as ds \<Longrightarrow> k < length ds \<Longrightarrow> \<exists>e. walk h k p = Inr e \<and> ve_data e = ds ! k \<and> unat (ve_len e) = length (ds ! k)"
proof (induction h p as ds arbitrary: k rule: vseg.induct)
  case (2 h p a as d ds)
  then show ?case
    by (cases k) auto
qed auto

lemma delete_loop_all:
  "vseg h p as ds \<Longrightarrow> distinct as \<Longrightarrow> length as \<le> fuel \<Longrightarrow> delete_loop fuel p h = Some (Inr (h |` (- set as)))"
proof (induction as arbitrary: h p ds fuel)
  case Nil
  then show ?case
    by (cases ds) auto
next
  case (Cons a as)
  then obtain d ds' e where e: "ds = d # ds'" "p = Some a" "h a = Some e" "vseg h (ve_next e) as ds'"
    by (cases ds) auto
  obtain f where f: "fuel = Suc f" "length as \<le> f"
    using Cons.prems(3) by (cases fuel) auto
  have "vseg (h(a := None)) (ve_next e) as ds'"
    using e(4) Cons.prems(2) by (simp add: vseg_frame)
  then have "delete_loop f (ve_next e) (h(a := None)) = Some (Inr ((h(a := None)) |` (- set as)))"
    using Cons.prems(2) f(2) Cons.IH by (simp del: fun_upd_apply)
  moreover have "(h(a := None)) |` (- set as) = h |` (- set (a # as))"
    by (rule ext) (simp add: restrict_map_def)
  ultimately show ?case
    using e f by simp
qed

lemma insert_prepend_ok:
  assumes "vec_is h v as ds" and "h p = None" and "0 < unat len" and "unat len \<le> length bytes" and "length ds + 1 < 2 ^ 32"
  shows "\<exists>v' h'. vector_prepend (Some p) True (Some v) (Some bytes) len h = Inr (Some v', h', 0) \<and>
    vec_is h' v' (p # as) (take (unat len) bytes # ds) \<and> dom h' = insert p (dom h)"
proof -
  have v: "vseg h (head v) as ds" "distinct as" "tail v = (if as = [] then None else Some (last as))" "unat (num_entries v) = length ds" "p \<notin> set as"
    using assms(1,2) vseg_dom [of h "head v" as ds] by (auto simp: vec_is_def)
  have n: "unat (num_entries v + 1) = length ds + 1"
    using v(4) assms(5) by (simp add: unat_word_ariths)
  have len: "\<not> len \<le> 0" "\<not> length bytes < unat len"
    using assms(3,4) by auto
  show ?thesis
  proof (cases as)
    case Nil
    then have "ds = []" "head v = None" "tail v = None"
      using v by (cases ds; simp)+
    then show ?thesis
      using len n Nil assms(4)
      by (auto simp: vector_prepend_def vector_insert_def INSERT_PREPEND_def INSERT_APPEND_def vec_is_def)
  next
    case (Cons a as')
    then have "tail v \<noteq> None"
      using v(3) by simp
    then show ?thesis
      using len n Cons v assms(4)
      by (auto simp: vector_prepend_def vector_insert_def INSERT_PREPEND_def INSERT_APPEND_def vec_is_def vseg_frame)
  qed
qed

lemma insert_append_ok:
  assumes "vec_is h v as ds" and "h p = None" and "0 < unat len" and "unat len \<le> length bytes" and "length ds + 1 < 2 ^ 32"
  shows "\<exists>v' h'. vector_append (Some p) True (Some v) (Some bytes) len h = Inr (Some v', h', 0) \<and>
    vec_is h' v' (as @ [p]) (ds @ [take (unat len) bytes]) \<and> dom h' = insert p (dom h)"
proof -
  have v: "vseg h (head v) as ds" "distinct as" "tail v = (if as = [] then None else Some (last as))" "unat (num_entries v) = length ds" "p \<notin> set as"
    using assms(1,2) vseg_dom [of h "head v" as ds] by (auto simp: vec_is_def)
  have n: "unat (num_entries v + 1) = length ds + 1"
    using v(4) assms(5) by (simp add: unat_word_ariths)
  have len: "\<not> len \<le> 0" "\<not> length bytes < unat len"
    using assms(3,4) by auto
  show ?thesis
  proof (cases as rule: rev_cases)
    case Nil
    then have "ds = []" "head v = None" "tail v = None"
      using v by (cases ds; simp)+
    then show ?thesis
      using len n Nil assms(4)
      by (auto simp: vector_append_def vector_insert_def INSERT_PREPEND_def INSERT_APPEND_def vec_is_def)
  next
    case (snoc as' t)
    let ?e = "\<lparr>ve_data = take (unat len) bytes, ve_len = len, ve_next = None\<rparr>"
    obtain e where e: "h t = Some e" "t \<noteq> p"
      using vseg_dom [OF v(1)] snoc v(5) by auto
    have "vseg ((h(p \<mapsto> ?e))(t \<mapsto> e\<lparr>ve_next := Some p\<rparr>)) (head v) (as' @ [t, p]) (ds @ [take (unat len) bytes])"
      using v e snoc assms(4) by (intro vseg_snoc) (auto simp: vseg_frame)
    then show ?thesis
      using len n snoc v e assms(4)
      by (auto simp: vector_append_def vector_insert_def INSERT_PREPEND_def INSERT_APPEND_def vec_is_def)
  qed
qed

text \<open>
  A vector refines a sequence of blocks: \<open>vector_append\<close> and \<open>vector_prepend\<close> add a copy of the
  first \<open>len\<close> bytes at an end, \<open>vector_getentry\<close> reads by position and answers null behind the
  end, and \<open>vector_delete\<close> gives back exactly the entries. A failing allocation changes nothing.
\<close>

theorem vector_refines_sequence:
  assumes "vec_is h v as ds" and "h p = None" and "0 < unat len" and "unat len \<le> length bytes" and "length ds + 1 < 2 ^ 32"
  shows "(\<exists>v' h'. vector_append (Some p) True (Some v) (Some bytes) len h = Inr (Some v', h', 0) \<and>
      vec_is h' v' (as @ [p]) (ds @ [take (unat len) bytes])) \<and>
    (\<exists>v' h'. vector_prepend (Some p) True (Some v) (Some bytes) len h = Inr (Some v', h', 0) \<and>
      vec_is h' v' (p # as) (take (unat len) bytes # ds)) \<and>
    vector_append None ok (Some v) (Some bytes) len h = Inr (Some v, h, - ENOMEM) \<and>
    vector_append (Some p) False (Some v) (Some bytes) len h = Inr (Some v, h, - ENOMEM) \<and>
    vector_getentry h (Some v) pos = Inr (if unat pos < length ds then Some (ds ! unat pos, word_of_nat (length (ds ! unat pos))) else None) \<and>
    unat (vector_length (Some v)) = length ds \<and>
    vector_delete (length ds) (Some v) h = Some (Inr (h |` (- set as), 0))"
proof -
  have v: "vseg h (head v) as ds" "distinct as" "unat (num_entries v) = length ds"
    using assms(1) by (auto simp: vec_is_def)
  have len: "\<not> len \<le> 0"
    using assms(3) by auto
  have get: "vector_getentry h (Some v) pos = Inr (if unat pos < length ds then Some (ds ! unat pos, word_of_nat (length (ds ! unat pos))) else None)"
  proof (cases "unat pos < length ds")
    case True
    then obtain e where "walk h (unat pos) (head v) = Inr e" "ve_data e = ds ! unat pos" "unat (ve_len e) = length (ds ! unat pos)"
      using walk_nth [OF v(1)] by blast
    moreover from this(3) have "ve_len e = word_of_nat (length (ds ! unat pos))"
      by (metis of_nat_unat ucast_id)
    ultimately show ?thesis
      using True v(3) by (simp add: vector_getentry_def word_le_nat_alt)
  next
    case False
    then show ?thesis
      using v(3) by (simp add: vector_getentry_def word_le_nat_alt)
  qed
  have del: "vector_delete (length ds) (Some v) h = Some (Inr (h |` (- set as), 0))"
    using delete_loop_all [OF v(1,2)] vseg_length [OF v(1)] by (simp add: vector_delete_def)
  show ?thesis
    using insert_append_ok [OF assms] insert_prepend_ok [OF assms] get del v(3) len
    by (auto simp: vector_append_def vector_insert_def INSERT_APPEND_def vector_length_def)
qed

end
