(* ===== verification/Db_Provider.thy ===== *)
theory Db_Provider
  imports Db_Sql
begin

text \<open>
  \<open>dbprovider/db_provider.c\<close>, \<open>dbprovider/db_provider_sqlite.c\<close> and \<open>service/db/db_util.c\<close>: opening
  and closing the database, the handles of queries and the lock they hold, and the texts of
  errors. What the system and SQLite answer are arguments: whether a path exists, whether a
  directory can be made, whether the database opens, which rows a statement has.

  \<open>access_lock\<close> is a Windows critical section: it is entered again by the thread that holds it,
  another thread waits. Entering or leaving one that is not initialised, and leaving one that
  is not held, is a fault. The operations of \<open>Db_Account\<close> use the provider through \<open>Db_Sql\<close>,
  where a query runs without another one in between; this theory shows why it does.
\<close>

section \<open>The state\<close>

datatype lock = Unset | Free | Held nat nat   \<comment> \<open>thread and how often it entered\<close>

record provider =
  sql_path :: "byte list"
  def_sqlite3_db :: bool
  sql_err :: "byte list"
  access_lock :: lock

definition prov0 :: provider where
  "prov0 = \<lparr>sql_path = [], def_sqlite3_db = False, sql_err = replicate 65 0, access_lock = Unset\<rparr>"

text \<open>\<open>None\<close> says that the thread waits.\<close>

definition lock_enter :: "nat \<Rightarrow> lock \<Rightarrow> lock res option" where
  "lock_enter t l =
     (case l of
        Unset \<Rightarrow> Some (Inl UseUninit)
      | Free \<Rightarrow> Some (Inr (Held t 1))
      | Held u n \<Rightarrow> if u = t then Some (Inr (Held t (n + 1))) else None)"

definition lock_leave :: "nat \<Rightarrow> lock \<Rightarrow> lock res" where
  "lock_leave t l =
     (case l of
        Held u n \<Rightarrow> if u = t then Inr (if n \<le> 1 then Free else Held t (n - 1)) else Inl UseUninit
      | _ \<Rightarrow> Inl UseUninit)"

definition c_string :: "byte list \<Rightarrow> byte list" where
  "c_string m = takeWhile (\<lambda>b. b \<noteq> 0) m"

text \<open>\<open>strncpy\<close> fills up with zeros when the text is shorter than the count.\<close>

definition strncpy_c :: "byte list \<Rightarrow> byte list \<Rightarrow> nat \<Rightarrow> byte list" where
  "strncpy_c dst src n = take n (src @ replicate n 0) @ drop n dst"

section \<open>Opening and closing\<close>

definition sql_clean_sqlite :: "provider \<Rightarrow> provider" where
  "sql_clean_sqlite st = (if def_sqlite3_db st then st\<lparr>def_sqlite3_db := False, access_lock := Unset\<rparr> else st)"

definition strrchr_c :: "byte list \<Rightarrow> byte \<Rightarrow> nat option" where
  "strrchr_c s c = (if c \<in> set s then Some (length s - 1 - length (takeWhile (\<lambda>b. b \<noteq> c) (rev s))) else None)"

definition dir_error :: "byte list" where
  "dir_error = map (\<lambda>c. of_char c) ''failed to open current directory.''"

record db_env =
  env_exists :: "byte list \<Rightarrow> bool"
  env_mkdir :: "byte list \<Rightarrow> bool"
  env_open :: "byte list \<Rightarrow> byte list option"   \<comment> \<open>the message when it fails\<close>

text \<open>The copies of messages: as many bytes as the text has, at most 64, and no terminator.\<close>

definition set_err :: "byte list \<Rightarrow> provider \<Rightarrow> provider" where
  "set_err msg st = st\<lparr>sql_err := strncpy_c (sql_err st) msg (if length msg > 64 then 64 else length msg)\<rparr>"

text \<open>The directory in which the file would be made, and the directory the call makes.\<close>

definition db_dir :: "byte list \<Rightarrow> byte list" where
  "db_dir path =
     (case (case strrchr_c path 92 of None \<Rightarrow> strrchr_c path 47 | Some i \<Rightarrow> Some i) of
        None \<Rightarrow> path
      | Some i \<Rightarrow> take i path)"

definition sql_init_sqlite :: "db_env \<Rightarrow> byte list \<Rightarrow> provider \<Rightarrow> provider \<times> byte list option" where
  "sql_init_sqlite env db st =
     (let st = sql_clean_sqlite (st\<lparr>sql_path := take 260 db\<rparr>)
      in if def_sqlite3_db st then (st, None)
         else
          let path = db_dir (sql_path st);
              made = (if \<not> env_exists env (sql_path st) \<and> \<not> env_exists env path then Some path else None)
          in if made \<noteq> None \<and> \<not> env_mkdir env path then (set_err dir_error st, None)
             else (case env_open env (sql_path st) of
                     None \<Rightarrow> (st\<lparr>def_sqlite3_db := True, access_lock := Free\<rparr>, made)
                   | Some msg \<Rightarrow> ((set_err msg st)\<lparr>def_sqlite3_db := False, access_lock := Free\<rparr>, made)))"

section \<open>Handles\<close>

definition SQLITE_ROW :: int where "SQLITE_ROW = 100"
definition SQLITE_DONE :: int where "SQLITE_DONE = 101"
definition SQLITE_MISUSE :: int where "SQLITE_MISUSE = 21"

text \<open>A statement: its rows from the current one on, a column may be null, and the code of the
  step behind the last row.\<close>

record stmt =
  st_rows :: "byte list option list list"
  st_final :: int

record param =
  pr_stmt :: "stmt option"
  pr_fields :: int
  pr_row :: int

definition sqlite3_step :: "stmt option \<Rightarrow> int" where
  "sqlite3_step s = (case s of None \<Rightarrow> SQLITE_MISUSE | Some s \<Rightarrow> if st_rows s = [] then st_final s else SQLITE_ROW)"

definition sql_create_new_sqlite :: "nat \<Rightarrow> byte list option \<Rightarrow> provider \<Rightarrow> (provider \<times> param option \<times> byte list option) res option" where
  "sql_create_new_sqlite t err st =
     (if \<not> def_sqlite3_db st
      then Some (Inr (st, None, map_option (\<lambda>e. strncpy_c e (c_string (sql_err st)) 64) err))
      else map_option (\<lambda>r. bindR r (\<lambda>l.
             Inr (st\<lparr>access_lock := l\<rparr>, Some \<lparr>pr_stmt = None, pr_fields = 0, pr_row = 0\<rparr>, err)))
           (lock_enter t (access_lock st)))"

text \<open>\<open>msg\<close> is what \<open>sqlite3_errmsg\<close> returns.\<close>

definition sql_error_sqlite :: "byte list \<Rightarrow> provider \<Rightarrow> provider \<times> byte list" where
  "sql_error_sqlite msg st =
     (let st = st\<lparr>sql_err := strncpy_c (sql_err st) msg 64\<rparr> in (st, c_string (sql_err st)))"

definition sql_query_sqlite :: "stmt option \<Rightarrow> byte list \<Rightarrow> param \<Rightarrow> provider \<Rightarrow> provider \<times> param \<times> e_sql_query_result" where
  "sql_query_sqlite prepared msg p st =
     (let row = sqlite3_step prepared;
          fields = (if row = SQLITE_ROW then int (length (hd (st_rows (the prepared)))) else 0);
          p = p\<lparr>pr_stmt := prepared, pr_row := row, pr_fields := fields\<rparr>
      in if row = SQLITE_DONE then (st, p, e_query_done)
         else if row = SQLITE_ROW then (st, p, e_query_row)
         else (fst (sql_error_sqlite msg st), p, e_query_error))"

definition sql_num_fields_sqlite :: "param \<Rightarrow> int" where
  "sql_num_fields_sqlite p = (if pr_stmt p \<noteq> None then pr_fields p else 0)"

text \<open>\<open>strdup\<close> of a column: a null column is a null pointer, a text ends at its first zero byte.\<close>

fun copy_columns :: "byte list option list \<Rightarrow> (byte list \<times> int) list res" where
  "copy_columns [] = Inr []"
| "copy_columns (None # cs) = Inl NullDeref"
| "copy_columns (Some d # cs) = bindR (copy_columns cs) (\<lambda>r. Inr ((c_string d, int (length d)) # r))"

definition sql_fetch_row_sqlite :: "bool \<Rightarrow> param \<Rightarrow> (param \<times> bool \<times> (byte list \<times> int) list option) res" where
  "sql_fetch_row_sqlite want p =
     (if pr_row p \<noteq> SQLITE_ROW then Inr (p, False, None)
      else let fields = sql_num_fields_sqlite p;
               s = the (pr_stmt p);
               nxt = Some (s\<lparr>st_rows := tl (st_rows s)\<rparr>);
               p' = p\<lparr>pr_stmt := nxt, pr_row := sqlite3_step nxt\<rparr>
           in if want
              then bindR (copy_columns (take (nat fields) (hd (st_rows s)))) (\<lambda>r. Inr (p', True, Some r))
              else Inr (p', True, None))"

definition sql_fetch_row_free_sqlite :: "(byte list \<times> int) list option \<Rightarrow> bool" where
  "sql_fetch_row_free_sqlite row = (row \<noteq> None)"

definition sql_free_sqlite :: "nat \<Rightarrow> provider \<Rightarrow> provider res" where
  "sql_free_sqlite t st = bindR (lock_leave t (access_lock st)) (\<lambda>l. Inr (st\<lparr>access_lock := l\<rparr>))"

definition sql_test_connect_sqlite :: "nat \<Rightarrow> byte list option \<Rightarrow> provider \<Rightarrow> (provider \<times> bool \<times> byte list option) res option" where
  "sql_test_connect_sqlite t err st =
     map_option (\<lambda>r. bindR r (\<lambda>(st, h, err).
       case h of None \<Rightarrow> Inr (st, False, err) | Some _ \<Rightarrow> bindR (sql_free_sqlite t st) (\<lambda>st. Inr (st, True, err))))
     (sql_create_new_sqlite t err st)"

section \<open>Dispatch and helpers\<close>

definition provider_sqlite :: int where "provider_sqlite = 0"

definition providers :: "int list" where
  "providers = [provider_sqlite]"

fun type_loop :: "int \<Rightarrow> int list \<Rightarrow> int option" where
  "type_loop provider [] = None"
| "type_loop provider (x # xs) = (if x = provider then Some x else type_loop provider xs)"

definition sql_get_type_by_provider :: "int \<Rightarrow> int option" where
  "sql_get_type_by_provider provider = type_loop provider providers"

text \<open>The calls through the table: an unknown provider is a null pointer.\<close>

definition dispatch :: "int \<Rightarrow> 'a res \<Rightarrow> 'a res" where
  "dispatch provider r = (case sql_get_type_by_provider provider of None \<Rightarrow> Inl NullDeref | Some _ \<Rightarrow> r)"

definition sql_init :: "int \<Rightarrow> db_env \<Rightarrow> byte list \<Rightarrow> provider \<Rightarrow> (provider \<times> byte list option) res" where
  "sql_init provider env db st = dispatch provider (Inr (sql_init_sqlite env db st))"

definition sql_clean :: "int \<Rightarrow> provider \<Rightarrow> provider res" where
  "sql_clean provider st = dispatch provider (Inr (sql_clean_sqlite st))"

definition sql_test_connect :: "int \<Rightarrow> nat \<Rightarrow> byte list option \<Rightarrow> provider \<Rightarrow> (provider \<times> bool \<times> byte list option) res option" where
  "sql_test_connect provider t err st = map_option (dispatch provider) (sql_test_connect_sqlite t err st)"

definition sql_free :: "nat \<Rightarrow> param option \<Rightarrow> provider \<Rightarrow> provider res" where
  "sql_free t sql st = (case sql of None \<Rightarrow> Inr st | Some _ \<Rightarrow> sql_free_sqlite t st)"

definition db_init :: "db_env \<Rightarrow> byte list \<Rightarrow> provider \<Rightarrow> (provider \<times> byte list option) res" where
  "db_init env db st = sql_init provider_sqlite env db st"

definition db_clean :: "provider \<Rightarrow> provider res" where
  "db_clean st = sql_clean provider_sqlite st"

definition db_test_connect :: "nat \<Rightarrow> byte list option \<Rightarrow> provider \<Rightarrow> (provider \<times> bool \<times> byte list option) res option" where
  "db_test_connect t err st = sql_test_connect provider_sqlite t err st"

text \<open>\<open>db_exec\<close> with the text of the error: \<open>strcpy\<close> of the message into the caller's 64 bytes.\<close>

definition strcpy_c :: "byte list \<Rightarrow> byte list \<Rightarrow> byte list res" where
  "strcpy_c dst s = (if length s + 1 \<le> length dst then Inr (s @ [0] @ drop (length s + 1) dst) else Inl OutOfBounds)"

definition db_exec_err ::
    "nat \<Rightarrow> stmt option \<Rightarrow> byte list \<Rightarrow> byte list option \<Rightarrow> provider \<Rightarrow> (provider \<times> e_sql_query_result \<times> byte list option) res option" where
  "db_exec_err t prepared msg err st =
     map_option (\<lambda>r. bindR r (\<lambda>(st, h, err).
       case h of
         None \<Rightarrow> bindR (sql_free t h st) (\<lambda>st. Inr (st, e_query_error, err))
       | Some p \<Rightarrow>
           (let (st, p, q) = sql_query_sqlite prepared msg p st
            in bindR (if q \<noteq> e_query_done \<and> err \<noteq> None
                      then (let (st, text) = sql_error_sqlite msg st
                            in bindR (strcpy_c (the err) text) (\<lambda>e. Inr (st, Some e)))
                      else Inr (st, err)) (\<lambda>(st, err).
               bindR (sql_free t h st) (\<lambda>st. Inr (st, q, err))))))
     (sql_create_new_sqlite t err st)"

section \<open>The lock and the handles\<close>

text \<open>
  What threads do with the provider: \<open>os\<close> lists the threads of the handles in use. The database
  is opened and closed while no handle is in use; a handle is freed by the thread that made it.
\<close>

inductive prov_reach :: "provider \<Rightarrow> nat list \<Rightarrow> bool" where
  pr_start: "prov_reach prov0 []"
| pr_init: "prov_reach st' []" if "prov_reach st []" and "db_init env db st = Inr (st', made)"
| pr_clean: "prov_reach st' []" if "prov_reach st []" and "db_clean st = Inr st'"
| pr_create: "prov_reach st' (t # os)"
    if "prov_reach st os" and "sql_create_new_sqlite t err st = Some (Inr (st', Some p, err'))"
| pr_query: "prov_reach (fst (sql_query_sqlite prepared msg p st)) os" if "prov_reach st os"
| pr_free: "prov_reach st' (remove1 t os)" if "prov_reach st os" and "t \<in> set os" and "sql_free_sqlite t st = Inr st'"

definition prov_inv :: "provider \<Rightarrow> nat list \<Rightarrow> bool" where
  "prov_inv st os \<longleftrightarrow> length (sql_err st) = 65 \<and> sql_err st ! 64 = 0 \<and> (def_sqlite3_db st \<longrightarrow> access_lock st \<noteq> Unset) \<and>
     (case access_lock st of Held u n \<Rightarrow> n = length os \<and> 0 < n \<and> set os = {u} | _ \<Rightarrow> os = [])"

lemma strncpy_keeps:
  assumes "length m = 65" and "m ! 64 = 0" and "n \<le> 64"
  shows "length (strncpy_c m src n) = 65" and "strncpy_c m src n ! 64 = 0"
proof -
  have l: "length (take n (src @ replicate n 0)) = n"
    by simp
  show "length (strncpy_c m src n) = 65"
    using assms by (simp add: strncpy_c_def)
  show "strncpy_c m src n ! 64 = 0"
    using assms l by (simp add: strncpy_c_def nth_append del: take_append length_take)
qed

lemma set_err_keeps:
  assumes "length (sql_err st) = 65" and "sql_err st ! 64 = 0"
  shows "length (sql_err (set_err msg st)) = 65" and "sql_err (set_err msg st) ! 64 = 0"
    and "def_sqlite3_db (set_err msg st) = def_sqlite3_db st" and "access_lock (set_err msg st) = access_lock st"
  using assms strncpy_keeps [of "sql_err st" "if length msg > 64 then 64 else length msg" msg] by (simp_all add: set_err_def)

lemma prov_clean_inv: "prov_inv st [] \<Longrightarrow> prov_inv (sql_clean_sqlite st) []"
  by (auto simp: prov_inv_def sql_clean_sqlite_def split: lock.splits)

lemma prov_init_inv:
  assumes "prov_inv st []"
  shows "prov_inv (fst (sql_init_sqlite env db st)) []"
proof -
  let ?s = "sql_clean_sqlite (st\<lparr>sql_path := take 260 db\<rparr>)"
  have "prov_inv ?s []" "\<not> def_sqlite3_db ?s"
    using assms prov_clean_inv [of "st\<lparr>sql_path := take 260 db\<rparr>"] by (simp_all add: prov_inv_def sql_clean_sqlite_def)
  then show ?thesis
    using set_err_keeps [of ?s]
    by (auto simp: sql_init_sqlite_def Let_def prov_inv_def split: option.splits)
qed

lemma prov_reach_inv: "prov_reach st os \<Longrightarrow> prov_inv st os"
proof (induction rule: prov_reach.induct)
  case pr_start
  then show ?case
    by (simp add: prov_inv_def prov0_def)
next
  case (pr_init st env db st' made)
  then show ?case
    using prov_init_inv [of st env db] by (simp add: db_init_def sql_init_def dispatch_def sql_get_type_by_provider_def providers_def)
next
  case (pr_clean st st')
  then show ?case
    using prov_clean_inv [of st] by (simp add: db_clean_def sql_clean_def dispatch_def sql_get_type_by_provider_def providers_def)
next
  case (pr_create st os t err st' p err')
  then show ?case
    by (auto simp: sql_create_new_sqlite_def prov_inv_def lock_enter_def bindR_eq_Inr split: if_splits lock.splits)
next
  case (pr_query st os prepared msg p)
  then show ?case
    using strncpy_keeps [of "sql_err st" 64 msg]
    by (simp add: sql_query_sqlite_def sql_error_sqlite_def prov_inv_def Let_def)
next
  case (pr_free st os t st')
  have "if length os \<le> 1 then remove1 t os = [] else set (remove1 t os) = {t} \<and> remove1 t os \<noteq> []" if "set os = {t}"
    using that by (cases os; cases "tl os") auto
  then show ?case
    using pr_free
    by (auto simp: sql_free_sqlite_def prov_inv_def lock_leave_def bindR_eq_Inr length_remove1 split: lock.splits if_splits)
qed

text \<open>
  C40. The handles of the database exclude each other between threads: in every reachable state all
  handles in use belong to one thread, which holds the lock as often as it has handles, so
  every handle can be freed; while one is in use a query of another thread waits, and with none
  in use any thread gets a handle of an open database.
\<close>

theorem provider_excludes:
  assumes "prov_reach st os"
  shows "(\<forall>t \<in> set os. \<forall>u \<in> set os. t = u) \<and>
    (\<forall>t \<in> set os. \<exists>st'. sql_free_sqlite t st = Inr st' \<and> prov_reach st' (remove1 t os)) \<and>
    (def_sqlite3_db st \<longrightarrow> (\<forall>t. t \<notin> set os \<longrightarrow>
       (if os = [] then \<exists>st' p. sql_create_new_sqlite t err st = Some (Inr (st', Some p, err)) \<and> access_lock st' = Held t 1
        else sql_create_new_sqlite t err st = None)))"
proof -
  have inv: "prov_inv st os"
    using prov_reach_inv [OF assms] .
  have free: "\<exists>st'. sql_free_sqlite t st = Inr st' \<and> prov_reach st' (remove1 t os)" if "t \<in> set os" for t
  proof -
    have "\<exists>st'. sql_free_sqlite t st = Inr st'"
      using inv that by (auto simp: prov_inv_def sql_free_sqlite_def lock_leave_def split: lock.splits)
    then show ?thesis
      using pr_free [OF assms that] by blast
  qed
  have create: "if os = [] then \<exists>st' p. sql_create_new_sqlite t err st = Some (Inr (st', Some p, err)) \<and> access_lock st' = Held t 1
      else sql_create_new_sqlite t err st = None" if "def_sqlite3_db st" "t \<notin> set os" for t
    using inv that by (auto simp: prov_inv_def sql_create_new_sqlite_def lock_enter_def split: lock.splits)
  show ?thesis
    using free create inv by (auto simp: prov_inv_def split: lock.splits)
qed

theorem provider_excludes_witness:
  "\<exists>st p. sql_create_new_sqlite 7 None (fst (sql_init_sqlite \<lparr>env_exists = \<lambda>_. True, env_mkdir = \<lambda>_. True, env_open = \<lambda>_. None\<rparr> [115, 113, 108] prov0)) =
     Some (Inr (st, Some p, None))"
proof -
  let ?env = "\<lparr>env_exists = \<lambda>_. True, env_mkdir = \<lambda>_. True, env_open = \<lambda>_. None\<rparr>"
  obtain st made where i: "sql_init_sqlite ?env [115, 113, 108] prov0 = (st, made)"
    by fastforce
  have "prov_reach st []"
    by (rule pr_init [OF pr_start, of ?env "[115, 113, 108]" st made])
       (simp add: i db_init_def sql_init_def dispatch_def sql_get_type_by_provider_def providers_def)
  moreover have "def_sqlite3_db st"
    using i by (auto simp: sql_init_sqlite_def prov0_def sql_clean_sqlite_def Let_def)
  ultimately show ?thesis
    using provider_excludes [of st "[]" None] i by (auto dest: spec [of _ 7])
qed

section \<open>What goes wrong\<close>

lemma db_dir_plain: "92 \<notin> set db \<Longrightarrow> 47 \<notin> set db \<Longrightarrow> db_dir db = db"
  by (simp add: db_dir_def strrchr_c_def)

text \<open>
  A database name without a separator, for a file that does not exist yet: the call makes a
  directory of that very name.
\<close>

theorem init_makes_directory_of_database:
  assumes "92 \<notin> set db" and "47 \<notin> set db" and "length db \<le> 260" and "\<not> env_exists env db" and "env_mkdir env db"
  shows "snd (sql_init_sqlite env db st) = Some db"
  using assms db_dir_plain [of db]
  by (auto simp: sql_init_sqlite_def sql_clean_sqlite_def Let_def split: option.splits)

text \<open>Closing the database under a handle: freeing the handle leaves a deleted critical section.\<close>

theorem clean_under_handle:
  assumes "prov_reach st os" and "def_sqlite3_db st" and "t \<in> set os"
  shows "sql_free_sqlite t (sql_clean_sqlite st) = Inl UseUninit"
  using assms by (simp add: sql_clean_sqlite_def sql_free_sqlite_def lock_leave_def)

text \<open>A shorter message of a failed opening keeps the end of the longer one before it.\<close>

lemma set_err_stale:
  assumes "length msg \<le> 64" and "0 \<notin> set msg" and "length (sql_err st) = 65" and "c_string (sql_err st) = msg' @ rest" and "length msg' = length msg"
  shows "c_string (sql_err (set_err msg st)) = msg @ rest"
proof -
  have "sql_err (set_err msg st) = msg @ drop (length msg) (sql_err st)"
    using assms(1) by (simp add: set_err_def strncpy_c_def)
  moreover have "takeWhile (\<lambda>b. b \<noteq> 0) (drop (length msg) (sql_err st)) = rest"
  proof -
    have e: "sql_err st = (msg' @ rest) @ dropWhile (\<lambda>b. b \<noteq> 0) (sql_err st)"
      using assms(4) takeWhile_dropWhile_id [of "\<lambda>b. b \<noteq> 0" "sql_err st"] by (simp add: c_string_def)
    have "\<forall>b \<in> set rest. b \<noteq> 0"
      using assms(4) set_takeWhileD [of _ "\<lambda>b. b \<noteq> 0" "sql_err st"] by (auto simp: c_string_def)
    moreover have "drop (length msg) (sql_err st) = rest @ dropWhile (\<lambda>b. b \<noteq> 0) (sql_err st)"
      by (subst e) (simp add: assms(5) [symmetric])
    moreover have "takeWhile (\<lambda>b. b \<noteq> 0) (dropWhile (\<lambda>b. b \<noteq> 0) (sql_err st)) = []"
      by (metis hd_dropWhile takeWhile.simps(1) takeWhile_eq_Nil_iff)
    ultimately show ?thesis
      by (simp add: takeWhile_append2)
  qed
  moreover have "\<forall>b \<in> set msg. b \<noteq> 0"
    using assms(2) by auto
  ultimately show ?thesis
    by (simp add: c_string_def takeWhile_append2)
qed

text \<open>
  A failing statement with a message of 64 or more characters: \<open>db_exec\<close> copies 64 characters
  and the terminator into the 64 bytes of its caller.
\<close>

theorem db_exec_error_overflow:
  assumes "prov_reach st []" and "def_sqlite3_db st" and "64 \<le> length msg" and "0 \<notin> set msg" and "length err = 64"
    and "case prepared of None \<Rightarrow> True | Some s \<Rightarrow> st_rows s = [] \<and> st_final s \<noteq> SQLITE_DONE \<and> st_final s \<noteq> SQLITE_ROW"
  shows "db_exec_err t prepared msg (Some err) st = Some (Inl OutOfBounds)"
proof -
  have inv: "prov_inv st []"
    using prov_reach_inv [OF assms(1)] .
  then have l: "access_lock st = Free"
    using assms(2) by (auto simp: prov_inv_def split: lock.splits)
  have step: "sqlite3_step prepared \<noteq> SQLITE_DONE" "sqlite3_step prepared \<noteq> SQLITE_ROW"
    using assms(6) by (auto simp: sqlite3_step_def SQLITE_MISUSE_def SQLITE_DONE_def SQLITE_ROW_def split: option.splits)
  have copied: "c_string (strncpy_c m msg 64) = take 64 msg" if "length m = 65" "m ! 64 = 0" for m
  proof -
    have "drop 64 m = [0]"
      using that by (intro nth_equalityI) auto
    moreover have "\<forall>b \<in> set (take 64 msg). b \<noteq> 0"
      using assms(4) by (auto dest: in_set_takeD)
    ultimately show ?thesis
      using assms(3) by (simp add: c_string_def strncpy_c_def takeWhile_append2)
  qed
  have "c_string (strncpy_c (strncpy_c (sql_err st) msg 64) msg 64) = take 64 msg"
    using copied strncpy_keeps [of "sql_err st" 64 msg] inv by (simp add: prov_inv_def)
  then show ?thesis
    using assms(2,3,5) l step
    by (simp add: db_exec_err_def sql_create_new_sqlite_def lock_enter_def sql_query_sqlite_def sql_error_sqlite_def Let_def strcpy_c_def)
qed

section \<open>Fetching rows\<close>

fun fetch_all :: "nat \<Rightarrow> param \<Rightarrow> (byte list \<times> int) list list res" where
  "fetch_all 0 p = Inr []"
| "fetch_all (Suc n) p =
     bindR (sql_fetch_row_sqlite True p) (\<lambda>(p, r, row).
       if r then bindR (fetch_all n p) (\<lambda>rows. Inr (the row # rows)) else Inr [])"

text \<open>
  The loop over \<open>sql_fetch_row\<close> yields the rows of the statement in order, each text up to its
  first zero byte; fuel of one more than the rows is enough.
\<close>

lemma fetch_rows:
  assumes "\<forall>r \<in> set rows. length r = n \<and> (\<forall>c \<in> set r. c \<noteq> None)" and "fin \<noteq> SQLITE_ROW" and "length rows < fuel"
    and "pr_stmt p = Some \<lparr>st_rows = rows, st_final = fin\<rparr>" and "pr_fields p = int n" and "pr_row p = sqlite3_step (pr_stmt p)"
  shows "fetch_all fuel p = Inr (map (map (\<lambda>c. (c_string (the c), int (length (the c))))) rows)"
proof -
  have copy: "copy_columns r = Inr (map (\<lambda>c. (c_string (the c), int (length (the c)))) r)" if "\<forall>c \<in> set r. c \<noteq> None" for r
    using that by (induction r rule: copy_columns.induct) auto
  show ?thesis
    using assms
  proof (induction rows arbitrary: p fuel)
    case Nil
    then show ?case
      by (cases fuel) (auto simp: sql_fetch_row_sqlite_def sqlite3_step_def)
  next
    case (Cons r rows)
    obtain f where f: "fuel = Suc f" "length rows < f"
      using Cons.prems(3) by (cases fuel) auto
    let ?s = "Some \<lparr>st_rows = rows, st_final = fin\<rparr>"
    let ?p = "p\<lparr>pr_stmt := ?s, pr_row := sqlite3_step ?s\<rparr>"
    have "sql_fetch_row_sqlite True p = Inr (?p, True, Some (map (\<lambda>c. (c_string (the c), int (length (the c)))) r))"
      using Cons.prems copy [of r] by (simp add: sql_fetch_row_sqlite_def sql_num_fields_sqlite_def sqlite3_step_def Let_def)
    moreover have "fetch_all f ?p = Inr (map (map (\<lambda>c. (c_string (the c), int (length (the c))))) rows)"
      using Cons.prems f by (intro Cons.IH) auto
    ultimately show ?case
      using f by simp
  qed
qed

end
