(* ===== verification/Imem_Vector.thy ===== *)
theory Imem_Vector
  imports Prelude
begin

text \<open>
  \<open>IVECTOR\<close> of \<open>common/xmalloc/imembase.c\<close>: a growing array in blocks of a power of
  two. The block is a list of cells that may be uninitialised; \<open>w\<close> is the size of a cell in
  bytes, 1 for the vectors of bytes here and 4 for the index arrays of \<open>Imem_Node\<close>. An
  empty block stands for the null pointer. \<open>iv_addr\<close> counts the blocks a vector has had,
  so that a pointer into an earlier block can be told from one into the present block.
  Sizes are \<open>size_t\<close>, 32 bits wide, and sums wrap. Whether \<open>malloc\<close> succeeds is the
  argument \<open>ok\<close>. \<open>None\<close> is a call that never returns.
\<close>

section \<open>The operations\<close>

record 'a IVECTOR =
  iv_data :: "'a option list"
  iv_size :: nat
  iv_block :: nat
  iv_addr :: nat

definition iv_init :: "'a IVECTOR" where
  "iv_init = \<lparr>iv_data = [], iv_size = 0, iv_block = 0, iv_addr = 0\<rparr>"

definition iv_destroy :: "'a IVECTOR \<Rightarrow> 'a IVECTOR" where
  "iv_destroy v = v\<lparr>iv_data := [], iv_size := 0, iv_block := 0, iv_addr := Suc (iv_addr v)\<rparr>"

text \<open>The loop that doubles the block; \<open>nblock <<= 1\<close> wraps.\<close>

fun nblock_loop :: "nat \<Rightarrow> nat \<Rightarrow> nat \<Rightarrow> nat option" where
  "nblock_loop 0 nblock newsize = None"
| "nblock_loop (Suc fuel) nblock newsize =
     (if nblock < newsize then nblock_loop fuel (nblock * 2 mod 2 ^ 32) newsize else Some nblock)"

definition iv_resize :: "nat \<Rightarrow> bool \<Rightarrow> 'a IVECTOR \<Rightarrow> nat \<Rightarrow> ('a IVECTOR \<times> int) option" where
  "iv_resize w ok v newsize =
     (if iv_size v \<le> newsize \<and> newsize \<le> iv_block v then Some (v\<lparr>iv_size := newsize\<rparr>, 0)
      else if newsize = 0 then
        Some (if 0 < iv_block v
              then v\<lparr>iv_data := [], iv_size := 0, iv_block := 0, iv_addr := Suc (iv_addr v)\<rparr> else v, 0)
      else case nblock_loop 31 4 newsize of
        None \<Rightarrow> None
      | Some block \<Rightarrow>
          if block = iv_block v then Some (v\<lparr>iv_size := newsize\<rparr>, 0)
          else if \<not> ok then Some (v, - 1)
          else let k = min (iv_size v) newsize div w
               in Some (\<lparr>iv_data = take k (iv_data v) @ replicate (block div w - k) None,
                         iv_size = newsize, iv_block = block, iv_addr = Suc (iv_addr v)\<rparr>, 0))"

definition mem_move :: "'a list \<Rightarrow> nat \<Rightarrow> nat \<Rightarrow> nat \<Rightarrow> 'a list res" where
  "mem_move m dst src n =
     (if length m < dst + n \<or> length m < src + n then Inl OutOfBounds
      else Inr (take dst m @ take n (drop src m) @ drop (dst + n) m))"

text \<open>\<open>memcpy\<close> from the caller's data, which may be null: then nothing is copied.\<close>

definition copy_in :: "byte IVECTOR \<Rightarrow> nat \<Rightarrow> byte list option \<Rightarrow> nat \<Rightarrow> byte IVECTOR res" where
  "copy_in v pos data n =
     (case data of
        None \<Rightarrow> Inr v
      | Some bs \<Rightarrow>
          if length bs < n then Inl OutOfBounds
          else bindR (mem_write (iv_data v) (int pos) (take n bs)) (\<lambda>d. Inr (v\<lparr>iv_data := d\<rparr>)))"

definition iv_push :: "bool \<Rightarrow> byte IVECTOR \<Rightarrow> byte list option \<Rightarrow> nat \<Rightarrow> (byte IVECTOR \<times> int) res option" where
  "iv_push ok v data n =
     (case iv_resize 1 ok v ((iv_size v + n) mod 2 ^ 32) of
        None \<Rightarrow> None
      | Some (v', r) \<Rightarrow>
          Some (if r \<noteq> 0 then Inr (v', - 1)
                else bindR (copy_in v' (iv_size v) data n) (\<lambda>v'. Inr (v', 0))))"

text \<open>\<open>iv_pop\<close> returns the vector, the number of bytes taken and, if asked for, the bytes.\<close>

definition iv_pop :: "bool \<Rightarrow> byte IVECTOR \<Rightarrow> bool \<Rightarrow> nat \<Rightarrow> (byte IVECTOR \<times> nat \<times> byte option list option) option" where
  "iv_pop ok v want n =
     (let current = iv_size v;
          n = (if n \<ge> current then current else n);
          out = (if want then Some (take n (drop (current - n) (iv_data v))) else None)
      in case iv_resize 1 ok v (current - n) of
           None \<Rightarrow> None
         | Some (v', r) \<Rightarrow> Some (v', n, out))"

definition iv_insert :: "bool \<Rightarrow> byte IVECTOR \<Rightarrow> nat \<Rightarrow> byte list option \<Rightarrow> nat \<Rightarrow> (byte IVECTOR \<times> int) res option" where
  "iv_insert ok v pos data n =
     (case iv_resize 1 ok v ((iv_size v + n) mod 2 ^ 32) of
        None \<Rightarrow> None
      | Some (v', r) \<Rightarrow>
          Some (if r \<noteq> 0 then Inr (v', - 1)
                else bindR (mem_move (iv_data v') (pos + n) pos n) (\<lambda>d.
                     bindR (copy_in (v'\<lparr>iv_data := d\<rparr>) pos data n) (\<lambda>v'. Inr (v', 0)))))"

definition iv_erase :: "bool \<Rightarrow> byte IVECTOR \<Rightarrow> nat \<Rightarrow> nat \<Rightarrow> (byte IVECTOR \<times> int) res option" where
  "iv_erase ok v pos n =
     (let current = iv_size v
      in if pos \<ge> current then Some (Inr (v, 0))
         else let n = (if (pos + n) mod 2 ^ 32 \<ge> current then current - pos else n)
              in if n = 0 then Some (Inr (v, 0))
                 else case mem_move (iv_data v) pos (pos + n) (current - pos - n) of
                        Inl e \<Rightarrow> Some (Inl e)
                      | Inr d \<Rightarrow>
                          (case iv_resize 1 ok (v\<lparr>iv_data := d\<rparr>) (current - n) of
                             None \<Rightarrow> None
                           | Some (v', r) \<Rightarrow> Some (Inr (v', if r \<noteq> 0 then - 1 else 0))))"

section \<open>Blocks\<close>

definition iv_ok :: "nat \<Rightarrow> 'a IVECTOR \<Rightarrow> bool" where
  "iv_ok w v \<longleftrightarrow> iv_size v \<le> iv_block v \<and> length (iv_data v) * w = iv_block v \<and>
     (iv_block v = 0 \<or> (\<exists>k \<in> {2..31}. iv_block v = 2 ^ k))"

definition iv_content :: "'a IVECTOR \<Rightarrow> 'a option list" where
  "iv_content v = take (iv_size v) (iv_data v)"

text \<open>The loop ends with the first power of two that is large enough, if there is one.\<close>

lemma nblock_loop_ends:
  assumes "newsize \<le> 2 ^ 31" and "j \<le> 31" and "31 - j < fuel"
  shows "\<exists>k \<in> {j..31}. nblock_loop fuel (2 ^ j) newsize = Some (2 ^ k) \<and> newsize \<le> 2 ^ k \<and> (k = j \<or> 2 ^ k < 2 * newsize)"
  using assms(2,3)
proof (induction fuel arbitrary: j)
  case (Suc fuel)
  show ?case
  proof (cases "(2 :: nat) ^ j < newsize")
    case True
    with assms(1) have "(2 :: nat) ^ j < 2 ^ 31"
      by linarith
    then have j: "j < 31"
      by (simp only: power_strict_increasing_iff)
    then have "(2 :: nat) ^ Suc j < 2 ^ 32"
      by (intro power_strict_increasing) simp_all
    then have w: "2 ^ j * 2 mod 2 ^ 32 = (2 :: nat) ^ Suc j"
      by (simp add: mult.commute)
    have "31 - Suc j < fuel"
      using Suc.prems j by linarith
    then obtain k where k: "k \<in> {Suc j..31}" "nblock_loop fuel (2 ^ Suc j) newsize = Some (2 ^ k)" "newsize \<le> 2 ^ k"
      "k = Suc j \<or> 2 ^ k < 2 * newsize"
      using Suc.IH [of "Suc j"] Suc_leI [OF j] by blast
    have "2 ^ k < 2 * newsize"
      using k(4) True by auto
    moreover have "nblock_loop (Suc fuel) (2 ^ j) newsize = Some (2 ^ k)"
      using True w k(2) by (simp del: power_Suc)
    ultimately show ?thesis
      using k by (intro bexI [of _ k]) auto
  next
    case False
    then show ?thesis
      using Suc.prems by (intro bexI [of _ j]) auto
  qed
qed simp

text \<open>Otherwise the block becomes 0 after \<open>2\<^sup>3\<^sup>1\<close> and the loop runs forever.\<close>

lemma nblock_loop_diverges:
  assumes "2 ^ 31 < newsize"
  shows "nblock_loop fuel (if j \<le> 31 then 2 ^ j else 0) newsize = None"
proof (induction fuel arbitrary: j)
  case (Suc fuel)
  let ?b = "if j \<le> 31 then 2 ^ j else 0 :: nat"
  have "?b \<le> 2 ^ 31"
    using power_increasing [of j 31 "2 :: nat"] by simp
  then have "?b < newsize"
    using assms by linarith
  moreover have "?b * 2 mod 2 ^ 32 = (if Suc j \<le> 31 then 2 ^ Suc j else 0)"
  proof (cases "j < 31")
    case True
    then have "(2 :: nat) ^ Suc j < 2 ^ 32"
      by (intro power_strict_increasing) simp_all
    with True show ?thesis by (simp add: mult.commute)
  next
    case False
    then consider "j = 31" | "31 < j" by linarith
    then show ?thesis by cases simp_all
  qed
  ultimately show ?case
    using Suc.IH [of "Suc j"] by simp
qed simp

lemma iv_blocks:
  assumes "newsize \<le> 2 ^ 31"
  shows "\<exists>k \<in> {2..31}. nblock_loop 31 4 newsize = Some (2 ^ k) \<and> newsize \<le> 2 ^ k"
proof -
  have "\<exists>k \<in> {2..31}. nblock_loop 31 (2 ^ 2) newsize = Some (2 ^ k) \<and> newsize \<le> 2 ^ k"
    using nblock_loop_ends [OF assms, of 2 31] by fastforce
  then show ?thesis by simp
qed

text \<open>
  What a resize keeps: the cells up to the smaller of the two sizes. Without memory it may
  refuse, and then nothing has changed.
\<close>

lemma iv_resize_keeps:
  assumes "iv_ok w v" and "w = 1 \<or> w = 4" and "newsize \<le> 2 ^ 31"
  defines "k \<equiv> min (iv_size v) newsize div w"
  shows "\<exists>v' r. iv_resize w ok v newsize = Some (v', r) \<and> iv_ok w v' \<and>
    (if r = 0 then iv_size v' = newsize \<and> take k (iv_data v') = take k (iv_data v) else r = - 1 \<and> \<not> ok \<and> v' = v)"
proof -
  obtain b where b: "b \<in> {2..31}" "nblock_loop 31 4 newsize = Some (2 ^ b)" "newsize \<le> 2 ^ b"
    using iv_blocks [OF assms(3)] by blast
  have dvd: "w dvd 2 ^ b"
    using assms(2) b(1) le_imp_power_dvd [of 2 b "2 :: nat"] by auto
  have "k \<le> iv_size v div w"
    unfolding k_def by (simp add: div_le_mono)
  also have "\<dots> \<le> length (iv_data v)"
    using assms(1,2) by (auto simp: iv_ok_def)
  finally have k: "k \<le> length (iv_data v)" .
  have kb: "k \<le> 2 ^ b div w"
    unfolding k_def using b(3) by (intro div_le_mono) simp
  consider "iv_size v \<le> newsize \<and> newsize \<le> iv_block v"
    | "\<not> (iv_size v \<le> newsize \<and> newsize \<le> iv_block v)" "newsize = 0"
    | "\<not> (iv_size v \<le> newsize \<and> newsize \<le> iv_block v)" "newsize \<noteq> 0" "2 ^ b = iv_block v \<or> \<not> ok"
    | "\<not> (iv_size v \<le> newsize \<and> newsize \<le> iv_block v)" "newsize \<noteq> 0" "2 ^ b \<noteq> iv_block v" ok
    by blast
  then show ?thesis
  proof cases
    case 1
    then show ?thesis
      using assms(1) by (simp add: iv_resize_def iv_ok_def)
  next
    case 2
    then show ?thesis
      using assms(1) by (auto simp: iv_resize_def iv_ok_def k_def)
  next
    case 3
    then show ?thesis
      using assms(1) b by (auto simp: iv_resize_def iv_ok_def)
  next
    case 4
    have "length (take k (iv_data v) @ replicate (2 ^ b div w - k) None) * w = 2 ^ b"
      using k kb dvd by simp
    with 4 b k show ?thesis
      by (auto simp: iv_resize_def iv_ok_def Let_def k_def [symmetric])
  qed
qed

lemma iv_resize_bytes:
  assumes "iv_ok 1 v" and "newsize \<le> 2 ^ 31"
  shows "\<exists>v' r. iv_resize 1 ok v newsize = Some (v', r) \<and> iv_ok 1 v' \<and>
    (if r = 0 then iv_size v' = newsize \<and>
       take (min (iv_size v) newsize) (iv_data v') = take (min (iv_size v) newsize) (iv_data v)
     else r = - 1 \<and> \<not> ok \<and> v' = v)"
  using iv_resize_keeps [OF assms(1) _ assms(2), of ok] by (simp only: div_by_1 simp_thms)

section \<open>Vectors of bytes\<close>

lemma length_iv_content: "iv_ok 1 v \<Longrightarrow> length (iv_content v) = iv_size v"
  by (simp add: iv_ok_def iv_content_def)

lemma iv_push_list:
  assumes "iv_ok 1 v" and "iv_size v + length bs \<le> 2 ^ 31"
  shows "\<exists>v' r. iv_push ok v (Some bs) (length bs) = Some (Inr (v', r)) \<and> iv_ok 1 v' \<and>
    (if r = 0 then iv_content v' = iv_content v @ map Some bs else r = - 1 \<and> \<not> ok \<and> v' = v)"
proof -
  let ?n = "iv_size v + length bs"
  have mn: "min (iv_size v) ?n = iv_size v"
    by simp
  obtain v' r where st: "iv_resize 1 ok v ?n = Some (v', r)" and v': "iv_ok 1 v'"
    and c: "if r = 0 then iv_size v' = ?n \<and> take (iv_size v) (iv_data v') = take (iv_size v) (iv_data v)
      else r = - 1 \<and> \<not> ok \<and> v' = v"
    using iv_resize_bytes [OF assms(1,2), of ok] unfolding mn by blast
  have m: "?n mod 2 ^ 32 = ?n"
    using assms(2) by simp
  show ?thesis
  proof (cases "r = 0")
    case True
    with c v' have len: "?n \<le> length (iv_data v')" and s: "iv_size v' = ?n"
      and t: "take (iv_size v) (iv_data v') = take (iv_size v) (iv_data v)"
      by (auto simp: iv_ok_def)
    have "iv_content v @ map Some bs = take ?n (take (iv_size v) (iv_data v') @ map Some bs @ drop ?n (iv_data v'))"
      using len t assms(1) by (simp add: iv_content_def iv_ok_def)
    then show ?thesis
      using st m True v' s len
      by (auto simp: iv_push_def copy_in_def mem_write_ok iv_ok_def iv_content_def)
  next
    case False
    then show ?thesis
      using st m c v' by (auto simp: iv_push_def)
  qed
qed

lemma iv_pop_list:
  fixes n :: nat
  assumes "iv_ok 1 v" and "iv_size v \<le> 2 ^ 31"
  defines "m \<equiv> min n (iv_size v)"
  shows "\<exists>v'. iv_pop ok v want n =
      Some (v', m, if want then Some (drop (iv_size v - m) (iv_content v)) else None) \<and> iv_ok 1 v' \<and>
    (iv_content v' = take (iv_size v - m) (iv_content v) \<or> \<not> ok \<and> v' = v)"
proof -
  let ?k = "iv_size v - m"
  have mn: "min (iv_size v) ?k = ?k" and m: "(if iv_size v \<le> n then iv_size v else n) = m"
    by (auto simp: m_def)
  obtain v' r where st: "iv_resize 1 ok v ?k = Some (v', r)" and v': "iv_ok 1 v'"
    and c: "if r = 0 then iv_size v' = ?k \<and> take ?k (iv_data v') = take ?k (iv_data v) else r = - 1 \<and> \<not> ok \<and> v' = v"
    using iv_resize_bytes [OF assms(1), of ?k ok] assms(2) unfolding mn by force
  have out: "take m (drop ?k (iv_data v)) = drop ?k (iv_content v)"
    by (simp add: iv_content_def drop_take m_def)
  have "iv_content v' = take ?k (iv_content v) \<or> \<not> ok \<and> v' = v"
    using c by (cases "r = 0") (auto simp: iv_content_def)
  then show ?thesis
    using st v' by (auto simp: iv_pop_def Let_def m out)
qed

lemma iv_erase_list:
  assumes "iv_ok 1 v" and "iv_size v + n < 2 ^ 31"
  shows "\<exists>v' r. iv_erase ok v pos n = Some (Inr (v', r)) \<and> iv_ok 1 v' \<and>
    (r = 0 \<and> iv_content v' = take pos (iv_content v) @ drop (pos + n) (iv_content v) \<or> r = - 1 \<and> \<not> ok)"
proof (cases "pos < iv_size v \<and> n \<noteq> 0")
  case False
  then show ?thesis
    using assms(1) length_iv_content [OF assms(1)] by (auto simp: iv_erase_def Let_def)
next
  case True
  define m where "m = (if (pos + n) mod 2 ^ 32 \<ge> iv_size v then iv_size v - pos else n)"
  have w: "(pos + n) mod 2 ^ 32 = pos + n"
    using True assms(2) by simp
  have m: "pos + m \<le> iv_size v" "m \<noteq> 0" and d: "drop (pos + n) (iv_content v) = drop (pos + m) (iv_content v)"
    using True assms(1) unfolding m_def w by (auto simp: iv_content_def)
  let ?k = "iv_size v - m"
  have len: "iv_size v \<le> length (iv_data v)"
    using assms(1) by (simp add: iv_ok_def)
  define e where "e = take pos (iv_data v) @ take (?k - pos) (drop (pos + m) (iv_data v)) @ drop ?k (iv_data v)"
  have mv: "mem_move (iv_data v) pos (pos + m) (iv_size v - pos - m) = Inr e"
    using m len by (auto simp: mem_move_def e_def add.commute)
  have ve: "iv_ok 1 (v\<lparr>iv_data := e\<rparr>)"
    using assms(1) m len by (auto simp: iv_ok_def e_def)
  have mn: "min (iv_size (v\<lparr>iv_data := e\<rparr>)) ?k = ?k"
    by simp
  obtain v' r where st: "iv_resize 1 ok (v\<lparr>iv_data := e\<rparr>) ?k = Some (v', r)" and v': "iv_ok 1 v'"
    and c: "if r = 0 then iv_size v' = ?k \<and> take ?k (iv_data v') = take ?k (iv_data (v\<lparr>iv_data := e\<rparr>))
      else r = - 1 \<and> \<not> ok \<and> v' = v\<lparr>iv_data := e\<rparr>"
    using iv_resize_bytes [OF ve, of ?k ok] assms(2) unfolding mn by force
  have "take ?k e = take pos (iv_content v) @ drop (pos + m) (iv_content v)"
    using m len by (cases "?k = pos") (auto simp: e_def iv_content_def drop_take min_def add.commute)
  then have "r = 0 \<and> iv_content v' = take pos (iv_content v) @ drop (pos + n) (iv_content v) \<or> r = - 1 \<and> \<not> ok"
    using c by (cases "r = 0") (auto simp: iv_content_def [of v'] d)
  moreover have "iv_erase ok v pos n = Some (Inr (v', if r \<noteq> 0 then - 1 else 0))"
    using True m(2) st mv unfolding iv_erase_def Let_def m_def [symmetric] by simp
  ultimately show ?thesis
    using v' by auto
qed

text \<open>
  \<open>iv_insert\<close> moves as many bytes as it inserts, whatever the tail is long: the result is
  right for a tail of at most that length, and the move may leave the block.
\<close>

lemma iv_insert_moves:
  assumes "iv_ok 1 v" and "iv_size v + length bs \<le> 2 ^ 31" and "pos \<le> iv_size v"
    and "iv_resize 1 True v (iv_size v + length bs) = Some (v1, 0)"
  shows "iv_insert True v pos (Some bs) (length bs) =
     (if iv_block v1 < pos + 2 * length bs then Some (Inl OutOfBounds)
      else Some (Inr (v1\<lparr>iv_data := take pos (iv_data v1) @ map Some bs @
        take (length bs) (drop pos (iv_data v1)) @ drop (pos + 2 * length bs) (iv_data v1)\<rparr>, 0)))"
proof -
  let ?n = "length bs"
  have m: "(iv_size v + ?n) mod 2 ^ 32 = iv_size v + ?n"
    using assms(2) by simp
  have ok: "length (iv_data v1) = iv_block v1" "iv_size v + ?n \<le> iv_block v1"
    using iv_resize_bytes [OF assms(1,2), of True] assms(4) by (auto simp: iv_ok_def)
  show ?thesis
  proof (cases "iv_block v1 < pos + 2 * ?n")
    case True
    then show ?thesis
      using assms(4) ok m by (simp add: iv_insert_def mem_move_def)
  next
    case False
    let ?d = "take (pos + ?n) (iv_data v1) @ take ?n (drop pos (iv_data v1)) @ drop (pos + ?n + ?n) (iv_data v1)"
    have "mem_move (iv_data v1) (pos + ?n) pos ?n = Inr ?d"
      using False ok by (simp add: mem_move_def)
    moreover have "mem_write ?d (int pos) bs = Inr (take pos ?d @ map Some bs @ drop (pos + ?n) ?d)"
      using False ok by (intro mem_write_ok) simp
    moreover have "take pos ?d = take pos (iv_data v1)" "drop (pos + ?n) ?d = take ?n (drop pos (iv_data v1)) @ drop (pos + 2 * ?n) (iv_data v1)"
      using False ok by (simp_all add: min_def mult_2 add.assoc)
    ultimately show ?thesis
      using assms(4) m False by (simp add: iv_insert_def copy_in_def)
  qed
qed

section \<open>Sequences of operations\<close>

datatype iv_op = Push "byte list" | Pop nat | Erase nat nat

text \<open>What a call returns: the code of a push or an erasure, the count and the bytes of a pop.\<close>

datatype iv_out = Code int | Popped nat "byte option list option"

fun iv_do :: "iv_op \<Rightarrow> byte IVECTOR \<Rightarrow> (byte IVECTOR \<times> iv_out) res option" where
  "iv_do (Push bs) v = map_option (\<lambda>x. bindR x (\<lambda>(v, r). Inr (v, Code r))) (iv_push True v (Some bs) (length bs))"
| "iv_do (Pop n) v = map_option (\<lambda>(v, m, out). Inr (v, Popped m out)) (iv_pop True v True n)"
| "iv_do (Erase pos n) v = map_option (\<lambda>x. bindR x (\<lambda>(v, r). Inr (v, Code r))) (iv_erase True v pos n)"

fun iv_run :: "iv_op list \<Rightarrow> byte IVECTOR \<Rightarrow> (byte IVECTOR \<times> iv_out list) res option" where
  "iv_run [] v = Some (Inr (v, []))"
| "iv_run (p # ps) v =
     (case iv_do p v of
        None \<Rightarrow> None
      | Some (Inl e) \<Rightarrow> Some (Inl e)
      | Some (Inr (v', out)) \<Rightarrow> map_option (\<lambda>x. bindR x (\<lambda>(v, outs). Inr (v, out # outs))) (iv_run ps v'))"

fun list_do :: "iv_op \<Rightarrow> byte list \<Rightarrow> byte list \<times> iv_out" where
  "list_do (Push bs) xs = (xs @ bs, Code 0)"
| "list_do (Pop n) xs = (take (length xs - n) xs, Popped (min n (length xs)) (Some (map Some (drop (length xs - n) xs))))"
| "list_do (Erase pos n) xs = (take pos xs @ drop (pos + n) xs, Code 0)"

fun list_run :: "iv_op list \<Rightarrow> byte list \<Rightarrow> byte list \<times> iv_out list" where
  "list_run [] xs = (xs, [])"
| "list_run (p # ps) xs = (let (xs, out) = list_do p xs; (xs, outs) = list_run ps xs in (xs, out # outs))"

fun op_bytes :: "iv_op \<Rightarrow> nat" where
  "op_bytes (Push bs) = length bs"
| "op_bytes (Pop n) = 0"
| "op_bytes (Erase pos n) = n"

lemma iv_do_list:
  assumes "iv_ok 1 v" and "iv_size v + op_bytes p < 2 ^ 31" and "iv_content v = map Some xs"
  shows "\<exists>v'. iv_do p v = Some (Inr (v', snd (list_do p xs))) \<and> iv_ok 1 v' \<and> iv_content v' = map Some (fst (list_do p xs))"
proof (cases p)
  case (Push bs)
  then show ?thesis
    using iv_push_list [OF assms(1), of bs True] assms(2,3) by (auto split: if_splits)
next
  case (Pop n)
  have n: "iv_size v = length xs"
    using length_iv_content [OF assms(1)] assms(3) by simp
  have m: "iv_size v - min n (iv_size v) = length xs - n"
    unfolding n by linarith
  obtain v' where v': "iv_pop True v True n = Some (v', min n (iv_size v), Some (drop (length xs - n) (iv_content v)))" "iv_ok 1 v'"
      "iv_content v' = take (length xs - n) (iv_content v)"
    using iv_pop_list [OF assms(1), of True True n] assms(2) unfolding m by auto
  then show ?thesis
    using Pop n assms(3) by (simp add: take_map drop_map)
next
  case (Erase pos n)
  then show ?thesis
    using iv_erase_list [OF assms(1), of n True pos] assms(2,3) by (auto simp: take_map drop_map)
qed

lemma list_do_length: "length (fst (list_do p xs)) \<le> length xs + op_bytes p"
  by (cases p) auto

lemma iv_run_list:
  assumes "iv_ok 1 v" and "iv_size v + sum_list (map op_bytes ps) < 2 ^ 31" and "iv_content v = map Some xs"
  shows "\<exists>v'. iv_run ps v = Some (Inr (v', snd (list_run ps xs))) \<and> iv_ok 1 v' \<and> iv_content v' = map Some (fst (list_run ps xs))"
  using assms
proof (induction ps arbitrary: v xs)
  case (Cons p ps)
  then obtain v' where v': "iv_do p v = Some (Inr (v', snd (list_do p xs)))" "iv_ok 1 v'" "iv_content v' = map Some (fst (list_do p xs))"
    using iv_do_list [of v p xs] by auto
  moreover have "iv_size v' + sum_list (map op_bytes ps) < 2 ^ 31"
    using list_do_length [of p xs] length_iv_content [OF v'(2)] length_iv_content [OF Cons.prems(1)]
      v'(3) Cons.prems(2,3) by simp
  ultimately obtain v'' where "iv_run ps v' = Some (Inr (v'', snd (list_run ps (fst (list_do p xs)))))" "iv_ok 1 v''"
      "iv_content v'' = map Some (fst (list_run ps (fst (list_do p xs))))"
    using Cons.IH [of v' "fst (list_do p xs)"] by auto
  then show ?case
    using v'(1) by (simp add: case_prod_beta Let_def)
qed simp



lemma insert_lists:
  fixes xs ys :: "'a list"
  assumes "length ys = n" and "pos \<le> s" and "s + n \<le> length xs"
  defines "d \<equiv> take pos xs @ ys @ take n (drop pos xs) @ drop (pos + 2 * n) xs"
  shows "s - pos \<le> n \<Longrightarrow> take (s + n) d = take pos (take s xs) @ ys @ drop pos (take s xs)"
    and "n < s - pos \<Longrightarrow> take (pos + 2 * n) (take (s + n) d) = take pos (take s xs) @ ys @ take n (drop pos (take s xs))"
    and "n < s - pos \<Longrightarrow> drop (pos + 2 * n) (take s (take (s + n) d)) = drop (pos + 2 * n) (take s xs)"
proof -
  have [simp]: "min (length xs) pos = pos" "min (length xs - pos) n = n"
    using assms by auto
  show "take (s + n) d = take pos (take s xs) @ ys @ drop pos (take s xs)" if "s - pos \<le> n"
    using that assms by (simp add: drop_take)
  show "take (pos + 2 * n) (take (s + n) d) = take pos (take s xs) @ ys @ take n (drop pos (take s xs))" if "n < s - pos"
    using that assms by (simp add: drop_take)
  show "drop (pos + 2 * n) (take s (take (s + n) d)) = drop (pos + 2 * n) (take s xs)" if "n < s - pos"
  proof -
    have "drop (pos + 2 * n) d = drop (pos + 2 * n) xs"
      using that assms by (simp add: d_def)
    moreover have "take s (take (s + n) d) = take s d"
      by simp
    ultimately show ?thesis
      by (simp only: drop_take)
  qed
qed

text \<open>
  What \<open>iv_insert\<close> does. If the block of the grown vector has no room for twice the inserted
  bytes behind the position, it writes outside the block. Otherwise it returns 0, and the
  result is the insertion when the tail behind the position is not longer than the
  inserted bytes; a longer tail is damaged.
\<close>

theorem iv_insert_spec:
  assumes "iv_ok 1 v" and "iv_size v + length bs \<le> 2 ^ 31" and "pos \<le> iv_size v"
    and "iv_resize 1 True v (iv_size v + length bs) = Some (v1, 0)"
  shows "(iv_block v1 < pos + 2 * length bs \<longrightarrow> iv_insert True v pos (Some bs) (length bs) = Some (Inl OutOfBounds)) \<and>
    (pos + 2 * length bs \<le> iv_block v1 \<longrightarrow>
      (\<exists>v'. iv_insert True v pos (Some bs) (length bs) = Some (Inr (v', 0)) \<and>
        (iv_size v - pos \<le> length bs \<longrightarrow>
          iv_content v' = take pos (iv_content v) @ map Some bs @ drop pos (iv_content v)) \<and>
        (length bs < iv_size v - pos \<longrightarrow>
          take (pos + 2 * length bs) (iv_content v') = take pos (iv_content v) @ map Some bs @ take (length bs) (drop pos (iv_content v)) \<and>
          drop (pos + 2 * length bs) (take (iv_size v) (iv_content v')) = drop (pos + 2 * length bs) (iv_content v))))"
proof -
  let ?n = "length bs"
  have mn: "min (iv_size v) (iv_size v + ?n) = iv_size v"
    by simp
  have ok: "length (iv_data v1) = iv_block v1" "iv_size v + ?n \<le> iv_block v1" "iv_size v1 = iv_size v + ?n"
    and same: "take (iv_size v) (iv_data v1) = take (iv_size v) (iv_data v)"
    using iv_resize_bytes [OF assms(1,2), of True] assms(4) unfolding mn by (auto simp: iv_ok_def)
  let ?d = "take pos (iv_data v1) @ map Some bs @ take ?n (drop pos (iv_data v1)) @ drop (pos + 2 * ?n) (iv_data v1)"
  have c: "iv_content v = take (iv_size v) (iv_data v1)"
    by (simp add: iv_content_def same)
  note moved = insert_lists [of "map Some bs" ?n pos "iv_size v" "iv_data v1", folded c]
  show ?thesis
    using iv_insert_moves [OF assms] ok moved assms(3) by (auto simp: iv_content_def [of "_\<lparr>iv_data := _\<rparr>"])
qed

definition demo_vec :: "byte IVECTOR" where
  "demo_vec = \<lparr>iv_data = [Some 1, Some 2, Some 3, None], iv_size = 3, iv_block = 4, iv_addr = 1\<rparr>"

lemma demo_vec_ok: "iv_ok 1 demo_vec"
  unfolding iv_ok_def demo_vec_def by (simp add: bexI [of _ 2])

lemma demo_vec_resize: "iv_resize 1 True demo_vec (iv_size demo_vec + length [9 :: byte]) = Some (demo_vec\<lparr>iv_size := 4\<rparr>, 0)"
  by (simp add: iv_resize_def demo_vec_def)

theorem iv_insert_spec_witness:
  "iv_insert True demo_vec 3 (Some [9]) (length [9 :: byte]) = Some (Inl OutOfBounds) \<and>
   (\<exists>v'. iv_insert True demo_vec 0 (Some [9]) (length [9 :: byte]) = Some (Inr (v', 0)) \<and>
      take 2 (iv_content v') = [Some 9, Some 1] \<and> drop 2 (take 3 (iv_content v')) = [Some 3])"
proof -
  have s: "iv_size demo_vec = 3" "iv_block (demo_vec\<lparr>iv_size := 4\<rparr>) = 4" "iv_content demo_vec = [Some 1, Some 2, Some 3]"
    by (simp_all add: demo_vec_def iv_content_def)
  show ?thesis
    using iv_insert_spec [OF demo_vec_ok _ _ demo_vec_resize, of 3] iv_insert_spec [OF demo_vec_ok _ _ demo_vec_resize, of 0]
    unfolding s by (simp flip: numeral_2_eq_2)
qed

end
