(* ===== verification/Imem_Node.thy ===== *)
theory Imem_Node
  imports Imem_Vector
begin

text \<open>
  \<open>IMEMNODE\<close> of \<open>common/xmalloc/imembase.c\<close>: a pool of nodes of one size, numbered from 0,
  that grows by pages. The free nodes are a doubly linked list with head \<open>list_open\<close>, the
  used ones a list with head \<open>list_close\<close>; the links are indices in the arrays \<open>mprev\<close>
  and \<open>mnext\<close>, \<open>-1\<close> ends a list. An array is reached through a pointer taken from its
  vector after a resize: \<open>Some k\<close> points to the block number \<open>k\<close> of the vector
  (\<open>iv_addr\<close>), \<open>None\<close> is null. An access through a pointer to an earlier block is a use
  after free. \<open>ok k\<close> says whether the allocation \<open>k\<close> of a call succeeds and \<open>page\<close> is
  what \<open>malloc\<close> returns for the new page. \<open>NDEBUG\<close> removes the assertions.
\<close>

section \<open>The operations\<close>

record IMEMNODE =
  vprev :: "int IVECTOR"
  vnext :: "int IVECTOR"
  vnode :: "int IVECTOR"
  vdata :: "int IVECTOR"
  vmode :: "int IVECTOR"
  vmem :: "int IVECTOR"
  mprev :: "nat option"
  mnext :: "nat option"
  mnode :: "nat option"
  mdata :: "nat option"
  mmode :: "nat option"
  mmem :: "nat option"
  node_free :: int
  node_used :: int
  node_max :: int
  grow_limit :: int
  node_size :: int
  node_shift :: int
  mem_max :: int
  mem_count :: int
  list_open :: int
  list_close :: int
  total_mem :: int

definition IMROUNDSIZE :: int where
  "IMROUNDSIZE = 8"

definition IMROUNDUP :: "int \<Rightarrow> int" where
  "IMROUNDUP s = (s + IMROUNDSIZE - 1) mod 2 ^ 32 div IMROUNDSIZE * IMROUNDSIZE"

text \<open>An access to cell \<open>i\<close> of a vector through a pointer.\<close>

definition arr_at :: "nat option \<Rightarrow> int IVECTOR \<Rightarrow> int \<Rightarrow> unit res" where
  "arr_at p v i =
     (case p of
        None \<Rightarrow> Inl NullDeref
      | Some b \<Rightarrow> if b \<noteq> iv_addr v then Inl UseAfterFree
                 else if i < 0 \<or> int (length (iv_data v)) \<le> i then Inl OutOfBounds else Inr ())"

definition arr_get :: "nat option \<Rightarrow> int IVECTOR \<Rightarrow> int \<Rightarrow> int res" where
  "arr_get p v i =
     bindR (arr_at p v i) (\<lambda>_. case iv_data v ! nat i of None \<Rightarrow> Inl UseUninit | Some x \<Rightarrow> Inr x)"

definition arr_set :: "nat option \<Rightarrow> int IVECTOR \<Rightarrow> int \<Rightarrow> int \<Rightarrow> int IVECTOR res" where
  "arr_set p v i x = bindR (arr_at p v i) (\<lambda>_. Inr (v\<lparr>iv_data := (iv_data v)[nat i := Some x]\<rparr>))"

definition IMNODE_PREV :: "IMEMNODE \<Rightarrow> int \<Rightarrow> int res" where
  "IMNODE_PREV mn i = arr_get (mprev mn) (vprev mn) i"

definition IMNODE_NEXT :: "IMEMNODE \<Rightarrow> int \<Rightarrow> int res" where
  "IMNODE_NEXT mn i = arr_get (mnext mn) (vnext mn) i"

definition IMNODE_DATA :: "IMEMNODE \<Rightarrow> int \<Rightarrow> int res" where
  "IMNODE_DATA mn i = arr_get (mdata mn) (vdata mn) i"

definition IMNODE_MODE :: "IMEMNODE \<Rightarrow> int \<Rightarrow> int res" where
  "IMNODE_MODE mn i = arr_get (mmode mn) (vmode mn) i"

definition put_prev :: "int \<Rightarrow> int \<Rightarrow> IMEMNODE \<Rightarrow> IMEMNODE res" where
  "put_prev i x mn = bindR (arr_set (mprev mn) (vprev mn) i x) (\<lambda>v. Inr (mn\<lparr>vprev := v\<rparr>))"

definition put_next :: "int \<Rightarrow> int \<Rightarrow> IMEMNODE \<Rightarrow> IMEMNODE res" where
  "put_next i x mn = bindR (arr_set (mnext mn) (vnext mn) i x) (\<lambda>v. Inr (mn\<lparr>vnext := v\<rparr>))"

definition set_node :: "int \<Rightarrow> int \<Rightarrow> IMEMNODE \<Rightarrow> IMEMNODE res" where
  "set_node i x mn = bindR (arr_set (mnode mn) (vnode mn) i x) (\<lambda>v. Inr (mn\<lparr>vnode := v\<rparr>))"

definition set_data :: "int \<Rightarrow> int \<Rightarrow> IMEMNODE \<Rightarrow> IMEMNODE res" where
  "set_data i x mn = bindR (arr_set (mdata mn) (vdata mn) i x) (\<lambda>v. Inr (mn\<lparr>vdata := v\<rparr>))"

definition set_mode :: "int \<Rightarrow> int \<Rightarrow> IMEMNODE \<Rightarrow> IMEMNODE res" where
  "set_mode i x mn = bindR (arr_set (mmode mn) (vmode mn) i x) (\<lambda>v. Inr (mn\<lparr>vmode := v\<rparr>))"

text \<open>\<open>if (i >= 0) IMNODE_PREV(mnode, i) = x\<close>, the guard most updates have.\<close>

definition set_prev_if :: "int \<Rightarrow> int \<Rightarrow> IMEMNODE \<Rightarrow> IMEMNODE res" where
  "set_prev_if i x mn = (if i \<ge> 0 then put_prev i x mn else Inr mn)"

fun shift_loop :: "nat \<Rightarrow> nat \<Rightarrow> int \<Rightarrow> nat" where
  "shift_loop 0 s n = s"
| "shift_loop (Suc k) s n = (if 2 ^ s < n then shift_loop k (Suc s) n else s)"

definition imnode_init :: "int \<Rightarrow> IMEMNODE" where
  "imnode_init nodesize =
     \<lparr>vprev = iv_init, vnext = iv_init, vnode = iv_init, vdata = iv_init, vmode = iv_init, vmem = iv_init,
      mprev = None, mnext = None, mnode = None, mdata = None, mmode = None, mmem = None,
      node_free = 0, node_used = 0, node_max = 0, grow_limit = 0,
      node_size = IMROUNDUP (if nodesize < IMROUNDSIZE then IMROUNDSIZE else nodesize),
      node_shift = int (shift_loop 31 1 nodesize),
      mem_max = 0, mem_count = 0, list_open = - 1, list_close = - 1, total_mem = 0\<rparr>"

text \<open>The result is the pool and the list of the pages given back.\<close>

fun free_pages :: "IMEMNODE \<Rightarrow> nat \<Rightarrow> int list res" where
  "free_pages mn 0 = Inr []"
| "free_pages mn (Suc k) =
     bindR (free_pages mn k) (\<lambda>ps.
     bindR (arr_get (mmem mn) (vmem mn) (int k)) (\<lambda>p. Inr (if p \<noteq> 0 then ps @ [p] else ps)))"

definition imnode_destroy :: "IMEMNODE \<Rightarrow> (IMEMNODE \<times> int list) res" where
  "imnode_destroy mn =
     bindR (if mem_count mn > 0
            then bindR (if mmem mn = None then Inr [] else free_pages mn (nat (mem_count mn))) (\<lambda>ps.
                 Inr (mn\<lparr>mem_count := 0, mem_max := 0, vmem := iv_destroy (vmem mn), mmem := None\<rparr>, ps))
            else Inr (mn, [])) (\<lambda>(mn, ps).
     Inr (mn\<lparr>vprev := iv_destroy (vprev mn), vnext := iv_destroy (vnext mn), vnode := iv_destroy (vnode mn),
             vdata := iv_destroy (vdata mn), vmode := iv_destroy (vmode mn),
             mprev := None, mnext := None, mnode := None, mdata := None, mmode := None,
             node_free := 0, node_used := 0, node_max := 0, list_open := - 1, list_close := - 1, total_mem := 0\<rparr>, ps))"

text \<open>One line of \<open>imnode_node_resize\<close>: a vector is resized, and on failure the code is returned.\<close>

definition resize_field ::
    "bool \<Rightarrow> (IMEMNODE \<Rightarrow> int IVECTOR) \<Rightarrow> ((int IVECTOR \<Rightarrow> int IVECTOR) \<Rightarrow> IMEMNODE \<Rightarrow> IMEMNODE) \<Rightarrow> nat \<Rightarrow> int \<Rightarrow>
     IMEMNODE \<Rightarrow> (IMEMNODE \<Rightarrow> (IMEMNODE \<times> int) option) \<Rightarrow> (IMEMNODE \<times> int) option" where
  "resize_field ok field update n code mn rest =
     (case iv_resize 4 ok (field mn) n of
        None \<Rightarrow> None
      | Some (v, r) \<Rightarrow> let mn = update (\<lambda>_. v) mn in if r \<noteq> 0 then Some (mn, code) else rest mn)"

definition imnode_node_resize :: "(nat \<Rightarrow> bool) \<Rightarrow> IMEMNODE \<Rightarrow> int \<Rightarrow> (IMEMNODE \<times> int) option" where
  "imnode_node_resize ok mn n =
     (let n4 = nat (n * 4 mod 2 ^ 32)
      in resize_field (ok 0) vprev vprev_update n4 (- 1) mn (\<lambda>mn.
         resize_field (ok 1) vnext vnext_update n4 (- 2) mn (\<lambda>mn.
         resize_field (ok 2) vnode vnode_update n4 (- 3) mn (\<lambda>mn.
         resize_field (ok 3) vdata vdata_update n4 (- 5) mn (\<lambda>mn.
         resize_field (ok 4) vmode vmode_update n4 (- 6) mn (\<lambda>mn.
         Some (mn\<lparr>mprev := Some (iv_addr (vprev mn)), mnext := Some (iv_addr (vnext mn)),
                  mnode := Some (iv_addr (vnode mn)), mdata := Some (iv_addr (vdata mn)),
                  mmode := Some (iv_addr (vmode mn)), node_max := n\<rparr>, 0)))))))"

text \<open>
  \<open>newsize\<close> is a \<open>size_t\<close> of 32 bits: the size of a page wraps around, and so does the
  signed sum of the sizes. The argument \<open>page\<close> is what \<open>malloc\<close> answers to the wrapped size.
\<close>

definition page_size :: "IMEMNODE \<Rightarrow> int \<Rightarrow> int" where
  "page_size mn node_count = (node_count * node_size mn + IMROUNDSIZE) mod 2 ^ 32"

definition add_ilong :: "int \<Rightarrow> int \<Rightarrow> int" where
  "add_ilong a b = (a + b + 2 ^ 31) mod 2 ^ 32 - 2 ^ 31"

definition imnode_mem_add :: "bool \<Rightarrow> IMEMNODE \<Rightarrow> int \<Rightarrow> int option \<Rightarrow> (IMEMNODE \<times> int \<times> int) res option" where
  "imnode_mem_add ok mn node_count page =
     (let larger = (if mem_max mn \<le> 0 then IMROUNDSIZE else mem_max mn * 2);
          room = (if mem_count mn \<ge> mem_max mn
                  then map_option (\<lambda>(v, r).
                         if r \<noteq> 0 then (mn\<lparr>vmem := v\<rparr>, r)
                         else (mn\<lparr>vmem := v, mem_max := larger, mmem := Some (iv_addr v)\<rparr>, 0))
                       (iv_resize 4 ok (vmem mn) (nat (larger * 4 mod 2 ^ 32)))
                  else Some (mn, 0))
      in case room of
           None \<Rightarrow> None
         | Some (mn, r) \<Rightarrow>
             Some (if r \<noteq> 0 then Inr (mn, - 1, 0)
                   else case page of
                     None \<Rightarrow> Inr (mn, - 2, 0)
                   | Some p \<Rightarrow>
                       bindR (arr_set (mmem mn) (vmem mn) (mem_count mn) p) (\<lambda>v.
                       Inr (mn\<lparr>vmem := v, mem_count := mem_count mn + 1,
                               total_mem := add_ilong (total_mem mn) (page_size mn node_count)\<rparr>,
                            0, IMROUNDUP p))))"

fun grow_loop :: "nat \<Rightarrow> int \<Rightarrow> int \<Rightarrow> IMEMNODE \<Rightarrow> IMEMNODE res" where
  "grow_loop 0 i p mn = Inr mn"
| "grow_loop (Suc k) i p mn =
     bindR (set_node i 0 mn) (\<lambda>mn.
     bindR (set_mode i 0 mn) (\<lambda>mn.
     bindR (set_data i p mn) (\<lambda>mn.
     bindR (put_prev i (- 1) mn) (\<lambda>mn.
     bindR (put_next i (list_open mn) mn) (\<lambda>mn.
     bindR (set_prev_if (list_open mn) i mn) (\<lambda>mn.
     grow_loop k (i - 1) (p + node_size mn)
       (mn\<lparr>list_open := i, node_free := node_free mn + 1\<rparr>)))))))"

definition imnode_grow :: "(nat \<Rightarrow> bool) \<Rightarrow> int option \<Rightarrow> IMEMNODE \<Rightarrow> (IMEMNODE \<times> int) res option" where
  "imnode_grow ok page mn =
     (let start = node_max mn;
          count = (if node_max mn \<le> 0 then IMROUNDSIZE else node_max mn);
          count = (if grow_limit mn > 0 \<and> count > grow_limit mn then grow_limit mn else count)
      in case imnode_node_resize ok mn (start + count) of
           None \<Rightarrow> None
         | Some (mn, r) \<Rightarrow>
             if r \<noteq> 0 then Some (Inr (mn, - 10 + r))
             else case imnode_mem_add (ok 5) mn count page of
               None \<Rightarrow> None
             | Some (Inl e) \<Rightarrow> Some (Inl e)
             | Some (Inr (mn, r, p)) \<Rightarrow>
                 if r \<noteq> 0 then
                   map_option (\<lambda>(mn, _). Inr (mn\<lparr>node_max := start\<rparr>, - 20 + r))
                     (imnode_node_resize (\<lambda>k. ok (k + 6)) mn start)
                 else Some (bindR (grow_loop (nat count) (node_max mn - 1) p mn) (\<lambda>mn. Inr (mn, 0))))"

definition imnode_take :: "IMEMNODE \<Rightarrow> (IMEMNODE \<times> int) res" where
  "imnode_take mn =
     (if list_open mn < 0 \<or> node_free mn \<le> 0 then Inr (mn, - 3)
      else let node = list_open mn
           in bindR (IMNODE_NEXT mn node) (\<lambda>nxt.
              bindR (set_prev_if nxt (- 1) mn) (\<lambda>mn.
              bindR (put_prev node (- 1) (mn\<lparr>list_open := nxt\<rparr>)) (\<lambda>mn.
              bindR (put_next node (list_close mn) mn) (\<lambda>mn.
              bindR (set_prev_if (list_close mn) node mn) (\<lambda>mn.
              bindR (set_mode node 1 (mn\<lparr>list_close := node\<rparr>)) (\<lambda>mn.
              Inr (mn\<lparr>node_free := node_free mn - 1, node_used := node_used mn + 1\<rparr>, node))))))))"

definition imnode_new :: "(nat \<Rightarrow> bool) \<Rightarrow> int option \<Rightarrow> IMEMNODE \<Rightarrow> (IMEMNODE \<times> int) res option" where
  "imnode_new ok page mn =
     (if list_open mn < 0 then
        (case imnode_grow ok page mn of
           None \<Rightarrow> None
         | Some (Inl e) \<Rightarrow> Some (Inl e)
         | Some (Inr (mn, r)) \<Rightarrow> if r \<noteq> 0 then Some (Inr (mn, - 2)) else Some (imnode_take mn))
      else Some (imnode_take mn))"

definition imnode_del :: "IMEMNODE \<Rightarrow> int \<Rightarrow> IMEMNODE res" where
  "imnode_del mn index =
     bindR (IMNODE_NEXT mn index) (\<lambda>nxt.
     bindR (IMNODE_PREV mn index) (\<lambda>prv.
     bindR (set_prev_if nxt prv mn) (\<lambda>mn.
     bindR (if prv \<ge> 0 then put_next prv nxt mn else Inr (mn\<lparr>list_close := nxt\<rparr>)) (\<lambda>mn.
     bindR (put_prev index (- 1) mn) (\<lambda>mn.
     bindR (put_next index (list_open mn) mn) (\<lambda>mn.
     bindR (set_prev_if (list_open mn) index mn) (\<lambda>mn.
     bindR (set_mode index 0 (mn\<lparr>list_open := index\<rparr>)) (\<lambda>mn.
     Inr (mn\<lparr>node_free := node_free mn + 1, node_used := node_used mn - 1\<rparr>)))))))))"

definition imnode_head :: "IMEMNODE option \<Rightarrow> int" where
  "imnode_head mn = (case mn of Some mn \<Rightarrow> list_close mn | None \<Rightarrow> - 1)"

definition imnode_next :: "IMEMNODE option \<Rightarrow> int \<Rightarrow> int res" where
  "imnode_next mn index = (case mn of Some mn \<Rightarrow> IMNODE_NEXT mn index | None \<Rightarrow> Inr (- 1))"

definition imnode_prev :: "IMEMNODE option \<Rightarrow> int \<Rightarrow> int res" where
  "imnode_prev mn index = (case mn of Some mn \<Rightarrow> IMNODE_PREV mn index | None \<Rightarrow> Inr (- 1))"

definition imnode_data :: "IMEMNODE \<Rightarrow> int \<Rightarrow> int res" where
  "imnode_data mn index = IMNODE_DATA mn index"

section \<open>Two linked lists over indices\<close>

text \<open>\<open>chain nx pv p xs h\<close>: from the head \<open>h\<close> the links visit \<open>xs\<close> and end; \<open>p\<close> is before them.\<close>

fun chain :: "(nat \<Rightarrow> int) \<Rightarrow> (nat \<Rightarrow> int) \<Rightarrow> int \<Rightarrow> nat list \<Rightarrow> int \<Rightarrow> bool" where
  "chain nx pv p [] h \<longleftrightarrow> h = - 1"
| "chain nx pv p (i # xs) h \<longleftrightarrow> h = int i \<and> pv i = p \<and> chain nx pv (int i) xs (nx i)"

definition put_if :: "int \<Rightarrow> int \<Rightarrow> (nat \<Rightarrow> int) \<Rightarrow> nat \<Rightarrow> int" where
  "put_if k x f = (if k \<ge> 0 then f(nat k := x) else f)"

definition two_lists :: "(nat \<Rightarrow> int) \<Rightarrow> (nat \<Rightarrow> int) \<Rightarrow> nat list \<Rightarrow> int \<Rightarrow> nat list \<Rightarrow> int \<Rightarrow> bool" where
  "two_lists nx pv xs h ys g \<longleftrightarrow> chain nx pv (- 1) xs h \<and> chain nx pv (- 1) ys g \<and> distinct (xs @ ys)"

lemma put_if_simps [simp]: "put_if (- 1) x f = f" "put_if (int i) x f = f(i := x)"
  by (simp_all add: put_if_def)

lemma chain_frame:
  "\<forall>i \<in> set xs. nx' i = nx i \<and> pv' i = pv i \<Longrightarrow> chain nx' pv' p xs h = chain nx pv p xs h"
  by (induction xs arbitrary: p h) auto

lemma chain_head: "chain nx pv p xs h \<Longrightarrow> h = (case xs of [] \<Rightarrow> - 1 | i # _ \<Rightarrow> int i)"
  by (cases xs) auto

lemma two_lists_swap: "two_lists nx pv xs h ys g = two_lists nx pv ys g xs h"
  by (auto simp: two_lists_def)

lemma two_lists_push:
  assumes "two_lists nx pv xs h ys g" and "i \<notin> set xs" and "i \<notin> set ys"
  shows "two_lists (nx(i := h)) (put_if h (int i) (pv(i := - 1))) (i # xs) (int i) ys g"
proof -
  have d: "distinct (xs @ ys)" and cx: "chain nx pv (- 1) xs h" and cy: "chain nx pv (- 1) ys g"
    using assms(1) by (simp_all add: two_lists_def)
  show ?thesis
  proof (cases xs)
    case Nil
    with cx cy d assms(3) show ?thesis
      using chain_frame [of ys "nx(i := - 1)" nx "pv(i := - 1)" pv] by (auto simp: two_lists_def)
  next
    case (Cons j zs)
    let ?nx = "nx(i := h)" and ?pv = "pv(i := - 1, j := int i)"
    have h: "h = int j"
      using cx Cons by simp
    have "chain ?nx ?pv (int j) zs (nx j) = chain nx pv (int j) zs (nx j)"
      "chain ?nx ?pv (- 1) ys g = chain nx pv (- 1) ys g"
      using d assms(2,3) Cons by (auto intro!: chain_frame)
    with h Cons cx cy d assms(2,3) show ?thesis
      by (auto simp: two_lists_def)
  qed
qed

lemma two_lists_pop:
  assumes "two_lists nx pv (i # xs) h ys g"
  shows "two_lists nx (put_if (nx i) (- 1) pv) xs (nx i) ys g"
proof -
  have d: "distinct (i # xs @ ys)" and cx: "chain nx pv (int i) xs (nx i)" and cy: "chain nx pv (- 1) ys g"
    using assms by (auto simp: two_lists_def)
  show ?thesis
  proof (cases xs)
    case Nil
    with cx cy d show ?thesis by (auto simp: two_lists_def)
  next
    case (Cons j zs)
    then have "chain nx (pv(j := - 1)) (int j) zs (nx j) = chain nx pv (int j) zs (nx j)"
      "chain nx (pv(j := - 1)) (- 1) ys g = chain nx pv (- 1) ys g"
      using d by (auto intro!: chain_frame)
    with Cons cx cy d show ?thesis by (auto simp: two_lists_def)
  qed
qed

lemma chain_mid:
  "chain nx pv p (xs @ i # zs) h \<Longrightarrow>
   pv i = (if xs = [] then p else int (last xs)) \<and> chain nx pv (int i) zs (nx i)"
  by (induction xs arbitrary: p h) (auto split: if_splits)

lemma chain_unlink:
  assumes "chain nx pv p (xs @ i # zs) h" and "distinct (xs @ i # zs)" and "p \<ge> 0 \<longrightarrow> nat p \<notin> set (xs @ i # zs)"
  shows "chain (put_if (pv i) (nx i) nx) (put_if (nx i) (pv i) pv) p (xs @ zs) (if xs = [] then nx i else h)"
  using assms
proof (induction xs arbitrary: p h)
  case Nil
  then have pv: "pv i = p" and cz: "chain nx pv (int i) zs (nx i)"
    by simp_all
  show ?case
  proof (cases zs)
    case Nil
    then show ?thesis using cz by simp
  next
    case (Cons j ws)
    have "chain (put_if p (nx i) nx) (pv(j := p)) (int j) ws (nx j) = chain nx pv (int j) ws (nx j)"
      using Nil.prems Cons by (intro chain_frame) (auto simp: put_if_def)
    moreover have "put_if p (nx i) nx j = nx j"
      using Nil.prems Cons by (auto simp: put_if_def)
    ultimately show ?thesis using cz pv Cons by (simp add: fun_upd_def)
  qed
next
  case (Cons k xs)
  then have c: "h = int k" "pv k = p" "chain nx pv (int k) (xs @ i # zs) (nx k)"
    and d: "distinct (xs @ i # zs)" "k \<notin> set (xs @ i # zs)"
    by auto
  have ch: "chain (put_if (pv i) (nx i) nx) (put_if (nx i) (pv i) pv) (int k) (xs @ zs) (if xs = [] then nx i else nx k)"
    using Cons.IH [OF c(3) d(1)] d(2) by simp
  have one: "pv i = (if xs = [] then int k else int (last xs))" and "chain nx pv (int i) zs (nx i)"
    using chain_mid [OF c(3)] by simp_all
  then have "put_if (nx i) (pv i) pv k = p"
    using chain_head [of nx pv "int i" zs "nx i"] c(2) d(2) by (cases zs) auto
  moreover have "put_if (pv i) (nx i) nx k = (if xs = [] then nx i else nx k)"
    using one d(2) by (cases "xs = []") (auto dest: last_in_set)
  ultimately show ?case
    using ch c(1) by simp
qed

lemma two_lists_unlink:
  assumes "two_lists nx pv (xs @ i # zs) h ys g"
  shows "two_lists (put_if (pv i) (nx i) nx) (put_if (nx i) (pv i) pv) (xs @ zs) (if pv i \<ge> 0 then h else nx i) ys g"
    and "pv i = - 1 \<or> (\<exists>j. pv i = int j \<and> j \<in> set xs)" and "nx i = - 1 \<or> (\<exists>j. nx i = int j \<and> j \<in> set zs)"
proof -
  have d: "distinct (xs @ i # zs)" "set (xs @ i # zs) \<inter> set ys = {}" "distinct ys"
    and c: "chain nx pv (- 1) (xs @ i # zs) h" and cy: "chain nx pv (- 1) ys g"
    using assms by (auto simp: two_lists_def)
  have e: "pv i = (if xs = [] then - 1 else int (last xs))" "nx i = (case zs of [] \<Rightarrow> - 1 | j # _ \<Rightarrow> int j)"
    using chain_mid [OF c] chain_head by blast+
  then show 1: "pv i = - 1 \<or> (\<exists>j. pv i = int j \<and> j \<in> set xs)"
    and 2: "nx i = - 1 \<or> (\<exists>j. nx i = int j \<and> j \<in> set zs)"
    by (auto split: list.splits)
  have "chain (put_if (pv i) (nx i) nx) (put_if (nx i) (pv i) pv) (- 1) ys g = chain nx pv (- 1) ys g"
    using 1 2 d(2) by (intro chain_frame) auto
  moreover have "(if pv i \<ge> 0 then h else nx i) = (if xs = [] then nx i else h)"
    using e(1) by simp
  ultimately show "two_lists (put_if (pv i) (nx i) nx) (put_if (nx i) (pv i) pv) (xs @ zs) (if pv i \<ge> 0 then h else nx i) ys g"
    using chain_unlink [OF c d(1)] cy d by (auto simp: two_lists_def)
qed

section \<open>Arrays\<close>

definition arr_ok :: "nat option \<Rightarrow> int IVECTOR \<Rightarrow> nat \<Rightarrow> bool" where
  "arr_ok p v n \<longleftrightarrow> iv_ok 4 v \<and> iv_size v = 4 * n \<and> (n = 0 \<or> p = Some (iv_addr v))"

definition cells_set :: "int IVECTOR \<Rightarrow> nat set \<Rightarrow> bool" where
  "cells_set v S \<longleftrightarrow> (\<forall>i \<in> S. iv_data v ! i \<noteq> None)"

definition val :: "int IVECTOR \<Rightarrow> nat \<Rightarrow> int" where
  "val v i = the (iv_data v ! i)"

definition put :: "int IVECTOR \<Rightarrow> nat \<Rightarrow> int \<Rightarrow> int IVECTOR" where
  "put v i x = v\<lparr>iv_data := (iv_data v)[i := Some x]\<rparr>"

lemma arr_len: "arr_ok p v n \<Longrightarrow> n \<le> length (iv_data v)"
  by (auto simp: arr_ok_def iv_ok_def)

lemma arr_ok_put [simp]: "arr_ok p (put v i x) n = arr_ok p v n"
  by (simp add: arr_ok_def put_def iv_ok_def)

lemma val_put: "arr_ok p v n \<Longrightarrow> i < n \<Longrightarrow> val (put v i x) = (val v)(i := x)"
  using arr_len [of p v n] by (auto simp: val_def put_def fun_eq_iff)

lemma cells_put: "arr_ok p v n \<Longrightarrow> i < n \<Longrightarrow> cells_set v S \<Longrightarrow> cells_set (put v i x) (insert i S)"
  using arr_len [of p v n] by (auto simp: cells_set_def put_def nth_list_update)

lemma cells_put_same: "arr_ok p v n \<Longrightarrow> i < n \<Longrightarrow> cells_set v S \<Longrightarrow> cells_set (put v i x) S"
  using arr_len [of p v n] by (auto simp: cells_set_def put_def nth_list_update)

lemma arr_get_ok: "arr_ok p v n \<Longrightarrow> i < n \<Longrightarrow> cells_set v S \<Longrightarrow> i \<in> S \<Longrightarrow> arr_get p v (int i) = Inr (val v i)"
  using arr_len [of p v n] by (auto simp: arr_get_def arr_at_def arr_ok_def val_def cells_set_def)

lemma arr_set_ok: "arr_ok p v n \<Longrightarrow> i < n \<Longrightarrow> arr_set p v (int i) x = Inr (put v i x)"
  using arr_len [of p v n] by (simp add: arr_set_def arr_at_def arr_ok_def put_def)

definition arrays_ok :: "IMEMNODE \<Rightarrow> bool" where
  "arrays_ok mn \<longleftrightarrow> 0 \<le> node_max mn \<and>
     arr_ok (mprev mn) (vprev mn) (nat (node_max mn)) \<and> arr_ok (mnext mn) (vnext mn) (nat (node_max mn)) \<and>
     arr_ok (mnode mn) (vnode mn) (nat (node_max mn)) \<and> arr_ok (mdata mn) (vdata mn) (nat (node_max mn)) \<and>
     arr_ok (mmode mn) (vmode mn) (nat (node_max mn))"

definition vput_if :: "int \<Rightarrow> int \<Rightarrow> int IVECTOR \<Rightarrow> int IVECTOR" where
  "vput_if k x v = (if k \<ge> 0 then put v (nat k) x else v)"

lemma arr_ok_vput_if [simp]: "arr_ok p (vput_if k x v) n = arr_ok p v n"
  by (simp add: vput_if_def)

text \<open>\<open>link_to N k\<close>: a link is \<open>-1\<close> or an index below \<open>N\<close>.\<close>

definition link_to :: "nat \<Rightarrow> int \<Rightarrow> bool" where
  "link_to n k \<longleftrightarrow> k = - 1 \<or> (\<exists>j < n. k = int j)"

lemma val_vput_if: "arr_ok p v n \<Longrightarrow> link_to n k \<Longrightarrow> val (vput_if k x v) = put_if k x (val v)"
  by (auto simp: vput_if_def put_if_def link_to_def val_put)

lemma cells_vput_if: "arr_ok p v n \<Longrightarrow> link_to n k \<Longrightarrow> cells_set v S \<Longrightarrow> cells_set (vput_if k x v) S"
  by (auto simp: vput_if_def link_to_def intro: cells_put_same)

lemma setters:
  "arr_ok (mprev mn) (vprev mn) (nat (node_max mn)) \<Longrightarrow> i < nat (node_max mn) \<Longrightarrow>
     put_prev (int i) x mn = Inr (mn\<lparr>vprev := put (vprev mn) i x\<rparr>)"
  "arr_ok (mnext mn) (vnext mn) (nat (node_max mn)) \<Longrightarrow> i < nat (node_max mn) \<Longrightarrow>
     put_next (int i) x mn = Inr (mn\<lparr>vnext := put (vnext mn) i x\<rparr>)"
  "arr_ok (mnode mn) (vnode mn) (nat (node_max mn)) \<Longrightarrow> i < nat (node_max mn) \<Longrightarrow>
     set_node (int i) x mn = Inr (mn\<lparr>vnode := put (vnode mn) i x\<rparr>)"
  "arr_ok (mdata mn) (vdata mn) (nat (node_max mn)) \<Longrightarrow> i < nat (node_max mn) \<Longrightarrow>
     set_data (int i) x mn = Inr (mn\<lparr>vdata := put (vdata mn) i x\<rparr>)"
  "arr_ok (mmode mn) (vmode mn) (nat (node_max mn)) \<Longrightarrow> i < nat (node_max mn) \<Longrightarrow>
     set_mode (int i) x mn = Inr (mn\<lparr>vmode := put (vmode mn) i x\<rparr>)"
  by (auto simp: arr_set_ok put_prev_def put_next_def set_node_def set_data_def set_mode_def)

lemma set_prev_if_ok:
  "arr_ok (mprev mn) (vprev mn) (nat (node_max mn)) \<Longrightarrow> link_to (nat (node_max mn)) k \<Longrightarrow>
   set_prev_if k x mn = Inr (mn\<lparr>vprev := vput_if k x (vprev mn)\<rparr>)"
  by (auto simp: set_prev_if_def link_to_def setters vput_if_def)

text \<open>
  The state of the two lists over the set \<open>S\<close> of indices in use: all of them except while the
  pool grows.
\<close>

definition pool_at :: "IMEMNODE \<Rightarrow> nat set \<Rightarrow> nat list \<Rightarrow> nat list \<Rightarrow> bool" where
  "pool_at mn S os cs \<longleftrightarrow> arrays_ok mn \<and> S \<subseteq> {..<nat (node_max mn)} \<and>
     cells_set (vprev mn) S \<and> cells_set (vnext mn) S \<and> cells_set (vmode mn) S \<and> cells_set (vdata mn) S \<and>
     two_lists (val (vnext mn)) (val (vprev mn)) os (list_open mn) cs (list_close mn) \<and>
     set os \<union> set cs = S \<and> node_free mn = int (length os) \<and> node_used mn = int (length cs) \<and>
     (\<forall>i \<in> S. val (vmode mn) i = (if i \<in> set cs then 1 else 0))"

lemma chain_link: "chain nx pv p xs h \<Longrightarrow> set xs \<subseteq> {..<n} \<Longrightarrow> link_to n h"
  by (cases xs) (auto simp: link_to_def)

lemma pool_links:
  assumes "pool_at mn S os cs"
  shows "link_to (nat (node_max mn)) (list_open mn)" and "link_to (nat (node_max mn)) (list_close mn)"
  using assms by (auto simp: pool_at_def two_lists_def intro: chain_link)

lemma take_result:
  assumes "pool_at mn S (i # os) cs"
  defines "nxt \<equiv> val (vnext mn) i"
  shows "imnode_take mn = Inr (mn\<lparr>vprev := vput_if (list_close mn) (int i) (put (vput_if nxt (- 1) (vprev mn)) i (- 1)),
      vnext := put (vnext mn) i (list_close mn), vmode := put (vmode mn) i 1,
      list_open := nxt, list_close := int i, node_free := node_free mn - 1, node_used := node_used mn + 1\<rparr>, int i)"
    and "link_to (nat (node_max mn)) nxt" and "i < nat (node_max mn)"
proof -
  let ?N = "nat (node_max mn)"
  have ok: "arrays_ok mn" and i: "i \<in> S" "i < ?N" and c: "cells_set (vnext mn) S"
    and h: "list_open mn = int i" and cx: "chain (val (vnext mn)) (val (vprev mn)) (int i) os nxt"
    and so: "set os \<subseteq> {..<?N}" and fr: "node_free mn = 1 + int (length os)"
    using assms(1) by (auto simp: pool_at_def two_lists_def nxt_def)
  show l: "link_to ?N nxt" "i < ?N"
    using chain_link [OF cx so] i by simp_all
  have "IMNODE_NEXT mn (int i) = Inr nxt"
    using ok i c by (auto simp: IMNODE_NEXT_def nxt_def arrays_ok_def intro: arr_get_ok)
  then show "imnode_take mn = Inr (mn\<lparr>vprev := vput_if (list_close mn) (int i) (put (vput_if nxt (- 1) (vprev mn)) i (- 1)),
      vnext := put (vnext mn) i (list_close mn), vmode := put (vmode mn) i 1,
      list_open := nxt, list_close := int i, node_free := node_free mn - 1, node_used := node_used mn + 1\<rparr>, int i)"
    using ok l pool_links(2) [OF assms(1)] h fr
    by (simp add: imnode_take_def arrays_ok_def set_prev_if_ok setters Let_def)
qed

lemma take_pool:
  assumes "pool_at mn S (i # os) cs" and "imnode_take mn = Inr (mn', r)"
  shows "pool_at mn' S os (i # cs)"
proof -
  let ?N = "nat (node_max mn)"
  note t = take_result [OF assms(1)]
  have ok: "arrays_ok mn" and sub: "S \<subseteq> {..<?N}" and two: "two_lists (val (vnext mn)) (val (vprev mn)) (i # os) (list_open mn) cs (list_close mn)"
    and i: "i \<in> S" "i \<notin> set os" "i \<notin> set cs"
    using assms(1) by (auto simp: pool_at_def two_lists_def)
  have a: "arr_ok (mprev mn) (vprev mn) ?N" "arr_ok (mnext mn) (vnext mn) ?N" "arr_ok (mmode mn) (vmode mn) ?N"
    using ok by (simp_all add: arrays_ok_def)
  have l: "link_to ?N (list_close mn)" "link_to ?N (val (vnext mn) i)" "i < ?N"
    using pool_links(2) [OF assms(1)] t(2,3) by simp_all
  have "two_lists ((val (vnext mn))(i := list_close mn)) (put_if (list_close mn) (int i)
      ((put_if (val (vnext mn) i) (- 1) (val (vprev mn)))(i := - 1))) os (val (vnext mn) i) (i # cs) (int i)"
    using two_lists_push [of "val (vnext mn)" _ cs "list_close mn" os "val (vnext mn) i" i] two_lists_pop [OF two] i(2,3)
    by (simp add: two_lists_swap [of _ _ cs] two_lists_swap [of _ _ "i # cs"])
  moreover have "val (vput_if (list_close mn) (int i) (put (vput_if (val (vnext mn) i) (- 1) (vprev mn)) i (- 1))) =
      put_if (list_close mn) (int i) ((put_if (val (vnext mn) i) (- 1) (val (vprev mn)))(i := - 1))"
    using a(1) l by (simp add: val_vput_if [of "mprev mn" _ ?N] val_put [of "mprev mn" _ ?N])
  moreover have "cells_set (vput_if (list_close mn) (int i) (put (vput_if (val (vnext mn) i) (- 1) (vprev mn)) i (- 1))) S"
    using a(1) l assms(1)
    by (simp add: cells_vput_if [of "mprev mn" _ ?N] cells_put_same [of "mprev mn" _ ?N] pool_at_def)
  ultimately show ?thesis
    using assms a l i t(1)
    by (auto simp: pool_at_def arrays_ok_def val_put [of "mnext mn" _ ?N] val_put [of "mmode mn" _ ?N] intro: cells_put_same)
qed


lemma del_result:
  assumes "pool_at mn S os (xs @ i # zs)"
  defines "nxt \<equiv> val (vnext mn) i" and "prv \<equiv> val (vprev mn) i"
  shows "imnode_del mn (int i) = Inr (mn\<lparr>vprev := vput_if (list_open mn) (int i) (put (vput_if nxt prv (vprev mn)) i (- 1)),
      vnext := put (vput_if prv nxt (vnext mn)) i (list_open mn), vmode := put (vmode mn) i 0,
      list_open := int i, list_close := (if prv \<ge> 0 then list_close mn else nxt),
      node_free := node_free mn + 1, node_used := node_used mn - 1\<rparr>)"
    and "link_to (nat (node_max mn)) nxt" and "link_to (nat (node_max mn)) prv" and "i < nat (node_max mn)"
proof -
  let ?N = "nat (node_max mn)"
  have ok: "arrays_ok mn" and i: "i \<in> S" "i < ?N" and c: "cells_set (vnext mn) S" "cells_set (vprev mn) S"
    and two: "two_lists (val (vnext mn)) (val (vprev mn)) (xs @ i # zs) (list_close mn) os (list_open mn)"
    and sub: "set xs \<subseteq> {..<?N}" "set zs \<subseteq> {..<?N}"
    using assms(1) by (auto simp: pool_at_def two_lists_swap [of _ _ os])
  show l: "link_to ?N nxt" "link_to ?N prv" "i < ?N"
    using two_lists_unlink(2,3) [OF two] sub i unfolding nxt_def prv_def link_to_def by auto
  have "IMNODE_NEXT mn (int i) = Inr nxt" "IMNODE_PREV mn (int i) = Inr prv"
    using ok i c by (auto simp: IMNODE_NEXT_def IMNODE_PREV_def nxt_def prv_def arrays_ok_def intro: arr_get_ok)
  moreover have "nat prv < ?N" "int (nat prv) = prv" if "0 \<le> prv"
    using l(2) that by (auto simp: link_to_def)
  ultimately show "imnode_del mn (int i) = Inr (mn\<lparr>vprev := vput_if (list_open mn) (int i) (put (vput_if nxt prv (vprev mn)) i (- 1)),
      vnext := put (vput_if prv nxt (vnext mn)) i (list_open mn), vmode := put (vmode mn) i 0,
      list_open := int i, list_close := (if prv \<ge> 0 then list_close mn else nxt),
      node_free := node_free mn + 1, node_used := node_used mn - 1\<rparr>)"
    using ok l pool_links(1) [OF assms(1)] setters(2) [of "mn\<lparr>vprev := vput_if nxt prv (vprev mn)\<rparr>" "nat prv" nxt]
    by (auto simp: imnode_del_def arrays_ok_def set_prev_if_ok setters vput_if_def [of prv])
qed

lemma del_pool:
  assumes "pool_at mn S os (xs @ i # zs)" and "imnode_del mn (int i) = Inr mn'"
  shows "pool_at mn' S (i # os) (xs @ zs)"
proof -
  let ?N = "nat (node_max mn)" and ?nx = "val (vnext mn)" and ?pv = "val (vprev mn)"
  note t = del_result [OF assms(1)]
  have two: "two_lists ?nx ?pv (xs @ i # zs) (list_close mn) os (list_open mn)"
    and i: "i \<notin> set os" "i \<notin> set (xs @ zs)"
    and a: "arr_ok (mprev mn) (vprev mn) ?N" "arr_ok (mnext mn) (vnext mn) ?N" "arr_ok (mmode mn) (vmode mn) ?N"
    using assms(1) by (auto simp: pool_at_def two_lists_swap [of _ _ os] two_lists_def arrays_ok_def)
  have l: "link_to ?N (list_open mn)" "link_to ?N (?nx i)" "link_to ?N (?pv i)" "i < ?N"
    using pool_links(1) [OF assms(1)] t(2,3,4) by simp_all
  have "two_lists ((put_if (?pv i) (?nx i) ?nx)(i := list_open mn)) (put_if (list_open mn) (int i)
      ((put_if (?nx i) (?pv i) ?pv)(i := - 1))) (i # os) (int i) (xs @ zs) (if ?pv i \<ge> 0 then list_close mn else ?nx i)"
    using two_lists_push [OF two_lists_unlink(1) [OF two, unfolded two_lists_swap [of _ _ "xs @ zs"]]] i by simp
  moreover have "val (vput_if (list_open mn) (int i) (put (vput_if (?nx i) (?pv i) (vprev mn)) i (- 1))) =
      put_if (list_open mn) (int i) ((put_if (?nx i) (?pv i) ?pv)(i := - 1))"
    using a(1) l by (simp add: val_vput_if [of "mprev mn" _ ?N] val_put [of "mprev mn" _ ?N])
  moreover have "val (put (vput_if (?pv i) (?nx i) (vnext mn)) i (list_open mn)) = (put_if (?pv i) (?nx i) ?nx)(i := list_open mn)"
    using a(2) l by (simp add: val_vput_if [of "mnext mn" _ ?N] val_put [of "mnext mn" _ ?N])
  moreover have "cells_set (vput_if (list_open mn) (int i) (put (vput_if (?nx i) (?pv i) (vprev mn)) i (- 1))) S"
    "cells_set (put (vput_if (?pv i) (?nx i) (vnext mn)) i (list_open mn)) S"
    using a l assms(1)
    by (simp_all add: cells_vput_if [of "mprev mn" _ ?N] cells_put_same [of "mprev mn" _ ?N]
      cells_vput_if [of "mnext mn" _ ?N] cells_put_same [of "mnext mn" _ ?N] pool_at_def)
  ultimately show ?thesis
    using assms a l i t(1)
    by (auto simp: pool_at_def arrays_ok_def val_put [of "mmode mn" _ ?N] intro: cells_put_same)
qed

section \<open>Growth\<close>

definition same_upto :: "nat \<Rightarrow> int IVECTOR \<Rightarrow> int IVECTOR \<Rightarrow> bool" where
  "same_upto n v v' \<longleftrightarrow> (\<forall>i < n. iv_data v' ! i = iv_data v ! i)"

lemma same_upto_cells: "same_upto n v v' \<Longrightarrow> S \<subseteq> {..<n} \<Longrightarrow> cells_set v' S = cells_set v S"
  unfolding same_upto_def cells_set_def by (metis lessThan_iff subset_iff)

lemma same_upto_val: "same_upto n v v' \<Longrightarrow> i < n \<Longrightarrow> val v' i = val v i"
  by (simp add: same_upto_def val_def)

lemma resize_arr:
  assumes "arr_ok p v n0" and "4 * n \<le> 2 ^ 31"
  shows "\<exists>v'. iv_resize 4 True v (4 * n) = Some (v', 0) \<and> arr_ok (Some (iv_addr v')) v' n \<and> same_upto (min n0 n) v v'"
proof -
  have v: "iv_ok 4 v" "iv_size v = 4 * n0"
    using assms(1) by (simp_all add: arr_ok_def)
  have k: "min (4 * n0) (4 * n) div 4 = min n0 n"
    by (simp add: min_def)
  obtain v' where r: "iv_resize 4 True v (4 * n) = Some (v', 0)" and v': "iv_ok 4 v'" "iv_size v' = 4 * n"
    and t: "take (min n0 n) (iv_data v') = take (min n0 n) (iv_data v)"
    using iv_resize_keeps [OF v(1) _ assms(2), of True] unfolding v(2) k by (auto split: if_splits)
  have "same_upto (min n0 n) v v'"
    unfolding same_upto_def using t by (metis nth_take)
  then show ?thesis
    using r v' by (auto simp: arr_ok_def)
qed

text \<open>A resize of all arrays replaces them by arrays that agree where both have cells.\<close>

definition resized :: "IMEMNODE \<Rightarrow> int \<Rightarrow> IMEMNODE \<Rightarrow> bool" where
  "resized mn n mn' \<longleftrightarrow> arrays_ok mn' \<and> node_max mn' = n \<and>
     (let k = nat (min (node_max mn) n) in same_upto k (vprev mn) (vprev mn') \<and> same_upto k (vnext mn) (vnext mn') \<and>
       same_upto k (vnode mn) (vnode mn') \<and> same_upto k (vdata mn) (vdata mn') \<and> same_upto k (vmode mn) (vmode mn')) \<and>
     list_open mn' = list_open mn \<and> list_close mn' = list_close mn \<and> node_free mn' = node_free mn \<and>
     node_used mn' = node_used mn \<and> grow_limit mn' = grow_limit mn \<and> node_size mn' = node_size mn \<and>
     vmem mn' = vmem mn \<and> mmem mn' = mmem mn \<and> mem_max mn' = mem_max mn \<and> mem_count mn' = mem_count mn"

lemma node_resize_ok:
  assumes "arrays_ok mn" and "0 \<le> n" and "4 * n \<le> 2 ^ 31" and "\<forall>k < 5. ok k"
  shows "\<exists>mn'. imnode_node_resize ok mn n = Some (mn', 0) \<and> resized mn n mn'"
proof -
  let ?k = "nat (min (node_max mn) n)"
  have n: "nat (n * 4 mod 2 ^ 32) = 4 * nat n" "4 * nat n \<le> 2 ^ 31" and k: "?k = min (nat (node_max mn)) (nat n)"
    using assms(1-3) by (simp_all add: arrays_ok_def min_def)
  have oks: "ok 0 = True" "ok 1 = True" "ok 2 = True" "ok 3 = True" "ok 4 = True"
    using assms(4) by simp_all
  note r = resize_arr [OF _ n(2), where ?n0.0 = "nat (node_max mn)", folded k]
  obtain a b c d e where
    "iv_resize 4 True (vprev mn) (4 * nat n) = Some (a, 0)" "arr_ok (Some (iv_addr a)) a (nat n)" "same_upto ?k (vprev mn) a"
    "iv_resize 4 True (vnext mn) (4 * nat n) = Some (b, 0)" "arr_ok (Some (iv_addr b)) b (nat n)" "same_upto ?k (vnext mn) b"
    "iv_resize 4 True (vnode mn) (4 * nat n) = Some (c, 0)" "arr_ok (Some (iv_addr c)) c (nat n)" "same_upto ?k (vnode mn) c"
    "iv_resize 4 True (vdata mn) (4 * nat n) = Some (d, 0)" "arr_ok (Some (iv_addr d)) d (nat n)" "same_upto ?k (vdata mn) d"
    "iv_resize 4 True (vmode mn) (4 * nat n) = Some (e, 0)" "arr_ok (Some (iv_addr e)) e (nat n)" "same_upto ?k (vmode mn) e"
    using r [of "mprev mn" "vprev mn"] r [of "mnext mn" "vnext mn"] r [of "mnode mn" "vnode mn"]
      r [of "mdata mn" "vdata mn"] r [of "mmode mn" "vmode mn"] assms(1) unfolding arrays_ok_def by metis
  then show ?thesis
    unfolding imnode_node_resize_def resize_field_def Let_def n(1) oks resized_def
    using assms(2) by (simp add: arrays_ok_def)
qed

text \<open>The lists do not notice new arrays that agree on their indices.\<close>

lemma pool_resized:
  assumes "pool_at mn S os cs" and "resized mn n mn'" and "S \<subseteq> {..<nat n}"
  shows "pool_at mn' S os cs"
proof -
  have k: "S \<subseteq> {..<nat (min (node_max mn) n)}"
    using assms(1,3) by (auto simp: pool_at_def min_def)
  have s: "set os \<subseteq> S" "set cs \<subseteq> S"
    using assms(1) by (auto simp: pool_at_def)
  have same: "same_upto (nat (min (node_max mn) n)) (vprev mn) (vprev mn')" "same_upto (nat (min (node_max mn) n)) (vnext mn) (vnext mn')"
      "same_upto (nat (min (node_max mn) n)) (vdata mn) (vdata mn')" "same_upto (nat (min (node_max mn) n)) (vmode mn) (vmode mn')"
    using assms(2) by (auto simp: resized_def Let_def)
  have v: "val (vprev mn') i = val (vprev mn) i" "val (vnext mn') i = val (vnext mn) i" "val (vmode mn') i = val (vmode mn) i" if "i \<in> S" for i
    using same k that by (auto intro: same_upto_val)
  have "chain (val (vnext mn')) (val (vprev mn')) (- 1) os h = chain (val (vnext mn)) (val (vprev mn)) (- 1) os h"
    "chain (val (vnext mn')) (val (vprev mn')) (- 1) cs h = chain (val (vnext mn)) (val (vprev mn)) (- 1) cs h" for h
    using v s by (auto intro!: chain_frame)
  then show ?thesis
    using assms v same [THEN same_upto_cells, OF k] by (auto simp: pool_at_def two_lists_def resized_def)
qed

lemma grow_pass:
  fixes p :: int
  assumes "pool_at mn S os cs" and "i \<notin> S" and "i < nat (node_max mn)"
  defines "mn' \<equiv> mn\<lparr>vnode := put (vnode mn) i 0, vmode := put (vmode mn) i 0, vdata := put (vdata mn) i p,
      vnext := put (vnext mn) i (list_open mn), vprev := vput_if (list_open mn) (int i) (put (vprev mn) i (- 1)),
      list_open := int i, node_free := node_free mn + 1\<rparr>"
  shows "grow_loop (Suc k) (int i) p mn = grow_loop k (int i - 1) (p + node_size mn) mn'"
    and "pool_at mn' (insert i S) (i # os) cs"
proof -
  let ?N = "nat (node_max mn)"
  have two: "two_lists (val (vnext mn)) (val (vprev mn)) os (list_open mn) cs (list_close mn)"
    and i: "i \<notin> set os" "i \<notin> set cs"
    and a: "arr_ok (mprev mn) (vprev mn) ?N" "arr_ok (mnext mn) (vnext mn) ?N" "arr_ok (mmode mn) (vmode mn) ?N"
      "arr_ok (mdata mn) (vdata mn) ?N" "arr_ok (mnode mn) (vnode mn) ?N"
    using assms(1,2) by (auto simp: pool_at_def arrays_ok_def)
  have l: "link_to ?N (list_open mn)"
    by (rule pool_links(1) [OF assms(1)])
  show "grow_loop (Suc k) (int i) p mn = grow_loop k (int i - 1) (p + node_size mn) mn'"
    using a l assms(3) by (simp add: setters set_prev_if_ok mn'_def)
  have v: "val (vput_if (list_open mn) (int i) (put (vprev mn) i (- 1))) = put_if (list_open mn) (int i) ((val (vprev mn))(i := - 1))"
    using a(1) l assms(3) by (simp add: val_vput_if [of "mprev mn" _ ?N] val_put [of "mprev mn" _ ?N])
  have c: "cells_set (vput_if (list_open mn) (int i) (put (vprev mn) i (- 1))) (insert i S)"
    using a(1) l assms(1,3) by (simp add: cells_vput_if [of "mprev mn" _ ?N] cells_put [of "mprev mn" _ ?N] pool_at_def)
  show "pool_at mn' (insert i S) (i # os) cs"
    using assms(1,2,3) a i v c two_lists_push [OF two i]
    by (auto simp: pool_at_def mn'_def arrays_ok_def val_put [of "mnext mn" _ ?N] val_put [of "mmode mn" _ ?N] intro: cells_put)
qed

text \<open>What the loop leaves alone.\<close>

definition loop_frame :: "IMEMNODE \<Rightarrow> IMEMNODE \<Rightarrow> bool" where
  "loop_frame mn mn' \<longleftrightarrow> node_max mn' = node_max mn \<and> grow_limit mn' = grow_limit mn \<and> node_size mn' = node_size mn \<and>
     vmem mn' = vmem mn \<and> mmem mn' = mmem mn \<and> mem_max mn' = mem_max mn \<and> mem_count mn' = mem_count mn"

lemma grow_loop_ok:
  assumes "pool_at mn S os cs" and "S \<inter> {a..<a + k} = {}" and "a + k \<le> nat (node_max mn)"
  shows "\<exists>mn'. grow_loop k (int (a + k) - 1) p mn = Inr mn' \<and> pool_at mn' (S \<union> {a..<a + k}) ([a..<a + k] @ os) cs \<and>
    loop_frame mn mn' \<and>
    (\<forall>j. val (vdata mn') j = (if j \<in> {a..<a + k} then p + (int (a + k) - 1 - int j) * node_size mn else val (vdata mn) j))"
  using assms
proof (induction k arbitrary: mn S os p)
  case 0
  then show ?case by (simp add: loop_frame_def)
next
  case (Suc k)
  let ?i = "a + k"
  define mn1 where "mn1 = mn\<lparr>vnode := put (vnode mn) ?i 0, vmode := put (vmode mn) ?i 0, vdata := put (vdata mn) ?i p,
      vnext := put (vnext mn) ?i (list_open mn), vprev := vput_if (list_open mn) (int ?i) (put (vprev mn) ?i (- 1)),
      list_open := int ?i, node_free := node_free mn + 1\<rparr>"
  have i: "?i \<notin> S" "?i < nat (node_max mn)"
    using Suc.prems by auto
  have step: "grow_loop (Suc k) (int ?i) p mn = grow_loop k (int ?i - 1) (p + node_size mn) mn1"
    and pool: "pool_at mn1 (insert ?i S) (?i # os) cs"
    unfolding mn1_def by (rule grow_pass [OF Suc.prems(1) i])+
  have fr: "loop_frame mn mn1"
    by (simp add: mn1_def loop_frame_def)
  have d: "val (vdata mn1) = (val (vdata mn))(?i := p)"
    using Suc.prems(1) i(2) by (simp add: mn1_def pool_at_def arrays_ok_def val_put [of "mdata mn" _ "nat (node_max mn)"])
  have s: "insert ?i S \<inter> {a..<?i} = {}" "?i \<le> nat (node_max mn1)"
    using Suc.prems(2,3) fr by (auto simp: loop_frame_def)
  obtain mn' where mn': "grow_loop k (int ?i - 1) (p + node_size mn) mn1 = Inr mn'"
    "pool_at mn' (insert ?i S \<union> {a..<?i}) ([a..<?i] @ ?i # os) cs" "loop_frame mn1 mn'"
    "\<forall>j. val (vdata mn') j = (if j \<in> {a..<?i} then p + node_size mn + (int ?i - 1 - int j) * node_size mn1 else val (vdata mn1) j)"
    using Suc.IH [OF pool s, of "p + node_size mn"] by blast
  have "insert ?i S \<union> {a..<?i} = S \<union> {a..<a + Suc k}" "[a..<?i] @ ?i # os = [a..<a + Suc k] @ os"
    by auto
  moreover have "val (vdata mn') j = (if j \<in> {a..<a + Suc k} then p + (int (a + Suc k) - 1 - int j) * node_size mn else val (vdata mn) j)" for j
    using mn'(4) d fr by (auto simp: loop_frame_def algebra_simps)
  moreover have "int (a + Suc k) - 1 = int ?i"
    by simp
  ultimately show ?case
    using step mn' fr by (metis (no_types, opaque_lifting) loop_frame_def)
qed

section \<open>Pages\<close>

text \<open>The pages of the pool, as pairs of address and size, in the order they were allocated.\<close>

definition mem_ok :: "IMEMNODE \<Rightarrow> (int \<times> int) list \<Rightarrow> bool" where
  "mem_ok mn pages \<longleftrightarrow> 0 \<le> mem_count mn \<and> mem_count mn \<le> mem_max mn \<and>
     arr_ok (mmem mn) (vmem mn) (nat (mem_max mn)) \<and> length pages = nat (mem_count mn) \<and>
     (\<forall>k < length pages. iv_data (vmem mn) ! k = Some (fst (pages ! k)))"

definition mem_frame :: "IMEMNODE \<Rightarrow> IMEMNODE \<Rightarrow> bool" where
  "mem_frame mn mn' \<longleftrightarrow> (\<exists>v m q c t. mn' = mn\<lparr>vmem := v, mem_max := m, mmem := q, mem_count := c, total_mem := t\<rparr>)"

lemma mem_frame_pool: "mem_frame mn mn' \<Longrightarrow> pool_at mn' S os cs = pool_at mn S os cs"
  by (auto simp: mem_frame_def pool_at_def arrays_ok_def)

lemma mem_frame_fields:
  "mem_frame mn mn' \<Longrightarrow> node_max mn' = node_max mn \<and> node_size mn' = node_size mn \<and> grow_limit mn' = grow_limit mn \<and>
   vdata mn' = vdata mn \<and> arrays_ok mn' = arrays_ok mn"
  by (auto simp: mem_frame_def arrays_ok_def)

text \<open>Room for one more page.\<close>

lemma mem_room:
  assumes "mem_ok mn pages" and "mem_count mn \<le> 2 ^ 28"
  defines "larger \<equiv> (if mem_max mn \<le> 0 then IMROUNDSIZE else mem_max mn * 2)"
  shows "\<exists>v m q. (if mem_count mn \<ge> mem_max mn
        then map_option (\<lambda>(v, r). if r \<noteq> 0 then (mn\<lparr>vmem := v\<rparr>, r)
             else (mn\<lparr>vmem := v, mem_max := larger, mmem := Some (iv_addr v)\<rparr>, 0))
           (iv_resize 4 True (vmem mn) (nat (larger * 4 mod 2 ^ 32)))
        else Some (mn, 0)) = Some (mn\<lparr>vmem := v, mem_max := m, mmem := q\<rparr>, 0) \<and>
    mem_count mn < m \<and> mem_ok (mn\<lparr>vmem := v, mem_max := m, mmem := q\<rparr>) pages"
proof (cases "mem_count mn \<ge> mem_max mn")
  case True
  then have e: "mem_max mn = mem_count mn" "0 \<le> mem_max mn"
    using assms(1) by (simp_all add: mem_ok_def)
  then have l: "0 < larger" "larger \<le> 2 ^ 29" "mem_count mn < larger"
    using assms(2) unfolding larger_def IMROUNDSIZE_def by auto
  then have n: "nat (larger * 4 mod 2 ^ 32) = 4 * nat larger" "4 * nat larger \<le> 2 ^ 31" "mem_count mn < larger" "0 < larger"
    and mn: "min (nat (mem_max mn)) (nat larger) = nat (mem_max mn)"
    using e by (simp_all add: min_def)
  obtain v where v: "iv_resize 4 True (vmem mn) (4 * nat larger) = Some (v, 0)" "arr_ok (Some (iv_addr v)) v (nat larger)"
    "same_upto (nat (mem_max mn)) (vmem mn) v"
    using resize_arr [of "mmem mn" "vmem mn" "nat (mem_max mn)" "nat larger"] assms(1) n(2) unfolding mn by (auto simp: mem_ok_def)
  then have "mem_ok (mn\<lparr>vmem := v, mem_max := larger, mmem := Some (iv_addr v)\<rparr>) pages"
    using assms(1) e n by (auto simp: mem_ok_def same_upto_def)
  then show ?thesis
    using True v(1) n by auto
next
  case False
  then show ?thesis
    using assms(1) by (intro exI [of _ "vmem mn"] exI [of _ "mem_max mn"] exI [of _ "mmem mn"]) simp
qed

lemma mem_add_ok:
  assumes "mem_ok mn pages" and "mem_count mn \<le> 2 ^ 28"
  shows "\<exists>mn'. imnode_mem_add True mn count (Some p) = Some (Inr (mn', 0, IMROUNDUP p)) \<and>
      mem_ok mn' (pages @ [(p, z)]) \<and> mem_frame mn mn' \<and> mem_count mn' = mem_count mn + 1"
    and "\<exists>mn'. imnode_mem_add True mn count None = Some (Inr (mn', - 2, 0)) \<and>
      mem_ok mn' pages \<and> mem_frame mn mn' \<and> mem_count mn' = mem_count mn"
proof -
  obtain v m q where r: "(if mem_count mn \<ge> mem_max mn
        then map_option (\<lambda>(v, r). if r \<noteq> 0 then (mn\<lparr>vmem := v\<rparr>, r)
             else (mn\<lparr>vmem := v, mem_max := if mem_max mn \<le> 0 then IMROUNDSIZE else mem_max mn * 2, mmem := Some (iv_addr v)\<rparr>, 0))
           (iv_resize 4 True (vmem mn) (nat ((if mem_max mn \<le> 0 then IMROUNDSIZE else mem_max mn * 2) * 4 mod 2 ^ 32)))
        else Some (mn, 0)) = Some (mn\<lparr>vmem := v, mem_max := m, mmem := q\<rparr>, 0)"
    and lt: "mem_count mn < m" and ok: "mem_ok (mn\<lparr>vmem := v, mem_max := m, mmem := q\<rparr>) pages"
    using mem_room [OF assms] by blast
  let ?mn = "mn\<lparr>vmem := v, mem_max := m, mmem := q\<rparr>" and ?k = "nat (mem_count mn)"
  have a: "arr_ok q v (nat m)" "0 \<le> mem_count mn" "?k < nat m" "length pages = ?k"
    using ok lt by (auto simp: mem_ok_def)
  then have st: "arr_set q v (mem_count mn) p = Inr (put v ?k p)"
    using arr_set_ok [of q v "nat m" ?k p] by simp
  let ?mn' = "?mn\<lparr>vmem := put v ?k p, mem_count := mem_count mn + 1, total_mem := add_ilong (total_mem mn) (page_size mn count)\<rparr>"
  have "mem_ok ?mn' (pages @ [(p, z)])"
    using ok lt a arr_len [OF a(1)] by (auto simp: mem_ok_def put_def nth_append nth_list_update less_Suc_eq nat_add_distrib arr_ok_def iv_ok_def)
  moreover have "mem_frame mn ?mn'"
    unfolding mem_frame_def
    by (rule exI [of _ "put v ?k p"], rule exI [of _ m], rule exI [of _ q], rule exI [of _ "mem_count mn + 1"],
        rule exI [of _ "add_ilong (total_mem mn) (page_size mn count)"]) simp
  moreover have "imnode_mem_add True mn count (Some p) = Some (Inr (?mn', 0, IMROUNDUP p))"
    unfolding imnode_mem_add_def Let_def r using st by (simp add: page_size_def)
  ultimately show "\<exists>mn'. imnode_mem_add True mn count (Some p) = Some (Inr (mn', 0, IMROUNDUP p)) \<and>
      mem_ok mn' (pages @ [(p, z)]) \<and> mem_frame mn mn' \<and> mem_count mn' = mem_count mn + 1"
    by auto
  have "mem_frame mn ?mn"
    unfolding mem_frame_def by (rule exI [of _ v], rule exI [of _ m], rule exI [of _ q], rule exI [of _ "mem_count mn"], rule exI [of _ "total_mem mn"]) simp
  moreover have "imnode_mem_add True mn count None = Some (Inr (?mn, - 2, 0))"
    unfolding imnode_mem_add_def Let_def r by simp
  ultimately show "\<exists>mn'. imnode_mem_add True mn count None = Some (Inr (mn', - 2, 0)) \<and>
      mem_ok mn' pages \<and> mem_frame mn mn' \<and> mem_count mn' = mem_count mn"
    using ok by auto
qed

section \<open>The invariant\<close>

text \<open>Every node lies in a page and no two nodes overlap.\<close>

definition slots :: "(nat \<Rightarrow> int) \<Rightarrow> int \<Rightarrow> (int \<times> int) list \<Rightarrow> nat set \<Rightarrow> bool" where
  "slots d z pages S \<longleftrightarrow>
     (\<forall>i \<in> S. \<exists>(b, y) \<in> set pages. b \<le> d i \<and> d i + z \<le> b + y) \<and>
     (\<forall>i \<in> S. \<forall>j \<in> S. i \<noteq> j \<longrightarrow> d i + z \<le> d j \<or> d j + z \<le> d i)"

definition node_inv :: "IMEMNODE \<Rightarrow> (int \<times> int) list \<Rightarrow> nat list \<Rightarrow> nat list \<Rightarrow> bool" where
  "node_inv mn pages os cs \<longleftrightarrow> pool_at mn {..<nat (node_max mn)} os cs \<and> mem_ok mn pages \<and>
     mem_count mn \<le> node_max mn \<and> 0 < node_size mn \<and> 0 \<le> grow_limit mn \<and>
     slots (val (vdata mn)) (node_size mn) pages {..<nat (node_max mn)}"

definition grow_count :: "IMEMNODE \<Rightarrow> int" where
  "grow_count mn = (let c = (if node_max mn \<le> 0 then IMROUNDSIZE else node_max mn)
     in if grow_limit mn > 0 \<and> c > grow_limit mn then grow_limit mn else c)"

definition page_bytes :: "IMEMNODE \<Rightarrow> int" where
  "page_bytes mn = page_size mn (grow_count mn)"

text \<open>The nodes fit the page when its size does not wrap around.\<close>

definition page_fits :: "IMEMNODE \<Rightarrow> bool" where
  "page_fits mn \<longleftrightarrow> grow_count mn * node_size mn + IMROUNDSIZE < 2 ^ 32"

text \<open>What \<open>malloc\<close> promises: a block inside the address space, apart from the earlier ones.\<close>

definition fresh_page :: "int \<Rightarrow> int \<Rightarrow> (int \<times> int) list \<Rightarrow> bool" where
  "fresh_page p z pages \<longleftrightarrow> 0 < p \<and> p + z \<le> 2 ^ 32 \<and> (\<forall>(b, y) \<in> set pages. p + z \<le> b \<or> b + y \<le> p)"

lemma grow_count_bounds: "0 \<le> node_max mn \<Longrightarrow> 0 \<le> grow_limit mn \<Longrightarrow> 1 \<le> grow_count mn \<and> grow_count mn \<le> max 8 (node_max mn)"
  by (auto simp: grow_count_def Let_def IMROUNDSIZE_def)

lemma IMROUNDUP_bounds:
  assumes "0 \<le> p" and "p + 8 \<le> 2 ^ 32"
  shows "p \<le> IMROUNDUP p" and "IMROUNDUP p \<le> p + 7"
proof -
  have "(p + 7) mod 2 ^ 32 = p + 7"
    using assms by simp
  then have "IMROUNDUP p = (p + 7) div 8 * 8"
    by (simp add: IMROUNDUP_def IMROUNDSIZE_def)
  then show "p \<le> IMROUNDUP p" and "IMROUNDUP p \<le> p + 7"
    by presburger+
qed

lemma slots_page: "slots d z pages S \<Longrightarrow> i \<in> S \<Longrightarrow> \<exists>b y. (b, y) \<in> set pages \<and> b \<le> d i \<and> d i + z \<le> b + y"
  unfolding slots_def by fastforce

text \<open>The new slots of a page, counted from its end, next to the old ones.\<close>

lemma slots_grow:
  assumes old: "slots d z pages {..<n}" and "0 < z" and fr: "fresh_page p (int c * z + 8) pages"
    and q: "p \<le> q" "q \<le> p + 7"
    and d': "\<forall>j. d' j = (if j \<in> {n..<n + c} then q + (int (n + c) - 1 - int j) * z else d j)"
  shows "slots d' z (pages @ [(p, int c * z + 8)]) {..<n + c}"
proof -
  have low: "d' i = d i" if "i < n" for i
    using d' that by simp
  have high: "q \<le> d' j \<and> d' j + z \<le> q + int c * z" if "n \<le> j" "j < n + c" for j
  proof -
    have e: "d' j = q + (int (n + c) - 1 - int j) * z"
      using d' that by simp
    have "(int (n + c) - 1 - int j) * z + z = (int (n + c) - int j) * z"
      by (simp add: algebra_simps)
    also have "\<dots> \<le> int c * z"
      using that assms(2) by (intro mult_right_mono) simp_all
    finally show ?thesis
      using e that assms(2) by simp
  qed
  have new: "d' i + z \<le> d' j \<or> d' j + z \<le> d' i" if "n \<le> i" "i < j" "j < n + c" for i j
  proof -
    have "(int j - int i) * z \<ge> 1 * z"
      using that assms(2) by (intro mult_right_mono) simp_all
    then have "d' j + z \<le> d' i"
      using that d' by (simp add: algebra_simps)
    then show ?thesis ..
  qed
  have mixed: "d' i + z \<le> d' j \<or> d' j + z \<le> d' i" if "i < n" "n \<le> j" "j < n + c" for i j
  proof -
    have "i \<in> {..<n}"
      using that(1) by simp
    then obtain b y where b: "(b, y) \<in> set pages" "b \<le> d i" "d i + z \<le> b + y"
      using slots_page [OF old] by blast
    have "p + (int c * z + 8) \<le> b \<or> b + y \<le> p"
      using fr b(1) by (auto simp: fresh_page_def)
    then show ?thesis
      using b high [OF that(2,3)] q low [OF that(1)] by auto
  qed
  have "d' i + z \<le> d' j \<or> d' j + z \<le> d' i" if "i < n + c" "j < n + c" "i \<noteq> j" for i j
  proof (cases "i < n")
    case True
    then show ?thesis
      using that mixed [of i j] old low by (cases "j < n") (auto simp: slots_def)
  next
    case False
    then show ?thesis
      using that mixed [of j i] new [of i j] new [of j i] by (cases "j < n"; cases "i < j") auto
  qed
  moreover have "\<exists>(b, y) \<in> set (pages @ [(p, int c * z + 8)]). b \<le> d' i \<and> d' i + z \<le> b + y" if "i < n + c" for i
  proof (cases "i < n")
    case True
    then obtain b y where "(b, y) \<in> set pages" "b \<le> d i" "d i + z \<le> b + y"
      using slots_page [OF old, of i] by auto
    then show ?thesis using low [OF True] by auto
  next
    case False
    then show ?thesis using high [of i] that q by auto
  qed
  ultimately show ?thesis
    by (simp add: slots_def)
qed

lemma grow_ok:
  assumes inv: "node_inv mn pages os cs" and "node_max mn \<le> 2 ^ 28" and ok: "\<forall>k < 6. ok k"
    and fr: "fresh_page p (page_bytes mn) pages" and fits: "page_fits mn"
  shows "\<exists>mn'. imnode_grow ok (Some p) mn = Some (Inr (mn', 0)) \<and>
    node_inv mn' (pages @ [(p, page_bytes mn)]) ([nat (node_max mn)..<nat (node_max mn + grow_count mn)] @ os) cs \<and>
    node_max mn' = node_max mn + grow_count mn \<and> node_size mn' = node_size mn \<and> grow_limit mn' = grow_limit mn \<and>
    (\<forall>i < nat (node_max mn). val (vdata mn') i = val (vdata mn) i)"
proof -
  let ?N = "nat (node_max mn)" and ?n = "node_max mn + grow_count mn" and ?c = "nat (grow_count mn)"
  have pool: "pool_at mn {..<?N} os cs" and mem: "mem_ok mn pages" "mem_count mn \<le> node_max mn"
    and z: "0 < node_size mn" and lim: "0 \<le> grow_limit mn" and sl: "slots (val (vdata mn)) (node_size mn) pages {..<?N}"
    using inv by (simp_all add: node_inv_def)
  have ar: "arrays_ok mn" "0 \<le> node_max mn"
    using pool by (simp_all add: pool_at_def arrays_ok_def)
  have c: "1 \<le> grow_count mn" "grow_count mn \<le> max 8 (node_max mn)"
    using grow_count_bounds [OF ar(2) lim] by auto
  then have n: "0 \<le> ?n" "4 * ?n \<le> 2 ^ 31" "nat ?n = ?N + ?c"
    using ar(2) assms(2) by (auto simp: max_def split: if_splits)
  obtain mn1 where r1: "imnode_node_resize ok mn ?n = Some (mn1, 0)" and z1: "resized mn ?n mn1"
    using node_resize_ok [OF ar(1) n(1,2), of ok] ok by auto
  have p1: "pool_at mn1 {..<?N} os cs"
    using pool_resized [OF pool z1] n(3) by auto
  have m1: "mem_ok mn1 pages" "mem_count mn1 \<le> 2 ^ 28" "node_max mn1 = ?n" "node_size mn1 = node_size mn" "grow_limit mn1 = grow_limit mn"
    "mem_count mn1 = mem_count mn" and d1: "\<forall>i < ?N. val (vdata mn1) i = val (vdata mn) i"
    using z1 mem assms(2) c by (auto simp: resized_def mem_ok_def Let_def min_def intro: same_upto_val)
  obtain mn2 where r2: "imnode_mem_add True mn1 (grow_count mn) (Some p) = Some (Inr (mn2, 0, IMROUNDUP p))"
    and m2: "mem_ok mn2 (pages @ [(p, page_bytes mn)])" "mem_frame mn1 mn2" "mem_count mn2 = mem_count mn1 + 1"
    using mem_add_ok(1) [OF m1(1,2)] by blast
  have f2: "node_max mn2 = ?n" "node_size mn2 = node_size mn" "grow_limit mn2 = grow_limit mn" "vdata mn2 = vdata mn1"
    and p2: "pool_at mn2 {..<?N} os cs"
    using mem_frame_fields [OF m2(2)] m1 p1 mem_frame_pool [OF m2(2)] by auto
  obtain mn3 where r3: "grow_loop ?c (int (?N + ?c) - 1) (IMROUNDUP p) mn2 = Inr mn3"
    and p3: "pool_at mn3 ({..<?N} \<union> {?N..<?N + ?c}) ([?N..<?N + ?c] @ os) cs" and f3: "loop_frame mn2 mn3"
    and d3: "\<forall>j. val (vdata mn3) j = (if j \<in> {?N..<?N + ?c} then IMROUNDUP p + (int (?N + ?c) - 1 - int j) * node_size mn2 else val (vdata mn2) j)"
    using grow_loop_ok [OF p2, of ?N ?c "IMROUNDUP p"] f2(1) n(3) by (auto simp: ivl_disj_int)
  have pos: "0 < grow_count mn * node_size mn"
    using c(1) z by (intro mult_pos_pos) simp_all
  then have pb: "page_bytes mn = int ?c * node_size mn + 8"
    using c fits by (simp add: page_bytes_def page_size_def page_fits_def IMROUNDSIZE_def)
  then have "0 \<le> p" "p + 8 \<le> 2 ^ 32"
    using fr pos c by (simp_all add: fresh_page_def)
  note q = IMROUNDUP_bounds [OF this]
  have "slots (val (vdata mn2)) (node_size mn) pages {..<?N}"
    using sl d1 f2(4) by (simp add: slots_def)
  then have "slots (val (vdata mn3)) (node_size mn) (pages @ [(p, page_bytes mn)]) {..<?N + ?c}"
    unfolding pb by (rule slots_grow [OF _ z fr [unfolded pb] q]) (use d3 f2(2) in simp)
  moreover have "{..<?N} \<union> {?N..<?N + ?c} = {..<nat ?n}"
    using n(3) by auto
  moreover have "mem_ok mn3 (pages @ [(p, page_bytes mn)])"
    using m2(1) f3 by (simp add: mem_ok_def loop_frame_def)
  ultimately have "node_inv mn3 (pages @ [(p, page_bytes mn)]) ([?N..<nat ?n] @ os) cs"
    using p3 f2 f3 n(3) z lim m2(3) m1(6) mem(2) c by (simp add: node_inv_def loop_frame_def)
  moreover have "int (?N + ?c) - 1 = node_max mn2 - 1"
    using f2(1) ar(2) c by simp
  then have "imnode_grow ok (Some p) mn = Some (Inr (mn3, 0))"
    unfolding imnode_grow_def Let_def grow_count_def [unfolded Let_def, symmetric]
    using r1 r2 r3 ok by simp
  moreover have "\<forall>i < ?N. val (vdata mn3) i = val (vdata mn) i"
    using d3 d1 f2(4) by simp
  ultimately show ?thesis
    using f2 f3 by (auto simp: loop_frame_def)
qed

text \<open>If no page is to be had, the arrays shrink back and the pool is as before.\<close>

lemma grow_fail:
  assumes inv: "node_inv mn pages os cs" and "node_max mn \<le> 2 ^ 28" and ok: "\<forall>k < 11. ok k"
  shows "\<exists>mn'. imnode_grow ok None mn = Some (Inr (mn', - 22)) \<and> node_inv mn' pages os cs \<and>
    node_max mn' = node_max mn \<and> (\<forall>i < nat (node_max mn). val (vdata mn') i = val (vdata mn) i)"
proof -
  let ?N = "nat (node_max mn)" and ?n = "node_max mn + grow_count mn"
  have pool: "pool_at mn {..<?N} os cs" and mem: "mem_ok mn pages" "mem_count mn \<le> node_max mn"
    and z: "0 < node_size mn" and lim: "0 \<le> grow_limit mn" and sl: "slots (val (vdata mn)) (node_size mn) pages {..<?N}"
    using inv by (simp_all add: node_inv_def)
  have ar: "arrays_ok mn" "0 \<le> node_max mn"
    using pool by (simp_all add: pool_at_def arrays_ok_def)
  have c: "1 \<le> grow_count mn" "grow_count mn \<le> max 8 (node_max mn)"
    using grow_count_bounds [OF ar(2) lim] by auto
  then have n: "0 \<le> ?n" "4 * ?n \<le> 2 ^ 31" "4 * node_max mn \<le> 2 ^ 31" "min (node_max mn) ?n = node_max mn" "min ?n (node_max mn) = node_max mn"
    using ar(2) assms(2) by (auto simp: max_def split: if_splits)
  obtain mn1 where r1: "imnode_node_resize ok mn ?n = Some (mn1, 0)" and z1: "resized mn ?n mn1"
    using node_resize_ok [OF ar(1) n(1,2), of ok] ok by auto
  have p1: "pool_at mn1 {..<?N} os cs"
    using pool_resized [OF pool z1] c by auto
  have m1: "mem_ok mn1 pages" "mem_count mn1 \<le> 2 ^ 28" "node_max mn1 = ?n" "mem_count mn1 = mem_count mn"
    "node_size mn1 = node_size mn" "grow_limit mn1 = grow_limit mn"
    and d1: "\<forall>i < ?N. val (vdata mn1) i = val (vdata mn) i"
    using z1 mem assms(2) n(4) by (auto simp: resized_def mem_ok_def Let_def intro: same_upto_val)
  obtain mn2 where r2: "imnode_mem_add True mn1 (grow_count mn) None = Some (Inr (mn2, - 2, 0))"
    and m2: "mem_ok mn2 pages" "mem_frame mn1 mn2" "mem_count mn2 = mem_count mn1"
    using mem_add_ok(2) [OF m1(1,2)] by blast
  have f2: "node_max mn2 = ?n" "node_size mn2 = node_size mn" "grow_limit mn2 = grow_limit mn" "vdata mn2 = vdata mn1" "arrays_ok mn2"
    using mem_frame_fields [OF m2(2)] m1 z1 by (auto simp: resized_def)
  have p2: "pool_at mn2 {..<?N} os cs"
    using p1 mem_frame_pool [OF m2(2)] by blast
  obtain mn3 where r3: "imnode_node_resize (\<lambda>k. ok (k + 6)) mn2 (node_max mn) = Some (mn3, 0)" and z3: "resized mn2 (node_max mn) mn3"
    using node_resize_ok [OF f2(5) ar(2) n(3), of "\<lambda>k. ok (k + 6)"] ok by auto
  have p3: "pool_at mn3 {..<?N} os cs"
    using pool_resized [OF p2 z3] by auto
  have m3: "mem_ok mn3 pages" "mem_count mn3 = mem_count mn" "node_max mn3 = node_max mn" "node_size mn3 = node_size mn" "grow_limit mn3 = grow_limit mn"
    and d3: "\<forall>i < ?N. val (vdata mn3) i = val (vdata mn2) i"
    using z3 m2 m1(4) f2 n(5) by (auto simp: resized_def mem_ok_def Let_def intro: same_upto_val)
  have "mn3\<lparr>node_max := node_max mn\<rparr> = mn3"
    using m3(3) by simp
  then have "imnode_grow ok None mn = Some (Inr (mn3, - 22))"
    unfolding imnode_grow_def Let_def grow_count_def [unfolded Let_def, symmetric]
    using r1 r2 r3 ok by simp
  moreover have "slots (val (vdata mn3)) (node_size mn) pages {..<?N}"
    using sl d1 d3 f2(4) by (simp add: slots_def)
  ultimately show ?thesis
    using p3 m3 mem(2) z lim d1 d3 f2(4) by (auto simp: node_inv_def)
qed

lemma take_inv:
  assumes "node_inv mn pages (i # os) cs"
  shows "\<exists>mn'. imnode_take mn = Inr (mn', int i) \<and> node_inv mn' pages os (i # cs) \<and> vdata mn' = vdata mn \<and>
    node_max mn' = node_max mn \<and> node_size mn' = node_size mn"
proof -
  have pool: "pool_at mn {..<nat (node_max mn)} (i # os) cs"
    using assms by (simp add: node_inv_def)
  note t = take_result(1) [OF pool]
  show ?thesis
    unfolding t using take_pool [OF pool t] assms by (simp add: node_inv_def mem_ok_def)
qed

lemma del_inv:
  assumes "node_inv mn pages os (xs @ i # zs)"
  shows "\<exists>mn'. imnode_del mn (int i) = Inr mn' \<and> node_inv mn' pages (i # os) (xs @ zs) \<and> vdata mn' = vdata mn \<and>
    node_max mn' = node_max mn \<and> node_size mn' = node_size mn"
proof -
  have pool: "pool_at mn {..<nat (node_max mn)} os (xs @ i # zs)"
    using assms by (simp add: node_inv_def)
  note t = del_result(1) [OF pool]
  show ?thesis
    unfolding t using del_pool [OF pool t] assms by (simp add: node_inv_def mem_ok_def)
qed

lemma open_head: "node_inv mn pages os cs \<Longrightarrow> list_open mn = (case os of [] \<Rightarrow> - 1 | i # _ \<Rightarrow> int i)"
  by (auto simp: node_inv_def pool_at_def two_lists_def dest: chain_head)

lemma new_inv:
  assumes inv: "node_inv mn pages os cs" and "node_max mn \<le> 2 ^ 28" and ok: "\<forall>k < 6. ok k"
    and fr: "fresh_page p (page_bytes mn) pages" and fits: "page_fits mn"
  shows "\<exists>mn' i pages' os'. imnode_new ok (Some p) mn = Some (Inr (mn', int i)) \<and> i \<notin> set cs \<and>
    node_inv mn' pages' os' (i # cs) \<and> pages' = (if os = [] then pages @ [(p, page_bytes mn)] else pages) \<and>
    (\<forall>j < nat (node_max mn). val (vdata mn') j = val (vdata mn) j) \<and> node_size mn' = node_size mn"
proof (cases os)
  case Nil
  obtain mn1 where g: "imnode_grow ok (Some p) mn = Some (Inr (mn1, 0))"
    "node_inv mn1 (pages @ [(p, page_bytes mn)]) ([nat (node_max mn)..<nat (node_max mn + grow_count mn)] @ os) cs"
    "node_size mn1 = node_size mn" "\<forall>j < nat (node_max mn). val (vdata mn1) j = val (vdata mn) j"
    using grow_ok [OF assms] by blast
  have "0 \<le> node_max mn" "0 \<le> grow_limit mn"
    using inv by (simp_all add: node_inv_def pool_at_def arrays_ok_def)
  then have "[nat (node_max mn)..<nat (node_max mn + grow_count mn)] =
      nat (node_max mn) # [Suc (nat (node_max mn))..<nat (node_max mn + grow_count mn)]"
    using grow_count_bounds [of mn] by (intro upt_conv_Cons) auto
  with g(2) Nil have i1: "node_inv mn1 (pages @ [(p, page_bytes mn)])
      (nat (node_max mn) # [Suc (nat (node_max mn))..<nat (node_max mn + grow_count mn)]) cs"
    by simp
  obtain mn' where t: "imnode_take mn1 = Inr (mn', int (nat (node_max mn)))"
    "node_inv mn' (pages @ [(p, page_bytes mn)]) [Suc (nat (node_max mn))..<nat (node_max mn + grow_count mn)] (nat (node_max mn) # cs)"
    "vdata mn' = vdata mn1" "node_size mn' = node_size mn1"
    using take_inv [OF i1] by blast
  have "nat (node_max mn) \<notin> set cs"
    using inv by (auto simp: node_inv_def pool_at_def)
  moreover have "list_open mn < 0"
    using open_head [OF inv] Nil by simp
  then have "imnode_new ok (Some p) mn = Some (Inr (mn', int (nat (node_max mn))))"
    using g(1) t(1) by (simp add: imnode_new_def)
  ultimately show ?thesis
    using g(3,4) t Nil by (intro exI conjI) (assumption | simp)+
next
  case (Cons i os')
  then obtain mn' where "imnode_take mn = Inr (mn', int i)" "node_inv mn' pages os' (i # cs)" "vdata mn' = vdata mn"
    "node_size mn' = node_size mn"
    using take_inv [of mn pages i os' cs] inv by blast
  moreover have "i \<notin> set cs"
    using inv Cons by (auto simp: node_inv_def pool_at_def two_lists_def)
  moreover have "\<not> list_open mn < 0"
    using open_head [OF inv] Cons by simp
  ultimately show ?thesis
    using Cons by (intro exI [of _ mn'] exI [of _ i] exI [of _ pages] exI [of _ os']) (simp add: imnode_new_def)
qed

lemma new_from_open:
  assumes "node_inv mn pages (i # os) cs"
  shows "\<exists>mn'. imnode_new ok page mn = Some (Inr (mn', int i)) \<and> node_inv mn' pages os (i # cs)"
  using take_inv [OF assms] open_head [OF assms] by (auto simp: imnode_new_def)

lemma new_without_page:
  assumes "node_inv mn pages [] cs" and "node_max mn \<le> 2 ^ 28" and "\<forall>k < 11. ok k"
  shows "\<exists>mn'. imnode_new ok None mn = Some (Inr (mn', - 2)) \<and> node_inv mn' pages [] cs"
  using grow_fail [OF assms] open_head [OF assms(1)] by (auto simp: imnode_new_def)

lemma init_inv:
  assumes "0 < z" and "z \<le> 2 ^ 31 - 8" and "0 \<le> lim"
  shows "node_inv ((imnode_init z)\<lparr>grow_limit := lim\<rparr>) [] [] []"
proof -
  have "(if z < 8 then 8 else z) \<le> IMROUNDUP (if z < 8 then 8 else z)"
    using assms by (intro IMROUNDUP_bounds(1)) simp_all
  then have "0 < IMROUNDUP (if z < 8 then 8 else z)"
    using assms by auto
  then show ?thesis
    using assms(3) by (simp add: node_inv_def pool_at_def mem_ok_def slots_def imnode_init_def arrays_ok_def arr_ok_def iv_ok_def
      iv_init_def cells_set_def two_lists_def IMROUNDSIZE_def split: if_splits)
qed

section \<open>The interface\<close>

text \<open>
  What a client of a pool of numbered nodes relies on: \<open>inv s g us\<close> holds of a pool whose nodes
  \<open>us\<close> are in use; \<open>g\<close> is what the pool remembers of its memory and \<open>good e s g\<close> the
  condition under which a new node can be had.
\<close>

locale index_pool =
  fixes inv :: "'s \<Rightarrow> 'g \<Rightarrow> nat list \<Rightarrow> bool"
    and good :: "'e \<Rightarrow> 's \<Rightarrow> 'g \<Rightarrow> bool"
    and new :: "'e \<Rightarrow> 's \<Rightarrow> ('s \<times> int) res option"
    and del :: "'s \<Rightarrow> int \<Rightarrow> 's res"
    and addr :: "'s \<Rightarrow> nat \<Rightarrow> int"
    and width :: "'s \<Rightarrow> int"
  assumes new_law: "inv s g us \<Longrightarrow> good e s g \<Longrightarrow>
      \<exists>s' g' i. new e s = Some (Inr (s', int i)) \<and> i \<notin> set us \<and> inv s' g' (i # us) \<and>
        (\<forall>j \<in> set us. addr s' j = addr s j) \<and> width s' = width s"
    and del_law: "inv s g (xs @ i # zs) \<Longrightarrow>
      \<exists>s'. del s (int i) = Inr s' \<and> inv s' g (xs @ zs) \<and> (\<forall>j. addr s' j = addr s j) \<and> width s' = width s"
    and apart: "inv s g us \<Longrightarrow> i \<in> set us \<Longrightarrow> j \<in> set us \<Longrightarrow> i \<noteq> j \<Longrightarrow>
      addr s i + width s \<le> addr s j \<or> addr s j + width s \<le> addr s i"
    and used_distinct: "inv s g us \<Longrightarrow> distinct us"
begin

text \<open>A new node overlaps none of the nodes in use, which keep their places.\<close>

lemma new_apart:
  assumes "inv s g us" and "good e s g"
  obtains s' g' i where "new e s = Some (Inr (s', int i))" and "inv s' g' (i # us)"
    and "\<forall>j \<in> set us. addr s j + width s \<le> addr s' i \<or> addr s' i + width s \<le> addr s j"
proof -
  obtain s' g' i where n: "new e s = Some (Inr (s', int i))" "i \<notin> set us" "inv s' g' (i # us)"
    "\<forall>j \<in> set us. addr s' j = addr s j" "width s' = width s"
    using new_law [OF assms] by blast
  have "addr s j + width s \<le> addr s' i \<or> addr s' i + width s \<le> addr s j" if "j \<in> set us" for j
    using apart [OF n(3), of j i] that n by auto
  with n that show thesis by blast
qed

text \<open>Any node in use can be given back.\<close>

lemma del_any:
  assumes "inv s g us" and "i \<in> set us"
  shows "\<exists>s'. del s (int i) = Inr s' \<and> inv s' g (remove1 i us) \<and> (\<forall>j. addr s' j = addr s j)"
proof -
  obtain xs zs where us: "us = xs @ i # zs" "i \<notin> set xs"
    using assms(2) by (metis split_list_first)
  then have "remove1 i us = xs @ zs"
    by (simp add: remove1_append)
  then show ?thesis
    using del_law [of s g xs i zs] assms(1) us(1) by auto
qed

end

definition pool_good :: "(nat \<Rightarrow> bool) \<times> int \<Rightarrow> IMEMNODE \<Rightarrow> (int \<times> int) list \<Rightarrow> bool" where
  "pool_good e mn pages \<longleftrightarrow> node_max mn \<le> 2 ^ 28 \<and> (\<forall>k < 6. fst e k) \<and> fresh_page (snd e) (page_bytes mn) pages \<and> page_fits mn"

definition pool_inv :: "IMEMNODE \<Rightarrow> (int \<times> int) list \<Rightarrow> nat list \<Rightarrow> bool" where
  "pool_inv mn pages cs \<longleftrightarrow> (\<exists>os. node_inv mn pages os cs)"

lemma pool_inv_used:
  assumes "pool_inv mn pages cs"
  shows "distinct cs" and "set cs \<subseteq> {..<nat (node_max mn)}"
    and "i \<in> set cs \<Longrightarrow> j \<in> set cs \<Longrightarrow> i \<noteq> j \<Longrightarrow>
      val (vdata mn) i + node_size mn \<le> val (vdata mn) j \<or> val (vdata mn) j + node_size mn \<le> val (vdata mn) i"
    and "i \<in> set cs \<Longrightarrow> \<exists>b y. (b, y) \<in> set pages \<and> b \<le> val (vdata mn) i \<and> val (vdata mn) i + node_size mn \<le> b + y"
    and "node_used mn = int (length cs)"
proof -
  obtain os where inv: "node_inv mn pages os cs"
    using assms by (auto simp: pool_inv_def)
  then show "distinct cs" and sub: "set cs \<subseteq> {..<nat (node_max mn)}" and "node_used mn = int (length cs)"
    by (auto simp: node_inv_def pool_at_def two_lists_def)
  show "\<exists>b y. (b, y) \<in> set pages \<and> b \<le> val (vdata mn) i \<and> val (vdata mn) i + node_size mn \<le> b + y" if "i \<in> set cs"
    using inv sub that slots_page [of "val (vdata mn)" "node_size mn" pages "{..<nat (node_max mn)}" i] by (auto simp: node_inv_def)
  show "val (vdata mn) i + node_size mn \<le> val (vdata mn) j \<or> val (vdata mn) j + node_size mn \<le> val (vdata mn) i"
    if "i \<in> set cs" "j \<in> set cs" "i \<noteq> j"
    using inv sub that by (auto simp: node_inv_def slots_def)
qed

interpretation imnode: index_pool pool_inv pool_good "\<lambda>(ok, p). imnode_new ok (Some p)" imnode_del "\<lambda>mn. val (vdata mn)" node_size
proof
  show "\<exists>s' g' i. (case e of (ok, p) \<Rightarrow> imnode_new ok (Some p)) s = Some (Inr (s', int i)) \<and> i \<notin> set us \<and> pool_inv s' g' (i # us) \<and>
      (\<forall>j \<in> set us. val (vdata s') j = val (vdata s) j) \<and> node_size s' = node_size s"
    if "pool_inv s g us" "pool_good e s g" for s g us e
  proof -
    note assms = that
    obtain ok p where e: "e = (ok, p)"
      by (cases e)
    obtain os where inv: "node_inv s g os us"
      using assms(1) by (auto simp: pool_inv_def)
    have "set us \<subseteq> {..<nat (node_max s)}"
      by (rule pool_inv_used [OF assms(1)])
    then show ?thesis
      using new_inv [OF inv, of ok p] assms(2) unfolding e pool_inv_def pool_good_def by (simp, blast)
  qed
next
  show "\<exists>s'. imnode_del s (int i) = Inr s' \<and> pool_inv s' g (xs @ zs) \<and> (\<forall>j. val (vdata s') j = val (vdata s) j) \<and> node_size s' = node_size s"
    if "pool_inv s g (xs @ i # zs)" for s g xs i zs
    using that del_inv unfolding pool_inv_def by metis
qed (use pool_inv_used in blast)+

section \<open>Reachable pools\<close>

text \<open>
  The pools a client can reach: after \<open>imnode_init\<close> and a growth limit, any order of calls
  that take a node and calls that give a used node back. \<open>malloc\<close> has the memory for the
  arrays; for a new page, whose size does not wrap around, it answers with a fresh block, and
  for any page it may answer with null.
\<close>

inductive pool_reach :: "int \<Rightarrow> int \<Rightarrow> IMEMNODE \<Rightarrow> (int \<times> int) list \<Rightarrow> nat list \<Rightarrow> bool" for z lim where
  reach_init: "pool_reach z lim ((imnode_init z)\<lparr>grow_limit := lim\<rparr>) [] []"
| reach_new: "pool_reach z lim mn' (if list_open mn < 0 then pages @ (case page of None \<Rightarrow> [] | Some p \<Rightarrow> [(p, page_bytes mn)]) else pages)
      (if r \<ge> 0 then nat r # cs else cs)"
    if "pool_reach z lim mn pages cs" and "node_max mn \<le> 2 ^ 28" and "\<forall>k < 11. ok k"
      and "case page of None \<Rightarrow> True | Some p \<Rightarrow> fresh_page p (page_bytes mn) pages \<and> page_fits mn"
      and "imnode_new ok page mn = Some (Inr (mn', r))"
| reach_del: "pool_reach z lim mn' pages (remove1 i cs)"
    if "pool_reach z lim mn pages cs" and "i \<in> set cs" and "imnode_del mn (int i) = Inr mn'"

lemma reach_inv:
  assumes "pool_reach z lim mn pages cs" and "0 < z" and "z \<le> 2 ^ 31 - 8" and "0 \<le> lim"
  shows "pool_inv mn pages cs \<and> (\<forall>b \<in> set pages. 0 < fst b)"
  using assms(1)
proof induction
  case reach_init
  then show ?case
    using init_inv [OF assms(2-4)] by (auto simp: pool_inv_def)
next
  case (reach_new mn pages cs ok page mn' r)
  then obtain os where inv: "node_inv mn pages os cs"
    by (auto simp: pool_inv_def)
  show ?case
  proof (cases os)
    case (Cons i os')
    then have "r = int i" "node_inv mn' pages os' (i # cs)" "\<not> list_open mn < 0"
      using new_from_open [of mn pages i os' cs ok page] inv reach_new.hyps(5) open_head [OF inv] by auto
    then show ?thesis
      using reach_new.IH by (auto simp: pool_inv_def)
  next
    case Nil
    then have lo: "list_open mn < 0"
      using open_head [OF inv] by simp
    show ?thesis
    proof (cases page)
      case None
      then have "r = - 2" "node_inv mn' pages [] cs"
        using new_without_page [of mn pages cs ok] inv Nil reach_new.hyps by auto
      then show ?thesis
        using reach_new.IH lo None by (auto simp: pool_inv_def)
    next
      case (Some p)
      have fr: "fresh_page p (page_bytes mn) pages" and fits: "page_fits mn"
        using reach_new.hyps(4) Some by simp_all
      obtain i os' where "r = int i" "node_inv mn' (pages @ [(p, page_bytes mn)]) os' (i # cs)"
        using new_inv [OF inv reach_new.hyps(2) _ fr fits, of ok] reach_new.hyps(3,5) Some Nil by auto
      then show ?thesis
        using reach_new.IH lo Some fr by (auto simp: pool_inv_def fresh_page_def)
    qed
  qed
next
  case (reach_del mn pages cs i mn')
  then show ?case
    using imnode.del_any [of mn pages cs i] by auto
qed

text \<open>\<open>imnode_destroy\<close> gives back every page of the pool, once.\<close>

lemma free_pages_all:
  assumes "mem_ok mn pages" and "\<forall>b \<in> set pages. 0 < fst b" and "k \<le> length pages"
  shows "free_pages mn k = Inr (map fst (take k pages))"
  using assms(3)
proof (induction k)
  case (Suc k)
  then have "arr_get (mmem mn) (vmem mn) (int k) = Inr (fst (pages ! k))"
    using assms(1) arr_len [of "mmem mn" "vmem mn" "nat (mem_max mn)"]
    by (auto simp: arr_get_def arr_at_def arr_ok_def mem_ok_def)
  moreover have "0 < fst (pages ! k)"
    using Suc.prems assms(2) by simp
  ultimately show ?case
    using Suc by (simp add: take_Suc_conv_app_nth)
qed simp

lemma imnode_destroy_frees:
  assumes "pool_reach z lim mn pages cs" and "0 < z" and "z \<le> 2 ^ 31 - 8" and "0 \<le> lim"
  shows "\<exists>mn'. imnode_destroy mn = Inr (mn', map fst pages) \<and> node_max mn' = 0 \<and> list_open mn' = - 1 \<and> list_close mn' = - 1"
proof -
  have m: "mem_ok mn pages" "\<forall>b \<in> set pages. 0 < fst b"
    using reach_inv [OF assms] by (auto simp: pool_inv_def node_inv_def)
  then have "free_pages mn (nat (mem_count mn)) = Inr (map fst pages)" "mem_count mn > 0 \<longrightarrow> mmem mn \<noteq> None"
    "mem_count mn \<le> 0 \<longrightarrow> pages = []"
    using free_pages_all [OF m, of "length pages"] by (auto simp: mem_ok_def arr_ok_def)
  then show ?thesis
    by (auto simp: imnode_destroy_def)
qed

text \<open>
  C36. As long as the arrays of the pool can be enlarged (a failure there is
  \<open>imnode_failed_growth_dangles\<close>) and no page of nodes is larger than 32 bits can say (a size
  that wraps is \<open>imnode_page_wraps\<close>): in every reachable pool the used nodes are distinct, counted,
  lie inside the pages that were allocated and do not overlap. Taking a node never faults and never
  hangs: with a fresh page at hand it returns an index not in use, without one it returns \<open>-2\<close>
  when no node is free. Every used node can be given back.
\<close>

theorem imnode_pool_safe:
  assumes "pool_reach z lim mn pages cs" and "0 < z" and "z \<le> 2 ^ 31 - 8" and "0 \<le> lim"
  shows "distinct cs \<and> node_used mn = int (length cs) \<and>
    (\<forall>i \<in> set cs. \<exists>b y. (b, y) \<in> set pages \<and> b \<le> val (vdata mn) i \<and> val (vdata mn) i + node_size mn \<le> b + y) \<and>
    (\<forall>i \<in> set cs. \<forall>j \<in> set cs. i \<noteq> j \<longrightarrow>
      val (vdata mn) i + node_size mn \<le> val (vdata mn) j \<or> val (vdata mn) j + node_size mn \<le> val (vdata mn) i) \<and>
    (\<forall>i \<in> set cs. \<exists>mn'. imnode_del mn (int i) = Inr mn') \<and>
    (node_max mn \<le> 2 ^ 28 \<and> (\<forall>k < 11. ok k) \<longrightarrow>
      (fresh_page p (page_bytes mn) pages \<and> page_fits mn \<longrightarrow>
        (\<exists>mn' i. imnode_new ok (Some p) mn = Some (Inr (mn', int i)) \<and> i \<notin> set cs)) \<and>
      (\<exists>mn' r. imnode_new ok None mn = Some (Inr (mn', r)) \<and>
        (if list_open mn < 0 then r = - 2 else 0 \<le> r \<and> nat r \<notin> set cs)))"
proof -
  have inv: "pool_inv mn pages cs"
    using reach_inv [OF assms] by simp
  then obtain os where o: "node_inv mn pages os cs"
    by (auto simp: pool_inv_def)
  have none: "\<exists>mn' r. imnode_new ok None mn = Some (Inr (mn', r)) \<and> (if list_open mn < 0 then r = - 2 else 0 \<le> r \<and> nat r \<notin> set cs)"
    if "node_max mn \<le> 2 ^ 28" "\<forall>k < 11. ok k"
  proof (cases os)
    case Nil
    then show ?thesis
      using new_without_page [of mn pages cs ok] o that open_head [OF o] by auto
  next
    case (Cons i os')
    then have "i \<notin> set cs"
      using o by (auto simp: node_inv_def pool_at_def two_lists_def)
    with Cons show ?thesis
      using new_from_open [of mn pages i os' cs ok None] o open_head [OF o] by auto
  qed
  have some: "\<exists>mn' i. imnode_new ok (Some p) mn = Some (Inr (mn', int i)) \<and> i \<notin> set cs"
    if "node_max mn \<le> 2 ^ 28" "\<forall>k < 11. ok k" "fresh_page p (page_bytes mn) pages" "page_fits mn"
    using new_inv [OF o that(1) _ that(3,4), of ok] that(2) by auto
  show ?thesis
    using pool_inv_used [OF inv] imnode.del_any [OF inv] none some by (intro conjI ballI impI) blast+
qed

theorem imnode_pool_safe_witness:
  "\<exists>mn' i. imnode_new (\<lambda>_. True) (Some 4096) ((imnode_init 16)\<lparr>grow_limit := 8\<rparr>) = Some (Inr (mn', int i))"
proof -
  let ?mn = "(imnode_init 16)\<lparr>grow_limit := 8\<rparr>"
  have "fresh_page 4096 (page_bytes ?mn) []" "page_fits ?mn" "node_max ?mn \<le> 2 ^ 28"
    by (simp_all add: fresh_page_def page_fits_def page_bytes_def page_size_def grow_count_def imnode_init_def IMROUNDUP_def IMROUNDSIZE_def)
  then show ?thesis
    using imnode_pool_safe [OF reach_init [of 16 8], where ok = "\<lambda>_. True" and p = 4096] by auto
qed

text \<open>
  The size of a page is computed in 32 bits: a fresh pool that grows by four nodes of \<open>2 ^ 30\<close>
  bytes asks \<open>malloc\<close> for a page of 8 bytes.
\<close>

theorem imnode_page_wraps:
  "let mn = (imnode_init (2 ^ 30))\<lparr>grow_limit := 4\<rparr>
   in node_size mn = 2 ^ 30 \<and> grow_count mn = 4 \<and> page_bytes mn = 8 \<and> \<not> page_fits mn"
  by (simp add: page_bytes_def page_size_def page_fits_def grow_count_def imnode_init_def IMROUNDUP_def IMROUNDSIZE_def)

text \<open>
  A growth that fails half way leaves pointers into freed memory: when the first array can be
  moved but the second cannot, \<open>imnode_new\<close> returns \<open>-2\<close>, and giving back a node that was in
  use reads through the old pointer of the first array.
\<close>

theorem imnode_failed_growth_dangles:
  assumes inv: "node_inv mn pages [] cs" and "node_max mn \<le> 2 ^ 28" and "i \<in> set cs" and "ok 0" and "\<not> ok 1"
    and full: "int (iv_block (vprev mn)) < 4 * (node_max mn + grow_count mn)" "int (iv_block (vnext mn)) < 4 * (node_max mn + grow_count mn)"
  shows "\<exists>mn'. imnode_new ok page mn = Some (Inr (mn', - 2)) \<and> imnode_del mn' (int i) = Inl UseAfterFree"
proof -
  let ?n = "node_max mn + grow_count mn" and ?N = "nat (node_max mn)"
  have pool: "pool_at mn {..<?N} [] cs" and lim: "0 \<le> grow_limit mn"
    using inv by (simp_all add: node_inv_def)
  then have ar: "arr_ok (mprev mn) (vprev mn) ?N" "arr_ok (mnext mn) (vnext mn) ?N" "0 \<le> node_max mn"
    and i: "i < ?N" and cn: "cells_set (vnext mn) {..<?N}"
    using assms(3) by (auto simp: pool_at_def arrays_ok_def)
  have c: "1 \<le> grow_count mn" "grow_count mn \<le> max 8 (node_max mn)"
    using grow_count_bounds [OF ar(3) lim] by auto
  then have n4: "nat (?n * 4 mod 2 ^ 32) = 4 * nat ?n" "4 * nat ?n \<le> 2 ^ 31" "0 < 4 * nat ?n"
    using ar(3) assms(2) by (auto simp: max_def split: if_splits)
  obtain b where b: "nblock_loop 31 4 (4 * nat ?n) = Some (2 ^ b)" "4 * nat ?n \<le> 2 ^ b"
    using iv_blocks [OF n4(2)] by blast
  have big: "\<not> 4 * nat ?n \<le> iv_block (vprev mn)" "\<not> 4 * nat ?n \<le> iv_block (vnext mn)"
    using full by auto
  then have ne: "2 ^ b \<noteq> iv_block (vprev mn)" "2 ^ b \<noteq> iv_block (vnext mn)"
    using b(2) by auto
  obtain v where v: "iv_resize 4 True (vprev mn) (4 * nat ?n) = Some (v, 0)" "iv_addr v = Suc (iv_addr (vprev mn))"
    using big(1) ne(1) b(1) n4(3) by (simp add: iv_resize_def Let_def)
  have w: "iv_resize 4 False (vnext mn) (4 * nat ?n) = Some (vnext mn, - 1)"
    using big(2) ne(2) b(1) n4(3) by (simp add: iv_resize_def)
  let ?mn = "mn\<lparr>vprev := v\<rparr>"
  have "imnode_node_resize ok mn ?n = Some (?mn, - 2)"
    using assms(4,5) v(1) w unfolding imnode_node_resize_def Let_def n4(1) by (simp add: resize_field_def)
  then have "imnode_new ok page mn = Some (Inr (?mn, - 2))"
    using open_head [OF inv] unfolding imnode_new_def imnode_grow_def Let_def grow_count_def [unfolded Let_def, symmetric] by simp
  moreover have "IMNODE_NEXT ?mn (int i) = Inr (val (vnext mn) i)"
    using arr_get_ok [OF ar(2) i cn] i by (simp add: IMNODE_NEXT_def)
  moreover have "IMNODE_PREV ?mn (int i) = Inl UseAfterFree"
    using ar(1) i v(2) by (auto simp: IMNODE_PREV_def arr_get_def arr_at_def arr_ok_def)
  ultimately show ?thesis
    by (simp add: imnode_del_def)
qed

definition demo_arr :: "int \<Rightarrow> int IVECTOR" where
  "demo_arr x = \<lparr>iv_data = [Some x], iv_size = 4, iv_block = 4, iv_addr = 1\<rparr>"

definition demo_pool :: IMEMNODE where
  "demo_pool = \<lparr>vprev = demo_arr (- 1), vnext = demo_arr (- 1), vnode = demo_arr 0, vdata = demo_arr 4096, vmode = demo_arr 1,
     vmem = \<lparr>iv_data = Some 4096 # replicate 7 None, iv_size = 32, iv_block = 32, iv_addr = 1\<rparr>,
     mprev = Some 1, mnext = Some 1, mnode = Some 1, mdata = Some 1, mmode = Some 1, mmem = Some 1,
     node_free = 0, node_used = 1, node_max = 1, grow_limit = 1, node_size = 16, node_shift = 4,
     mem_max = 8, mem_count = 1, list_open = - 1, list_close = 0, total_mem = 24\<rparr>"

lemma demo_pool_inv: "node_inv demo_pool [(4096, 24)] [] [0]"
proof -
  have "iv_ok 4 (demo_arr x)" for x
    by (simp add: iv_ok_def demo_arr_def bexI [of _ 2])
  moreover have "iv_ok 4 (vmem demo_pool)"
    by (simp add: iv_ok_def demo_pool_def bexI [of _ 5])
  ultimately show ?thesis
    by (simp add: node_inv_def pool_at_def arrays_ok_def arr_ok_def mem_ok_def slots_def cells_set_def two_lists_def demo_pool_def)
       (simp add: demo_arr_def val_def lessThan_Suc)
qed

theorem imnode_failed_growth_dangles_witness:
  "\<exists>mn'. imnode_new (\<lambda>k. k = 0) None demo_pool = Some (Inr (mn', - 2)) \<and> imnode_del mn' (int 0) = Inl UseAfterFree"
  by (rule imnode_failed_growth_dangles [OF demo_pool_inv]) (simp_all add: demo_pool_def demo_arr_def grow_count_def)

end
