(* ===== verification/Imem_Slab.thy ===== *)
theory Imem_Slab
  imports Prelude
begin

text \<open>
  \<open>IMEMSLAB\<close> of \<open>common/xmalloc/imembase.c\<close>: a block of memory cut into objects of one size.
  The free objects are a linked list with head \<open>bufctl\<close>; the link is the first word of the
  object itself (\<open>IMEM_NEXT_PTR\<close>), so a client that holds an object may overwrite it. Memory is
  a map from addresses to the word that can be read there: storing a word of four bytes makes
  the words that overlap it indeterminate. Addresses have 32 bits and 0 is the null pointer. A
  link stored behind the end of the block is a fault.
\<close>

section \<open>The operations\<close>

type_synonym word_mem = "int \<Rightarrow> int option"

definition store_word :: "word_mem \<Rightarrow> int \<Rightarrow> int \<Rightarrow> word_mem" where
  "store_word h a x = (\<lambda>b. if b = a then Some x else if a - 4 < b \<and> b < a + 4 then None else h b)"

text \<open>\<open>IMEM_NEXT_PTR(p) = x\<close> in a block that ends at \<open>lim\<close>.\<close>

definition set_link :: "int \<Rightarrow> word_mem \<Rightarrow> int \<Rightarrow> int \<Rightarrow> word_mem res" where
  "set_link lim h p x = (if p + 4 \<le> lim then Inr (store_word h p x) else Inl OutOfBounds)"

record imemslab_t =
  membase :: int
  memsize :: int
  coloroff :: int
  inuse :: int
  bufctl :: int

text \<open>The loop of \<open>imslab_init\<close>: state are memory, \<open>bufctl\<close>, \<open>tail\<close> and the count.\<close>

fun slab_loop ::
    "nat \<Rightarrow> int \<Rightarrow> int \<Rightarrow> int \<Rightarrow> int \<Rightarrow> word_mem \<times> int \<times> int \<times> int \<Rightarrow> (word_mem \<times> int \<times> int \<times> int) res option" where
  "slab_loop 0 lim start endup obj_size st = None"
| "slab_loop (Suc fuel) lim start endup obj_size (h, ctl, tail, n) =
     (if start \<le> endup then
        (case bindR (set_link lim h start 0) (\<lambda>h.
                if tail = 0 then Inr (h, start) else bindR (set_link lim h tail start) (\<lambda>h. Inr (h, ctl))) of
           Inl e \<Rightarrow> Some (Inl e)
         | Inr (h, ctl) \<Rightarrow> slab_loop fuel lim ((start + obj_size) mod 2 ^ 32) endup obj_size (h, ctl, start, n + 1))
      else Some (Inr (h, ctl, tail, n)))"

definition imslab_init :: "word_mem \<Rightarrow> int \<Rightarrow> int \<Rightarrow> int \<Rightarrow> int \<Rightarrow> (word_mem \<times> imemslab_t \<times> int) res option" where
  "imslab_init h base bytes obj_size color =
     (let start = (base + color) mod 2 ^ 32;
          endup = (base + bytes - obj_size) mod 2 ^ 32
      in map_option (\<lambda>r. bindR r (\<lambda>(h, ctl, tail, n).
             Inr (h, \<lparr>membase = base, memsize = bytes, coloroff = color, inuse = 0, bufctl = ctl\<rparr>, n)))
           (slab_loop (nat bytes + 2) (base + bytes) start endup obj_size (h, 0, 0, 0)))"

definition imslab_alloc :: "word_mem \<Rightarrow> imemslab_t \<Rightarrow> (imemslab_t \<times> int) res" where
  "imslab_alloc h slab =
     (if bufctl slab = 0 then Inr (slab, 0)
      else case h (bufctl slab) of
             None \<Rightarrow> Inl UseUninit
           | Some nxt \<Rightarrow> Inr (slab\<lparr>bufctl := nxt, inuse := inuse slab + 1\<rparr>, bufctl slab))"

definition imslab_free :: "word_mem \<Rightarrow> imemslab_t \<Rightarrow> int \<Rightarrow> (word_mem \<times> imemslab_t) res" where
  "imslab_free h slab p =
     (let start = (membase slab + coloroff slab) mod 2 ^ 32;
          endup = (membase slab + memsize slab) mod 2 ^ 32
      in bindR (if p \<ge> start \<and> p < endup
                then bindR (set_link (membase slab + memsize slab) h p (bufctl slab)) (\<lambda>h. Inr (h, slab\<lparr>bufctl := p\<rparr>))
                else Inr (h, slab)) (\<lambda>(h, slab).
         Inr (h, slab\<lparr>inuse := inuse slab - 1\<rparr>)))"

section \<open>The list of free objects\<close>

fun free_list :: "word_mem \<Rightarrow> int list \<Rightarrow> int \<Rightarrow> bool" where
  "free_list h [] p \<longleftrightarrow> p = 0"
| "free_list h (a # xs) p \<longleftrightarrow> p = a \<and> a \<noteq> 0 \<and> (\<exists>q. h a = Some q \<and> free_list h xs q)"

definition object_at :: "imemslab_t \<Rightarrow> int \<Rightarrow> nat \<Rightarrow> int" where
  "object_at slab z k = membase slab + coloroff slab + int k * z"

definition objects :: "imemslab_t \<Rightarrow> int \<Rightarrow> int set" where
  "objects slab z = {object_at slab z k | k. object_at slab z k + z \<le> membase slab + memsize slab}"

definition slab_inv :: "int \<Rightarrow> word_mem \<Rightarrow> imemslab_t \<Rightarrow> int list \<Rightarrow> int list \<Rightarrow> bool" where
  "slab_inv z h slab fs us \<longleftrightarrow> 4 \<le> z \<and> 0 < membase slab \<and> 0 \<le> coloroff slab \<and> membase slab + memsize slab < 2 ^ 32 \<and>
     free_list h fs (bufctl slab) \<and> distinct (fs @ us) \<and> set fs \<union> set us = objects slab z \<and> inuse slab = int (length us)"

lemma store_word_other: "b + 4 \<le> a \<or> a + 4 \<le> b \<Longrightarrow> store_word h a x b = h b"
  by (auto simp: store_word_def)

lemma store_word_same [simp]: "store_word h a x a = Some x"
  by (simp add: store_word_def)

lemma free_list_cong: "\<forall>a \<in> set xs. h' a = h a \<Longrightarrow> free_list h' xs p = free_list h xs p"
  by (induction xs arbitrary: p) auto

lemma free_list_frame: "\<forall>b \<in> set xs. b + 4 \<le> a \<or> a + 4 \<le> b \<Longrightarrow> free_list (store_word h a x) xs p = free_list h xs p"
  by (rule free_list_cong) (simp add: store_word_other)

lemma free_list_snoc:
  assumes "free_list h (xs @ [t]) p" and "h t = Some 0" and "a \<noteq> 0" and "\<forall>b \<in> set (xs @ [t]). b + 4 \<le> a" and "\<forall>b \<in> set xs. b + 4 \<le> t"
  shows "free_list (store_word (store_word h a 0) t a) (xs @ [t, a]) p"
  using assms
proof (induction xs arbitrary: p)
  case Nil
  then show ?case
    by (auto simp: store_word_other)
next
  case (Cons b xs)
  then obtain q where "h b = Some q" "free_list h (xs @ [t]) q" "b \<noteq> 0" "p = b"
    by auto
  then show ?case
    using Cons by (auto simp: store_word_other)
qed

lemma free_list_last: "free_list h (xs @ [t]) p \<Longrightarrow> t \<noteq> 0"
  by (induction xs arbitrary: p) auto

text \<open>
  The loop appends the objects that fit, one behind the other: \<open>m\<close> of them from \<open>start\<close> to
  the last address \<open>e\<close> at which one may begin.
\<close>

lemma slab_loop_fills:
  assumes "4 \<le> z" and "e + z = lim" and "lim < 2 ^ 32"
    and "start + int m * z > e" and "m = 0 \<or> start + (int m - 1) * z \<le> e" and "m < fuel" and "0 < start"
    and "tail = (if xs = [] then 0 else last xs)" and "free_list h xs ctl" and "xs \<noteq> [] \<Longrightarrow> h (last xs) = Some 0"
    and "\<forall>a \<in> set xs. a + z \<le> start" and "sorted_wrt (\<lambda>a b. a + z \<le> b) xs" and "xs = [] \<Longrightarrow> ctl = 0"
  shows "\<exists>h' ctl' tail'. slab_loop fuel lim start e z (h, ctl, tail, n) = Some (Inr (h', ctl', tail', n + int m)) \<and>
    free_list h' (xs @ map (\<lambda>k. start + int k * z) [0..<m]) ctl'"
  using assms(4-)
proof (induction m arbitrary: fuel start tail xs h ctl n)
  case 0
  then show ?case
    by (cases fuel) auto
next
  case (Suc m)
  obtain f where f: "fuel = Suc f"
    using Suc.prems(3) by (cases fuel) auto
  have "0 \<le> int m * z"
    using assms(1) by simp
  then have le: "start \<le> e"
    using Suc.prems(2) by simp
  then have w: "(start + z) mod 2 ^ 32 = start + z"
    using assms(1-3) Suc.prems(4) by simp
  define h1 where "h1 = (if tail = 0 then store_word h start 0 else store_word (store_word h start 0) tail start)"
  define ctl1 where "ctl1 = (if tail = 0 then start else ctl)"
  have tl: "tail + 4 \<le> lim" if "tail \<noteq> 0"
  proof -
    have "last xs + z \<le> start" "tail = last xs"
      using that Suc.prems(5,8) by (auto split: if_splits)
    then show ?thesis
      using le assms(1,2) by simp
  qed
  have step: "slab_loop fuel lim start e z (h, ctl, tail, n) = slab_loop f lim (start + z) e z (h1, ctl1, start, n + 1)"
    using le f w tl assms(1,2) by (simp add: h1_def ctl1_def set_link_def)
  have fl: "free_list h1 (xs @ [start]) ctl1" and st: "h1 start = Some 0"
  proof (atomize (full), cases xs rule: rev_exhaust)
    case Nil
    then show "free_list h1 (xs @ [start]) ctl1 \<and> h1 start = Some 0"
      using Suc.prems(4,5) by (simp add: h1_def ctl1_def)
  next
    case (snoc ys t)
    then have "t \<noteq> 0" "tail = t" "h t = Some 0" "t + 4 \<le> start"
      using Suc.prems(5-8) free_list_last [of h ys t ctl] assms(1) by auto
    moreover have "\<forall>b \<in> set ys. b + 4 \<le> t" "\<forall>b \<in> set xs. b + 4 \<le> start"
      using snoc Suc.prems(8,9) assms(1) by (force simp: sorted_wrt_append)+
    ultimately show "free_list h1 (xs @ [start]) ctl1 \<and> h1 start = Some 0"
      using free_list_snoc [of h ys t ctl start] Suc.prems(4,6) snoc by (simp add: h1_def ctl1_def store_word_other)
  qed
  have "\<exists>h' ctl' tail'. slab_loop f lim (start + z) e z (h1, ctl1, start, n + 1) = Some (Inr (h', ctl', tail', n + 1 + int m)) \<and>
      free_list h' ((xs @ [start]) @ map (\<lambda>k. start + z + int k * z) [0..<m]) ctl'"
  proof (rule Suc.IH)
    show "m = 0 \<or> start + z + (int m - 1) * z \<le> e"
      using Suc.prems(2) by (simp add: algebra_simps)
    show "\<forall>a \<in> set (xs @ [start]). a + z \<le> start + z"
      using Suc.prems(8) assms(1) by force
    show "sorted_wrt (\<lambda>a b. a + z \<le> b) (xs @ [start])"
      using Suc.prems(8,9) by (simp add: sorted_wrt_append)
  qed (use Suc.prems f fl st assms(1) in \<open>simp_all add: algebra_simps\<close>)
  moreover have "map (\<lambda>k. start + int k * z) [0..<Suc m] = start # map (\<lambda>k. start + z + int k * z) [0..<m]"
    unfolding upt_conv_Cons [OF zero_less_Suc] map_Suc_upt [symmetric] by (simp add: algebra_simps)
  ultimately show ?case
    using step by (simp del: upt_Suc) (simp add: add.assoc)
qed

definition slab_capacity :: "int \<Rightarrow> int \<Rightarrow> int \<Rightarrow> nat" where
  "slab_capacity bytes color z = (if color \<le> bytes then nat ((bytes - color) div z) else 0)"

lemma capacity_iff:
  assumes "0 < z" and "0 \<le> color"
  shows "k < slab_capacity bytes color z \<longleftrightarrow> color + int k * z + z \<le> bytes"
proof -
  have "int k < (bytes - color) div z \<longleftrightarrow> (int k + 1) * z \<le> bytes - color"
  proof
    assume "int k < (bytes - color) div z"
    then have "(int k + 1) * z \<le> (bytes - color) div z * z"
      using assms(1) by (intro mult_right_mono) simp_all
    also have "\<dots> \<le> bytes - color"
      using assms(1) by (simp add: minus_mod_eq_div_mult [symmetric])
    finally show "(int k + 1) * z \<le> bytes - color" .
  next
    assume "(int k + 1) * z \<le> bytes - color"
    then have "(int k + 1) * z div z \<le> (bytes - color) div z"
      using assms(1) by (intro zdiv_mono1)
    then show "int k < (bytes - color) div z"
      using assms(1) by simp
  qed
  moreover have "color \<le> bytes" if "color + int k * z + z \<le> bytes"
  proof -
    have "0 \<le> int k * z"
      using assms(1) by simp
    with that assms(1) show ?thesis by linarith
  qed
  ultimately show ?thesis
    using assms(1) by (auto simp: slab_capacity_def algebra_simps)
qed

lemma objects_capacity:
  assumes "0 < z" and "0 \<le> coloroff slab"
  shows "objects slab z = set (map (object_at slab z) [0..<slab_capacity (memsize slab) (coloroff slab) z])"
  using capacity_iff [OF assms, of _ "memsize slab"] by (auto simp: objects_def object_at_def algebra_simps)

lemma object_at_inj: "0 < z \<Longrightarrow> object_at slab z i = object_at slab z j \<longleftrightarrow> i = j"
  by (simp add: object_at_def)

lemma imslab_init_ok:
  assumes "4 \<le> z" and "z \<le> base + bytes" and "0 < base" and "0 \<le> color" and "color \<le> bytes" and "base + bytes < 2 ^ 32"
  defines "m \<equiv> slab_capacity bytes color z"
  shows "\<exists>h' slab. imslab_init h base bytes z color = Some (Inr (h', slab, int m)) \<and>
    slab_inv z h' slab (map (object_at slab z) [0..<m]) [] \<and>
    membase slab = base \<and> memsize slab = bytes \<and> coloroff slab = color"
proof -
  have z: "0 < z"
    using assms(1) by simp
  have m: "\<not> color + int m * z + z \<le> bytes" "m \<noteq> 0 \<Longrightarrow> color + int m * z \<le> bytes"
    using capacity_iff [OF z assms(4), of m bytes] capacity_iff [OF z assms(4), of "m - 1" bytes]
    by (auto simp: m_def [symmetric] algebra_simps of_nat_diff)
  have "m \<le> nat bytes"
  proof (cases "m = 0")
    case False
    have "int m * 1 \<le> int m * z"
      using z by (intro mult_left_mono) simp_all
    then show ?thesis
      using m(2) [OF False] assms(4) by simp
  qed simp
  moreover have "(base + color) mod 2 ^ 32 = base + color" "(base + bytes - z) mod 2 ^ 32 = base + bytes - z"
    using assms(1-6) by simp_all
  moreover have "\<exists>h' ctl' tail'. slab_loop (nat bytes + 2) (base + bytes) (base + color) (base + bytes - z) z (h, 0, 0, 0) =
        Some (Inr (h', ctl', tail', 0 + int m)) \<and>
      free_list h' ([] @ map (\<lambda>k. base + color + int k * z) [0..<m]) ctl'"
  proof (rule slab_loop_fills)
    show "m = 0 \<or> base + color + (int m - 1) * z \<le> base + bytes - z"
      using m(2) by (cases "m = 0") (simp_all add: algebra_simps)
    show "base + bytes - z < base + color + int m * z"
      using m(1) by simp
  qed (use calculation assms(1,3,4,6) in simp_all)
  ultimately obtain h' ctl tail where r: "imslab_init h base bytes z color =
        Some (Inr (h', \<lparr>membase = base, memsize = bytes, coloroff = color, inuse = 0, bufctl = ctl\<rparr>, int m))"
      "free_list h' (map (\<lambda>k. base + color + int k * z) [0..<m]) ctl"
    unfolding imslab_init_def Let_def by fastforce
  let ?s = "\<lparr>membase = base, memsize = bytes, coloroff = color, inuse = 0, bufctl = ctl\<rparr>"
  have "object_at ?s z = (\<lambda>k. base + color + int k * z)"
    by (simp add: fun_eq_iff object_at_def)
  then have "free_list h' (map (object_at ?s z) [0..<m]) ctl"
    using r(2) by simp
  then have "slab_inv z h' ?s (map (object_at ?s z) [0..<m]) []"
    using assms(1-6) z objects_capacity [of z ?s, folded m_def]
    unfolding slab_inv_def m_def by (simp add: distinct_map inj_on_def object_at_inj)
  then show ?thesis
    using r(1) by simp
qed

lemma objects_apart:
  assumes "p \<in> objects slab z" and "q \<in> objects slab z" and "p \<noteq> q" and "0 < z"
  shows "p + z \<le> q \<or> q + z \<le> p"
proof -
  obtain i j where p: "p = object_at slab z i" and q: "q = object_at slab z j"
    using assms(1,2) by (auto simp: objects_def)
  have step: "object_at slab z k + z \<le> object_at slab z l" if "k < l" for k l
  proof -
    have "(int k + 1) * z \<le> int l * z"
      using that assms(4) by (intro mult_right_mono) simp_all
    then show ?thesis by (simp add: object_at_def algebra_simps)
  qed
  from assms(3) p q have "i < j \<or> j < i"
    by (metis linorder_neqE_nat)
  then show ?thesis
    using step p q by auto
qed

lemma slab_alloc_ok:
  assumes "slab_inv z h slab fs us"
  shows "case fs of [] \<Rightarrow> imslab_alloc h slab = Inr (slab, 0)
    | p # fs' \<Rightarrow> \<exists>slab'. imslab_alloc h slab = Inr (slab', p) \<and> p \<noteq> 0 \<and> slab_inv z h slab' fs' (p # us) \<and> objects slab' z = objects slab z"
proof (cases fs)
  case Nil
  then show ?thesis
    using assms by (simp add: slab_inv_def imslab_alloc_def)
next
  case (Cons p fs')
  then obtain q where q: "bufctl slab = p" "p \<noteq> 0" "h p = Some q" "free_list h fs' q"
    using assms by (auto simp: slab_inv_def)
  have "objects (slab\<lparr>bufctl := q, inuse := inuse slab + 1\<rparr>) z = objects slab z"
    by (simp add: objects_def object_at_def)
  then show ?thesis
    using assms q Cons by (auto simp: imslab_alloc_def slab_inv_def)
qed

lemma slab_free_ok:
  assumes "slab_inv z h slab fs us" and "p \<in> set us"
  shows "\<exists>h' slab'. imslab_free h slab p = Inr (h', slab') \<and> slab_inv z h' slab' (p # fs) (remove1 p us) \<and> objects slab' z = objects slab z \<and>
    membase slab' = membase slab \<and> memsize slab' = memsize slab \<and> coloroff slab' = coloroff slab"
proof -
  have p: "p \<in> objects slab z" "p \<notin> set fs" "4 \<le> z" "0 < membase slab" "0 \<le> coloroff slab" "membase slab + memsize slab < 2 ^ 32"
    using assms by (auto simp: slab_inv_def)
  then have r: "membase slab + coloroff slab \<le> p" "p + z \<le> membase slab + memsize slab"
    by (auto simp: objects_def object_at_def)
  let ?h = "store_word h p (bufctl slab)" and ?s = "slab\<lparr>bufctl := p, inuse := inuse slab - 1\<rparr>"
  have "(membase slab + coloroff slab) mod 2 ^ 32 = membase slab + coloroff slab" "(membase slab + memsize slab) mod 2 ^ 32 = membase slab + memsize slab"
    using p r by simp_all
  then have e: "imslab_free h slab p = Inr (?h, ?s)"
    using p(3) r by (simp add: imslab_free_def set_link_def)
  have o: "objects ?s z = objects slab z"
    by (simp add: objects_def object_at_def)
  have "b + 4 \<le> p \<or> p + 4 \<le> b" if "b \<in> set fs" for b
  proof -
    have "b \<in> objects slab z" "b \<noteq> p"
      using that assms(1) p(2) by (auto simp: slab_inv_def)
    then show ?thesis
      using objects_apart [of b slab z p] p(1,3) by auto
  qed
  then have "free_list ?h fs (bufctl slab)"
    using assms(1) by (simp add: free_list_frame slab_inv_def)
  moreover have "set (remove1 p us) = set us - {p}" "length (remove1 p us) = length us - 1" "0 < length us"
    using assms by (auto simp: slab_inv_def length_remove1)
  ultimately have "slab_inv z ?h ?s (p # fs) (remove1 p us)"
    using assms p r o unfolding slab_inv_def by (auto simp: Suc_leI of_nat_diff)
  then show ?thesis
    using e o by simp
qed

section \<open>Reachable slabs\<close>

text \<open>
  A slab in use: objects are taken and given back in any order, and clients write anything that
  leaves the first words of the free objects as they are, anywhere in the objects they hold and
  outside the block in particular.
\<close>

inductive slab_reach :: "int \<Rightarrow> int \<Rightarrow> int \<Rightarrow> int \<Rightarrow> word_mem \<Rightarrow> imemslab_t \<Rightarrow> int list \<Rightarrow> bool" for z base bytes color where
  slab_new: "slab_reach z base bytes color h slab []"
    if "imslab_init h0 base bytes z color = Some (Inr (h, slab, n))"
| slab_take: "slab_reach z base bytes color h slab' (if p = 0 then us else p # us)"
    if "slab_reach z base bytes color h slab us" and "imslab_alloc h slab = Inr (slab', p)"
| slab_give: "slab_reach z base bytes color h' slab' (remove1 p us)"
    if "slab_reach z base bytes color h slab us" and "p \<in> set us" and "imslab_free h slab p = Inr (h', slab')"
| slab_write: "slab_reach z base bytes color h' slab us"
    if "slab_reach z base bytes color h slab us" and "\<forall>q \<in> objects slab z. q \<notin> set us \<longrightarrow> h' q = h q"

lemma slab_reach_inv:
  assumes "slab_reach z base bytes color h slab us" and "4 \<le> z" and "z \<le> base + bytes" and "0 < base" and "0 \<le> color"
    and "color \<le> bytes" and "base + bytes < 2 ^ 32"
  shows "(\<exists>fs. slab_inv z h slab fs us) \<and> membase slab = base \<and> memsize slab = bytes \<and> coloroff slab = color"
  using assms(1)
proof induction
  case (slab_new h0 h slab n)
  then show ?case
    using imslab_init_ok [OF assms(2-7), of h0] by auto
next
  case (slab_take h slab us slab' p)
  then obtain fs where inv: "slab_inv z h slab fs us"
    by blast
  show ?case
    using slab_alloc_ok [OF inv] slab_take by (cases fs) (auto simp: imslab_alloc_def split: if_splits option.splits)
next
  case (slab_give h slab us p h' slab')
  then obtain fs where inv: "slab_inv z h slab fs us"
    by blast
  show ?case
    using slab_free_ok [OF inv slab_give.hyps(2)] slab_give by auto
next
  case (slab_write h slab us h')
  then obtain fs where inv: "slab_inv z h slab fs us"
    by blast
  then have "\<forall>q \<in> set fs. h' q = h q"
    using slab_write.hyps(2) by (auto simp: slab_inv_def)
  then have "slab_inv z h' slab fs us"
    using inv free_list_cong [of fs h' h "bufctl slab"] by (simp add: slab_inv_def)
  then show ?case
    using slab_write by blast
qed

text \<open>
  C37. Objects of a slab, for an object size of at least a pointer, as the source asserts, and a block
  inside the address space. Whatever the order of allocations, releases and writes of the
  clients, the objects in use are distinct, lie between the colour offset and the end of the block
  and do not overlap, and each can be given back. An allocation succeeds exactly while fewer than
  \<open>(memsize - coloroff) div obj_size\<close> objects are in use, and it never reads memory that a
  client has overwritten.
\<close>

theorem imslab_objects:
  assumes "slab_reach z base bytes color h slab us" and "4 \<le> z" and "z \<le> base + bytes" and "0 < base" and "0 \<le> color"
    and "color \<le> bytes" and "base + bytes < 2 ^ 32"
  shows "distinct us \<and> inuse slab = int (length us) \<and>
    (\<forall>p \<in> set us. base + color \<le> p \<and> p + z \<le> base + bytes) \<and>
    (\<forall>p \<in> set us. \<forall>q \<in> set us. p \<noteq> q \<longrightarrow> p + z \<le> q \<or> q + z \<le> p) \<and>
    (\<forall>p \<in> set us. \<exists>h' slab'. imslab_free h slab p = Inr (h', slab')) \<and>
    length us \<le> slab_capacity bytes color z \<and>
    (length us < slab_capacity bytes color z \<longrightarrow>
      (\<exists>slab' p. imslab_alloc h slab = Inr (slab', p) \<and> p \<noteq> 0 \<and> p \<notin> set us)) \<and>
    (length us = slab_capacity bytes color z \<longrightarrow> imslab_alloc h slab = Inr (slab, 0))"
proof -
  have z: "0 < z"
    using assms(2) by simp
  obtain fs where inv: "slab_inv z h slab fs us" and e: "membase slab = base" "memsize slab = bytes" "coloroff slab = color"
    using slab_reach_inv [OF assms] by blast
  then have us: "distinct us" "inuse slab = int (length us)" "set us \<subseteq> objects slab z" "distinct (fs @ us)" "set (fs @ us) = objects slab z"
    by (auto simp: slab_inv_def)
  have "length (fs @ us) = card (objects slab z)"
    using us(4,5) distinct_card by metis
  also have "\<dots> = slab_capacity bytes color z"
    using objects_capacity [of z slab] z assms(5) e card_image [of "object_at slab z" "{0..<slab_capacity bytes color z}"]
    by (auto simp: inj_on_def object_at_inj)
  finally have n: "length fs + length us = slab_capacity bytes color z"
    by simp
  have "base + color \<le> p \<and> p + z \<le> base + bytes" if "p \<in> set us" for p
    using us(3) that z e by (auto simp: objects_def object_at_def)
  moreover have "p + z \<le> q \<or> q + z \<le> p" if "p \<in> set us" "q \<in> set us" "p \<noteq> q" for p q
    using objects_apart [of p slab z q] us(3) that z by auto
  moreover have "\<exists>h' slab'. imslab_free h slab p = Inr (h', slab')" if "p \<in> set us" for p
    using slab_free_ok [OF inv that] by blast
  moreover have "case fs of [] \<Rightarrow> imslab_alloc h slab = Inr (slab, 0) | p # fs' \<Rightarrow> \<exists>slab'. imslab_alloc h slab = Inr (slab', p) \<and> p \<noteq> 0 \<and> p \<notin> set us"
    using slab_alloc_ok [OF inv] us(4) by (cases fs) auto
  ultimately show ?thesis
    using us(1,2) n by (cases fs) auto
qed

theorem imslab_objects_witness:
  "\<exists>h slab n. imslab_init (\<lambda>_. None) 4096 64 24 8 = Some (Inr (h, slab, n)) \<and>
     (\<exists>slab' p. imslab_alloc h slab = Inr (slab', p) \<and> p \<noteq> 0)"
proof -
  obtain h slab where i: "imslab_init (\<lambda>_. None) 4096 64 24 8 = Some (Inr (h, slab, int (slab_capacity 64 8 24)))"
    using imslab_init_ok [of 24 4096 64 8 "\<lambda>_. None"] by auto
  then show ?thesis
    using imslab_objects [OF slab_new [OF i]] by (auto simp: slab_capacity_def)
qed

end
