(* ===== verification/Spec2Isabelle.thy ===== *)
theory Spec2Isabelle
  imports Rpc_Threadpool Rpc_Request Linked_List Day_Hours Hashmap Rollbuf_Pool Base64 Adler32 Client_Server Rsa Des Encrypt Urlcode Vector Db_Provider Imem_Node Imem_Slab
begin

text \<open>
  A verification development for livezure, a video surveillance system in C for Windows: a
  service keeps accounts, sessions and recording devices, clients talk to it over an RPC
  protocol of their own. The configuration modelled is \<open>Release|Win32\<close> of
  \<open>build/msvc\<close>: \<open>NDEBUG\<close> is defined, so assertions do nothing, \<open>int\<close>, \<open>long\<close>
  and pointers have 32 bits, and \<open>bool\<close> is \<open>int\<close>.

  \<^bold>\<open>The program.\<close> A packet (\<open>rpcprovider/rpc_shell.h\<close>) has a header of 20
  bytes and a body of length-prefixed key/value entries (\<open>rpc_buffer.c\<close>, \<open>rpc_keypair.c\<close>,
  \<open>rpc_parser.c\<close>), encrypted if the header says so (\<open>rpc_crypt.c\<close>, \<open>utils/tea.c\<close>, \<open>utils/aes.c\<close>).
  Received bytes go through the ring of a connection (\<open>rpc_ringbuffer.c\<close>), \<open>rpc_io.c\<close>
  cuts them into tasks for the worker pool (\<open>rpc_threadpool.c\<close>), a worker looks the
  category up in the dispatch table (\<open>rpc_dispatch.c\<close>), calls the handler and queues the
  reply (\<open>rpc_queue.c\<close>). On the service side the handlers (\<open>service/service_req_*.c\<close>)
  work on the online sessions (\<open>service_session.c\<close>), the working devices
  (\<open>service_device.c\<close>) and the account database (\<open>service/db/db_account.c\<close> over
  \<open>dbprovider/\<close>); on the client side \<open>rpc_request.c\<close> waits for the reply and
  \<open>client/media_api_*.c\<close> turns it into a status. \<open>common/\<close> and \<open>utils/\<close> hold
  timers, reference counters, containers, digests and codecs.

  \<^bold>\<open>Conventions\<close> (theory \<open>Prelude\<close>). A function that C leaves undefined on some
  input returns \<open>Inl fault\<close> there (null or dangling pointer, access out of bounds,
  uninitialised byte, lock never released); \<open>bindR\<close> composes such results. Memory is a list
  of bytes that may be uninitialised. Words keep their width where the code relies on
  it; \<open>int\<close> stands for C \<open>int\<close> where the values are sizes and counts far from
  overflow, and the wrap-around is written out where it matters. A struct is a record, an
  enumeration a datatype. Allocation succeeds, except where a theory has an argument or a size for
  its failure. Texts put together on the stack are checked against their arrays where a request can
  make them too long (\<open>device_query\<close>). A lock makes the operation under it one step.

  \<^bold>\<open>Theories and what they show.\<close>

  \<^item> \<open>Tea\<close>: \<open>utils/tea.c\<close>; decryption inverts the padded chaining mode
    (locale \<open>block_cipher\<close>).

  \<^item> \<open>Aes_Tables\<close>, \<open>Aes\<close>: \<open>utils/aes.c\<close>; its tables are the columns of the
    MixColumns matrix times the S-box, key schedule and block functions equal the cipher of
    FIPS 197 written out on bytes, CBC decryption inverts encryption (locale \<open>block16\<close>).

  \<^item> \<open>Rpc_Buffer\<close>, \<open>Rpc_Parser\<close>, \<open>Rpc_Shell\<close>: \<open>rpc_buffer.c\<close>,
    \<open>rpc_crypt.c\<close>, \<open>rpc_keypair.c\<close>, \<open>rpc_parser.c\<close>, \<open>rpc_shell.h\<close>; what was packed is
    parsed back in the clear, under TEA and under AES, which entry a lookup finds, inputs on
    which the parser never returns.

  \<^item> \<open>Rpc_Ringbuffer\<close>, \<open>Rollbuf_Pool\<close>: the two byte rings refine a FIFO
    (locale \<open>byte_fifo\<close>, interpreted on both).

  \<^item> \<open>Linked_List\<close>: \<open>utils/list.h\<close> as a heap of linked cells, refining a
    sequence (locale \<open>entry_list\<close>); the other theories use sequences for these lists.

  \<^item> \<open>Rpc_Queue\<close>, \<open>Rpc_Threadpool\<close>: \<open>rpc_queue.c\<close> as a channel (locale
    \<open>channel\<close>), \<open>rpc_threadpool.c\<close> as a step relation over interleavings of its threads;
    every worker runs exactly once and a waiting shutdown drains the queue.

  \<^item> \<open>Rpc_Dispatch\<close>, \<open>Rpc_Io\<close>, \<open>Rpc_Request\<close>: the connection layer from
    received bytes to tasks, replies and answered requests; a worker reads and rewrites the header of
    its request through a pointer into the receive ring.

  \<^item> \<open>Rpc_Engine\<close>: \<open>rpc_service.c\<close>, \<open>rpc_client.c\<close> and the socket loops. The
    callbacks of the event loop of libuv, which is a parameter, are the steps \<open>uv_step\<close>: in
    every order of events the service keeps exactly the connections that are open.

  \<^item> \<open>Pref\<close>, \<open>Service_Session\<close>, \<open>Service_Device\<close>: \<open>common/pref.c\<close>,
    \<open>service_session.c\<close>, \<open>service_device.c\<close>; invariants of the tables, reference
    counting (locale \<open>ref_count\<close>), waits that never end.

  \<^item> \<open>Block_Stream\<close>, \<open>Md5\<close>, \<open>Sha\<close>, \<open>Hashkey\<close>: the digests of \<open>utils/\<close>
    (locale \<open>byte_stream\<close>: feeding data in pieces equals feeding it at once) and the password
    hash made of them.

  \<^item> \<open>Db_Sql\<close>, \<open>Db_Account\<close>: the statements of \<open>db_account.c\<close> as constructors and
    their meaning on tables. SQLite is a parameter; what is relied on is the locale
    \<open>sqlite_engine\<close>, interpreted on the executable semantics \<open>sql_sem\<close>.

  \<^item> \<open>Db_Provider\<close>: \<open>dbprovider/\<close> and \<open>service/db/db_util.c\<close>, the life of the database, the
    handles of queries and the lock that keeps the threads apart; error texts and their bounds.

  \<^item> \<open>Service_Req\<close>, \<open>Service_Props\<close>, \<open>Service_Login\<close>, \<open>Service_Api\<close>: every
    request handler with all its replies; rights, references, login on every branch, start of
    the service.

  \<^item> \<open>Media_Api\<close>, \<open>Client_Server\<close>: the client library, and its login through
    packing, parsing, the handler and the reply; the life of the client's environment.

  \<^item> \<open>Timer\<close>, \<open>Day_Hours\<close>, \<open>Hashmap\<close> (locale \<open>multimap\<close>), \<open>Base64\<close>
    (locale \<open>codec64\<close>), \<open>Adler32\<close>: \<open>common/timer.c\<close>,
    \<open>service/record/day_hours_set.c\<close>, \<open>utils/hashmap.c\<close>, \<open>utils/baes64.c\<close> and
    \<open>urlbaes64.c\<close>, \<open>utils/alder32.c\<close>.

  \<^item> \<open>Rsa\<close>: \<open>utils/rsa.c\<close>; the Montgomery arithmetic computes the cube modulo the
    key's modulus, and a signature is accepted iff that cube is the padded digest.

  \<^item> \<open>Des\<close>: \<open>utils/d3des.c\<close>; its tables and swap networks are the cipher of FIPS 46-3 on lists of
    bits, with the key bytes read from their least significant bit, and decryption inverts it.

  \<^item> \<open>Encrypt\<close>, \<open>Urlcode\<close>, \<open>Vector\<close>: \<open>utils/encrypt.c\<close>, \<open>urlcode.c\<close> and \<open>vector.c\<close>;
    \<open>simple_crypt\<close> undoes itself, percent encoding is decoded back inside its blocks, a vector
    is a sequence of blocks.

  \<^item> \<open>Imem_Vector\<close>, \<open>Imem_Node\<close>, \<open>Imem_Slab\<close>: the layers of
    \<open>common/xmalloc/imembase.c\<close> that own memory. Vectors of bytes refine lists; node pools
    satisfy the locale \<open>index_pool\<close> (indices handed out are distinct and their blocks apart) while
    their arrays can grow, also when no page is to be had; a page whose size wraps around in 32 bits
    and a growth that fails half way are shown to break them; slabs hand out disjoint objects, a known number of them.

  \<^bold>\<open>Fuel.\<close> Loops whose end depends on received data take a fuel argument and return
  \<open>None\<close> when it runs out: \<open>parser_loop\<close>, \<open>io_enqueue_loop\<close>, \<open>rpc_rb_write\<close>, the
  sweep loops, \<open>nblock_loop\<close> (32 doublings of a 32-bit size are enough) and
  \<open>slab_loop\<close> (one step per object). One step of fuel per packet or entry and one for the end is enough, and
  the theorems about results state this bound; the theorems about divergence hold for every
  amount of fuel. All other loops are total functions.

  \<^bold>\<open>Not modelled.\<close> The window procedures of \<open>build/msvc/LivezureUI\<close> and the plugin
  sample (user interface), \<open>3rdparty\<close> (vendored), \<open>utils/tree.h\<close> (BSD
  macros nothing instantiates), \<open>utils/queue.h\<close> (BSD macros; the worker pool's use of its tail
  queue is modelled as a sequence), the page supplier, object caches and size classes of
  \<open>common/xmalloc\<close> above its slabs, the MySQL and Oracle providers (not built),
  \<open>common/httpc.c\<close> and \<open>https.c\<close> (written against buffer functions that no longer exist),
  directories, character sets, identifiers and dynamic loading (calls to the system),
  \<open>service_push.c\<close>, \<open>service_callback.c\<close> and \<open>client/media_event_cb.c\<close> (bodies commented out
  or compiled for debugging only).
\<close>

end
